(* ===== verification/Prelude.thy ===== *)
theory Prelude
  imports Complex_Main "HOL-Library.AList"
begin

text \<open>
  Shared vocabulary of the development: Python values and dictionaries, texts of decimal
  numerals, effectful computations with errors as values, and the loops the Lua scripts and
  the Python code are built from. Nothing in this theory is about checkout itself.
\<close>

named_theorems eff_simps \<open>unfolding of effectful computations\<close>
named_theorems text_simps \<open>round trips between integers and texts\<close>

section \<open>Python values\<close>

text \<open>
  A Python object as far as the program looks at it. Lists and tuples are both \<open>PList\<close>: the
  program only iterates over them and serialises them, where they behave alike. A \<open>str\<close> is
  either plain characters (\<open>Text\<close>) or the text \<open>json.dumps\<close> wrote for a value (\<open>Json\<close>), which
  \<open>json.loads\<close> reads back. Floats are rationals.
\<close>

datatype pyval =
    PNone
  | PBool bool
  | PInt int
  | PFloat rat
  | PStr rtext
  | PList "pyval list"
  | PDict "(string \<times> pyval) list"
and rtext = Text string | Json pyval

type_synonym dict = "(string \<times> pyval) list"

abbreviation Str :: "string \<Rightarrow> pyval" where
  "Str s \<equiv> PStr (Text s)"

fun truthy :: "pyval \<Rightarrow> bool" where
  "truthy PNone = False"
| "truthy (PBool b) = b"
| "truthy (PInt n) = (n \<noteq> 0)"
| "truthy (PFloat r) = (r \<noteq> 0)"
| "truthy (PStr (Text s)) = (s \<noteq> [])"
| "truthy (PStr (Json v)) = True"
| "truthy (PList vs) = (vs \<noteq> [])"
| "truthy (PDict d) = (d \<noteq> [])"

subsection \<open>Dictionaries\<close>

text \<open>
  A dictionary keeps insertion order; \<open>AList.update\<close> overwrites in place or appends, as
  \<open>d[k] = v\<close> does. \<open>dict_merge a b\<close> is \<open>{**a, **b}\<close>, and also \<open>a.update(b)\<close>.
\<close>

definition dict_get :: "('k \<times> 'v) list \<Rightarrow> 'k \<Rightarrow> 'v \<Rightarrow> 'v" where
  "dict_get d k dflt = (case map_of d k of None \<Rightarrow> dflt | Some v \<Rightarrow> v)"

definition dict_merge :: "('k \<times> 'v) list \<Rightarrow> ('k \<times> 'v) list \<Rightarrow> ('k \<times> 'v) list" where
  "dict_merge a b = fold (\<lambda>(k, v). AList.update k v) b a"

lemma map_of_update [simp]:
  "map_of (AList.update k v d) k' = (if k' = k then Some v else map_of d k')"
  by (simp add: update_conv')

lemma dict_merge_Nil [simp]: "dict_merge a [] = a"
  by (simp add: dict_merge_def)

lemma dict_merge_Cons [simp]: "dict_merge a ((k, v) # b) = dict_merge (AList.update k v a) b"
  by (simp add: dict_merge_def)

lemma dict_merge_append: "dict_merge a (b @ c) = dict_merge (dict_merge a b) c"
  by (simp add: dict_merge_def)

lemma map_of_dict_merge:
  "map_of (dict_merge a b) k = (case map_of (rev b) k of None \<Rightarrow> map_of a k | Some v \<Rightarrow> Some v)"
proof (induction b arbitrary: a)
  case (Cons p b)
  then show ?case
    by (cases p) (auto simp: map_of_append map_add_def split: option.splits)
qed simp

lemma update_new: "k \<notin> fst ` set d \<Longrightarrow> AList.update k v d = d @ [(k, v)]"
  by (induction d) auto

lemma dict_merge_fresh:
  "k \<notin> fst ` set b \<Longrightarrow> map_of (dict_merge a b) k = map_of a k"
  by (simp add: map_of_dict_merge map_of_eq_None_iff [THEN iffD2] split: option.splits)

section \<open>Decimal texts\<close>

text \<open>
  \<open>str(n)\<close> of Python and \<open>tostring(n)\<close> of Lua for an integer, and the way back (\<open>int(s)\<close>,
  \<open>tonumber(s)\<close>) for the numerals the program writes: decimal digits with an optional minus.
\<close>

definition digit :: "nat \<Rightarrow> char" where
  "digit n = char_of (48 + n)"

definition digit_value :: "char \<Rightarrow> nat option" where
  "digit_value c = (let v = of_char c in if 48 \<le> v \<and> v \<le> (57::nat) then Some (v - 48) else None)"

fun show_nat :: "nat \<Rightarrow> string" where
  "show_nat n = (if n < 10 then [digit n] else show_nat (n div 10) @ [digit (n mod 10)])"

declare show_nat.simps [simp del]

fun parse_digits :: "nat \<Rightarrow> string \<Rightarrow> nat option" where
  "parse_digits acc [] = Some acc"
| "parse_digits acc (c # cs) =
     (case digit_value c of None \<Rightarrow> None | Some v \<Rightarrow> parse_digits (10 * acc + v) cs)"

definition parse_nat :: "string \<Rightarrow> nat option" where
  "parse_nat s = (if s = [] then None else parse_digits 0 s)"

definition show_int :: "int \<Rightarrow> string" where
  "show_int i = (if i < 0 then CHR ''-'' # show_nat (nat (- i)) else show_nat (nat i))"

definition parse_int :: "string \<Rightarrow> int option" where
  "parse_int s = (case s of
     [] \<Rightarrow> None
   | c # cs \<Rightarrow> if c = CHR ''-'' then map_option (\<lambda>n. - int n) (parse_nat cs)
               else map_option int (parse_nat s))"

lemma digit_value_digit [simp]: "n < 10 \<Longrightarrow> digit_value (digit n) = Some n"
  by (simp add: digit_def digit_value_def)

lemma digit_not_minus: "n < 10 \<Longrightarrow> digit n \<noteq> CHR ''-''"
proof
  assume n: "n < 10" and "digit n = CHR ''-''"
  then have "digit_value (CHR ''-'') = Some n" by (metis digit_value_digit)
  then show False by (simp add: digit_value_def)
qed

lemma parse_digits_append:
  "parse_digits acc (xs @ ys) = (case parse_digits acc xs of None \<Rightarrow> None | Some a \<Rightarrow> parse_digits a ys)"
  by (induction xs arbitrary: acc) (auto split: option.splits)

lemma show_nat_nonempty [simp]: "show_nat n \<noteq> []"
  by (subst show_nat.simps) simp

lemma parse_digits_show: "parse_digits 0 (show_nat n) = Some n"
proof (induction n rule: show_nat.induct)
  case (1 n)
  show ?case
  proof (cases "n < 10")
    case True
    then show ?thesis by (subst show_nat.simps) simp
  next
    case False
    with "1.IH" have "parse_digits 0 (show_nat (n div 10)) = Some (n div 10)" by simp
    with False show ?thesis
      by (subst show_nat.simps) (simp add: parse_digits_append)
  qed
qed

lemma parse_nat_show [simp]: "parse_nat (show_nat n) = Some n"
  by (simp add: parse_nat_def parse_digits_show)

lemma hd_show_nat: "hd (show_nat n) \<noteq> CHR ''-''"
proof (induction n rule: show_nat.induct)
  case (1 n)
  then show ?case
    by (subst show_nat.simps) (auto simp: digit_not_minus hd_append)
qed

lemma parse_int_show [simp, text_simps]: "parse_int (show_int i) = Some i"
proof (cases "i < 0")
  case True
  then show ?thesis by (simp add: show_int_def parse_int_def)
next
  case False
  obtain c cs where s: "show_nat (nat i) = c # cs" by (cases "show_nat (nat i)") auto
  with hd_show_nat [of "nat i"] have "c \<noteq> CHR ''-''" by simp
  moreover have "parse_nat (c # cs) = Some (nat i)" using parse_nat_show [of "nat i"] s by simp
  ultimately show ?thesis using False s by (simp add: show_int_def parse_int_def)
qed

lemma show_int_inject [simp]: "show_int i = show_int j \<longleftrightarrow> i = j"
  by (metis option.inject parse_int_show)

section \<open>Effects and errors\<close>

text \<open>
  A computation over a state \<open>'s\<close> that returns a value or stops with an error \<open>'e\<close>. The state
  reached when an error is raised is kept: neither Python nor a Redis script rolls back.
\<close>

type_synonym ('e, 's, 'a) eff = "'s \<Rightarrow> ('e + 'a) \<times> 's"

definition ret :: "'a \<Rightarrow> ('e, 's, 'a) eff" where
  "ret x = (\<lambda>s. (Inr x, s))"

definition throw :: "'e \<Rightarrow> ('e, 's, 'a) eff" where
  "throw e = (\<lambda>s. (Inl e, s))"

definition bindE :: "('e, 's, 'a) eff \<Rightarrow> ('a \<Rightarrow> ('e, 's, 'b) eff) \<Rightarrow> ('e, 's, 'b) eff" where
  "bindE m f = (\<lambda>s. case m s of (Inl e, s') \<Rightarrow> (Inl e, s') | (Inr x, s') \<Rightarrow> f x s')"

definition attempt :: "('e, 's, 'a) eff \<Rightarrow> ('e, 's, 'e + 'a) eff" where
  "attempt m = (\<lambda>s. case m s of (r, s') \<Rightarrow> (Inr r, s'))"

definition lift_sum :: "'e + 'a \<Rightarrow> ('e, 's, 'a) eff" where
  "lift_sum r = (\<lambda>s. (r, s))"

definition get_state :: "('e, 's, 's) eff" where
  "get_state = (\<lambda>s. (Inr s, s))"

definition modify :: "('s \<Rightarrow> 's) \<Rightarrow> ('e, 's, unit) eff" where
  "modify f = (\<lambda>s. (Inr (), f s))"

declare ret_def [eff_simps] throw_def [eff_simps] bindE_def [eff_simps] attempt_def [eff_simps]
  lift_sum_def [eff_simps] get_state_def [eff_simps] modify_def [eff_simps]

lemma bindE_ret [simp]: "bindE (ret x) f = f x"
  by (simp add: eff_simps)

lemma bindE_throw [simp]: "bindE (throw e) f = throw e"
  by (simp add: eff_simps)

lemma lift_sum_Inr [simp]: "bindE (lift_sum (Inr x)) f = f x"
  by (simp add: eff_simps)

lemma bindE_assoc: "bindE (bindE m f) g = bindE m (\<lambda>x. bindE (f x) g)"
  by (auto simp: eff_simps fun_eq_iff split: prod.splits sum.splits)

lemma bindE_Inr: "m s = (Inr x, s') \<Longrightarrow> bindE m f s = f x s'"
  by (simp add: bindE_def)

lemma bindE_Inl: "m s = (Inl e, s') \<Longrightarrow> bindE m f s = (Inl e, s')"
  by (simp add: bindE_def)

subsection \<open>Loops\<close>

text \<open>
  \<open>for_each\<close> is a loop whose body only acts; \<open>check_each\<close> is a loop whose body may leave the
  enclosing function early (\<open>False\<close> stands for the early \<open>return 0\<close>).
\<close>

fun for_each :: "'a list \<Rightarrow> ('a \<Rightarrow> ('e, 's, unit) eff) \<Rightarrow> ('e, 's, unit) eff" where
  "for_each [] body = ret ()"
| "for_each (x # xs) body = bindE (body x) (\<lambda>_. for_each xs body)"

fun check_each :: "'a list \<Rightarrow> ('a \<Rightarrow> ('e, 's, bool) eff) \<Rightarrow> ('e, 's, bool) eff" where
  "check_each [] body = ret True"
| "check_each (x # xs) body = bindE (body x) (\<lambda>ok. if ok then check_each xs body else ret False)"

text \<open>A loop that accumulates a result.\<close>

fun fold_each :: "('a \<Rightarrow> 'b \<Rightarrow> ('e, 's, 'b) eff) \<Rightarrow> 'a list \<Rightarrow> 'b \<Rightarrow> ('e, 's, 'b) eff" where
  "fold_each body [] acc = ret acc"
| "fold_each body (x # xs) acc = bindE (body x acc) (fold_each body xs)"

lemma for_each_map: "for_each (map g xs) body = for_each xs (\<lambda>x. body (g x))"
  by (induction xs) simp_all

lemma check_each_map: "check_each (map g xs) body = check_each xs (\<lambda>x. body (g x))"
  by (induction xs) (simp_all cong: if_cong)

lemma for_each_cong:
  "(\<And>x. x \<in> set xs \<Longrightarrow> f x = g x) \<Longrightarrow> for_each xs f = for_each xs g"
  by (induction xs) simp_all

lemma check_each_cong:
  "(\<And>x. x \<in> set xs \<Longrightarrow> f x = g x) \<Longrightarrow> check_each xs f = check_each xs g"
  by (induction xs) (simp_all cong: if_cong)

text \<open>
  \<open>for_upto n body\<close> is the Lua loop \<open>for i = 1, n do body(i) end\<close>. Over the indices of a list it is
  a loop over the list.
\<close>

definition for_upto :: "nat \<Rightarrow> (nat \<Rightarrow> ('e, 's, unit) eff) \<Rightarrow> ('e, 's, unit) eff" where
  "for_upto n body = for_each [1..<n + 1] body"

definition check_upto :: "nat \<Rightarrow> (nat \<Rightarrow> ('e, 's, bool) eff) \<Rightarrow> ('e, 's, bool) eff" where
  "check_upto n body = check_each [1..<n + 1] body"

lemma for_upto_list:
  assumes "\<And>i. i < length xs \<Longrightarrow> f (Suc i) = g (xs ! i)"
  shows "for_upto (length xs) f = for_each xs g"
proof -
  have "for_upto (length xs) f = for_each [0..<length xs] (\<lambda>i. f (Suc i))"
    by (simp only: for_upto_def for_each_map [symmetric] map_Suc_upt One_nat_def add_Suc_right add_0_right)
  also have "\<dots> = for_each (map ((!) xs) [0..<length xs]) g"
    using assms by (simp only: for_each_map) (rule for_each_cong, simp)
  finally show ?thesis by (simp add: map_nth)
qed

lemma check_upto_list:
  assumes "\<And>i. i < length xs \<Longrightarrow> f (Suc i) = g (xs ! i)"
  shows "check_upto (length xs) f = check_each xs g"
proof -
  have "check_upto (length xs) f = check_each [0..<length xs] (\<lambda>i. f (Suc i))"
    by (simp only: check_upto_def check_each_map [symmetric] map_Suc_upt One_nat_def add_Suc_right add_0_right)
  also have "\<dots> = check_each (map ((!) xs) [0..<length xs]) g"
    using assms by (simp only: check_each_map) (rule check_each_cong, simp)
  finally show ?thesis by (simp add: map_nth)
qed

text \<open>The \<open>i\<close>-th pair of a flattened list of pairs, as the scripts index \<open>ARGV\<close>.\<close>

lemma concat_pairs_nth:
  assumes "i < length xs"
  shows "concat (map (\<lambda>x. [f x, g x]) xs) ! (2 * i) = f (xs ! i)"
    and "concat (map (\<lambda>x. [f x, g x]) xs) ! Suc (2 * i) = g (xs ! i)"
  using assms by (induction xs arbitrary: i) (auto simp: less_Suc_eq_0_disj)

lemma length_concat_pairs: "length (concat (map (\<lambda>x. [f x, g x]) xs)) = 2 * length xs"
  by (induction xs) auto

text \<open>
  A loop over pairs with distinct first components, whose body needs a condition \<open>ready\<close> of its own
  item that the other iterations keep: it runs through, and its iterations form a chain.
\<close>

fun chain :: "('a \<Rightarrow> 's \<Rightarrow> 's \<Rightarrow> bool) \<Rightarrow> 'a list \<Rightarrow> 's \<Rightarrow> 's \<Rightarrow> bool" where
  "chain rel [] s s' = (s' = s)"
| "chain rel (x # xs) s s' = (\<exists>s1. rel x s s1 \<and> chain rel xs s1 s')"

lemma for_each_chain:
  assumes step: "\<And>p s. p \<in> set xs \<Longrightarrow> I s \<Longrightarrow> ready p s \<Longrightarrow>
      \<exists>s1. body p s = (Inr (), s1) \<and> I s1 \<and> rel p s s1"
    and keep: "\<And>p q s s1. p \<in> set xs \<Longrightarrow> q \<in> set xs \<Longrightarrow> fst p \<noteq> fst q \<Longrightarrow> rel p s s1 \<Longrightarrow> ready q s \<Longrightarrow> ready q s1"
    and "distinct (map fst xs)" "I s" "\<And>p. p \<in> set xs \<Longrightarrow> ready p s"
  shows "\<exists>s'. for_each xs body s = (Inr (), s') \<and> I s' \<and> chain rel xs s s'"
  using assms
proof (induction xs arbitrary: s)
  case (Cons p ps)
  obtain s1 where s1: "body p s = (Inr (), s1)" "I s1" "rel p s s1"
    using Cons.prems(1) [of p s] Cons.prems(4,5) by auto
  have "\<exists>s'. for_each ps body s1 = (Inr (), s') \<and> I s' \<and> chain rel ps s1 s'"
  proof (rule Cons.IH)
    show "\<exists>s1. body q t = (Inr (), s1) \<and> I s1 \<and> rel q t s1"
      if "q \<in> set ps" "I t" "ready q t" for q t
      using Cons.prems(1) [of q t] that by simp
    show "ready r t1" if "q \<in> set ps" "r \<in> set ps" "fst q \<noteq> fst r" "rel q t t1" "ready r t" for q r t t1
      using Cons.prems(2) [of q r t t1] that by simp
    show "distinct (map fst ps)" using Cons.prems(3) by simp
    show "I s1" by (rule s1(2))
    fix q assume q: "q \<in> set ps"
    with Cons.prems(3) have "fst p \<noteq> fst q" by (metis image_eqI distinct.simps(2) list.simps(9) set_map)
    with q s1(3) Cons.prems(5) show "ready q s1"
      using Cons.prems(2) [of p q s s1] by simp
  qed
  with s1 show ?case by (auto simp: bindE_Inr)
qed (simp add: ret_def)

lemma chain_invariant:
  assumes "\<And>p s s1. p \<in> set xs \<Longrightarrow> rel p s s1 \<Longrightarrow> F s1 = F s" and "chain rel xs s s'"
  shows "F s' = F s"
  using assms by (induction xs arbitrary: s) (auto, metis)

lemma chain_mono:
  assumes "\<And>p s s1. p \<in> set xs \<Longrightarrow> rel p s s1 \<Longrightarrow> rel' p s s1" and "chain rel xs s s'"
  shows "chain rel' xs s s'"
  using assms by (induction xs arbitrary: s) (auto, blast)

text \<open>
  If each iteration updates the entry of its own key in an observation \<open>F\<close>, the loop updates the
  entries of all keys.
\<close>

lemma chain_update:
  assumes "\<And>p s s1 j. p \<in> set xs \<Longrightarrow> rel p s s1 \<Longrightarrow> F s1 j = (if j = fst p then g p (F s j) else F s j)"
    and "distinct (map fst xs)" and "chain rel xs s s'"
  shows "F s' j = (case map_of xs j of None \<Rightarrow> F s j | Some a \<Rightarrow> g (j, a) (F s j))"
  using assms
proof (induction xs arbitrary: s)
  case (Cons p ps)
  obtain s1 where s1: "rel p s s1" "chain rel ps s1 s'" using Cons.prems(3) by auto
  have IH: "F s' j = (case map_of ps j of None \<Rightarrow> F s1 j | Some a \<Rightarrow> g (j, a) (F s1 j))"
    using Cons.prems(1,2) s1(2) by (intro Cons.IH) auto
  have one: "F s1 j = (if j = fst p then g p (F s j) else F s j)" using Cons.prems(1) s1(1) by simp
  have "fst p \<notin> fst ` set ps" using Cons.prems(2) by simp
  then have "map_of ps (fst p) = None" by (simp add: map_of_eq_None_iff)
  with IH one show ?case by (cases p) (auto split: option.splits)
qed simp

lemma check_each_pure:
  assumes "\<And>x. x \<in> set xs \<Longrightarrow> body x s = (Inr (p x), s)"
  shows "check_each xs body s = (Inr (list_all p xs), s)"
  using assms by (induction xs) (auto simp: ret_def bindE_Inr)

end
