(* ===== verification/Redis.thy ===== *)
theory Redis
  imports Prelude
begin

text \<open>
  The Redis-compatible server (Dragonfly) the services and the orchestrator keep their state in.
  The server is not part of the repository: it is a parameter \<open>rc\<close> of every definition that
  talks to it, and the locale \<open>redis_server\<close> states the documented behaviour of the commands
  the program issues. \<open>mem_rc\<close> is an in-memory server that satisfies these laws; the witnesses
  of the properties run on it.
\<close>

section \<open>Keyspaces, commands and replies\<close>

datatype rval =
    RStr rtext
  | RHash "(string \<times> rtext) list"
  | RList "rtext list"
  | RSet "string list"
  | RStream "(string \<times> rtext) list list"

text \<open>\<open>expires k\<close> is the time to live, in seconds, of a key that has one.\<close>

record keyspace =
  entries :: "string \<Rightarrow> rval option"
  expires :: "string \<Rightarrow> int option"

definition empty_keyspace :: keyspace where
  "empty_keyspace = \<lparr>entries = Map.empty, expires = Map.empty\<rparr>"

datatype cmd =
    HGET string string
  | HSET string "(string \<times> rtext) list"
  | HINCRBY string string int
  | HGETALL string
  | EXISTS string
  | DEL string
  | EXPIRE string int
  | GET string
  | SET string rtext bool "int option"  \<comment> \<open>key, value, NX, EX seconds\<close>
  | SETEX string int rtext
  | RPUSH string "rtext list"
  | LRANGE_ALL string  \<comment> \<open>\<open>LRANGE key 0 -1\<close>\<close>
  | SADD string string
  | SREM string string
  | SSCAN string string nat  \<comment> \<open>key, cursor, COUNT\<close>
  | XADD string "(string \<times> rtext) list" nat  \<comment> \<open>key, fields, approximate MAXLEN\<close>
  | PUBLISH string rtext

datatype reply = Nil | Bulk rtext | Num int | Arr "rtext list" | Page string "string list" | Status

datatype rerr = WrongType | NotInteger | Overflow | ErrReply string | LuaError string

type_synonym redis = "cmd \<Rightarrow> keyspace \<Rightarrow> (rerr + reply) \<times> keyspace"
type_synonym 'a script = "(rerr, keyspace, 'a) eff"

subsection \<open>Typed views of a keyspace\<close>

definition hash_of :: "keyspace \<Rightarrow> string \<Rightarrow> (string \<times> rtext) list option" where
  "hash_of d k = (case entries d k of None \<Rightarrow> Some [] | Some (RHash h) \<Rightarrow> Some h | Some _ \<Rightarrow> None)"

definition text_of :: "keyspace \<Rightarrow> string \<Rightarrow> rtext option option" where
  "text_of d k = (case entries d k of None \<Rightarrow> Some None | Some (RStr t) \<Rightarrow> Some (Some t) | Some _ \<Rightarrow> None)"

definition list_of :: "keyspace \<Rightarrow> string \<Rightarrow> rtext list option" where
  "list_of d k = (case entries d k of None \<Rightarrow> Some [] | Some (RList l) \<Rightarrow> Some l | Some _ \<Rightarrow> None)"

definition set_of :: "keyspace \<Rightarrow> string \<Rightarrow> string list option" where
  "set_of d k = (case entries d k of None \<Rightarrow> Some [] | Some (RSet l) \<Rightarrow> Some l | Some _ \<Rightarrow> None)"

definition stream_of :: "keyspace \<Rightarrow> string \<Rightarrow> (string \<times> rtext) list list option" where
  "stream_of d k = (case entries d k of None \<Rightarrow> Some [] | Some (RStream l) \<Rightarrow> Some l | Some _ \<Rightarrow> None)"

definition field :: "keyspace \<Rightarrow> string \<Rightarrow> string \<Rightarrow> rtext option" where
  "field d k f = (case entries d k of Some (RHash h) \<Rightarrow> map_of h f | _ \<Rightarrow> None)"

text \<open>Counters are signed 64-bit integers written in decimal.\<close>

definition in64 :: "int \<Rightarrow> bool" where
  "in64 n \<longleftrightarrow> - (2 ^ 63) \<le> n \<and> n < 2 ^ 63"

definition counter_text :: "rtext \<Rightarrow> int option" where
  "counter_text t = (case t of
     Text s \<Rightarrow> (case parse_int s of Some n \<Rightarrow> if in64 n then Some n else None | None \<Rightarrow> None)
   | Json _ \<Rightarrow> None)"

definition counter :: "keyspace \<Rightarrow> string \<Rightarrow> string \<Rightarrow> int option" where
  "counter d k f = (case field d k f of None \<Rightarrow> None | Some t \<Rightarrow> counter_text t)"

subsection \<open>Updates of a keyspace\<close>

definition put :: "string \<Rightarrow> rval \<Rightarrow> keyspace \<Rightarrow> keyspace" where
  "put k v d = d\<lparr>entries := (entries d)(k \<mapsto> v)\<rparr>"

definition set_ttl :: "string \<Rightarrow> int option \<Rightarrow> keyspace \<Rightarrow> keyspace" where
  "set_ttl k t d = d\<lparr>expires := (expires d)(k := t)\<rparr>"

definition remove :: "string \<Rightarrow> keyspace \<Rightarrow> keyspace" where
  "remove k d = d\<lparr>entries := (entries d)(k := None), expires := (expires d)(k := None)\<rparr>"

definition put_fields :: "string \<Rightarrow> (string \<times> rtext) list \<Rightarrow> keyspace \<Rightarrow> keyspace" where
  "put_fields k fs d = put k (RHash (dict_merge (case hash_of d k of Some h \<Rightarrow> h | None \<Rightarrow> []) fs)) d"

definition bulk :: "rtext option \<Rightarrow> reply" where
  "bulk t = (case t of None \<Rightarrow> Nil | Some v \<Rightarrow> Bulk v)"

definition flat :: "(string \<times> rtext) list \<Rightarrow> rtext list" where
  "flat h = concat (map (\<lambda>(f, v). [Text f, v]) h)"

section \<open>The documented behaviour of the server\<close>

text \<open>
  A command on a key of another type fails with WRONGTYPE and changes nothing. \<open>HINCRBY\<close> reads a
  missing field as 0 and refuses a result outside the signed 64-bit range. \<open>HSET\<close> and \<open>HINCRBY\<close>
  keep a key's time to live, \<open>SET\<close> resets it. \<open>XADD\<close> with an approximate \<open>MAXLEN\<close> may drop old
  entries, but only while more than \<open>MAXLEN\<close> are left.
\<close>

text \<open>
  A full iteration of \<open>SSCAN\<close> from cursor 0, on a set nobody changes meanwhile; \<open>None\<close> when \<open>fuel\<close>
  pages were not enough or the server answered something else.
\<close>

fun scan_pages :: "redis \<Rightarrow> nat \<Rightarrow> string \<Rightarrow> nat \<Rightarrow> string \<Rightarrow> keyspace \<Rightarrow> string list option" where
  "scan_pages rc 0 k n c d = None"
| "scan_pages rc (Suc fuel) k n c d = (case rc (SSCAN k c n) d of
     (Inr (Page c' ids), _) \<Rightarrow> if c' = ''0'' then Some ids else map_option ((@) ids) (scan_pages rc fuel k n c' d)
   | _ \<Rightarrow> None)"

locale redis_server =
  fixes rc :: redis
  assumes hget: "rc (HGET k f) d = (case hash_of d k of None \<Rightarrow> (Inl WrongType, d)
      | Some h \<Rightarrow> (Inr (bulk (map_of h f)), d))"
    and hset: "fs \<noteq> [] \<Longrightarrow> rc (HSET k fs) d = (case hash_of d k of None \<Rightarrow> (Inl WrongType, d)
      | Some h \<Rightarrow> (Inr (Num (int (length (filter (\<lambda>(f, v). map_of h f = None) fs)))), put_fields k fs d))"
    and hincrby: "rc (HINCRBY k f n) d = (case hash_of d k of None \<Rightarrow> (Inl WrongType, d)
      | Some h \<Rightarrow> (case (case map_of h f of None \<Rightarrow> Some 0 | Some t \<Rightarrow> counter_text t) of
          None \<Rightarrow> (Inl NotInteger, d)
        | Some v \<Rightarrow> if in64 (v + n) then (Inr (Num (v + n)), put_fields k [(f, Text (show_int (v + n)))] d)
                    else (Inl Overflow, d)))"
    and hgetall: "rc (HGETALL k) d = (case hash_of d k of None \<Rightarrow> (Inl WrongType, d)
      | Some h \<Rightarrow> (Inr (Arr (flat h)), d))"
    and exists: "rc (EXISTS k) d = (Inr (Num (if entries d k = None then 0 else 1)), d)"
    and del: "rc (DEL k) d = (Inr (Num (if entries d k = None then 0 else 1)), remove k d)"
    and expire: "0 < t \<Longrightarrow> rc (EXPIRE k t) d =
      (if entries d k = None then (Inr (Num 0), d) else (Inr (Num 1), set_ttl k (Some t) d))"
    and get: "rc (GET k) d = (case text_of d k of None \<Rightarrow> (Inl WrongType, d) | Some t \<Rightarrow> (Inr (bulk t), d))"
    and set_plain: "rc (SET k v False None) d = (Inr Status, set_ttl k None (put k (RStr v) d))"
    and set_ex: "0 < t \<Longrightarrow> rc (SET k v False (Some t)) d = (Inr Status, set_ttl k (Some t) (put k (RStr v) d))"
    and set_nx_ex: "0 < t \<Longrightarrow> rc (SET k v True (Some t)) d =
      (if entries d k = None then (Inr Status, set_ttl k (Some t) (put k (RStr v) d)) else (Inr Nil, d))"
    and setex: "rc (SETEX k t v) d =
      (if 0 < t then (Inr Status, set_ttl k (Some t) (put k (RStr v) d))
       else (Inl (ErrReply ''ERR invalid expire time''), d))"
    and rpush: "vs \<noteq> [] \<Longrightarrow> rc (RPUSH k vs) d = (case list_of d k of None \<Rightarrow> (Inl WrongType, d)
      | Some l \<Rightarrow> (Inr (Num (int (length (l @ vs)))), put k (RList (l @ vs)) d))"
    and lrange_all: "rc (LRANGE_ALL k) d = (case list_of d k of None \<Rightarrow> (Inl WrongType, d)
      | Some l \<Rightarrow> (Inr (Arr l), d))"
    and sadd: "rc (SADD k m) d = (case set_of d k of None \<Rightarrow> (Inl WrongType, d)
      | Some l \<Rightarrow> if m \<in> set l then (Inr (Num 0), d) else (Inr (Num 1), put k (RSet (l @ [m])) d))"
    and srem: "rc (SREM k m) d = (case set_of d k of None \<Rightarrow> (Inl WrongType, d)
      | Some l \<Rightarrow> if m \<notin> set l then (Inr (Num 0), d)
          else (Inr (Num 1), if filter (\<lambda>x. x \<noteq> m) l = [] then remove k d
                             else put k (RSet (filter (\<lambda>x. x \<noteq> m) l)) d))"
    and sscan_wrong: "set_of d k = None \<Longrightarrow> rc (SSCAN k c cnt) d = (Inl WrongType, d)"
    and sscan: "set_of d k = Some ms \<Longrightarrow>
      \<exists>c' ids. rc (SSCAN k c cnt) d = (Inr (Page c' ids), d) \<and> set ids \<subseteq> set ms"
    and sscan_full: "set_of d k = Some ms \<Longrightarrow>
      \<exists>fuel ids. scan_pages rc fuel k cnt ''0'' d = Some ids \<and> set ids = set ms"
    and xadd_wrong: "stream_of d k = None \<Longrightarrow> rc (XADD k fs maxlen) d = (Inl WrongType, d)"
    and xadd: "stream_of d k = Some l \<Longrightarrow> \<exists>id m. m + maxlen \<le> max maxlen (length l + 1) \<and>
      rc (XADD k fs maxlen) d = (Inr (Bulk id), put k (RStream (drop m (l @ [fs]))) d)"
    and publish: "\<exists>n. rc (PUBLISH ch v) d = (Inr (Num n), d)"

subsection \<open>An in-memory server\<close>

fun mem_rc :: redis where
  "mem_rc (HGET k f) d = (case hash_of d k of None \<Rightarrow> (Inl WrongType, d)
     | Some h \<Rightarrow> (Inr (bulk (map_of h f)), d))"
| "mem_rc (HSET k fs) d = (case hash_of d k of None \<Rightarrow> (Inl WrongType, d)
     | Some h \<Rightarrow> (Inr (Num (int (length (filter (\<lambda>(f, v). map_of h f = None) fs)))), put_fields k fs d))"
| "mem_rc (HINCRBY k f n) d = (case hash_of d k of None \<Rightarrow> (Inl WrongType, d)
     | Some h \<Rightarrow> (case (case map_of h f of None \<Rightarrow> Some 0 | Some t \<Rightarrow> counter_text t) of
         None \<Rightarrow> (Inl NotInteger, d)
       | Some v \<Rightarrow> if in64 (v + n) then (Inr (Num (v + n)), put_fields k [(f, Text (show_int (v + n)))] d)
                   else (Inl Overflow, d)))"
| "mem_rc (HGETALL k) d = (case hash_of d k of None \<Rightarrow> (Inl WrongType, d)
     | Some h \<Rightarrow> (Inr (Arr (flat h)), d))"
| "mem_rc (EXISTS k) d = (Inr (Num (if entries d k = None then 0 else 1)), d)"
| "mem_rc (DEL k) d = (Inr (Num (if entries d k = None then 0 else 1)), remove k d)"
| "mem_rc (EXPIRE k t) d = (if entries d k = None then (Inr (Num 0), d)
     else if 0 < t then (Inr (Num 1), set_ttl k (Some t) d) else (Inr (Num 1), remove k d))"
| "mem_rc (GET k) d = (case text_of d k of None \<Rightarrow> (Inl WrongType, d) | Some t \<Rightarrow> (Inr (bulk t), d))"
| "mem_rc (SET k v nx ex) d = (if nx \<and> entries d k \<noteq> None then (Inr Nil, d)
     else if (\<exists>t. ex = Some t \<and> t \<le> 0) then (Inl (ErrReply ''ERR invalid expire time''), d)
     else (Inr Status, set_ttl k ex (put k (RStr v) d)))"
| "mem_rc (SETEX k t v) d = (if 0 < t then (Inr Status, set_ttl k (Some t) (put k (RStr v) d))
     else (Inl (ErrReply ''ERR invalid expire time''), d))"
| "mem_rc (RPUSH k vs) d = (case list_of d k of None \<Rightarrow> (Inl WrongType, d)
     | Some l \<Rightarrow> (Inr (Num (int (length (l @ vs)))), put k (RList (l @ vs)) d))"
| "mem_rc (LRANGE_ALL k) d = (case list_of d k of None \<Rightarrow> (Inl WrongType, d) | Some l \<Rightarrow> (Inr (Arr l), d))"
| "mem_rc (SADD k m) d = (case set_of d k of None \<Rightarrow> (Inl WrongType, d)
     | Some l \<Rightarrow> if m \<in> set l then (Inr (Num 0), d) else (Inr (Num 1), put k (RSet (l @ [m])) d))"
| "mem_rc (SREM k m) d = (case set_of d k of None \<Rightarrow> (Inl WrongType, d)
     | Some l \<Rightarrow> if m \<notin> set l then (Inr (Num 0), d)
         else (Inr (Num 1), if filter (\<lambda>x. x \<noteq> m) l = [] then remove k d
                            else put k (RSet (filter (\<lambda>x. x \<noteq> m) l)) d))"
| "mem_rc (SSCAN k c n) d = (case set_of d k of None \<Rightarrow> (Inl WrongType, d) | Some l \<Rightarrow> (Inr (Page ''0'' l), d))"
| "mem_rc (XADD k fs n) d = (case stream_of d k of None \<Rightarrow> (Inl WrongType, d)
     | Some l \<Rightarrow> (Inr (Bulk (Text (show_int (int (length l))))),
         put k (RStream (drop (length l + 1 - n) (l @ [fs]))) d))"
| "mem_rc (PUBLISH ch v) d = (Inr (Num 0), d)"

interpretation mem: redis_server mem_rc
proof
  fix k :: string and maxlen :: nat and fs l d
  assume "stream_of d k = Some l"
  then show "\<exists>id m. m + maxlen \<le> max maxlen (length l + 1) \<and>
      mem_rc (XADD k fs maxlen) d = (Inr (Bulk id), put k (RStream (drop m (l @ [fs]))) d)"
    by (intro exI [of _ "Text (show_int (int (length l)))"] exI [of _ "length l + 1 - maxlen"]) auto
next
  fix d k l cnt
  assume "set_of d k = Some l"
  then show "\<exists>fuel ids. scan_pages mem_rc fuel k cnt ''0'' d = Some ids \<and> set ids = set l"
    by (intro exI [of _ 1] exI [of _ l]) simp
qed (auto split: option.splits)

lemma mem_redis: "redis_server mem_rc"
  by (rule mem.redis_server_axioms)

section \<open>Reading a keyspace after an update\<close>

lemma entries_put [simp]: "entries (put k v d) = (entries d)(k \<mapsto> v)"
  by (simp add: put_def)

lemma entries_set_ttl [simp]: "entries (set_ttl k t d) = entries d"
  by (simp add: set_ttl_def)

lemma entries_remove [simp]: "entries (remove k d) = (entries d)(k := None)"
  by (simp add: remove_def)

lemma expires_put [simp]: "expires (put k v d) = expires d"
  by (simp add: put_def)

lemma expires_set_ttl [simp]: "expires (set_ttl k t d) = (expires d)(k := t)"
  by (simp add: set_ttl_def)

lemma entries_put_fields:
  "entries (put_fields k fs d) k' = (if k' = k
     then Some (RHash (dict_merge (case hash_of d k of Some h \<Rightarrow> h | None \<Rightarrow> []) fs)) else entries d k')"
  by (simp add: put_fields_def)

text \<open>Frame rules: the views look at one key only.\<close>

lemma view_cong:
  assumes "entries d' k = entries d k"
  shows "hash_of d' k = hash_of d k" "text_of d' k = text_of d k" "list_of d' k = list_of d k"
    "set_of d' k = set_of d k" "stream_of d' k = stream_of d k" "field d' k f = field d k f"
    "counter d' k f = counter d k f"
  using assms by (simp_all add: hash_of_def text_of_def list_of_def set_of_def stream_of_def
    field_def counter_def)

lemma view_set_ttl [simp]:
  "hash_of (set_ttl k' t d) k = hash_of d k" "text_of (set_ttl k' t d) k = text_of d k"
  "field (set_ttl k' t d) k f = field d k f" "counter (set_ttl k' t d) k f = counter d k f"
  by (rule view_cong, simp)+

lemma view_put_other [simp]:
  "k \<noteq> k' \<Longrightarrow> hash_of (put k' v d) k = hash_of d k"
  "k \<noteq> k' \<Longrightarrow> text_of (put k' v d) k = text_of d k"
  "k \<noteq> k' \<Longrightarrow> field (put k' v d) k f = field d k f"
  "k \<noteq> k' \<Longrightarrow> counter (put k' v d) k f = counter d k f"
  by (rule view_cong, simp)+

lemma view_remove_other [simp]:
  "k \<noteq> k' \<Longrightarrow> hash_of (remove k' d) k = hash_of d k"
  "k \<noteq> k' \<Longrightarrow> text_of (remove k' d) k = text_of d k"
  "k \<noteq> k' \<Longrightarrow> field (remove k' d) k f = field d k f"
  "k \<noteq> k' \<Longrightarrow> counter (remove k' d) k f = counter d k f"
  by (rule view_cong, simp)+

lemma view_put_fields_other [simp]:
  "k \<noteq> k' \<Longrightarrow> hash_of (put_fields k' fs d) k = hash_of d k"
  "k \<noteq> k' \<Longrightarrow> text_of (put_fields k' fs d) k = text_of d k"
  "k \<noteq> k' \<Longrightarrow> field (put_fields k' fs d) k f = field d k f"
  "k \<noteq> k' \<Longrightarrow> counter (put_fields k' fs d) k f = counter d k f"
  by (rule view_cong, simp add: entries_put_fields)+

lemma view_put_same [simp]:
  "text_of (put k (RStr t) d) k = Some (Some t)"
  "hash_of (put k (RHash h) d) k = Some h"
  "field (put k (RStr t) d) k f = None"
  by (simp_all add: text_of_def hash_of_def field_def)

lemma view_remove_same [simp]:
  "hash_of (remove k d) k = Some []" "text_of (remove k d) k = Some None" "field (remove k d) k f = None"
  by (simp_all add: text_of_def hash_of_def field_def)

lemma field_of_hash: "hash_of d k = Some h \<Longrightarrow> field d k f = map_of h f"
  by (auto simp: hash_of_def field_def split: option.splits rval.splits)

lemma hash_put_fields [simp]:
  "hash_of (put_fields k fs d) k = Some (dict_merge (case hash_of d k of Some h \<Rightarrow> h | None \<Rightarrow> []) fs)"
  by (simp add: put_fields_def)

lemma field_put_fields:
  "hash_of d k \<noteq> None \<Longrightarrow> field (put_fields k fs d) k f =
     (case map_of (rev fs) f of None \<Rightarrow> field d k f | Some v \<Rightarrow> Some v)"
  by (auto simp: field_of_hash map_of_dict_merge split: option.splits)

lemma field_put_field [simp]:
  "hash_of d k \<noteq> None \<Longrightarrow> field (put_fields k [(f, v)] d) k f' = (if f' = f then Some v else field d k f')"
  by (simp add: field_put_fields)

lemma counter_text_show [simp]: "counter_text (Text (show_int n)) = (if in64 n then Some n else None)"
  by (simp add: counter_text_def)

lemma counter_text_in64: "counter_text t = Some n \<Longrightarrow> in64 n"
  by (auto simp: counter_text_def split: rtext.splits option.splits if_splits)

lemma counter_in64: "counter d k f = Some n \<Longrightarrow> in64 n"
  by (auto simp: counter_def dest: counter_text_in64 split: option.splits)

lemma counter_hash: "counter d k f = Some n \<Longrightarrow> \<exists>h. hash_of d k = Some h \<and> map_of h f \<noteq> None"
  by (auto simp: counter_def field_def hash_of_def split: option.splits rval.splits)

lemma counter_put_field [simp]:
  "hash_of d k \<noteq> None \<Longrightarrow> counter (put_fields k [(f, v)] d) k f' =
     (if f' = f then counter_text v else counter d k f')"
  by (simp add: counter_def)

lemma in64_diff: "in64 v \<Longrightarrow> 0 \<le> a \<Longrightarrow> a \<le> v \<Longrightarrow> in64 (v - a)"
  by (simp add: in64_def)

lemma in64_small: "0 \<le> n \<Longrightarrow> n \<le> m \<Longrightarrow> in64 m \<Longrightarrow> in64 n"
  by (simp add: in64_def)

section \<open>Calling the server from a script\<close>

text \<open>
  \<open>lua_at xs i\<close> is the Lua expression \<open>xs[i]\<close>, counted from 1, in a place where \<open>nil\<close> makes the
  script fail; \<open>tonumber\<close> is Lua's, applied to a reply or an argument.
\<close>

definition lua_at :: "'a list \<Rightarrow> nat \<Rightarrow> 'a script" where
  "lua_at xs i = (if 1 \<le> i \<and> i \<le> length xs then ret (xs ! (i - 1)) else throw (LuaError ''nil value''))"

definition tonumber :: "reply \<Rightarrow> int option" where
  "tonumber r = (case r of Bulk t \<Rightarrow> counter_text t | _ \<Rightarrow> None)"

definition number :: "string \<Rightarrow> int script" where
  "number s = (case counter_text (Text s) of Some n \<Rightarrow> ret n | None \<Rightarrow> throw (LuaError ''nil value''))"

definition act :: "redis \<Rightarrow> cmd \<Rightarrow> unit script" where
  "act rc c = bindE (rc c) (\<lambda>_. ret ())"

lemma lua_at_ret: "1 \<le> i \<Longrightarrow> i \<le> length xs \<Longrightarrow> lua_at xs i = ret (xs ! (i - 1))"
  by (simp add: lua_at_def)

lemma number_show [simp]: "in64 n \<Longrightarrow> number (show_int n) = ret n"
  by (simp add: number_def)

lemma tonumber_bulk [simp]:
  "tonumber (bulk t) = (case t of None \<Rightarrow> None | Some v \<Rightarrow> counter_text v)"
  by (simp add: tonumber_def bulk_def split: option.splits)

lemma bulk_eq_Bulk [simp]: "bulk t = Bulk v \<longleftrightarrow> t = Some v" "bulk t = Nil \<longleftrightarrow> t = None"
  by (auto simp: bulk_def split: option.splits)

context redis_server begin

lemma hget_field: "hash_of d k \<noteq> None \<Longrightarrow> rc (HGET k f) d = (Inr (bulk (field d k f)), d)"
  by (auto simp: hget field_of_hash)

lemma hset_act: "hash_of d k \<noteq> None \<Longrightarrow> fs \<noteq> [] \<Longrightarrow> act rc (HSET k fs) d = (Inr (), put_fields k fs d)"
  by (auto simp: act_def hset bindE_def ret_def)

lemma hincrby_act:
  "counter d k f = Some v \<Longrightarrow> in64 (v + n) \<Longrightarrow>
     act rc (HINCRBY k f n) d = (Inr (), put_fields k [(f, Text (show_int (v + n)))] d)"
  by (frule counter_hash)
    (auto simp: act_def hincrby counter_def field_of_hash bindE_def ret_def split: option.splits)

lemma del_act: "act rc (DEL k) d = (Inr (), remove k d)"
  by (simp add: act_def del bindE_def ret_def)

lemma expire_act: "0 < t \<Longrightarrow> entries d k \<noteq> None \<Longrightarrow> act rc (EXPIRE k t) d = (Inr (), set_ttl k (Some t) d)"
  by (auto simp: act_def expire bindE_def ret_def)

lemma expire_any: "0 < t \<Longrightarrow> \<exists>d'. act rc (EXPIRE k t) d = (Inr (), d') \<and> entries d' = entries d"
  by (simp add: act_def expire bindE_def ret_def)

lemma setex_act: "0 < t \<Longrightarrow> act rc (SETEX k t v) d = (Inr (), set_ttl k (Some t) (put k (RStr v) d))"
  by (auto simp: act_def setex bindE_def ret_def)

lemma hget_counter: "counter d k f = Some v \<Longrightarrow> \<exists>r. rc (HGET k f) d = (Inr r, d) \<and> tonumber r = Some v"
  by (frule counter_hash) (auto simp: hget_field counter_def split: option.splits)

end

end
