(* ===== verification/Python.thy ===== *)
theory Python
  imports Prelude
begin

text \<open>
  The part of Python and its standard library the program rests on: exceptions as values, the
  conversions \<open>str\<close>, \<open>int\<close>, \<open>float\<close>, JSON, iteration and unpacking of JSON values, and
  \<open>try .. except\<close>.
\<close>

section \<open>Exceptions\<close>

text \<open>
  The payload is the message, \<open>str(e)\<close>. \<open>Exit\<close> is \<open>os._exit\<close>: the process is gone and no handler
  runs. \<open>Cancelled\<close> is \<open>asyncio.CancelledError\<close>, a \<open>BaseException\<close> that \<open>except Exception\<close> does
  not catch.
\<close>

datatype exn =
    Exit
  | Cancelled
  | TimeoutErr string  \<comment> \<open>\<open>asyncio.TimeoutError\<close>, which the NATS client's timeout extends\<close>
  | RedisErr string  \<comment> \<open>\<open>redis.RedisError\<close>, connection and socket errors\<close>
  | ResponseErr string  \<comment> \<open>\<open>redis.ResponseError\<close>, an error reply of the server\<close>
  | HttpErr int string  \<comment> \<open>\<open>HTTPException(status, detail)\<close>\<close>
  | RuntimeErr string
  | ValueErr string
  | TypeErr string
  | KeyErr string
  | OtherErr string

fun exn_text :: "exn \<Rightarrow> string" where
  "exn_text Exit = []"
| "exn_text Cancelled = []"
| "exn_text (TimeoutErr s) = s"
| "exn_text (RedisErr s) = s"
| "exn_text (ResponseErr s) = s"
| "exn_text (HttpErr n s) = show_int n @ '': '' @ s"
| "exn_text (RuntimeErr s) = s"
| "exn_text (ValueErr s) = s"
| "exn_text (TypeErr s) = s"
| "exn_text (KeyErr s) = [CHR 0x27] @ s @ [CHR 0x27]"
| "exn_text (OtherErr s) = s"

fun is_exception :: "exn \<Rightarrow> bool" where
  "is_exception Exit = False"
| "is_exception Cancelled = False"
| "is_exception _ = True"

fun is_redis_error :: "exn \<Rightarrow> bool" where
  "is_redis_error (RedisErr _) = True"
| "is_redis_error (ResponseErr _) = True"
| "is_redis_error _ = False"

fun is_timeout :: "exn \<Rightarrow> bool" where
  "is_timeout (TimeoutErr _) = True"
| "is_timeout _ = False"

type_synonym ('s, 'a) py = "(exn, 's, 'a) eff"

text \<open>\<open>try_except m h\<close>: \<open>h e = None\<close> means that no \<open>except\<close> clause matches \<open>e\<close>.\<close>

definition try_except :: "('s, 'a) py \<Rightarrow> (exn \<Rightarrow> ('s, 'a) py option) \<Rightarrow> ('s, 'a) py" where
  "try_except m h = (\<lambda>s. case m s of
     (Inl e, s') \<Rightarrow> (case h e of Some k \<Rightarrow> k s' | None \<Rightarrow> (Inl e, s'))
   | (Inr x, s') \<Rightarrow> (Inr x, s'))"

declare try_except_def [eff_simps]

lemma try_except_ret [simp]: "try_except (ret x) h = ret x"
  by (simp add: eff_simps)

section \<open>Texts\<close>

fun contains :: "string \<Rightarrow> string \<Rightarrow> bool" where
  "contains p [] \<longleftrightarrow> p = []"
| "contains p (c # s) \<longleftrightarrow> take (length p) (c # s) = p \<or> contains p s"

lemma contains_append: "contains p (a @ p @ b)"
proof (induction a)
  case Nil
  have "take (length p) (p @ b) = p" by simp
  then show ?case by (cases "p @ b") (auto simp del: take_append)
qed simp

definition lower_char :: "char \<Rightarrow> char" where
  "lower_char c = (let v = of_char c in if 65 \<le> v \<and> v \<le> (90::nat) then char_of (v + 32) else c)"

definition lower :: "string \<Rightarrow> string" where
  "lower s = map lower_char s"

text \<open>\<open>s.split(":", 1)\<close>: one or two parts.\<close>

fun split_colon :: "string \<Rightarrow> string \<times> string option" where
  "split_colon [] = ([], None)"
| "split_colon (c # s) = (if c = CHR '':'' then ([], Some s)
     else (case split_colon s of (a, b) \<Rightarrow> (c # a, b)))"

lemma split_colon_append: "CHR '':'' \<notin> set a \<Longrightarrow> split_colon (a @ CHR '':'' # b) = (a, Some b)"
  by (induction a) auto

section \<open>Conversions\<close>

text \<open>
  \<open>repr(v)\<close> of a text: in single quotes, unless it holds one and no double quote; the quote, the backslash and what
  does not print are escaped.
\<close>

definition repr_char :: "char \<Rightarrow> char \<Rightarrow> string" where
  "repr_char q c = (let n = of_char c :: nat; hex = \<lambda>k. char_of (if k < 10 then 48 + k else 87 + k) in
     if c = q \<or> n = 92 then [CHR 0x5C, c]
     else if n = 10 then [CHR 0x5C, CHR ''n''] else if n = 13 then [CHR 0x5C, CHR ''r''] else if n = 9 then [CHR 0x5C, CHR ''t'']
     else if n < 32 \<or> 127 \<le> n \<and> n \<le> 160 \<or> n = 173 then [CHR 0x5C, CHR ''x'', hex (n div 16), hex (n mod 16)]
     else [c])"

definition repr_text :: "string \<Rightarrow> string" where
  "repr_text s = (let q = (if CHR 0x27 \<in> set s \<and> CHR 0x22 \<notin> set s then CHR 0x22 else CHR 0x27) in
     q # concat (map (repr_char q) s) @ [q])"

text \<open>\<open>', '.join(ts)\<close>, and \<open>repr(v)\<close>; \<open>None\<close> where a float or a serialised text, whose characters are not modelled, occurs in \<open>v\<close>.\<close>

fun comma_join :: "string list \<Rightarrow> string" where
  "comma_join [] = []"
| "comma_join [t] = t"
| "comma_join (t # ts) = t @ '', '' @ comma_join ts"

fun py_repr :: "pyval \<Rightarrow> string option" and reprs :: "pyval list \<Rightarrow> string list option" and
    entry_reprs :: "(string \<times> pyval) list \<Rightarrow> string list option" where
  "py_repr PNone = Some ''None''"
| "py_repr (PBool b) = Some (if b then ''True'' else ''False'')"
| "py_repr (PInt n) = Some (show_int n)"
| "py_repr (PFloat r) = None"
| "py_repr (PStr (Text s)) = Some (repr_text s)"
| "py_repr (PStr (Json _)) = None"
| "py_repr (PList vs) = (case reprs vs of None \<Rightarrow> None | Some ts \<Rightarrow> Some (CHR ''['' # comma_join ts @ '']''))"
| "py_repr (PDict d) = (case entry_reprs d of None \<Rightarrow> None | Some ts \<Rightarrow> Some (CHR ''{'' # comma_join ts @ ''}''))"
| "reprs [] = Some []"
| "reprs (v # vs) = (case (py_repr v, reprs vs) of (Some t, Some ts) \<Rightarrow> Some (t # ts) | _ \<Rightarrow> None)"
| "entry_reprs [] = Some []"
| "entry_reprs ((k, v) # d) = (case (py_repr v, entry_reprs d) of
     (Some t, Some ts) \<Rightarrow> Some ((repr_text k @ '': '' @ t) # ts) | _ \<Rightarrow> None)"

text \<open>
  \<open>str(v)\<close> and \<open>json.dumps(v)\<close>. The text of a float is the same under both; it stays opaque, and so \<open>str\<close> of a list or
  a dictionary that contains one has no text here and raises.
\<close>

fun py_str :: "pyval \<Rightarrow> exn + rtext" where
  "py_str PNone = Inr (Text ''None'')"
| "py_str (PBool b) = Inr (Text (if b then ''True'' else ''False''))"
| "py_str (PInt n) = Inr (Text (show_int n))"
| "py_str (PFloat r) = Inr (Json (PFloat r))"
| "py_str (PStr t) = Inr t"
| "py_str (PList vs) = (case py_repr (PList vs) of Some t \<Rightarrow> Inr (Text t) | None \<Rightarrow> Inl (TypeErr ''the text of a float is not modelled''))"
| "py_str (PDict d) = (case py_repr (PDict d) of Some t \<Rightarrow> Inr (Text t) | None \<Rightarrow> Inl (TypeErr ''the text of a float is not modelled''))"

fun json_dumps :: "pyval \<Rightarrow> rtext" where
  "json_dumps (PInt n) = Text (show_int n)"
| "json_dumps v = Json v"

fun json_loads :: "rtext \<Rightarrow> exn + pyval" where
  "json_loads (Json v) = Inr v"
| "json_loads (Text s) = (case parse_int s of
     Some n \<Rightarrow> Inr (PInt n) | None \<Rightarrow> Inl (ValueErr ''Expecting value''))"

lemma json_loads_dumps [simp, text_simps]: "json_loads (json_dumps v) = Inr v"
  by (cases v) auto

text \<open>\<open>int(v)\<close>; a float is truncated towards zero.\<close>

fun py_int :: "pyval \<Rightarrow> exn + int" where
  "py_int (PInt n) = Inr n"
| "py_int (PBool b) = Inr (if b then 1 else 0)"
| "py_int (PFloat r) = Inr (if 0 \<le> r then \<lfloor>r\<rfloor> else \<lceil>r\<rceil>)"
| "py_int (PStr (Text s)) = (case parse_int s of
     Some n \<Rightarrow> Inr n | None \<Rightarrow> Inl (ValueErr ''invalid literal for int() with base 10''))"
| "py_int (PStr (Json _)) = Inl (ValueErr ''invalid literal for int() with base 10'')"
| "py_int _ = Inl (TypeErr ''int() argument must be a string, a bytes-like object or a real number'')"

fun py_float :: "pyval \<Rightarrow> exn + rat" where
  "py_float (PFloat r) = Inr r"
| "py_float (PInt n) = Inr (of_int n)"
| "py_float (PBool b) = Inr (if b then 1 else 0)"
| "py_float (PStr (Json (PFloat r))) = Inr r"
| "py_float (PStr (Text s)) = (case parse_int s of
     Some n \<Rightarrow> Inr (of_int n) | None \<Rightarrow> Inl (ValueErr ''could not convert string to float''))"
| "py_float (PStr (Json _)) = Inl (ValueErr ''could not convert string to float'')"
| "py_float _ = Inl (TypeErr ''float() argument must be a string or a real number'')"

text \<open>A value interpolated into a key or a message by an f-string.\<close>

definition py_format :: "pyval \<Rightarrow> exn + string" where
  "py_format v = (case py_str v of
     Inr (Text s) \<Rightarrow> Inr s
   | Inr (Json _) \<Rightarrow> Inl (TypeErr ''format of a serialised value'')
   | Inl e \<Rightarrow> Inl e)"

lemma py_format_simps [simp]: "py_format (Str s) = Inr s" "py_format (PInt n) = Inr (show_int n)"
  by (simp_all add: py_format_def)

text \<open>\<open>for x in v\<close> and \<open>a, b = v\<close> on a JSON value.\<close>

fun py_iter :: "pyval \<Rightarrow> exn + pyval list" where
  "py_iter (PList vs) = Inr vs"
| "py_iter (PDict d) = Inr (map (\<lambda>(k, _). Str k) d)"
| "py_iter (PStr (Text s)) = Inr (map (\<lambda>c. Str [c]) s)"
| "py_iter _ = Inl (TypeErr ''object is not iterable'')"

definition unpack2 :: "pyval \<Rightarrow> exn + (pyval \<times> pyval)" where
  "unpack2 v = (case py_iter v of
     Inl e \<Rightarrow> Inl (TypeErr ''cannot unpack non-iterable object'')
   | Inr [a, b] \<Rightarrow> Inr (a, b)
   | Inr _ \<Rightarrow> Inl (ValueErr ''wrong number of values to unpack''))"

fun map_sum_list :: "('a \<Rightarrow> 'e + 'b) \<Rightarrow> 'a list \<Rightarrow> 'e + 'b list" where
  "map_sum_list f [] = Inr []"
| "map_sum_list f (x # xs) = (case f x of Inl e \<Rightarrow> Inl e
     | Inr y \<Rightarrow> (case map_sum_list f xs of Inl e \<Rightarrow> Inl e | Inr ys \<Rightarrow> Inr (y # ys)))"

lemma map_sum_list_Inr: "(\<And>x. x \<in> set xs \<Longrightarrow> f x = Inr (g x)) \<Longrightarrow> map_sum_list f xs = Inr (map g xs)"
  by (induction xs) auto

text \<open>\<open>v[k]\<close> and \<open>v.get(k, d)\<close> where \<open>v\<close> is expected to be a dictionary.\<close>

definition py_item :: "pyval \<Rightarrow> string \<Rightarrow> exn + pyval" where
  "py_item v k = (case v of
     PDict d \<Rightarrow> (case map_of d k of Some x \<Rightarrow> Inr x | None \<Rightarrow> Inl (KeyErr k))
   | _ \<Rightarrow> Inl (TypeErr ''object is not subscriptable''))"

definition py_get :: "pyval \<Rightarrow> string \<Rightarrow> pyval \<Rightarrow> exn + pyval" where
  "py_get v k dflt = (case v of
     PDict d \<Rightarrow> Inr (dict_get d k dflt)
   | _ \<Rightarrow> Inl (OtherErr ''object has no attribute get''))"

text \<open>\<open>isinstance(v, dict) and v.get(k) == x\<close>\<close>

definition dict_has :: "pyval \<Rightarrow> string \<Rightarrow> string \<Rightarrow> bool" where
  "dict_has v k x = (case v of PDict d \<Rightarrow> dict_get d k PNone = Str x | _ \<Rightarrow> False)"

end
