(* ===== verification/Client.thy ===== *)
theory Client
  imports Redis Python
begin

text \<open>
  The Redis client of a process (\<open>redis.asyncio\<close>), and the clock of its event loop. The client
  is configured without internal retries (\<open>common/config.py\<close>), so every call is one round trip.
  How the coming round trips fare is part of the state, so that every network behaviour is
  covered by quantifying over it.
\<close>

section \<open>Round trips\<close>

text \<open>
  \<open>Broken k\<close>: the connection fails after the server has run the first \<open>k\<close> commands of the
  request; the client raises \<open>RedisError\<close> either way. A script or a transaction is one command.
\<close>

datatype fate = Answered | Broken nat

record trip =
  t_fate :: fate
  t_took :: rat
  t_error :: string

record conn =
  c_db :: keyspace
  c_replica :: "keyspace option"
  c_trips :: "trip list"
  c_clock :: rat

text \<open>
  A client: the server behind it, and the text the client library gives an error reply. Both are
  code outside the repository.
\<close>

record redis_client =
  cl_rc :: redis
  cl_err :: "rerr \<Rightarrow> string"

definition next_trip :: "trip list \<Rightarrow> trip" where
  "next_trip ts = (case ts of [] \<Rightarrow> \<lparr>t_fate = Answered, t_took = 0, t_error = []\<rparr> | t # _ \<Rightarrow> t)"

definition after_trip :: "'b conn_scheme \<Rightarrow> 'b conn_scheme" where
  "after_trip st = st\<lparr>c_trips := tl (c_trips st), c_clock := c_clock st + t_took (next_trip (c_trips st))\<rparr>"

text \<open>One call of a script or a command.\<close>

definition redis_call :: "redis_client \<Rightarrow> 'a script \<Rightarrow> ('b conn_scheme, 'a) py" where
  "redis_call cl sc = (\<lambda>st. let t = next_trip (c_trips st); st' = after_trip st in
     case t_fate t of
       Answered \<Rightarrow> (case sc (c_db st) of
           (Inr x, d) \<Rightarrow> (Inr x, st'\<lparr>c_db := d\<rparr>)
         | (Inl e, d) \<Rightarrow> (Inl (ResponseErr (cl_err cl e)), st'\<lparr>c_db := d\<rparr>))
     | Broken 0 \<Rightarrow> (Inl (RedisErr (t_error t)), st')
     | Broken (Suc _) \<Rightarrow> (Inl (RedisErr (t_error t)), st'\<lparr>c_db := snd (sc (c_db st))\<rparr>))"

text \<open>A read on the replica.\<close>

definition replica_call :: "redis_client \<Rightarrow> 'a script \<Rightarrow> keyspace \<Rightarrow> ('b conn_scheme, 'a) py" where
  "replica_call cl sc d = (\<lambda>st. let t = next_trip (c_trips st); st' = after_trip st in
     case t_fate t of
       Answered \<Rightarrow> (case sc d of
           (Inr x, _) \<Rightarrow> (Inr x, st')
         | (Inl e, _) \<Rightarrow> (Inl (ResponseErr (cl_err cl e)), st'))
     | Broken _ \<Rightarrow> (Inl (RedisErr (t_error t)), st'))"

text \<open>
  A pipeline runs every command, also after one answered an error; then \<open>execute\<close> raises the
  first error. A transaction is not rolled back either.
\<close>

fun run_cmds :: "redis \<Rightarrow> cmd list \<Rightarrow> keyspace \<Rightarrow> (rerr + reply) list \<times> keyspace" where
  "run_cmds rc [] d = ([], d)"
| "run_cmds rc (c # cs) d = (case rc c d of (r, d1) \<Rightarrow> (case run_cmds rc cs d1 of (rs, d2) \<Rightarrow> (r # rs, d2)))"

fun first_error :: "(rerr + reply) list \<Rightarrow> rerr + reply list" where
  "first_error [] = Inr []"
| "first_error (Inl e # rs) = Inl e"
| "first_error (Inr r # rs) = (case first_error rs of Inl e \<Rightarrow> Inl e | Inr xs \<Rightarrow> Inr (r # xs))"

definition pipeline :: "redis_client \<Rightarrow> bool \<Rightarrow> cmd list \<Rightarrow> ('b conn_scheme, reply list) py" where
  "pipeline cl transaction cs = (\<lambda>st. let t = next_trip (c_trips st); st' = after_trip st in
     case t_fate t of
       Answered \<Rightarrow> (case run_cmds (cl_rc cl) cs (c_db st) of (rs, d) \<Rightarrow>
         ((case first_error rs of Inl e \<Rightarrow> Inl (ResponseErr (cl_err cl e)) | Inr xs \<Rightarrow> Inr xs),
          st'\<lparr>c_db := d\<rparr>))
     | Broken k \<Rightarrow> (Inl (RedisErr (t_error t)),
         st'\<lparr>c_db := snd (run_cmds (cl_rc cl)
             (if transaction then (if k = 0 then [] else cs) else take k cs) (c_db st))\<rparr>))"

text \<open>Pairs of a flat \<open>HGETALL\<close> reply, as \<open>redis-py\<close> returns a dictionary.\<close>

fun pairs_of :: "rtext list \<Rightarrow> (string \<times> rtext) list" where
  "pairs_of (Text f # v # rest) = (f, v) # pairs_of rest"
| "pairs_of _ = []"

definition hgetall :: "redis \<Rightarrow> string \<Rightarrow> (string \<times> rtext) list script" where
  "hgetall rc k = bindE (rc (HGETALL k)) (\<lambda>r. ret (case r of Arr l \<Rightarrow> pairs_of l | _ \<Rightarrow> []))"

text \<open>\<open>int(entry[f])\<close>\<close>

definition int_entry :: "(string \<times> rtext) list \<Rightarrow> string \<Rightarrow> exn + int" where
  "int_entry e f = (case map_of e f of Some t \<Rightarrow> py_int (PStr t) | None \<Rightarrow> Inl (KeyErr f))"

lemma pairs_of_flat [simp]: "pairs_of (flat h) = h"
  by (induction h) (auto simp: flat_def)

section \<open>Time\<close>

definition monotonic :: "('b conn_scheme, rat) py" where
  "monotonic = (\<lambda>st. (Inr (c_clock st), st))"

definition async_sleep :: "rat \<Rightarrow> ('b conn_scheme, unit) py" where
  "async_sleep d = (\<lambda>st. (Inr (), st\<lparr>c_clock := c_clock st + (if 0 < d then d else 0)\<rparr>))"

section \<open>A connection that works\<close>

definition online :: "'b conn_scheme \<Rightarrow> bool" where
  "online st \<longleftrightarrow> list_all (\<lambda>t. t_fate t = Answered) (c_trips st)"

lemma online_next: "online st \<Longrightarrow> t_fate (next_trip (c_trips st)) = Answered"
  by (auto simp: online_def next_trip_def split: list.splits)

lemma after_trip_simps [simp]:
  "c_db (after_trip st) = c_db st" "c_replica (after_trip st) = c_replica st"
  "online st \<Longrightarrow> online (after_trip st)"
  by (auto simp: after_trip_def online_def list_all_iff dest: list.set_sel(2) split: list.splits)
    (metis list.set_sel(2) tl_Nil empty_iff list.set(1))

lemma online_update_db [simp]: "online (st\<lparr>c_db := d\<rparr>) = online st"
  by (simp add: online_def)

lemma redis_call_online:
  assumes "online st" "sc (c_db st) = (Inr x, d)"
  shows "redis_call cl sc st = (Inr x, (after_trip st)\<lparr>c_db := d\<rparr>)"
  using assms by (simp add: redis_call_def online_next Let_def)

lemma redis_call_error:
  assumes "online st" "sc (c_db st) = (Inl e, d)"
  shows "redis_call cl sc st = (Inl (ResponseErr (cl_err cl e)), (after_trip st)\<lparr>c_db := d\<rparr>)"
  using assms by (simp add: redis_call_def online_next Let_def)

text \<open>Whatever happens to the round trip, the database is either untouched or the script ran once.\<close>

lemma redis_call_cases:
  "c_db (snd (redis_call cl sc st)) = c_db st \<and> is_redis_error (projl (fst (redis_call cl sc st))) \<and>
     isl (fst (redis_call cl sc st)) \<or>
   c_db (snd (redis_call cl sc st)) = snd (sc (c_db st)) \<and>
     (fst (redis_call cl sc st) = Inr (projr (fst (sc (c_db st)))) \<and> \<not> isl (fst (sc (c_db st))) \<or>
      isl (fst (redis_call cl sc st)) \<and> is_redis_error (projl (fst (redis_call cl sc st))))"
  by (auto simp: redis_call_def Let_def split: fate.splits nat.splits sum.splits prod.splits)

end
