(* ===== verification/Breaker.thy ===== *)
theory Breaker
  imports Python
begin

text \<open>
  \<open>CircuitBreaker\<close> of \<open>orchestrator/executor.py\<close>: one per downstream service. \<open>now\<close> is the value
  \<open>time.monotonic()\<close> returns.
\<close>

section \<open>State and operations\<close>

datatype breaker_state = Closed | Open | HalfOpen

record breaker =
  failure_threshold :: int
  recovery_timeout :: rat
  failure_count :: int
  last_failure_time :: "rat option"
  breaker_state :: breaker_state
  probe_in_flight :: bool

definition new_breaker :: "int \<Rightarrow> rat \<Rightarrow> breaker" where
  "new_breaker threshold timeout = \<lparr>failure_threshold = threshold, recovery_timeout = timeout,
     failure_count = 0, last_failure_time = None, breaker_state = Closed, probe_in_flight = False\<rparr>"

definition record_failure :: "rat \<Rightarrow> breaker \<Rightarrow> breaker" where
  "record_failure now b = (let b1 = b\<lparr>failure_count := failure_count b + 1,
       last_failure_time := Some now, probe_in_flight := False\<rparr> in
     if breaker_state b1 = HalfOpen \<or> failure_threshold b1 \<le> failure_count b1
     then b1\<lparr>breaker_state := Open\<rparr> else b1)"

definition record_success :: "breaker \<Rightarrow> breaker" where
  "record_success b = b\<lparr>failure_count := 0, breaker_state := Closed, probe_in_flight := False\<rparr>"

text \<open>\<open>is_open\<close> is not a pure test: it may admit a probe, and then remembers it.\<close>

definition is_open :: "rat \<Rightarrow> breaker \<Rightarrow> bool \<times> breaker" where
  "is_open now b = (case breaker_state b of
     Closed \<Rightarrow> (False, b)
   | Open \<Rightarrow>
       (let elapsed = now - (case last_failure_time b of Some t \<Rightarrow> t | None \<Rightarrow> 0) in
        if recovery_timeout b \<le> elapsed
        then (let b1 = b\<lparr>breaker_state := HalfOpen\<rparr> in
          if \<not> probe_in_flight b1 then (False, b1\<lparr>probe_in_flight := True\<rparr>) else (True, b1))
        else (True, b))
   | HalfOpen \<Rightarrow> if \<not> probe_in_flight b then (False, b\<lparr>probe_in_flight := True\<rparr>) else (True, b))"

section \<open>The breaker as a state machine\<close>

text \<open>What its users do to a breaker: report a failure or a success at some time, or ask.\<close>

datatype breaker_event = Failure rat | Success | Ask rat bool  \<comment> \<open>the answer of \<open>is_open\<close>\<close>

inductive breaker_step :: "breaker \<Rightarrow> breaker_event \<Rightarrow> breaker \<Rightarrow> bool" where
  failure: "breaker_step b (Failure now) (record_failure now b)"
| success: "breaker_step b Success (record_success b)"
| ask: "is_open now b = (r, b') \<Longrightarrow> breaker_step b (Ask now r) b'"

inductive_simps breaker_step_simps [simp]:
  "breaker_step b (Failure now) b'" "breaker_step b Success b'" "breaker_step b (Ask now r) b'"

inductive breaker_run :: "breaker \<Rightarrow> breaker_event list \<Rightarrow> breaker \<Rightarrow> bool" where
  stop: "breaker_run b [] b"
| step: "breaker_step b e b1 \<Longrightarrow> breaker_run b1 es b' \<Longrightarrow> breaker_run b (e # es) b'"

inductive_simps breaker_run_simps: "breaker_run b [] b'" "breaker_run b (e # es) b'"

fun is_ask :: "breaker_event \<Rightarrow> bool" where
  "is_ask (Ask t r) = True"
| "is_ask _ = False"

lemma is_ask_iff: "is_ask e \<longleftrightarrow> (\<exists>t r. e = Ask t r)"
  by (cases e) auto

text \<open>
  A closed breaker is below its threshold and has no probe; an open one has a failure time; only a
  half-open one has a probe in flight.
\<close>

definition breaker_inv :: "breaker \<Rightarrow> bool" where
  "breaker_inv b \<longleftrightarrow> 0 \<le> failure_count b \<and>
     (breaker_state b = Closed \<longrightarrow> failure_count b < failure_threshold b) \<and>
     (breaker_state b = Open \<longrightarrow> last_failure_time b \<noteq> None) \<and>
     (probe_in_flight b \<longrightarrow> breaker_state b = HalfOpen)"

lemma is_open_config:
  "is_open now b = (r, b') \<Longrightarrow> failure_threshold b' = failure_threshold b \<and>
     recovery_timeout b' = recovery_timeout b \<and> failure_count b' = failure_count b \<and>
     last_failure_time b' = last_failure_time b"
  by (auto simp: is_open_def Let_def split: breaker_state.splits if_splits)

lemma breaker_step_inv:
  assumes "breaker_step b e b'" "breaker_inv b" "0 < failure_threshold b"
  shows "breaker_inv b' \<and> failure_threshold b' = failure_threshold b"
  using assms
  by (cases rule: breaker_step.cases)
    (auto simp: breaker_inv_def record_failure_def record_success_def is_open_def Let_def
      split: breaker_state.splits if_splits)

lemma breaker_run_inv:
  assumes "breaker_run b es b'" "breaker_inv b" "0 < failure_threshold b"
  shows "breaker_inv b'"
  using assms
  by (induction rule: breaker_run.induct) (auto dest: breaker_step_inv)

lemma new_breaker_inv: "0 < n \<Longrightarrow> breaker_inv (new_breaker n t)"
  by (simp add: breaker_inv_def new_breaker_def)

text \<open>How many callers a run of events lets through.\<close>

definition admitted :: "breaker_event list \<Rightarrow> nat" where
  "admitted es = length (filter (\<lambda>e. case e of Ask _ r \<Rightarrow> \<not> r | _ \<Rightarrow> False) es)"

lemma admitted_simps [simp]:
  "admitted [] = 0" "admitted (Failure t # es) = admitted es" "admitted (Success # es) = admitted es"
  "admitted (Ask t r # es) = (if r then 0 else 1) + admitted es"
  by (simp_all add: admitted_def)

text \<open>While a probe is in flight nobody else is let through, however long it takes.\<close>

lemma probe_blocks:
  "breaker_run b es b' \<Longrightarrow> breaker_state b = HalfOpen \<Longrightarrow> probe_in_flight b \<Longrightarrow>
     \<forall>e \<in> set es. \<exists>t r. e = Ask t r \<Longrightarrow> b' = b \<and> admitted es = 0"
proof (induction rule: breaker_run.induct)
  case (step b e b1 es b')
  then obtain t r where e: "e = Ask t r" by auto
  with step have "b1 = b \<and> r" by (auto simp: is_open_def)
  with step e show ?case by auto
qed simp

lemma single_probe_asks:
  "breaker_run b es b' \<Longrightarrow> breaker_state b \<noteq> Closed \<Longrightarrow> breaker_inv b \<Longrightarrow> 0 < failure_threshold b \<Longrightarrow>
     \<forall>e \<in> set es. \<exists>t r. e = Ask t r \<Longrightarrow> admitted es \<le> 1"
proof (induction rule: breaker_run.induct)
  case (step b e b1 es b')
  then obtain t r where e: "e = Ask t r" by auto
  then have o: "is_open t b = (r, b1)" using step.hyps(1) by simp
  have inv: "breaker_inv b1 \<and> 0 < failure_threshold b1"
    using breaker_step_inv [OF step.hyps(1)] step.prems by simp
  show ?case
  proof (cases r)
    case True
    with o step.prems(1) have "breaker_state b1 \<noteq> Closed"
      by (auto simp: is_open_def Let_def split: breaker_state.splits if_splits)
    with step inv e True show ?thesis by auto
  next
    case False
    with o step.prems(1) have "breaker_state b1 = HalfOpen \<and> probe_in_flight b1"
      by (auto simp: is_open_def Let_def split: breaker_state.splits if_splits)
    with probe_blocks [OF step.hyps(2)] step.prems(4) e False show ?thesis by auto
  qed
qed simp

text \<open>Consecutive failures of a closed breaker.\<close>

definition fail_all :: "rat list \<Rightarrow> breaker \<Rightarrow> breaker" where
  "fail_all ts b = fold record_failure ts b"

lemma fail_all_count:
  "breaker_inv b \<Longrightarrow> 0 < failure_threshold b \<Longrightarrow> failure_count (fail_all ts b) = failure_count b + int (length ts) \<and>
     failure_threshold (fail_all ts b) = failure_threshold b \<and> recovery_timeout (fail_all ts b) = recovery_timeout b \<and>
     breaker_inv (fail_all ts b) \<and> (ts \<noteq> [] \<longrightarrow> last_failure_time (fail_all ts b) = Some (last ts))"
proof (induction ts arbitrary: b)
  case (Cons t ts)
  have inv: "breaker_inv (record_failure t b)" using breaker_step_inv [of b "Failure t"] Cons.prems by simp
  have "failure_count (record_failure t b) = failure_count b + 1"
    "failure_threshold (record_failure t b) = failure_threshold b" "recovery_timeout (record_failure t b) = recovery_timeout b"
    "last_failure_time (record_failure t b) = Some t"
    by (simp_all add: record_failure_def Let_def)
  with Cons.IH [OF inv] Cons.prems(2) show ?case by (auto simp: fail_all_def)
qed (simp add: fail_all_def)

lemma fail_all_state:
  "breaker_state b = Closed \<Longrightarrow> failure_count b < failure_threshold b \<Longrightarrow>
     breaker_state (fail_all ts b) = (if failure_threshold b \<le> failure_count b + int (length ts) \<and> ts \<noteq> [] then Open else Closed)"
proof (induction ts arbitrary: b rule: rev_induct)
  case (snoc t ts)
  have e: "fail_all (ts @ [t]) b = record_failure t (fail_all ts b)" by (simp add: fail_all_def)
  have c: "failure_count (fail_all ts b) = failure_count b + int (length ts) \<and>
      failure_threshold (fail_all ts b) = failure_threshold b"
    unfolding fail_all_def by (induction ts arbitrary: b) (auto simp: record_failure_def Let_def)
  show ?case
    unfolding e using snoc c by (auto simp: record_failure_def Let_def split: if_splits)
qed (simp add: fail_all_def)

section \<open>Properties\<close>

text \<open>C27 (functional). A fresh breaker with threshold \<open>n\<close> answers "closed" until it has seen \<open>n\<close>
  consecutive failures; from then on it answers "open" for the whole recovery timeout after the
  last failure, and then lets one caller through.\<close>

theorem breaker_opens:
  assumes "0 < n" and "ts \<noteq> []"
  shows "fst (is_open now (fail_all ts (new_breaker n t))) \<longleftrightarrow> n \<le> int (length ts) \<and> now - last ts < t"
proof -
  let ?b = "fail_all ts (new_breaker n t)"
  have c: "last_failure_time ?b = Some (last ts)" "recovery_timeout ?b = t" "breaker_inv ?b"
    using fail_all_count [OF new_breaker_inv [OF assms(1)], of t ts] assms by (auto simp: new_breaker_def)
  have s: "breaker_state ?b = (if n \<le> int (length ts) then Open else Closed)"
    using fail_all_state [of "new_breaker n t" ts] assms by (simp add: new_breaker_def)
  with c show ?thesis by (auto simp: is_open_def Let_def breaker_inv_def)
qed

theorem breaker_opens_witness:
  "fst (is_open 33 (fail_all [1, 2, 3, 4, 5] (new_breaker 5 30))) \<and>
   \<not> fst (is_open 36 (fail_all [1, 2, 3, 4, 5] (new_breaker 5 30)))"
  by (simp add: breaker_opens)

text \<open>C28 (safety). While a breaker that opened gets no report, at most one of the callers that ask
  it is let through, however many ask and however late.\<close>

theorem breaker_single_probe:
  assumes "0 < n" and "breaker_run (new_breaker n t) es b" and "breaker_state b \<noteq> Closed"
    and "breaker_run b asks b'" and "list_all is_ask asks"
  shows "admitted asks \<le> 1"
proof (rule single_probe_asks [OF assms(4,3)])
  have thr: "failure_threshold b' = failure_threshold b" if "breaker_run b es b'" for b es b'
    using that by (induction rule: breaker_run.induct)
      (auto elim!: breaker_step.cases simp: record_failure_def record_success_def Let_def dest: is_open_config)
  show "breaker_inv b" using breaker_run_inv [OF assms(2) new_breaker_inv [OF assms(1)]] assms(1) by (simp add: new_breaker_def)
  show "0 < failure_threshold b" using thr [OF assms(2)] assms(1) by (simp add: new_breaker_def)
  show "\<forall>e \<in> set asks. \<exists>t r. e = Ask t r"
    using assms(5) by (simp add: list_all_iff is_ask_iff)
qed

theorem breaker_single_probe_witness:
  "admitted [Ask 40 False, Ask 41 True, Ask 90 True] \<le> 1"
proof -
  let ?fresh = "new_breaker 1 30" and ?b = "record_failure 5 (new_breaker 1 30)"
  have "breaker_run ?fresh [Failure 5] ?b" by (rule breaker_run.step [OF breaker_step.failure breaker_run.stop])
  moreover have "breaker_run ?b [Ask 40 False, Ask 41 True, Ask 90 True]
      (?b\<lparr>breaker_state := HalfOpen, probe_in_flight := True\<rparr>)"
    by (simp add: breaker_run_simps is_open_def record_failure_def new_breaker_def Let_def)
  moreover have "breaker_state ?b \<noteq> Closed" by (simp add: record_failure_def new_breaker_def)
  ultimately show ?thesis
    using breaker_single_probe [of 1 30 "[Failure 5]" ?b "[Ask 40 False, Ask 41 True, Ask 90 True]"] by simp
qed

end
