(* ===== verification/Metrics.thy ===== *)
theory Metrics
  imports Python
begin

text \<open>
  \<open>orchestrator/metrics.py\<close>: the fixed-bucket latency histogram and the sliding window of
  transaction results that drives the choice of protocol. Durations are rational numbers.
\<close>

section \<open>Number formats\<close>

text \<open>\<open>f"{r:.kf}"\<close>: \<open>k\<close> decimals, ties to even; and \<open>str\<close> of a float with at most three decimals.\<close>

definition round_half_even :: "rat \<Rightarrow> int" where
  "round_half_even r = (let f = \<lfloor>r\<rfloor>; d = r - of_int f in
     if d < 1 / 2 \<or> d = 1 / 2 \<and> even f then f else f + 1)"

fun pad_left :: "nat \<Rightarrow> string \<Rightarrow> string" where
  "pad_left n s = replicate (n - length s) (CHR ''0'') @ s"

definition show_fixed :: "nat \<Rightarrow> rat \<Rightarrow> string" where
  "show_fixed k r = (let n = round_half_even (r * 10 ^ k); m = nat \<bar>n\<bar> in
     (if r < 0 then ''-'' else []) @ show_nat (m div 10 ^ k) @ ''.'' @ pad_left k (show_nat (m mod 10 ^ k)))"

definition show_millis :: "rat \<Rightarrow> string" where
  "show_millis r = (let s = rev (show_fixed 3 r); t = dropWhile (\<lambda>c. c = CHR ''0'') s in
     rev (if t \<noteq> [] \<and> hd t = CHR ''.'' then CHR ''0'' # t else t))"

section \<open>The latency histogram\<close>

definition BUCKETS_MS :: "int list" where
  "BUCKETS_MS = [5, 10, 25, 50, 100, 250, 500, 1000, 2500, 5000, 10000]"

record hist =
  h_counts :: "(int \<times> nat) list"
  h_overflow :: nat
  h_sum_ms :: rat
  h_total :: nat

definition new_hist :: hist where
  "new_hist = \<lparr>h_counts = map (\<lambda>b. (b, 0)) BUCKETS_MS, h_overflow = 0, h_sum_ms = 0, h_total = 0\<rparr>"

definition observe :: "rat \<Rightarrow> hist \<Rightarrow> hist" where
  "observe duration_seconds h = (let ms = duration_seconds * 1000;
       h' = h\<lparr>h_sum_ms := h_sum_ms h + ms, h_total := h_total h + 1\<rparr> in
     case find (\<lambda>bucket. ms \<le> of_int bucket) BUCKETS_MS of
       Some bucket \<Rightarrow> h'\<lparr>h_counts := AList.update bucket (dict_get (h_counts h) bucket 0 + 1) (h_counts h)\<rparr>
     | None \<Rightarrow> h'\<lparr>h_overflow := h_overflow h + 1\<rparr>)"

fun percentile_loop :: "rat \<Rightarrow> nat \<Rightarrow> (int \<times> nat) list \<Rightarrow> rat option" where
  "percentile_loop target cumulative [] = None"
| "percentile_loop target cumulative ((bucket_ms, count) # rest) =
     (if target \<le> of_nat (cumulative + count) then Some (of_int bucket_ms)
      else percentile_loop target (cumulative + count) rest)"

definition hist_percentile :: "rat \<Rightarrow> hist \<Rightarrow> rat" where
  "hist_percentile p h = (if h_total h = 0 then 5000
     else (case percentile_loop (of_nat (h_total h) * (p / 100)) 0 (h_counts h) of
       Some b \<Rightarrow> b | None \<Rightarrow> of_int (last BUCKETS_MS)))"

fun bucket_lines :: "string \<Rightarrow> string \<Rightarrow> nat \<Rightarrow> (int \<times> nat) list \<Rightarrow> string list" where
  "bucket_lines metric_name labels cumulative [] = []"
| "bucket_lines metric_name labels cumulative ((bucket_ms, count) # rest) =
     (metric_name @ ''_bucket{'' @ (if labels \<noteq> [] then labels @ '','' else []) @ ''le='' @ [CHR 0x22] @
        show_millis (of_int bucket_ms / 1000) @ [CHR 0x22] @ ''} '' @ show_nat (cumulative + count))
     # bucket_lines metric_name labels (cumulative + count) rest"

definition prometheus_lines :: "string \<Rightarrow> string \<Rightarrow> hist \<Rightarrow> string list" where
  "prometheus_lines metric_name labels h =
    (let total = sum_list (map snd (h_counts h)) + h_overflow h; q = [CHR 0x22];
         lbl = (if labels \<noteq> [] then ''{'' @ labels @ ''}'' else []) in
     bucket_lines metric_name labels 0 (h_counts h) @
     [metric_name @ ''_bucket{'' @ (if labels \<noteq> [] then labels @ '','' else []) @ ''le='' @ q @ ''+Inf'' @ q @ ''} ''
        @ show_nat total,
      metric_name @ ''_sum'' @ lbl @ '' '' @ show_fixed 6 (h_sum_ms h / 1000),
      metric_name @ ''_count'' @ lbl @ '' '' @ show_nat total])"

subsection \<open>The histogram of a list of observations\<close>

definition hist_of :: "rat list \<Rightarrow> hist" where
  "hist_of ds = fold observe ds new_hist"

text \<open>How many observations lie at or below a boundary, and how many in the bucket that ends there.\<close>

definition at_most :: "rat list \<Rightarrow> int \<Rightarrow> nat" where
  "at_most ds b = length (filter (\<lambda>d. d * 1000 \<le> of_int b) ds)"

definition bucket_of :: "rat \<Rightarrow> int option" where
  "bucket_of d = find (\<lambda>b. d * 1000 \<le> of_int b) BUCKETS_MS"

definition in_bucket :: "rat list \<Rightarrow> int option \<Rightarrow> nat" where
  "in_bucket ds b = length (filter (\<lambda>d. bucket_of d = b) ds)"

lemma hist_of_snoc: "hist_of (ds @ [d]) = observe d (hist_of ds)"
  by (simp add: hist_of_def)

lemma update_map:
  "distinct ks \<Longrightarrow> k \<in> set ks \<Longrightarrow>
     AList.update k v (map (\<lambda>j. (j, f j)) ks) = map (\<lambda>j. (j, if j = k then v else f j)) ks"
  by (induction ks) auto

lemma dict_get_map: "k \<in> set ks \<Longrightarrow> dict_get (map (\<lambda>j. (j, f j)) ks) k dflt = f k"
  by (simp add: dict_get_def map_of_map_restrict)

lemma bucket_of_mem: "bucket_of d = Some b \<Longrightarrow> b \<in> set BUCKETS_MS"
  by (auto simp: bucket_of_def find_Some_iff)

lemma distinct_buckets: "distinct BUCKETS_MS"
  by (simp add: BUCKETS_MS_def)

lemma hist_of_fields:
  "h_counts (hist_of ds) = map (\<lambda>b. (b, in_bucket ds (Some b))) BUCKETS_MS \<and>
   h_overflow (hist_of ds) = in_bucket ds None \<and> h_total (hist_of ds) = length ds \<and>
   h_sum_ms (hist_of ds) = sum_list ds * 1000"
proof (induction ds rule: rev_induct)
  case Nil
  show ?case by (simp add: hist_of_def new_hist_def in_bucket_def)
next
  case (snoc d ds)
  then have IH: "h_counts (hist_of ds) = map (\<lambda>b. (b, in_bucket ds (Some b))) BUCKETS_MS"
    "h_overflow (hist_of ds) = in_bucket ds None" "h_total (hist_of ds) = length ds"
    "h_sum_ms (hist_of ds) = sum_list ds * 1000" by auto
  have n: "in_bucket (ds @ [d]) x = in_bucket ds x + (if bucket_of d = x then 1 else 0)" for x
    by (simp add: in_bucket_def)
  show ?case
  proof (cases "bucket_of d")
    case None
    with IH show ?thesis
      by (simp add: hist_of_snoc observe_def Let_def bucket_of_def [symmetric] n algebra_simps)
  next
    case (Some b)
    with bucket_of_mem have "b \<in> set BUCKETS_MS" by blast
    with Some IH show ?thesis
      by (simp add: hist_of_snoc observe_def Let_def bucket_of_def [symmetric] n update_map distinct_buckets
          dict_get_map algebra_simps)
  qed
qed

text \<open>The buckets partition the observations: the counts up to a boundary add up to \<open>at_most\<close>.\<close>

lemma find_sorted:
  assumes "sorted (xs @ b # ys)"
  shows "(\<exists>c \<in> set (xs @ [b]). find (\<lambda>c. r \<le> (of_int c :: rat)) (xs @ b # ys) = Some c) \<longleftrightarrow> r \<le> of_int b"
  using assms
proof (induction xs)
  case (Cons x xs)
  then have "x \<le> b" by simp
  then have le: "r \<le> of_int x \<Longrightarrow> r \<le> of_int b" by (meson of_int_le_iff order_trans)
  have "find (\<lambda>c. r \<le> of_int c) (xs @ b # ys) = Some x \<Longrightarrow> r \<le> of_int x" by (auto simp: find_Some_iff)
  with Cons le show ?case by (cases "r \<le> of_int x") auto
qed (auto simp: find_Some_iff)

lemma cumulative_at_most:
  assumes "BUCKETS_MS = xs @ b # ys"
  shows "sum_list (map (\<lambda>c. in_bucket ds (Some c)) (xs @ [b])) = at_most ds b"
proof (induction ds)
  case Nil
  show ?case by (simp add: in_bucket_def at_most_def)
next
  case (Cons d ds)
  have dist: "distinct (xs @ [b])" using distinct_buckets unfolding assms by simp
  have one: "sum_list (map (\<lambda>c. if bucket_of d = Some c then 1 else 0) cs) =
      (if \<exists>c \<in> set cs. bucket_of d = Some c then 1 else (0::nat))" if "distinct cs" for cs
    using that by (induction cs) auto
  have "sorted BUCKETS_MS" by (simp add: BUCKETS_MS_def)
  then have "(\<exists>c \<in> set (xs @ [b]). bucket_of d = Some c) \<longleftrightarrow> d * 1000 \<le> of_int b"
    using find_sorted [of xs b ys "d * 1000"] assms by (simp add: bucket_of_def)
  moreover have "in_bucket (d # ds) x = (if bucket_of d = x then 1 else 0) + in_bucket ds x" for x
    by (simp add: in_bucket_def)
  ultimately show ?case
    using Cons one [OF dist] by (simp only: sum_list_addf) (simp add: at_most_def)
qed

lemma percentile_loop_find:
  assumes "BUCKETS_MS = xs @ ys" and "n = sum_list (map (\<lambda>c. in_bucket ds (Some c)) xs)"
  shows "percentile_loop t n (map (\<lambda>b. (b, in_bucket ds (Some b))) ys) =
    map_option of_int (find (\<lambda>b. t \<le> of_nat (at_most ds b)) ys)"
  using assms
proof (induction ys arbitrary: xs n)
  case (Cons b ys)
  have le: "n + in_bucket ds (Some b) = at_most ds b"
    using cumulative_at_most [OF Cons.prems(1), of ds] Cons.prems(2) by simp
  have "percentile_loop t (n + in_bucket ds (Some b)) (map (\<lambda>b. (b, in_bucket ds (Some b))) ys) =
      map_option of_int (find (\<lambda>b. t \<le> of_nat (at_most ds b)) ys)"
    by (rule Cons.IH [of "xs @ [b]"]) (use Cons.prems in auto)
  with le show ?case by simp
qed simp

text \<open>
  The percentile is the least bucket boundary at or below which at least \<open>p\<close> percent of the
  observations lie.
\<close>

lemma hist_percentile_of:
  assumes "ds \<noteq> []"
  shows "hist_percentile p (hist_of ds) =
    (case find (\<lambda>b. of_nat (length ds) * (p / 100) \<le> of_nat (at_most ds b)) BUCKETS_MS of
       Some b \<Rightarrow> of_int b | None \<Rightarrow> 10000)"
proof -
  have "percentile_loop t 0 (h_counts (hist_of ds)) =
      map_option of_int (find (\<lambda>b. t \<le> of_nat (at_most ds b)) BUCKETS_MS)" for t
    using percentile_loop_find [of "[]" BUCKETS_MS 0 ds t] hist_of_fields [of ds] by simp
  moreover have "h_total (hist_of ds) = length ds" "last BUCKETS_MS = 10000"
    using hist_of_fields [of ds] by (simp_all add: BUCKETS_MS_def)
  ultimately show ?thesis
    using assms by (simp add: hist_percentile_def del: of_nat_eq_0_iff split: option.split)
qed

text \<open>The boundaries are sorted, so that the first one found is the least.\<close>

lemma find_sorted_Min:
  assumes "sorted xs" "find P xs = Some b"
  shows "b = Min {x \<in> set xs. P x}"
proof -
  have "b \<in> set xs" "P b" using assms(2) by (auto simp: find_Some_iff)
  moreover have "b \<le> x" if "x \<in> set xs" "P x" for x
    using assms that by (induction xs) (auto split: if_splits)
  ultimately show ?thesis by (intro Min_eqI [symmetric]) auto
qed

text \<open>C37 (equivalence): The percentile that the histogram computes from its running sums is the one of
  the observations: whatever durations were observed, in whatever order, it is the least bucket
  boundary at or below which at least \<open>p\<close> percent of them lie, 10000 ms when there is no such
  boundary, and the default of 5000 ms before the first observation.\<close>

theorem percentile_reference:
  "hist_percentile p (hist_of ds) =
    (let covers = {b \<in> set BUCKETS_MS. of_nat (length ds) * (p / 100) \<le> of_nat (at_most ds b)} in
     if ds = [] then 5000 else if covers = {} then 10000 else of_int (Min covers))"
proof (cases "ds = []")
  case True
  then show ?thesis by (simp add: hist_of_def hist_percentile_def new_hist_def)
next
  case False
  let ?P = "\<lambda>b. of_nat (length ds) * (p / 100) \<le> of_nat (at_most ds b)"
  have sorted: "sorted BUCKETS_MS" by (simp add: BUCKETS_MS_def)
  show ?thesis
  proof (cases "find ?P BUCKETS_MS")
    case None
    then have none: "{b \<in> set BUCKETS_MS. ?P b} = {}" by (auto simp: find_None_iff)
    show ?thesis using hist_percentile_of [OF False, of p] None unfolding Let_def none by (simp add: False)
  next
    case (Some b)
    then obtain i where "i < length BUCKETS_MS" "?P (BUCKETS_MS ! i)" unfolding find_Some_iff by blast
    then have ne: "{b \<in> set BUCKETS_MS. ?P b} \<noteq> {}" using nth_mem by blast
    show ?thesis
      using hist_percentile_of [OF False, of p] find_sorted_Min [OF sorted Some]
      unfolding Let_def if_not_P [OF False] if_not_P [OF ne] Some by simp
  qed
qed

lemma hist_total_count: "sum_list (map snd (h_counts (hist_of ds))) + h_overflow (hist_of ds) = length ds"
proof -
  have "sum_list (map (\<lambda>c. in_bucket ds (Some c)) bs) + length (filter (\<lambda>d. bucket_of d \<notin> Some ` set bs) ds)
      = length ds" if "distinct bs" for bs
    using that
  proof (induction bs)
    case (Cons b bs)
    have "length (filter (\<lambda>d. bucket_of d \<notin> Some ` set bs) ds) =
        in_bucket ds (Some b) + length (filter (\<lambda>d. bucket_of d \<notin> Some ` set (b # bs)) ds)"
      using Cons.prems by (induction ds) (auto simp: in_bucket_def)
    with Cons show ?case by simp
  qed simp
  from this [OF distinct_buckets]
  have "sum_list (map (\<lambda>c. in_bucket ds (Some c)) BUCKETS_MS) +
      length (filter (\<lambda>d. bucket_of d \<notin> Some ` set BUCKETS_MS) ds) = length ds" .
  moreover have "bucket_of d \<notin> Some ` set BUCKETS_MS \<longleftrightarrow> bucket_of d = None" for d
    using bucket_of_mem [of d] by (cases "bucket_of d") auto
  ultimately show ?thesis
    using hist_of_fields [of ds] by (simp add: in_bucket_def comp_def)
qed

section \<open>The metrics collector\<close>

record tx_result =
  r_success :: bool
  r_protocol :: string
  r_timestamp :: rat

record metrics =
  window_size :: nat
  m_results :: "tx_result list"
  current_protocol :: string
  total_success :: nat
  total_failure :: nat
  latency_2pc :: hist
  latency_saga :: hist

definition new_metrics :: "nat \<Rightarrow> metrics" where
  "new_metrics n = \<lparr>window_size = n, m_results = [], current_protocol = ''2pc'', total_success = 0,
     total_failure = 0, latency_2pc = new_hist, latency_saga = new_hist\<rparr>"

text \<open>Appending to a \<open>deque(maxlen=n)\<close> drops the oldest entries.\<close>

definition deque_append :: "nat \<Rightarrow> 'a list \<Rightarrow> 'a \<Rightarrow> 'a list" where
  "deque_append n xs x = drop (length xs + 1 - n) (xs @ [x])"

definition record_result :: "rat \<Rightarrow> bool \<Rightarrow> string \<Rightarrow> rat \<Rightarrow> metrics \<Rightarrow> metrics" where
  "record_result now success protocol duration m =
    (let m1 = m\<lparr>m_results := deque_append (window_size m) (m_results m)
           \<lparr>r_success = success, r_protocol = protocol, r_timestamp = now\<rparr>\<rparr>;
         m2 = (if success then m1\<lparr>total_success := total_success m1 + 1\<rparr>
               else m1\<lparr>total_failure := total_failure m1 + 1\<rparr>) in
     if 0 < duration
     then (if protocol = ''2pc'' then m2\<lparr>latency_2pc := observe duration (latency_2pc m2)\<rparr>
           else m2\<lparr>latency_saga := observe duration (latency_saga m2)\<rparr>)
     else m2)"

definition metrics_percentile :: "rat \<Rightarrow> metrics \<Rightarrow> rat" where
  "metrics_percentile p m = hist_percentile p (if current_protocol m = ''saga'' then latency_saga m else latency_2pc m)"

definition sliding_abort_rate :: "metrics \<Rightarrow> rat" where
  "sliding_abort_rate m = (if m_results m = [] then 0
     else of_nat (length (filter (\<lambda>r. \<not> r_success r) (m_results m))) / of_nat (length (m_results m)))"

lemma deque_append_suffix:
  assumes "xs = drop (length ys - n) ys"
  shows "deque_append n xs x = drop (length (ys @ [x]) - n) (ys @ [x])"
  using assms by (cases "length ys \<le> n") (auto simp: deque_append_def drop_Cons' not_le Suc_diff_le)

lemma record_result_simps [simp]:
  "window_size (record_result now ok p d m) = window_size m"
  "current_protocol (record_result now ok p d m) = current_protocol m"
  "m_results (record_result now ok p d m) = deque_append (window_size m) (m_results m)
     \<lparr>r_success = ok, r_protocol = p, r_timestamp = now\<rparr>"
  "total_success (record_result now ok p d m) = total_success m + (if ok then 1 else 0)"
  "total_failure (record_result now ok p d m) = total_failure m + (if ok then 0 else 1)"
  by (simp_all add: record_result_def Let_def)

text \<open>After a run of results the window holds the last \<open>window_size\<close> of them.\<close>

definition record_all :: "(rat \<times> bool \<times> string \<times> rat) list \<Rightarrow> metrics \<Rightarrow> metrics" where
  "record_all rs m = fold (\<lambda>(now, ok, p, d). record_result now ok p d) rs m"

definition last_n :: "nat \<Rightarrow> 'a list \<Rightarrow> 'a list" where
  "last_n n xs = drop (length xs - n) xs"

lemma record_all_fields:
  "window_size (record_all rs (new_metrics n)) = n \<and>
   m_results (record_all rs (new_metrics n)) =
     last_n n (map (\<lambda>(now, ok, p, d). \<lparr>r_success = ok, r_protocol = p, r_timestamp = now\<rparr>) rs) \<and>
   total_success (record_all rs (new_metrics n)) + total_failure (record_all rs (new_metrics n)) = length rs"
proof (induction rs rule: rev_induct)
  case Nil
  show ?case by (simp add: record_all_def new_metrics_def last_n_def)
next
  case (snoc r rs)
  obtain now ok p d where r: "r = (now, ok, p, d)" by (cases r)
  have eq: "record_all (rs @ [(now, ok, p, d)]) m = record_result now ok p d (record_all rs m)" for m
    by (simp add: record_all_def)
  let ?f = "\<lambda>(now, ok, p, d). \<lparr>r_success = ok, r_protocol = p, r_timestamp = now\<rparr>"
  have "deque_append n (last_n n (map ?f rs)) x = last_n n (map ?f rs @ [x])" for x
    unfolding last_n_def by (rule deque_append_suffix) simp
  with snoc show ?case unfolding r eq record_result_simps by simp
qed

lemma abort_rate_bounds: "0 \<le> sliding_abort_rate m \<and> sliding_abort_rate m \<le> 1"
  by (auto simp: sliding_abort_rate_def divide_le_eq length_filter_le)

end
