(* ===== verification/Process.thy ===== *)
theory Process
  imports Client Breaker Metrics
begin

text \<open>
  The state of an order-service process as the orchestrator sees it: its Redis connection (the
  order database), the wall clock, the circuit breakers and the metrics of the orchestrator, and
  whatever the transport keeps (\<open>'n\<close>: the network and the other services).
\<close>

record 'n proc = conn +
  boot_time :: rat
  net :: 'n
  circuit_breakers :: "(string \<times> breaker) list"
  collector :: metrics

text \<open>\<open>time.time()\<close>\<close>

definition wall_time :: "('n proc, rat) py" where
  "wall_time = (\<lambda>st. (Inr (boot_time st + c_clock st), st))"

text \<open>
  \<open>transport.send_and_wait(service, action, payload, timeout)\<close>. What it does is up to the transport,
  so it is a parameter of the executors and of recovery.
\<close>

type_synonym 'n transport = "string \<Rightarrow> string \<Rightarrow> dict \<Rightarrow> rat \<Rightarrow> ('n proc, pyval) py"

text \<open>
  \<open>asyncio.gather(..., return_exceptions=True)\<close>: every child runs, its exceptions become results.
  The children are run one after the other, in the order of the arguments: they only share the
  transport, and the code after the \<open>gather\<close> looks at the results in that order.
\<close>

fun gather :: "('s, 'a) py list \<Rightarrow> ('s, (exn + 'a) list) py" where
  "gather [] = ret []"
| "gather (m # ms) = (\<lambda>s. case m s of
     (Inl Exit, s1) \<Rightarrow> (Inl Exit, s1)
   | (r, s1) \<Rightarrow> bindE (gather ms) (\<lambda>rs. ret (r # rs)) s1)"

lemma gather_length: "gather ms s = (Inr rs, s') \<Longrightarrow> length rs = length ms"
proof (induction ms arbitrary: s rs s')
  case (Cons m ms)
  obtain r s1 where m: "m s = (r, s1)" by (cases "m s")
  with Cons.prems have "r \<noteq> Inl Exit" by auto
  then have "bindE (gather ms) (\<lambda>rs. ret (r # rs)) s1 = (Inr rs, s')"
    using m Cons.prems by (auto split: sum.splits exn.splits)
  then show ?case using Cons.IH by (auto simp: bindE_def ret_def split: prod.splits sum.splits)
qed (simp add: ret_def)

text \<open>A client on the in-memory server and a process that has just started, for the witnesses.\<close>

definition mem_client :: redis_client where
  "mem_client = \<lparr>cl_rc = mem_rc, cl_err = (\<lambda>e. ''error'')\<rparr>"

definition fresh_proc :: "'n \<Rightarrow> 'n proc" where
  "fresh_proc n = \<lparr>c_db = empty_keyspace, c_replica = None, c_trips = [], c_clock = 0, boot_time = 1000,
     net = n, circuit_breakers = [], collector = new_metrics 100\<rparr>"

end
