(* ===== verification/Wal.thy ===== *)
theory Wal
  imports Process
begin

text \<open>
  \<open>orchestrator/wal.py\<close> and \<open>common/dlq.py\<close>: the write-ahead log of saga states in the order
  database (a stream for audit, a set of active sagas and one hash per saga for recovery), and the
  dead letter queue.
\<close>

section \<open>The write-ahead log\<close>

definition STREAM_KEY :: string where "STREAM_KEY = ''saga-wal''"
definition ACTIVE_SET :: string where "ACTIVE_SET = ''active_sagas''"
definition MAX_LEN :: nat where "MAX_LEN = 50000"

definition TERMINAL_STATES :: "string list" where
  "TERMINAL_STATES = [''COMPLETED'', ''FAILED'', ''ABANDONED'']"

definition saga_state_key :: "string \<Rightarrow> string" where
  "saga_state_key saga_id = ''saga_state:'' @ saga_id"

definition wal_entry :: "string \<Rightarrow> string \<Rightarrow> rat \<Rightarrow> dict option \<Rightarrow> (string \<times> rtext) list" where
  "wal_entry saga_id step now data =
     [(''saga_id'', Text saga_id), (''step'', Text step), (''timestamp'', json_dumps (PFloat now))] @
     (case data of Some d \<Rightarrow> if d \<noteq> [] then [(''data'', json_dumps (PDict d))] else [] | None \<Rightarrow> [])"

definition wal_log :: "redis_client \<Rightarrow> string \<Rightarrow> string \<Rightarrow> dict option \<Rightarrow> ('n proc, unit) py" where
  "wal_log cl saga_id step data = bindE wall_time (\<lambda>now. let entry = wal_entry saga_id step now data in
     bindE (pipeline cl True (XADD STREAM_KEY entry MAX_LEN #
         (if step \<in> set TERMINAL_STATES then [SREM ACTIVE_SET saga_id, DEL (saga_state_key saga_id)]
          else [SADD ACTIVE_SET saga_id, HSET (saga_state_key saga_id) entry]))) (\<lambda>_. ret ()))"

definition wal_log_terminal :: "redis_client \<Rightarrow> string \<Rightarrow> string \<Rightarrow> dict option \<Rightarrow> ('n proc, unit) py" where
  "wal_log_terminal cl saga_id step data = bindE wall_time (\<lambda>now. let entry = wal_entry saga_id step now data in
     bindE (pipeline cl False [XADD STREAM_KEY entry MAX_LEN, SREM ACTIVE_SET saga_id, DEL (saga_state_key saga_id)])
       (\<lambda>_. ret ()))"

record incomplete =
  last_step :: string
  i_data :: pyval
  created_at :: rat

text \<open>One active saga of a page: stale members are removed, the others are read.\<close>

definition load_incomplete :: "redis_client \<Rightarrow> string \<Rightarrow> (string \<times> incomplete) list \<Rightarrow> ('n proc, (string \<times> incomplete) list) py" where
  "load_incomplete cl saga_id acc =
     bindE (redis_call cl (hgetall (cl_rc cl) (saga_state_key saga_id))) (\<lambda>state.
     if state = [] then bindE (redis_call cl (cl_rc cl (SREM ACTIVE_SET saga_id))) (\<lambda>_. ret acc)
     else (let step = (case map_of state ''step'' of Some (Text s) \<Rightarrow> s | _ \<Rightarrow> []) in
       if step \<in> set TERMINAL_STATES then
         bindE (redis_call cl (cl_rc cl (SREM ACTIVE_SET saga_id))) (\<lambda>_.
         bindE (redis_call cl (cl_rc cl (DEL (saga_state_key saga_id)))) (\<lambda>_. ret acc))
       else (let data = (case map_of state ''data'' of
             None \<Rightarrow> PNone
           | Some raw \<Rightarrow> if raw = Text [] then PNone
               else (case json_loads raw of Inr v \<Rightarrow> v | Inl _ \<Rightarrow> PDict [])) in
         bindE (lift_sum (py_float (case map_of state ''timestamp'' of Some t \<Rightarrow> PStr t | None \<Rightarrow> PInt 0))) (\<lambda>created.
         ret (AList.update saga_id \<lparr>last_step = step, i_data = data, created_at = created\<rparr> acc)))))"

text \<open>
  The cursor loop of \<open>SSCAN\<close> ends when the server says so; \<open>fuel\<close> bounds the pages, and \<open>None\<close>
  says that they did not suffice.
\<close>

fun scan_incomplete :: "redis_client \<Rightarrow> nat \<Rightarrow> string \<Rightarrow> (string \<times> incomplete) list \<Rightarrow>
    ('n proc, (string \<times> incomplete) list option) py" where
  "scan_incomplete cl 0 cursor acc = ret None"
| "scan_incomplete cl (Suc fuel) cursor acc =
     bindE (redis_call cl (cl_rc cl (SSCAN ACTIVE_SET cursor 100))) (\<lambda>r. case r of
       Page cursor' saga_ids \<Rightarrow>
         bindE (fold_each (load_incomplete cl) saga_ids acc) (\<lambda>acc'.
         if cursor' = ''0'' then ret (Some acc') else scan_incomplete cl fuel cursor' acc')
     | _ \<Rightarrow> throw (TypeErr ''unexpected reply''))"

definition get_incomplete_sagas :: "redis_client \<Rightarrow> nat \<Rightarrow> ('n proc, (string \<times> incomplete) list option) py" where
  "get_incomplete_sagas cl fuel = scan_incomplete cl fuel ''0'' []"

section \<open>The dead letter queue\<close>

definition DLQ_STREAM :: string where "DLQ_STREAM = ''dlq:saga''"
definition DLQ_MAX_LEN :: nat where "DLQ_MAX_LEN = 10000"

definition dlq_entry :: "string \<Rightarrow> string \<Rightarrow> string \<Rightarrow> string \<Rightarrow> int \<Rightarrow> dict option \<Rightarrow> rat \<Rightarrow> (string \<times> rtext) list" where
  "dlq_entry saga_id action step_name reason attempts context now =
     [(''saga_id'', Text saga_id), (''action'', Text action), (''step'', Text step_name),
      (''reason'', Text reason), (''attempts'', Text (show_int attempts)),
      (''context'', json_dumps (PDict (case context of Some d \<Rightarrow> d | None \<Rightarrow> []))),
      (''timestamp'', json_dumps (PFloat now))]"

definition write_to_dlq :: "redis_client \<Rightarrow> string \<Rightarrow> string \<Rightarrow> string \<Rightarrow> string \<Rightarrow> int \<Rightarrow> dict option \<Rightarrow> ('n proc, unit) py" where
  "write_to_dlq cl saga_id action step_name reason attempts context = bindE wall_time (\<lambda>now.
     try_except (bindE (redis_call cl (cl_rc cl (XADD DLQ_STREAM
         (dlq_entry saga_id action step_name reason attempts context now) DLQ_MAX_LEN))) (\<lambda>_. ret ()))
       (\<lambda>e. if is_exception e then Some (ret ()) else None))"

section \<open>What the log says\<close>

definition wal_step :: "keyspace \<Rightarrow> string \<Rightarrow> rtext option" where
  "wal_step d s = field d (saga_state_key s) ''step''"

definition wal_active :: "keyspace \<Rightarrow> string \<Rightarrow> bool" where
  "wal_active d s \<longleftrightarrow> (case set_of d ACTIVE_SET of Some l \<Rightarrow> s \<in> set l | None \<Rightarrow> False)"

text \<open>The keys of the log hold the types the log gives them.\<close>

definition wal_typed :: "keyspace \<Rightarrow> bool" where
  "wal_typed d \<longleftrightarrow> stream_of d STREAM_KEY \<noteq> None \<and> stream_of d DLQ_STREAM \<noteq> None \<and>
     (case entries d ACTIVE_SET of None \<Rightarrow> True | Some (RSet l) \<Rightarrow> distinct l | _ \<Rightarrow> False) \<and>
     (\<forall>s. hash_of d (saga_state_key s) \<noteq> None)"

lemma wal_keys [simp]:
  "saga_state_key s = saga_state_key s' \<longleftrightarrow> s = s'"
  "saga_state_key s \<noteq> ACTIVE_SET" "ACTIVE_SET \<noteq> saga_state_key s"
  "saga_state_key s \<noteq> STREAM_KEY" "STREAM_KEY \<noteq> saga_state_key s"
  "saga_state_key s \<noteq> DLQ_STREAM" "DLQ_STREAM \<noteq> saga_state_key s"
  "ACTIVE_SET \<noteq> STREAM_KEY" "STREAM_KEY \<noteq> ACTIVE_SET" "ACTIVE_SET \<noteq> DLQ_STREAM" "DLQ_STREAM \<noteq> ACTIVE_SET"
  "STREAM_KEY \<noteq> DLQ_STREAM" "DLQ_STREAM \<noteq> STREAM_KEY"
  by (simp_all add: saga_state_key_def ACTIVE_SET_def STREAM_KEY_def DLQ_STREAM_def)

end
