(* ===== verification/WalLaws.thy ===== *)
theory WalLaws
  imports Wal
begin

text \<open>
  The write-ahead log refines a map from sagas to their last step: a non-terminal record sets the
  entry of its saga, a terminal one removes it, and the recovery scan reads the map back.
\<close>

section \<open>The map the log stands for\<close>

definition wal_says :: "keyspace \<Rightarrow> string \<Rightarrow> string \<times> dict \<times> rat \<Rightarrow> bool" where
  "wal_says d s = (\<lambda>(step, data, now). wal_active d s \<and> step \<notin> set TERMINAL_STATES \<and>
     field d (saga_state_key s) ''step'' = Some (Text step) \<and>
     field d (saga_state_key s) ''timestamp'' = Some (json_dumps (PFloat now)) \<and>
     field d (saga_state_key s) ''data'' = Some (json_dumps (PDict data)))"

definition wal_inv :: "keyspace \<Rightarrow> bool" where
  "wal_inv d \<longleftrightarrow> wal_typed d \<and> (\<forall>s. wal_active d s \<longrightarrow> (\<exists>x. wal_says d s x))"

lemma wal_says_unique: "wal_says d s x \<Longrightarrow> wal_says d s y \<Longrightarrow> x = y"
  by (cases x; cases y) (auto simp: wal_says_def)

lemma wal_says_cong:
  assumes "entries d' (saga_state_key s) = entries d (saga_state_key s)" "wal_active d' s = wal_active d s"
  shows "wal_says d' s x = wal_says d s x"
  by (cases x) (simp add: wal_says_def assms(2) view_cong(6) [OF assms(1)])

text \<open>Everything but the keys the log writes for \<open>s\<close>.\<close>

definition wal_frame :: "string \<Rightarrow> keyspace \<Rightarrow> keyspace \<Rightarrow> bool" where
  "wal_frame s d d' \<longleftrightarrow>
     (\<forall>k. k \<noteq> STREAM_KEY \<and> k \<noteq> ACTIVE_SET \<and> k \<noteq> saga_state_key s \<longrightarrow> entries d' k = entries d k) \<and>
     (\<forall>s'. s' \<noteq> s \<longrightarrow> wal_active d' s' = wal_active d s')"

lemma wal_frame_says: "wal_frame s d d' \<Longrightarrow> s' \<noteq> s \<Longrightarrow> wal_says d' s' x = wal_says d s' x"
  by (rule wal_says_cong) (auto simp: wal_frame_def)

lemma set_of_put [simp]:
  "set_of (put k (RSet l) d) k = Some l" "k \<noteq> k' \<Longrightarrow> set_of (put k' v d) k = set_of d k"
  "k \<noteq> k' \<Longrightarrow> set_of (put_fields k' fs d) k = set_of d k" "k \<noteq> k' \<Longrightarrow> set_of (remove k' d) k = set_of d k"
  "set_of (remove k d) k = Some []"
  by (auto simp: set_of_def entries_put_fields)

lemma stream_of_put [simp]:
  "stream_of (put k (RStream l) d) k = Some l" "k \<noteq> k' \<Longrightarrow> stream_of (put k' v d) k = stream_of d k"
  "k \<noteq> k' \<Longrightarrow> stream_of (put_fields k' fs d) k = stream_of d k" "k \<noteq> k' \<Longrightarrow> stream_of (remove k' d) k = stream_of d k"
  by (auto simp: stream_of_def entries_put_fields)

lemma wal_set: "wal_typed d \<Longrightarrow> \<exists>l. set_of d ACTIVE_SET = Some l \<and> distinct l"
  by (auto simp: wal_typed_def set_of_def split: option.splits rval.splits)

lemma wal_entry_lookup:
  "map_of (rev (wal_entry s step now data)) ''step'' = Some (Text step)"
  "map_of (rev (wal_entry s step now data)) ''timestamp'' = Some (json_dumps (PFloat now))"
  "data = Some x \<Longrightarrow> x \<noteq> [] \<Longrightarrow> map_of (rev (wal_entry s step now data)) ''data'' = Some (json_dumps (PDict x))"
  by (auto simp: wal_entry_def split: option.splits)

lemma wal_entry_nonempty [simp]: "wal_entry s step now data \<noteq> []"
  by (simp add: wal_entry_def)

section \<open>One record\<close>

context redis_server begin

lemma xadd_put:
  assumes "stream_of d k = Some l"
  shows "\<exists>id l'. rc (XADD k fs m) d = (Inr (Bulk id), put k (RStream l') d)"
  using xadd [OF assms, of m fs] by auto

lemma sadd_put:
  assumes "set_of d k = Some l" "distinct l"
  shows "\<exists>r d' l'. rc (SADD k m) d = (Inr r, d') \<and> (d' = d \<and> l' = l \<or> d' = put k (RSet l') d) \<and> set l' = insert m (set l) \<and>
    distinct l' \<and> set_of d' k = Some l'"
  using assms by (auto simp: sadd)

lemma srem_put:
  assumes "set_of d k = Some l" "distinct l"
  shows "\<exists>r d' l'. rc (SREM k m) d = (Inr r, d') \<and> (d' = d \<and> l' = l \<or> d' = put k (RSet l') d \<or> d' = remove k d \<and> l' = []) \<and>
    set l' = set l - {m} \<and> distinct l' \<and> set_of d' k = Some l'"
proof (cases "m \<in> set l")
  case True
  let ?l = "filter (\<lambda>x. x \<noteq> m) l"
  have "set ?l = set l - {m}" "distinct ?l" using assms(2) by auto
  then show ?thesis
    using assms(1) True by (cases "?l = []") (auto simp: srem intro!: exI [of _ ?l])
next
  case False
  then show ?thesis using assms by (auto simp: srem intro!: exI [of _ l])
qed

text \<open>A non-terminal record.\<close>

lemma wal_record_fields:
  assumes "wal_typed d" "entry \<noteq> []"
  shows "\<exists>rs d' xs. run_cmds rc [XADD STREAM_KEY entry MAX_LEN, SADD ACTIVE_SET s, HSET (saga_state_key s) entry] d
      = (rs, d') \<and> first_error rs = Inr xs \<and> wal_typed d' \<and> wal_active d' s \<and> wal_frame s d d' \<and>
    (\<forall>k. field d' (saga_state_key s) k =
       (case map_of (rev entry) k of None \<Rightarrow> field d (saga_state_key s) k | Some v \<Rightarrow> Some v))"
proof -
  obtain l0 where l0: "stream_of d STREAM_KEY = Some l0" using assms(1) by (auto simp: wal_typed_def)
  obtain id l1 where 1: "rc (XADD STREAM_KEY entry MAX_LEN) d = (Inr (Bulk id), put STREAM_KEY (RStream l1) d)"
    using xadd_put [OF l0] by blast
  let ?d1 = "put STREAM_KEY (RStream l1) d"
  obtain l where l: "set_of d ACTIVE_SET = Some l" "distinct l" using wal_set [OF assms(1)] by auto
  obtain r d2 l' where 2: "rc (SADD ACTIVE_SET s) ?d1 = (Inr r, d2)" "d2 = ?d1 \<and> l' = l \<or> d2 = put ACTIVE_SET (RSet l') ?d1"
    "set l' = insert s (set l)" "distinct l'" "set_of d2 ACTIVE_SET = Some l'"
    using sadd_put [of ?d1 ACTIVE_SET l s] l by auto
  have h2: "hash_of d2 (saga_state_key s') \<noteq> None" for s'
    using 2(2) assms(1) by (auto simp: wal_typed_def)
  obtain n where 3: "rc (HSET (saga_state_key s) entry) d2 = (Inr (Num n), put_fields (saga_state_key s) entry d2)"
    using hset [of entry "saga_state_key s" d2] h2 [of s] assms(2) by auto
  let ?d' = "put_fields (saga_state_key s) entry d2"
  have e: "entries ?d' k = entries d k" if "k \<noteq> STREAM_KEY" "k \<noteq> ACTIVE_SET" "k \<noteq> saga_state_key s" for k
    using that 2(2) by (auto simp: entries_put_fields)
  have set': "set_of ?d' ACTIVE_SET = Some l'" using 2(5) by simp
  then have ent: "case entries ?d' ACTIVE_SET of None \<Rightarrow> True | Some (RSet l) \<Rightarrow> distinct l | _ \<Rightarrow> False"
    using 2(4) by (auto simp: set_of_def split: option.splits rval.splits)
  have act: "wal_active ?d' s' \<longleftrightarrow> s' = s \<or> wal_active d s'" for s'
    using set' l 2(3) by (auto simp: wal_active_def)
  have "field d2 (saga_state_key s) k = field d (saga_state_key s) k" for k
    using 2(2) by (intro view_cong(6)) auto
  then have f: "field ?d' (saga_state_key s) k = (case map_of (rev entry) k of None \<Rightarrow> field d (saga_state_key s) k | Some v \<Rightarrow> Some v)" for k
    using h2 by (auto simp: field_put_fields split: option.splits)
  have typed: "wal_typed ?d'"
    unfolding wal_typed_def
  proof (intro conjI)
    show "stream_of ?d' STREAM_KEY \<noteq> None" using 2(2) by auto
    show "stream_of ?d' DLQ_STREAM \<noteq> None" using 2(2) assms(1) by (auto simp: wal_typed_def)
    show "\<forall>s'. hash_of ?d' (saga_state_key s') \<noteq> None"
      using h2 by (metis hash_put_fields option.distinct(1) view_put_fields_other(1))
  qed (rule ent)
  have "wal_frame s d ?d'" using e act by (simp add: wal_frame_def)
  then show ?thesis
    using typed act f 1 2(1) 3 by (intro exI [of _ "[Inr (Bulk id), Inr r, Inr (Num n)]"] exI [of _ ?d']) simp
qed

lemma wal_record:
  assumes "wal_typed d" "step \<notin> set TERMINAL_STATES" "data = Some x" "x \<noteq> []"
    and "entry = wal_entry s step now data"
  shows "\<exists>rs d' xs. run_cmds rc [XADD STREAM_KEY entry MAX_LEN, SADD ACTIVE_SET s, HSET (saga_state_key s) entry] d
      = (rs, d') \<and> first_error rs = Inr xs \<and> wal_typed d' \<and> wal_says d' s (step, x, now) \<and> wal_frame s d d'"
proof -
  have "entry \<noteq> []" using assms(5) by simp
  from wal_record_fields [OF assms(1) this, of s] show ?thesis
    using assms(2-5) by (fastforce simp: wal_says_def wal_entry_lookup)
qed

text \<open>A terminal record.\<close>

lemma wal_finish:
  assumes "wal_typed d"
  shows "\<exists>rs d' xs. run_cmds rc [XADD STREAM_KEY entry MAX_LEN, SREM ACTIVE_SET s, DEL (saga_state_key s)] d = (rs, d') \<and>
    first_error rs = Inr xs \<and> wal_typed d' \<and> \<not> wal_active d' s \<and> wal_frame s d d'"
proof -
  obtain l0 where l0: "stream_of d STREAM_KEY = Some l0" using assms(1) by (auto simp: wal_typed_def)
  obtain id l1 where 1: "rc (XADD STREAM_KEY entry MAX_LEN) d = (Inr (Bulk id), put STREAM_KEY (RStream l1) d)"
    using xadd_put [OF l0] by blast
  let ?d1 = "put STREAM_KEY (RStream l1) d"
  obtain l where l: "set_of d ACTIVE_SET = Some l" "distinct l" using wal_set [OF assms(1)] by auto
  obtain r d2 l' where 2: "rc (SREM ACTIVE_SET s) ?d1 = (Inr r, d2)"
    "d2 = ?d1 \<and> l' = l \<or> d2 = put ACTIVE_SET (RSet l') ?d1 \<or> d2 = remove ACTIVE_SET ?d1 \<and> l' = []"
    "set l' = set l - {s}" "distinct l'" "set_of d2 ACTIVE_SET = Some l'"
    using srem_put [of ?d1 ACTIVE_SET l s] l by auto
  have h2: "hash_of d2 (saga_state_key s') \<noteq> None" for s'
    using 2(2) assms(1) by (auto simp: wal_typed_def)
  let ?d' = "remove (saga_state_key s) d2"
  have 3: "\<exists>n. rc (DEL (saga_state_key s)) d2 = (Inr (Num n), ?d')" by (simp add: del)
  have e: "entries ?d' k = entries d k" if "k \<noteq> STREAM_KEY" "k \<noteq> ACTIVE_SET" "k \<noteq> saga_state_key s" for k
    using that 2(2) by auto
  have set': "set_of ?d' ACTIVE_SET = Some l'" using 2(5) by simp
  then have ent: "case entries ?d' ACTIVE_SET of None \<Rightarrow> True | Some (RSet l) \<Rightarrow> distinct l | _ \<Rightarrow> False"
    using 2(4) by (auto simp: set_of_def split: option.splits rval.splits)
  have act: "wal_active ?d' s' \<longleftrightarrow> s' \<noteq> s \<and> wal_active d s'" for s'
    using set' l 2(3) by (auto simp: wal_active_def)
  have "wal_typed ?d'"
    unfolding wal_typed_def
  proof (intro conjI)
    show "stream_of ?d' STREAM_KEY \<noteq> None" using 2(2) by auto
    show "stream_of ?d' DLQ_STREAM \<noteq> None" using 2(2) assms(1) by (auto simp: wal_typed_def)
    show "\<forall>s'. hash_of ?d' (saga_state_key s') \<noteq> None"
      using h2 by (metis view_remove_same(1) option.distinct(1) view_remove_other(1))
  qed (rule ent)
  moreover have "\<not> wal_active ?d' s" "wal_frame s d ?d'" using e act by (simp_all add: wal_frame_def)
  ultimately show ?thesis
    using 1 2(1) 3 by auto
qed

end

section \<open>The log on a connection that works\<close>

text \<open>What a step of the log leaves alone: everything but the database, the trips and the clock.\<close>

definition same_proc :: "'n proc \<Rightarrow> 'n proc \<Rightarrow> bool" where
  "same_proc st st' \<longleftrightarrow> net st' = net st \<and> circuit_breakers st' = circuit_breakers st \<and>
     collector st' = collector st \<and> boot_time st' = boot_time st \<and> c_replica st' = c_replica st"

lemma same_proc_refl [simp]: "same_proc st st"
  by (simp add: same_proc_def)

lemma same_proc_trans: "same_proc st st1 \<Longrightarrow> same_proc st1 st2 \<Longrightarrow> same_proc st st2"
  by (simp add: same_proc_def)

lemma after_trip_proc [simp]:
  "net (after_trip st) = net st" "circuit_breakers (after_trip st) = circuit_breakers st"
  "collector (after_trip st) = collector st" "boot_time (after_trip st) = boot_time st"
  by (simp_all add: after_trip_def)

lemma pipeline_online:
  assumes "online st" "run_cmds (cl_rc cl) cs (c_db st) = (rs, d)" "first_error rs = Inr xs"
  shows "pipeline cl tx cs st = (Inr xs, (after_trip st)\<lparr>c_db := d\<rparr>)"
  using assms by (simp add: pipeline_def online_next Let_def)

lemma wal_log_record:
  assumes "redis_server (cl_rc cl)" "online st" "wal_typed (c_db st)" "step \<notin> set TERMINAL_STATES" "x \<noteq> []"
  shows "\<exists>st'. wal_log cl s step (Some x) st = (Inr (), st') \<and> online st' \<and> same_proc st st' \<and>
    wal_typed (c_db st') \<and> wal_says (c_db st') s (step, x, boot_time st + c_clock st) \<and>
    wal_frame s (c_db st) (c_db st')"
proof -
  let ?now = "boot_time st + c_clock st"
  obtain rs d' xs where r: "run_cmds (cl_rc cl) [XADD STREAM_KEY (wal_entry s step ?now (Some x)) MAX_LEN, SADD ACTIVE_SET s,
      HSET (saga_state_key s) (wal_entry s step ?now (Some x))] (c_db st) = (rs, d')" "first_error rs = Inr xs"
    "wal_typed d'" "wal_says d' s (step, x, ?now)" "wal_frame s (c_db st) d'"
    using redis_server.wal_record [OF assms(1,3,4) refl assms(5) refl] by blast
  have "wal_log cl s step (Some x) st = (Inr (), (after_trip st)\<lparr>c_db := d'\<rparr>)"
    using pipeline_online [OF assms(2) r(1,2), of True] assms(4)
    by (simp add: wal_log_def wall_time_def bindE_def ret_def Let_def)
  then show ?thesis using r assms(2) by (simp add: same_proc_def)
qed

lemma wal_log_finish:
  assumes "redis_server (cl_rc cl)" "online st" "wal_typed (c_db st)" "step \<in> set TERMINAL_STATES"
    and "lg \<in> {wal_log, wal_log_terminal}"
  shows "\<exists>st'. lg cl s step data st = (Inr (), st') \<and> online st' \<and> same_proc st st' \<and>
    wal_typed (c_db st') \<and> \<not> wal_active (c_db st') s \<and> wal_frame s (c_db st) (c_db st')"
proof -
  let ?now = "boot_time st + c_clock st"
  obtain rs d' xs where r: "run_cmds (cl_rc cl) [XADD STREAM_KEY (wal_entry s step ?now data) MAX_LEN, SREM ACTIVE_SET s,
      DEL (saga_state_key s)] (c_db st) = (rs, d')" "first_error rs = Inr xs"
    "wal_typed d'" "\<not> wal_active d' s" "wal_frame s (c_db st) d'"
    using redis_server.wal_finish [OF assms(1,3)] by blast
  have "lg cl s step data st = (Inr (), (after_trip st)\<lparr>c_db := d'\<rparr>)"
    using pipeline_online [OF assms(2) r(1,2)] assms(4,5)
    by (auto simp: wal_log_def wal_log_terminal_def wall_time_def bindE_def ret_def Let_def)
  then show ?thesis using r assms(2) by (simp add: same_proc_def)
qed

lemma wal_inv_record: "wal_inv d \<Longrightarrow> wal_typed d' \<Longrightarrow> wal_says d' s x \<Longrightarrow> wal_frame s d d' \<Longrightarrow> wal_inv d'"
  unfolding wal_inv_def by (metis wal_frame_def wal_frame_says)

lemma wal_inv_finish: "wal_inv d \<Longrightarrow> wal_typed d' \<Longrightarrow> \<not> wal_active d' s \<Longrightarrow> wal_frame s d d' \<Longrightarrow> wal_inv d'"
  unfolding wal_inv_def by (metis wal_frame_def wal_frame_says)

section \<open>The recovery scan\<close>

lemma load_incomplete_says:
  assumes "redis_server (cl_rc cl)" "online st" "wal_typed (c_db st)" "wal_says (c_db st) s (step, data, now)"
  shows "load_incomplete cl s acc st =
    (Inr (AList.update s \<lparr>last_step = step, i_data = PDict data, created_at = now\<rparr> acc), after_trip st)"
proof -
  obtain h where h: "hash_of (c_db st) (saga_state_key s) = Some h" using assms(3) by (auto simp: wal_typed_def)
  have f: "map_of h ''step'' = Some (Text step)" "map_of h ''timestamp'' = Some (json_dumps (PFloat now))"
    "map_of h ''data'' = Some (json_dumps (PDict data))" "step \<notin> set TERMINAL_STATES"
    using assms(4) field_of_hash [OF h] by (auto simp: wal_says_def)
  have ne: "h \<noteq> []" using f(1) by auto
  have "redis_call cl (hgetall (cl_rc cl) (saga_state_key s)) st = (Inr h, (after_trip st)\<lparr>c_db := c_db st\<rparr>)"
    by (rule redis_call_online [OF assms(2)])
      (simp add: hgetall_def bindE_def ret_def redis_server.hgetall [OF assms(1)] h)
  moreover have "(after_trip st)\<lparr>c_db := c_db st\<rparr> = after_trip st" by (simp add: after_trip_def)
  ultimately show ?thesis
    using f ne by (simp add: load_incomplete_def bindE_def lift_sum_def ret_def Let_def)
qed

definition wal_view :: "keyspace \<Rightarrow> string \<Rightarrow> incomplete" where
  "wal_view d s = (case (field d (saga_state_key s) ''step'', field d (saga_state_key s) ''data'', field d (saga_state_key s) ''timestamp'') of
     (Some (Text step), Some (Json v), Some (Json (PFloat now))) \<Rightarrow> \<lparr>last_step = step, i_data = v, created_at = now\<rparr>
   | _ \<Rightarrow> \<lparr>last_step = [], i_data = PNone, created_at = 0\<rparr>)"

lemma wal_view_says: "wal_says d s (step, data, now) \<Longrightarrow>
    wal_view d s = \<lparr>last_step = step, i_data = PDict data, created_at = now\<rparr>"
  by (simp add: wal_view_def wal_says_def)

lemma load_all:
  assumes "redis_server (cl_rc cl)" "wal_inv (c_db st)" "online st" "\<forall>s\<in>set ids. wal_active (c_db st) s"
  shows "\<exists>st'. fold_each (load_incomplete cl) ids acc st =
      (Inr (fold (\<lambda>s. AList.update s (wal_view (c_db st) s)) ids acc), st') \<and> c_db st' = c_db st \<and> online st' \<and> same_proc st st'"
  using assms(2-4)
proof (induction ids arbitrary: acc st)
  case Nil
  then show ?case by (simp add: ret_def)
next
  case (Cons s ids)
  obtain step data now where says: "wal_says (c_db st) s (step, data, now)"
    using Cons.prems by (auto simp: wal_inv_def)
  have l: "load_incomplete cl s acc st = (Inr (AList.update s (wal_view (c_db st) s) acc), after_trip st)"
    using load_incomplete_says [OF assms(1) Cons.prems(2) _ says] Cons.prems(1) wal_view_says [OF says]
    by (simp add: wal_inv_def)
  show ?case
    using Cons.IH [of "after_trip st" "AList.update s (wal_view (c_db st) s) acc"] Cons.prems
    by (auto simp: bindE_def l same_proc_def)
qed

lemma scan_reads:
  assumes "redis_server (cl_rc cl)" "wal_inv (c_db st)" "online st"
    and "scan_pages (cl_rc cl) fuel ACTIVE_SET 100 c (c_db st) = Some ids"
  shows "\<exists>st'. scan_incomplete cl fuel c acc st =
      (Inr (Some (fold (\<lambda>s. AList.update s (wal_view (c_db st) s)) ids acc)), st') \<and> c_db st' = c_db st \<and> online st' \<and> same_proc st st'"
  using assms(2-4)
proof (induction fuel arbitrary: c acc st ids)
  case (Suc fuel)
  obtain ms where ms: "set_of (c_db st) ACTIVE_SET = Some ms"
    using wal_set Suc.prems(1) by (auto simp: wal_inv_def)
  obtain c' page where r: "cl_rc cl (SSCAN ACTIVE_SET c 100) (c_db st) = (Inr (Page c' page), c_db st)" "set page \<subseteq> set ms"
    using redis_server.sscan [OF assms(1) ms] by blast
  let ?st = "(after_trip st)\<lparr>c_db := c_db st\<rparr>"
  have call: "redis_call cl (cl_rc cl (SSCAN ACTIVE_SET c 100)) st = (Inr (Page c' page), ?st)"
    using redis_call_online [of st "cl_rc cl (SSCAN ACTIVE_SET c 100)"] Suc.prems(2) r(1) by blast
  have "\<forall>s\<in>set page. wal_active (c_db ?st) s" using r(2) ms by (auto simp: wal_active_def)
  then obtain st1 where st1: "fold_each (load_incomplete cl) page acc ?st =
      (Inr (fold (\<lambda>s. AList.update s (wal_view (c_db st) s)) page acc), st1)" "c_db st1 = c_db st" "online st1" "same_proc ?st st1"
    using load_all [OF assms(1), of ?st page acc] Suc.prems by auto
  have same: "same_proc st st1" using st1(4) by (simp add: same_proc_def)
  show ?case
  proof (cases "c' = ''0''")
    case True
    then have "ids = page" using Suc.prems(3) r(1) by simp
    then show ?thesis using True call st1 same by (simp add: bindE_def ret_def)
  next
    case False
    then obtain rest where rest: "scan_pages (cl_rc cl) fuel ACTIVE_SET 100 c' (c_db st) = Some rest" "ids = page @ rest"
      using Suc.prems(3) r(1) by auto
    obtain st2 where "scan_incomplete cl fuel c' (fold (\<lambda>s. AList.update s (wal_view (c_db st) s)) page acc) st1 =
        (Inr (Some (fold (\<lambda>s. AList.update s (wal_view (c_db st) s)) rest
           (fold (\<lambda>s. AList.update s (wal_view (c_db st) s)) page acc))), st2)" "c_db st2 = c_db st" "online st2" "same_proc st1 st2"
      using Suc.IH [of st1 c' rest] rest Suc.prems(1) st1(2,3) by auto
    then show ?thesis
      using False call st1 rest same_proc_trans [OF same] by (simp add: bindE_def)
  qed
qed simp

lemma map_of_fold_update:
  "map_of (fold (\<lambda>s. AList.update s (f s)) ids acc) s = (if s \<in> set ids then Some (f s) else map_of acc s)"
  by (induction ids arbitrary: acc) auto

lemma incomplete_active:
  assumes "redis_server (cl_rc cl)" "wal_inv (c_db st)" "online st"
  shows "\<exists>fuel acc st'. get_incomplete_sagas cl fuel st = (Inr (Some acc), st') \<and> c_db st' = c_db st \<and> online st' \<and>
    same_proc st st' \<and> (\<forall>s. map_of acc s = (if wal_active (c_db st) s then Some (wal_view (c_db st) s) else None))"
proof -
  obtain ms where ms: "set_of (c_db st) ACTIVE_SET = Some ms"
    using wal_set assms(2) by (auto simp: wal_inv_def)
  obtain fuel ids where f: "scan_pages (cl_rc cl) fuel ACTIVE_SET 100 ''0'' (c_db st) = Some ids" "set ids = set ms"
    using redis_server.sscan_full [OF assms(1) ms] by blast
  obtain st' where "scan_incomplete cl fuel ''0'' [] st =
      (Inr (Some (fold (\<lambda>s. AList.update s (wal_view (c_db st) s)) ids [])), st')" "c_db st' = c_db st" "online st'" "same_proc st st'"
    using scan_reads [OF assms f(1)] by blast
  then show ?thesis
    using f(2) ms unfolding get_incomplete_sagas_def
    by (intro exI [of _ fuel] exI conjI) (auto simp: map_of_fold_update wal_active_def)
qed

section \<open>The log as a map\<close>

text \<open>A history of the log, and the entry a saga has after it.\<close>

datatype wal_op = Log string string "dict option" | Log_terminal string string "dict option"

fun run_wal_op :: "redis_client \<Rightarrow> wal_op \<Rightarrow> ('n proc, unit) py" where
  "run_wal_op cl (Log s step data) = wal_log cl s step data"
| "run_wal_op cl (Log_terminal s step data) = wal_log_terminal cl s step data"

fun wal_apply :: "wal_op \<Rightarrow> (string \<rightharpoonup> string \<times> dict) \<Rightarrow> string \<rightharpoonup> string \<times> dict" where
  "wal_apply (Log s step data) m = (if step \<in> set TERMINAL_STATES then m(s := None)
     else m(s \<mapsto> (step, case data of Some x \<Rightarrow> x | None \<Rightarrow> [])))"
| "wal_apply (Log_terminal s step data) m = m(s := None)"

text \<open>A record that does not end its saga comes with data, as in every such call of the executors.\<close>

fun wal_op_ok :: "wal_op \<Rightarrow> bool" where
  "wal_op_ok (Log s step data) \<longleftrightarrow> step \<in> set TERMINAL_STATES \<or> data \<notin> {None, Some []}"
| "wal_op_ok (Log_terminal s step data) \<longleftrightarrow> step \<in> set TERMINAL_STATES"

definition wal_map :: "keyspace \<Rightarrow> string \<rightharpoonup> string \<times> dict" where
  "wal_map d s = (if wal_active d s then (case i_data (wal_view d s) of PDict x \<Rightarrow> Some (last_step (wal_view d s), x) | _ \<Rightarrow> None) else None)"

lemma wal_map_says: "wal_says d s (step, x, now) \<Longrightarrow> wal_map d s = Some (step, x)"
  by (simp add: wal_map_def wal_view_says) (simp add: wal_says_def)

lemma wal_map_inactive: "\<not> wal_active d s \<Longrightarrow> wal_map d s = None"
  by (simp add: wal_map_def)

lemma wal_map_frame: "wal_inv d \<Longrightarrow> wal_frame s d d' \<Longrightarrow> s' \<noteq> s \<Longrightarrow> wal_map d' s' = wal_map d s'"
proof (cases "wal_active d s'")
  case True
  assume a: "wal_inv d" "wal_frame s d d'" "s' \<noteq> s"
  obtain step x now where "wal_says d s' (step, x, now)" using a True by (auto simp: wal_inv_def)
  then show ?thesis using wal_map_says wal_frame_says [OF a(2,3)] by metis
next
  case False
  assume a: "wal_inv d" "wal_frame s d d'" "s' \<noteq> s"
  then show ?thesis using False by (simp add: wal_map_inactive wal_frame_def)
qed

lemma wal_op_refines:
  assumes "redis_server (cl_rc cl)" "online st" "wal_inv (c_db st)" "wal_op_ok ope"
  shows "\<exists>st'. run_wal_op cl ope st = (Inr (), st') \<and> online st' \<and> same_proc st st' \<and> wal_inv (c_db st') \<and>
    wal_map (c_db st') = wal_apply ope (wal_map (c_db st))"
proof -
  have t: "wal_typed (c_db st)" using assms(3) by (simp add: wal_inv_def)
  have fin: "wal_inv d' \<and> wal_map d' = (wal_map (c_db st))(s := None)"
    if "wal_typed d'" "\<not> wal_active d' s" "wal_frame s (c_db st) d'" for d' s
    using wal_inv_finish [OF assms(3) that] wal_map_frame [OF assms(3) that(3)] that(2)
    by (auto simp: wal_map_inactive fun_eq_iff)
  show ?thesis
  proof (cases ope)
    case (Log s step data)
    show ?thesis
    proof (cases "step \<in> set TERMINAL_STATES")
      case True
      then show ?thesis
        using Log wal_log_finish [OF assms(1,2) t True, of wal_log s data] fin by fastforce
    next
      case False
      have rec: "wal_inv d' \<and> wal_map d' = (wal_map (c_db st))(s \<mapsto> (step, x))"
        if "wal_typed d'" "wal_says d' s (step, x, now)" "wal_frame s (c_db st) d'" for d' now x
        using wal_inv_record [OF assms(3) that] wal_map_frame [OF assms(3) that(3)] wal_map_says [OF that(2)]
        by (auto simp: fun_eq_iff)
      obtain x where x: "data = Some x" "x \<noteq> []" using assms(4) Log False by auto
      then obtain st' where l: "wal_log cl s step (Some x) st = (Inr (), st')" "online st'" "same_proc st st'"
          "wal_typed (c_db st')" "wal_says (c_db st') s (step, x, boot_time st + c_clock st)" "wal_frame s (c_db st) (c_db st')"
        using wal_log_record [OF assms(1,2) t False] by blast
      from rec [OF l(4,5,6)] show ?thesis using Log False x l(1,2,3) by simp
    qed
  next
    case (Log_terminal s step data)
    then show ?thesis
      using wal_log_finish [OF assms(1,2) t, of step wal_log_terminal s data] assms(4) fin by fastforce
  qed
qed

lemma wal_run_refines:
  assumes "redis_server (cl_rc cl)" "online st" "wal_inv (c_db st)" "list_all wal_op_ok ops"
  shows "\<exists>st'. for_each ops (run_wal_op cl) st = (Inr (), st') \<and> online st' \<and> same_proc st st' \<and> wal_inv (c_db st') \<and>
    wal_map (c_db st') = fold wal_apply ops (wal_map (c_db st))"
  using assms(2-4)
proof (induction ops arbitrary: st)
  case Nil
  then show ?case by (simp add: ret_def)
next
  case (Cons p ops)
  obtain st1 where 1: "run_wal_op cl p st = (Inr (), st1)" "online st1" "same_proc st st1" "wal_inv (c_db st1)"
      "wal_map (c_db st1) = wal_apply p (wal_map (c_db st))"
    using wal_op_refines [OF assms(1) Cons.prems(1,2)] Cons.prems(3) by auto
  then show ?case
    using Cons.IH [of st1] Cons.prems(3) same_proc_trans [OF 1(3)] by (auto simp: bindE_def)
qed

text \<open>C12 (roundtrip): On a database whose log is empty and a connection that works, any history of
  \<open>WALEngine.log\<close> and \<open>log_terminal\<close> calls, with data in every record that does not end its saga, succeeds, and \<open>get_incomplete_sagas\<close> afterwards
  returns exactly the sagas whose last record is not terminal, each with the step and the data of
  that last record (with enough fuel for the pages of \<open>SSCAN\<close>).\<close>

theorem wal_roundtrip:
  assumes "redis_server (cl_rc cl)" "online st" "wal_typed (c_db st)" "\<And>s. \<not> wal_active (c_db st) s"
    and "list_all wal_op_ok ops"
  shows "\<exists>st1 fuel acc st2. for_each ops (run_wal_op cl) st = (Inr (), st1) \<and>
    get_incomplete_sagas cl fuel st1 = (Inr (Some acc), st2) \<and> c_db st2 = c_db st1 \<and>
    (\<forall>s. map_option (\<lambda>i. (last_step i, i_data i)) (map_of acc s) =
         map_option (\<lambda>(step, x). (step, PDict x)) (fold wal_apply ops Map.empty s))"
proof -
  have inv: "wal_inv (c_db st)" and none: "wal_map (c_db st) = Map.empty"
    using assms(3,4) by (auto simp: wal_inv_def wal_map_inactive)
  obtain st1 where 1: "for_each ops (run_wal_op cl) st = (Inr (), st1)" "online st1" "wal_inv (c_db st1)"
      "wal_map (c_db st1) = fold wal_apply ops Map.empty"
    using wal_run_refines [OF assms(1,2) inv assms(5)] none by auto
  obtain fuel acc st2 where 2: "get_incomplete_sagas cl fuel st1 = (Inr (Some acc), st2)" "c_db st2 = c_db st1"
      "\<forall>s. map_of acc s = (if wal_active (c_db st1) s then Some (wal_view (c_db st1) s) else None)"
    using incomplete_active [OF assms(1) 1(3,2)] by blast
  have "map_option (\<lambda>i. (last_step i, i_data i)) (map_of acc s) =
      map_option (\<lambda>(step, x). (step, PDict x)) (fold wal_apply ops Map.empty s)" for s
  proof (cases "wal_active (c_db st1) s")
    case True
    then obtain step x now where w: "wal_says (c_db st1) s (step, x, now)" using 1(3) by (auto simp: wal_inv_def)
    then show ?thesis using True 2(3) wal_map_says [OF w] wal_view_says [OF w] 1(4) by simp
  next
    case False
    then show ?thesis using 2(3) wal_map_inactive [OF False] 1(4) by simp
  qed
  then show ?thesis using 1(1) 2(1,2) by blast
qed

lemma fresh_proc_log [simp]: "online (fresh_proc n)" "wal_typed (c_db (fresh_proc n))"
  "\<not> wal_active (c_db (fresh_proc n)) s" "net (fresh_proc n) = n"
  by (simp_all add: fresh_proc_def online_def wal_typed_def wal_active_def set_of_def stream_of_def hash_of_def
    empty_keyspace_def)

theorem wal_roundtrip_witness:
  "\<exists>st1 fuel acc st2. for_each [Log ''a'' ''PREPARING'' (Some [(''k'', PInt 1)]), Log ''b'' ''EXECUTING'' (Some [(''k'', PInt 2)]),
       Log_terminal ''b'' ''COMPLETED'' None] (run_wal_op mem_client) (fresh_proc ()) = (Inr (), st1) \<and>
     get_incomplete_sagas mem_client fuel st1 = (Inr (Some acc), st2) \<and>
     map_option last_step (map_of acc ''a'') = Some ''PREPARING'' \<and> map_of acc ''b'' = None"
proof -
  let ?ops = "[Log ''a'' ''PREPARING'' (Some [(''k'', PInt 1)]), Log ''b'' ''EXECUTING'' (Some [(''k'', PInt 2)]),
     Log_terminal ''b'' ''COMPLETED'' None]"
  have rs: "redis_server (cl_rc mem_client)" by (simp add: mem_client_def mem_redis)
  have ok: "list_all wal_op_ok ?ops" by (simp add: TERMINAL_STATES_def)
  obtain st1 fuel acc st2 where r: "for_each ?ops (run_wal_op mem_client) (fresh_proc ()) = (Inr (), st1)"
      "get_incomplete_sagas mem_client fuel st1 = (Inr (Some acc), st2)"
      "\<forall>s. map_option (\<lambda>i. (last_step i, i_data i)) (map_of acc s) =
         map_option (\<lambda>(step, x). (step, PDict x)) (fold wal_apply ?ops Map.empty s)"
    using wal_roundtrip [OF rs fresh_proc_log(1,2,3) ok, of "()"] by blast
  have "map_option (\<lambda>i. (last_step i, i_data i)) (map_of acc ''a'') = Some (''PREPARING'', PDict [(''k'', PInt 1)])"
      "map_of acc ''b'' = None"
    using r(3) [rule_format, of "''a''"] r(3) [rule_format, of "''b''"] by (simp_all add: TERMINAL_STATES_def)
  then have "map_option last_step (map_of acc ''a'') = Some ''PREPARING'' \<and> map_of acc ''b'' = None" by auto
  then show ?thesis using r(1,2) by blast
qed

end
