(* ===== verification/Triples.thy ===== *)
theory Triples
  imports Python
begin

text \<open>
  Hoare triples for effectful computations: from a state with \<open>P\<close>, a computation that returns \<open>x\<close>
  ends in a state with \<open>Q x\<close>, one that raises \<open>e\<close> in a state with \<open>E e\<close>. Computations are total
  functions, so a triple whose \<open>E\<close> is false says that the computation returns.
\<close>

definition triple :: "('s \<Rightarrow> bool) \<Rightarrow> ('e, 's, 'a) eff \<Rightarrow> ('a \<Rightarrow> 's \<Rightarrow> bool) \<Rightarrow> ('e \<Rightarrow> 's \<Rightarrow> bool) \<Rightarrow> bool" where
  "triple P m Q E \<longleftrightarrow> (\<forall>s r s'. P s \<longrightarrow> m s = (r, s') \<longrightarrow> (case r of Inl e \<Rightarrow> E e s' | Inr x \<Rightarrow> Q x s'))"

lemma tripleI:
  "(\<And>s x s'. P s \<Longrightarrow> m s = (Inr x, s') \<Longrightarrow> Q x s') \<Longrightarrow> (\<And>s e s'. P s \<Longrightarrow> m s = (Inl e, s') \<Longrightarrow> E e s') \<Longrightarrow>
     triple P m Q E"
  by (auto simp: triple_def split: sum.splits)

lemma triple_ret_D: "triple P m Q E \<Longrightarrow> P s \<Longrightarrow> m s = (Inr x, s') \<Longrightarrow> Q x s'"
  by (auto simp: triple_def split: sum.splits)

lemma triple_raise_D: "triple P m Q E \<Longrightarrow> P s \<Longrightarrow> m s = (Inl e, s') \<Longrightarrow> E e s'"
  by (auto simp: triple_def split: sum.splits)

lemma triple_weaken:
  "triple P m Q E \<Longrightarrow> (\<And>s. P' s \<Longrightarrow> P s) \<Longrightarrow> (\<And>x s. Q x s \<Longrightarrow> Q' x s) \<Longrightarrow> (\<And>e s. E e s \<Longrightarrow> E' e s) \<Longrightarrow>
     triple P' m Q' E'"
  by (fastforce simp: triple_def split: sum.splits)

lemma triple_pre: "triple P m Q E \<Longrightarrow> (\<And>s. P' s \<Longrightarrow> P s) \<Longrightarrow> triple P' m Q E"
  by (rule triple_weaken)

lemma triple_ret: "(\<And>s. P s \<Longrightarrow> Q x s) \<Longrightarrow> triple P (ret x) Q E"
  by (auto simp: triple_def ret_def)

lemma triple_bind:
  "triple P m Q E \<Longrightarrow> (\<And>x. triple (Q x) (f x) R E) \<Longrightarrow> triple P (bindE m f) R E"
  by (fastforce simp: triple_def bindE_def split: sum.splits prod.splits)

lemma triple_seq:
  "triple P m Q E' \<Longrightarrow> (\<And>e s. E' e s \<Longrightarrow> E e s) \<Longrightarrow> (\<And>x. triple (Q x) (f x) R E) \<Longrightarrow> triple P (bindE m f) R E"
  by (rule triple_bind [where Q = Q]) (auto intro: triple_weaken)

lemma triple_if:
  "(b \<Longrightarrow> triple P m Q E) \<Longrightarrow> (\<not> b \<Longrightarrow> triple P k Q E) \<Longrightarrow> triple P (if b then m else k) Q E"
  by simp

lemma triple_assume: "(\<And>s. P s \<Longrightarrow> b) \<Longrightarrow> (b \<Longrightarrow> triple P m Q E) \<Longrightarrow> triple P m Q E"
  by (fastforce simp: triple_def)

lemma triple_pure: "(b \<Longrightarrow> triple P m Q E) \<Longrightarrow> triple (\<lambda>s. P s \<and> b) m Q E"
  by (fastforce simp: triple_def)

lemma triple_ex: "(\<And>y. triple (P y) m Q E) \<Longrightarrow> triple (\<lambda>s. \<exists>y. P y s) m Q E"
  by (fastforce simp: triple_def)

lemma triple_lift: "(\<And>x s. v = Inr x \<Longrightarrow> P s \<Longrightarrow> Q x s) \<Longrightarrow> (\<And>e s. v = Inl e \<Longrightarrow> P s \<Longrightarrow> E e s) \<Longrightarrow>
    triple P (lift_sum v) Q E"
  by (auto simp: triple_def lift_sum_def split: sum.splits)

lemma triple_try:
  "triple P m Q E \<Longrightarrow> (\<And>e k. h e = Some k \<Longrightarrow> triple (E e) k Q F) \<Longrightarrow> (\<And>e s. h e = None \<Longrightarrow> E e s \<Longrightarrow> F e s) \<Longrightarrow>
     triple P (try_except m h) Q F"
  by (fastforce simp: triple_def try_except_def split: sum.splits prod.splits option.splits)

text \<open>Loops keep an invariant.\<close>

lemma triple_for_each:
  "(\<And>x. x \<in> set xs \<Longrightarrow> triple P (body x) (\<lambda>_. P) E) \<Longrightarrow> triple P (for_each xs body) (\<lambda>_. P) E"
proof (induction xs)
  case Nil
  then show ?case by (simp add: triple_ret)
next
  case (Cons x xs)
  show ?case using triple_bind [OF Cons.prems [of x], of "\<lambda>_. for_each xs body" "\<lambda>_. P"] Cons by simp
qed

lemma triple_fold_each:
  "(\<And>x acc. x \<in> set xs \<Longrightarrow> triple (P acc) (body x acc) P E) \<Longrightarrow> triple (P acc) (fold_each body xs acc) P E"
proof (induction xs arbitrary: acc)
  case Nil
  then show ?case by (simp add: triple_ret)
next
  case (Cons x xs)
  show ?case using triple_bind [OF Cons.prems [of x acc], of "fold_each body xs" P] Cons by simp
qed

end
