(* ===== verification/WalTriples.thy ===== *)
theory WalTriples
  imports WalLaws Triples
begin

text \<open>
  The log under every behaviour of the connection: a record is written, or the call raises and the
  record was written or not. Written as triples over the map the log stands for; \<open>live\<close> says that
  the connection works, and then nothing is raised.
\<close>

definition wal_at :: "bool \<Rightarrow> (string \<rightharpoonup> string \<times> dict) \<Rightarrow> 'n \<Rightarrow> 'n proc \<Rightarrow> bool" where
  "wal_at live m n st \<longleftrightarrow> (live \<longrightarrow> online st) \<and> wal_inv (c_db st) \<and> wal_map (c_db st) = m \<and> net st = n"

text \<open>What an interrupted record of \<open>s\<close> leaves: the old map or the new one.\<close>

definition wal_between :: "bool \<Rightarrow> (string \<rightharpoonup> string \<times> dict) \<Rightarrow> (string \<rightharpoonup> string \<times> dict) \<Rightarrow> 'n \<Rightarrow> exn \<Rightarrow> 'n proc \<Rightarrow> bool" where
  "wal_between live m m' n e st \<longleftrightarrow> \<not> live \<and> is_exception e \<and> (wal_at live m n st \<or> wal_at live m' n st)"

lemma wal_at_live [simp]: "wal_at True m n st \<longleftrightarrow> online st \<and> wal_inv (c_db st) \<and> wal_map (c_db st) = m \<and> net st = n"
  by (simp add: wal_at_def)

section \<open>Interrupted pipelines\<close>

lemma wal_map_record:
  assumes "wal_inv d" "wal_typed d'" "wal_says d' s (step, x, now)" "wal_frame s d d'"
  shows "wal_inv d'" "wal_map d' = (wal_map d)(s \<mapsto> (step, x))"
  using wal_inv_record [OF assms] wal_map_frame [OF assms(1,4)] wal_map_says [OF assms(3)]
  by (auto simp: fun_eq_iff)

lemma wal_map_finish:
  assumes "wal_inv d" "wal_typed d'" "\<not> wal_active d' s" "wal_frame s d d'"
  shows "wal_inv d'" "wal_map d' = (wal_map d)(s := None)"
  using wal_inv_finish [OF assms] wal_map_frame [OF assms(1,4)] wal_map_inactive [OF assms(3)]
  by (auto simp: fun_eq_iff)

lemma wal_map_cong:
  assumes "\<And>s. entries d' (saga_state_key s) = entries d (saga_state_key s)" "set_of d' ACTIVE_SET = set_of d ACTIVE_SET"
  shows "wal_map d' = wal_map d" "wal_active d' = wal_active d" "wal_says d' = wal_says d"
proof -
  show a: "wal_active d' = wal_active d" using assms(2) by (simp add: wal_active_def fun_eq_iff)
  have f: "field d' (saga_state_key s) k = field d (saga_state_key s) k" for s k
    by (rule view_cong, rule assms(1))
  have "wal_view d' = wal_view d" by (rule ext) (simp only: wal_view_def f)
  then show "wal_map d' = wal_map d" by (simp only: wal_map_def a fun_eq_iff simp_thms)
  show "wal_says d' = wal_says d" by (simp add: wal_says_def a f fun_eq_iff)
qed

lemma wal_other_stream:
  assumes "wal_inv d" "k \<in> {STREAM_KEY, DLQ_STREAM}"
  shows "wal_inv (put k (RStream l) d)" "wal_map (put k (RStream l) d) = wal_map d"
proof -
  let ?d = "put k (RStream l) d"
  have e: "entries ?d (saga_state_key s) = entries d (saga_state_key s)" "entries ?d ACTIVE_SET = entries d ACTIVE_SET" for s
    using assms(2) by auto
  then have s: "set_of ?d ACTIVE_SET = set_of d ACTIVE_SET" by (auto intro: view_cong)
  note c = wal_map_cong [of ?d d, OF e(1) s]
  show "wal_map ?d = wal_map d" by (rule c)
  have h: "hash_of ?d (saga_state_key t) = hash_of d (saga_state_key t)" for t
    by (rule view_cong, rule e)
  have "wal_typed ?d"
    using assms e(2) by (auto simp: wal_inv_def wal_typed_def h stream_of_def)
  then show "wal_inv ?d" using assms(1) c by (simp add: wal_inv_def)
qed

context redis_server begin

lemma wal_trim_put: "stream_of d k = Some l \<Longrightarrow> \<exists>r l'. rc (XADD k fs m) d = (Inr r, put k (RStream l') d)"
  using xadd_put by blast

text \<open>A prefix of the commands of a terminal record.\<close>

lemma wal_finish_prefix:
  assumes "wal_inv d" "cs = [XADD STREAM_KEY entry MAX_LEN, SREM ACTIVE_SET s, DEL (saga_state_key s)]"
  shows "wal_inv (snd (run_cmds rc (take k cs) d)) \<and>
    (wal_map (snd (run_cmds rc (take k cs) d)) = wal_map d \<or>
     wal_map (snd (run_cmds rc (take k cs) d)) = (wal_map d)(s := None))"
proof -
  have typed: "wal_typed d" using assms(1) by (simp add: wal_inv_def)
  obtain l0 where l0: "stream_of d STREAM_KEY = Some l0" using typed by (auto simp: wal_typed_def)
  obtain r1 l1 where 1: "rc (XADD STREAM_KEY entry MAX_LEN) d = (Inr r1, put STREAM_KEY (RStream l1) d)"
    using wal_trim_put [OF l0] by blast
  let ?d1 = "put STREAM_KEY (RStream l1) d"
  have w1: "wal_inv ?d1" "wal_map ?d1 = wal_map d" using wal_other_stream [OF assms(1)] by auto
  obtain l where l: "set_of ?d1 ACTIVE_SET = Some l" "distinct l" using wal_set [of ?d1] w1(1) by (auto simp: wal_inv_def)
  obtain r d2 l' where 2: "rc (SREM ACTIVE_SET s) ?d1 = (Inr r, d2)"
    "d2 = ?d1 \<and> l' = l \<or> d2 = put ACTIVE_SET (RSet l') ?d1 \<or> d2 = remove ACTIVE_SET ?d1 \<and> l' = []"
    "set l' = set l - {s}" "distinct l'" "set_of d2 ACTIVE_SET = Some l'"
    using srem_put [OF l, of s] by blast
  have w2: "wal_inv d2 \<and> wal_map d2 = (wal_map d)(s := None)"
  proof -
    have act: "wal_active d2 t \<longleftrightarrow> t \<noteq> s \<and> wal_active ?d1 t" for t
      unfolding wal_active_def using 2(3,5) l(1) by auto
    have "entries d2 t = entries ?d1 t" if "t \<noteq> ACTIVE_SET" for t
      using 2(2) that by (elim disjE conjE) simp_all
    with act have fr: "wal_frame s ?d1 d2" "\<not> wal_active d2 s" by (simp_all add: wal_frame_def)
    have "case entries d2 ACTIVE_SET of None \<Rightarrow> True | Some (RSet l) \<Rightarrow> distinct l | _ \<Rightarrow> False"
      using 2(4,5) by (auto simp: set_of_def split: option.splits rval.splits)
    moreover have "stream_of d2 STREAM_KEY \<noteq> None" "stream_of d2 DLQ_STREAM \<noteq> None"
      "hash_of d2 (saga_state_key t) \<noteq> None" for t
      using 2(2) typed by (auto simp: wal_typed_def)
    ultimately have "wal_typed d2" unfolding wal_typed_def by blast
    from wal_map_finish [OF w1(1) this fr(2,1)] show ?thesis using w1(2) by simp
  qed
  show ?thesis
  proof (cases "3 \<le> k")
    case True
    obtain rs d' where w: "run_cmds rc cs d = (rs, d')" "wal_typed d'" "\<not> wal_active d' s" "wal_frame s d d'"
      using wal_finish [OF typed, of entry s] assms(2) by blast
    have "take k cs = cs" using True assms(2) by simp
    then show ?thesis using w(1) wal_map_finish [OF assms(1) w(2-4)] by simp
  next
    case False
    then consider "k = 0" | "k = 1" | "k = 2" by linarith
    then show ?thesis
      using assms 1 2(1) w1 w2 by cases (auto simp: numeral_2_eq_2)
  qed
qed

end

section \<open>Triples of the log\<close>

lemma after_trip_online: "online st \<Longrightarrow> online ((after_trip st)\<lparr>c_db := d\<rparr>)"
  by simp

lemma triple_wal_log:
  assumes "redis_server (cl_rc cl)" "step \<notin> set TERMINAL_STATES" "x \<noteq> []"
  shows "triple (wal_at live m n) (wal_log cl s step (Some x))
    (\<lambda>_. wal_at live (m(s \<mapsto> (step, x))) n) (wal_between live m (m(s \<mapsto> (step, x))) n)"
proof -
  have "case r of Inl e \<Rightarrow> wal_between live m (m(s \<mapsto> (step, x))) n e st' | Inr _ \<Rightarrow> wal_at live (m(s \<mapsto> (step, x))) n st'"
    if w: "wal_at live m n st" and run: "wal_log cl s step (Some x) st = (r, st')" for st r st'
  proof -
    let ?now = "boot_time st + c_clock st"
    let ?cs = "[XADD STREAM_KEY (wal_entry s step ?now (Some x)) MAX_LEN, SADD ACTIVE_SET s,
        HSET (saga_state_key s) (wal_entry s step ?now (Some x))]"
    have inv: "wal_inv (c_db st)" and typed: "wal_typed (c_db st)" using w by (auto simp: wal_at_def wal_inv_def)
    obtain rs d' xs where rc: "run_cmds (cl_rc cl) ?cs (c_db st) = (rs, d')" "first_error rs = Inr xs"
        "wal_typed d'" "wal_says d' s (step, x, ?now)" "wal_frame s (c_db st) d'"
      using redis_server.wal_record [OF assms(1) typed assms(2) refl assms(3) refl] by blast
    note new = wal_map_record [OF inv rc(3-5)]
    have log: "wal_log cl s step (Some x) st = bindE (pipeline cl True ?cs) (\<lambda>_. ret ()) st"
      using assms(2) by (simp add: wal_log_def wall_time_def bindE_def Let_def)
    show ?thesis
    proof (cases "t_fate (next_trip (c_trips st))")
      case Answered
      then show ?thesis
        using w run rc(1,2) new by (auto simp: log pipeline_def Let_def bindE_def ret_def wal_at_def)
    next
      case (Broken k)
      then have "\<not> live" using w online_next by (fastforce simp: wal_at_def)
      then show ?thesis
        using Broken w run rc(1) new
        by (auto simp: log pipeline_def Let_def bindE_def ret_def wal_at_def wal_between_def split: if_splits)
    qed
  qed
  then show ?thesis by (auto simp: triple_def)
qed

lemma triple_wal_finish:
  assumes "redis_server (cl_rc cl)" "step \<in> set TERMINAL_STATES" "lg \<in> {wal_log, wal_log_terminal}"
  shows "triple (wal_at live m n) (lg cl s step data)
    (\<lambda>_. wal_at live (m(s := None)) n) (wal_between live m (m(s := None)) n)"
proof -
  have "case r of Inl e \<Rightarrow> wal_between live m (m(s := None)) n e st' | Inr _ \<Rightarrow> wal_at live (m(s := None)) n st'"
    if w: "wal_at live m n st" and run: "lg cl s step data st = (r, st')" for st r st'
  proof -
    let ?now = "boot_time st + c_clock st"
    let ?cs = "[XADD STREAM_KEY (wal_entry s step ?now data) MAX_LEN, SREM ACTIVE_SET s, DEL (saga_state_key s)]"
    have inv: "wal_inv (c_db st)" and typed: "wal_typed (c_db st)" using w by (auto simp: wal_at_def wal_inv_def)
    obtain rs d' xs where rc: "run_cmds (cl_rc cl) ?cs (c_db st) = (rs, d')" "first_error rs = Inr xs"
        "wal_typed d'" "\<not> wal_active d' s" "wal_frame s (c_db st) d'"
      using redis_server.wal_finish [OF assms(1) typed] by blast
    note new = wal_map_finish [OF inv rc(3-5)]
    note pre = redis_server.wal_finish_prefix [OF assms(1) inv refl, of _ "wal_entry s step ?now data" s]
    obtain tx where log: "lg cl s step data st = bindE (pipeline cl tx ?cs) (\<lambda>_. ret ()) st"
    proof -
      have "lg cl s step data st = bindE (pipeline cl True ?cs) (\<lambda>_. ret ()) st \<or>
          lg cl s step data st = bindE (pipeline cl False ?cs) (\<lambda>_. ret ()) st"
        using assms(2,3) by (auto simp: wal_log_def wal_log_terminal_def wall_time_def bindE_def Let_def)
      then show ?thesis using that by blast
    qed
    show ?thesis
    proof (cases "t_fate (next_trip (c_trips st))")
      case Answered
      then show ?thesis
        using w run rc(1,2) new by (auto simp: log pipeline_def Let_def bindE_def ret_def wal_at_def)
    next
      case (Broken k)
      let ?l = "if tx then (if k = 0 then [] else ?cs) else take k ?cs"
      have nl: "\<not> live" using Broken w online_next by (fastforce simp: wal_at_def)
      have d: "wal_inv (snd (run_cmds (cl_rc cl) ?l (c_db st))) \<and>
          (wal_map (snd (run_cmds (cl_rc cl) ?l (c_db st))) = m \<or>
           wal_map (snd (run_cmds (cl_rc cl) ?l (c_db st))) = m(s := None))"
        using pre [of k] pre [of 0] pre [of 3] w by (cases tx; cases "k = 0") (auto simp: wal_at_def)
      have "r = Inl (RedisErr (t_error (next_trip (c_trips st))))"
          "st' = (after_trip st)\<lparr>c_db := snd (run_cmds (cl_rc cl) ?l (c_db st))\<rparr>"
        using run Broken unfolding log by (auto simp: pipeline_def Let_def bindE_def ret_def)
      then show ?thesis using d nl w by (auto simp: wal_at_def wal_between_def)
    qed
  qed
  then show ?thesis by (auto simp: triple_def)
qed

text \<open>The dead letter queue never raises and leaves the log alone.\<close>

lemma triple_dlq:
  assumes "redis_server (cl_rc cl)"
  shows "triple (wal_at live m n) (write_to_dlq cl s action nm reason k ctx) (\<lambda>_. wal_at live m n) (\<lambda>_ _. False)"
proof -
  have "case r of Inl e \<Rightarrow> False | Inr _ \<Rightarrow> wal_at live m n st'"
    if w: "wal_at live m n st" and run: "write_to_dlq cl s action nm reason k ctx st = (r, st')" for st r st'
  proof -
    let ?c = "XADD DLQ_STREAM (dlq_entry s action nm reason k ctx (boot_time st + c_clock st)) DLQ_MAX_LEN"
    have inv: "wal_inv (c_db st)" using w by (simp add: wal_at_def)
    then obtain l where "stream_of (c_db st) DLQ_STREAM = Some l" by (auto simp: wal_inv_def wal_typed_def)
    then obtain rp l' where x: "cl_rc cl ?c (c_db st) = (Inr rp, put DLQ_STREAM (RStream l') (c_db st))"
      using redis_server.wal_trim_put [OF assms] by blast
    obtain q st1 where call: "redis_call cl (cl_rc cl ?c) st = (q, st1)" by (cases "redis_call cl (cl_rc cl ?c) st")
    have st1: "wal_at live m n st1"
      using call w x wal_other_stream [OF inv, of DLQ_STREAM l']
      by (auto simp: redis_call_def Let_def wal_at_def split: fate.splits nat.splits)
    have "is_exception e" if "q = Inl e" for e
      using call that by (auto simp: redis_call_def Let_def split: fate.splits nat.splits sum.splits prod.splits)
    then show ?thesis
      using run call st1
      by (auto simp: write_to_dlq_def wall_time_def bindE_def try_except_def ret_def split: sum.splits)
  qed
  then show ?thesis by (auto simp: triple_def)
qed

lemma triple_sleep: "triple (wal_at live m n) (async_sleep d) (\<lambda>_. wal_at live m n) E"
  by (auto simp: triple_def async_sleep_def wal_at_def online_def)

end
