(* ===== verification/Executor.thy ===== *)
theory Executor
  imports WalLaws
begin

text \<open>
  \<open>orchestrator/definition.py\<close> and \<open>orchestrator/executor.py\<close>: transactions as lists of steps,
  the machinery both executors share, the two-phase-commit executor and the saga executor. The
  transport is a parameter \<open>tr\<close> of every operation.
\<close>

section \<open>Transaction definitions\<close>

record step_def =
  step_name :: string
  service :: string
  payload_builder :: "(string \<Rightarrow> string \<Rightarrow> dict \<Rightarrow> exn + dict) option"

record transaction =
  td_name :: string
  td_steps :: "step_def list"

section \<open>Shared infrastructure\<close>

definition STEP_TIMEOUT :: rat where "STEP_TIMEOUT = 10"
definition MAX_VERIFIED_RETRIES :: nat where "MAX_VERIFIED_RETRIES = 15"

definition status_failed :: "pyval \<Rightarrow> pyval" where
  "status_failed err = PDict [(''status'', Str ''failed''), (''error'', err)]"

definition status_success :: pyval where
  "status_success = PDict [(''status'', Str ''success'')]"

definition event_failed :: "string \<Rightarrow> pyval" where
  "event_failed reason = PDict [(''event'', Str ''failed''), (''reason'', Str reason)]"

text \<open>\<open>cb = self.circuit_breakers.get(service)\<close> and the three things done with it.\<close>

definition set_breaker :: "string \<Rightarrow> breaker \<Rightarrow> 'n proc \<Rightarrow> 'n proc" where
  "set_breaker sv b st = st\<lparr>circuit_breakers := AList.update sv b (circuit_breakers st)\<rparr>"

definition breaker_failure :: "string \<Rightarrow> ('n proc, unit) py" where
  "breaker_failure sv = (\<lambda>st. (Inr (), case map_of (circuit_breakers st) sv of
     Some b \<Rightarrow> set_breaker sv (record_failure (c_clock st) b) st | None \<Rightarrow> st))"

definition breaker_success :: "string \<Rightarrow> ('n proc, unit) py" where
  "breaker_success sv = (\<lambda>st. (Inr (), case map_of (circuit_breakers st) sv of
     Some b \<Rightarrow> set_breaker sv (record_success b) st | None \<Rightarrow> st))"

definition breaker_is_open :: "string \<Rightarrow> ('n proc, bool) py" where
  "breaker_is_open sv = (\<lambda>st. case map_of (circuit_breakers st) sv of
     Some b \<Rightarrow> (case is_open (c_clock st) b of (r, b') \<Rightarrow> (Inr r, set_breaker sv b' st))
   | None \<Rightarrow> (Inr False, st))"

fun check_circuit_breakers :: "step_def list \<Rightarrow> ('n proc, string option) py" where
  "check_circuit_breakers [] = ret None"
| "check_circuit_breakers (s # ss) = bindE (breaker_is_open (service s)) (\<lambda>is_opened.
     if is_opened then ret (Some (''service_'' @ service s @ ''_unavailable'')) else check_circuit_breakers ss)"

text \<open>\<open>_FAILURE_REASON_PRIORITY.get(reason, 1 if reason else 0)\<close>; a list or a dictionary has no hash.\<close>

definition FAILURE_REASON_PRIORITY :: "(string \<times> nat) list" where
  "FAILURE_REASON_PRIORITY = [([], 0), (''failed'', 0), (''unknown'', 0), (''insufficient_resources'', 0),
     (''timeout'', 3), (''insufficient_stock'', 2), (''insufficient_credit'', 2)]"

definition reason_priority :: "pyval \<Rightarrow> exn + nat" where
  "reason_priority v = (case v of
     PList _ \<Rightarrow> Inl (TypeErr ''unhashable type: list'')
   | PDict _ \<Rightarrow> Inl (TypeErr ''unhashable type: dict'')
   | PStr (Text s) \<Rightarrow> Inr (dict_get FAILURE_REASON_PRIORITY s 1)
   | _ \<Rightarrow> Inr (if truthy v then 1 else 0))"

definition choose_failure_reason :: "pyval \<Rightarrow> pyval \<Rightarrow> exn + pyval" where
  "choose_failure_reason current candidate = (case reason_priority current of
     Inl e \<Rightarrow> Inl e
   | Inr current_priority \<Rightarrow> (case reason_priority candidate of
       Inl e \<Rightarrow> Inl e
     | Inr candidate_priority \<Rightarrow> Inr (if current_priority < candidate_priority then candidate else current)))"

text \<open>One step through the transport. The payload starts with the saga id; the builder adds to it.\<close>

definition build_payload :: "dict \<Rightarrow> step_def \<Rightarrow> string \<Rightarrow> string \<Rightarrow> dict \<Rightarrow> exn + dict" where
  "build_payload base step saga_id action context = (case payload_builder step of
     None \<Rightarrow> Inr base
   | Some f \<Rightarrow> (case f saga_id action context of Inl e \<Rightarrow> Inl e | Inr extra \<Rightarrow> Inr (dict_merge base extra)))"

definition try_step :: "'n transport \<Rightarrow> step_def \<Rightarrow> string \<Rightarrow> string \<Rightarrow> dict \<Rightarrow> ('n proc, pyval) py" where
  "try_step tr step saga_id action context =
     bindE (lift_sum (build_payload [(''saga_id'', Str saga_id)] step saga_id action context)) (\<lambda>payload.
     try_except (tr (service step) action payload STEP_TIMEOUT)
       (\<lambda>e. if is_timeout e then Some (ret (event_failed ''timeout'')) else None))"

definition broadcast :: "'n transport \<Rightarrow> string \<Rightarrow> string \<Rightarrow> step_def list \<Rightarrow> dict \<Rightarrow>
    ('n proc, (step_def \<times> pyval) list) py" where
  "broadcast tr action saga_id steps context =
     bindE (gather (map (\<lambda>step. try_step tr step saga_id action context) steps)) (\<lambda>results.
     ret (zip steps (map (\<lambda>r. case r of Inl e \<Rightarrow> event_failed (exn_text e) | Inr v \<Rightarrow> v) results)))"

text \<open>The verdict on one result of a round: is the step still pending?\<close>

definition settle :: "string \<Rightarrow> step_def \<times> (exn + pyval) \<Rightarrow> step_def list \<Rightarrow> ('n proc, step_def list) py" where
  "settle expected_event = (\<lambda>(step, result) still_pending. case result of
     Inl e \<Rightarrow> bindE (breaker_failure (service step)) (\<lambda>_. ret (still_pending @ [step]))
   | Inr v \<Rightarrow> if dict_has v ''event'' expected_event
       then bindE (breaker_success (service step)) (\<lambda>_. ret still_pending)
       else ret (still_pending @ [step]))"

text \<open>
  The retry loop. Its first argument is the number of attempts left, so that the attempts made are
  \<open>MAX_VERIFIED_RETRIES\<close> minus it. The result is what is still pending, with the attempts made.
\<close>

fun verified_rounds :: "nat \<Rightarrow> 'n transport \<Rightarrow> string \<Rightarrow> string \<Rightarrow> string \<Rightarrow> dict \<Rightarrow> rat \<Rightarrow> nat \<Rightarrow> step_def list \<Rightarrow>
    ('n proc, step_def list \<times> nat) py" where
  "verified_rounds 0 tr action expected_event saga_id context backoff tries pending = ret (pending, tries)"
| "verified_rounds (Suc left) tr action expected_event saga_id context backoff tries pending =
     (if pending = [] then ret (pending, tries)
      else bindE (gather (map (\<lambda>step. try_step tr step saga_id action context) pending)) (\<lambda>results.
        bindE (fold_each (settle expected_event) (zip pending results) []) (\<lambda>still_pending.
        bindE (if still_pending \<noteq> [] then async_sleep (min backoff 5) else ret ()) (\<lambda>_.
        verified_rounds left tr action expected_event saga_id context
          (if still_pending \<noteq> [] then backoff * 2 else backoff) (tries + 1) still_pending))))"

definition verified_action :: "redis_client \<Rightarrow> 'n transport \<Rightarrow> string \<Rightarrow> string \<Rightarrow> string \<Rightarrow> step_def list \<Rightarrow> dict \<Rightarrow>
    ('n proc, unit) py" where
  "verified_action cl tr action expected_event saga_id steps context =
     bindE (verified_rounds MAX_VERIFIED_RETRIES tr action expected_event saga_id context (2 / 10) 0 steps)
       (\<lambda>(pending, tries). for_each pending (\<lambda>step.
          write_to_dlq cl saga_id action (step_name step) ''max_retries_exhausted'' (int tries) (Some context)))"

section \<open>Two-phase commit\<close>

definition record_vote :: "step_def \<times> pyval \<Rightarrow> ('n proc, unit) py" where
  "record_vote = (\<lambda>(step, result).
     if dict_has result ''event'' ''prepared'' then breaker_success (service step)
     else if dict_has result ''reason'' ''timeout'' then breaker_failure (service step)
     else ret ())"

text \<open>The reason of the first failed vote.\<close>

fun abort_reason :: "(step_def \<times> pyval) list \<Rightarrow> pyval" where
  "abort_reason [] = Str ''insufficient_resources''"
| "abort_reason ((_, vote) # votes) = (if dict_has vote ''event'' ''failed''
     then (case vote of PDict d \<Rightarrow> dict_get d ''reason'' (Str ''insufficient_resources'') | _ \<Rightarrow> Str ''insufficient_resources'')
     else abort_reason votes)"

definition tpc_data :: "dict \<Rightarrow> string \<Rightarrow> dict" where
  "tpc_data context tx_name = dict_merge context [(''protocol'', Str ''2pc''), (''tx_name'', Str tx_name)]"

definition two_pc_execute :: "redis_client \<Rightarrow> 'n transport \<Rightarrow> transaction \<Rightarrow> string \<Rightarrow> dict \<Rightarrow> string \<Rightarrow> ('n proc, pyval) py" where
  "two_pc_execute cl tr tx_def saga_id context tx_name =
     bindE (check_circuit_breakers (td_steps tx_def)) (\<lambda>err. case err of
       Some msg \<Rightarrow> bindE (wal_log_terminal cl saga_id ''FAILED'' None) (\<lambda>_. ret (status_failed (Str msg)))
     | None \<Rightarrow>
       bindE (wal_log cl saga_id ''PREPARING'' (Some (tpc_data context tx_name))) (\<lambda>_.
       bindE (broadcast tr ''prepare'' saga_id (td_steps tx_def) context) (\<lambda>votes.
       bindE (for_each votes record_vote) (\<lambda>_.
       if list_all (\<lambda>v. dict_has (snd v) ''event'' ''prepared'') votes then
         bindE (wal_log cl saga_id ''COMMITTING'' (Some (tpc_data context tx_name))) (\<lambda>_.
         bindE (verified_action cl tr ''commit'' ''committed'' saga_id (td_steps tx_def) context) (\<lambda>_.
         bindE (wal_log_terminal cl saga_id ''COMPLETED'' None) (\<lambda>_. ret status_success)))
       else
         bindE (wal_log cl saga_id ''ABORTING'' (Some (tpc_data context tx_name))) (\<lambda>_.
         bindE (verified_action cl tr ''abort'' ''aborted'' saga_id (td_steps tx_def) context) (\<lambda>_.
         bindE (wal_log_terminal cl saga_id ''FAILED'' None) (\<lambda>_. ret (status_failed (abort_reason votes)))))))))"

section \<open>Saga\<close>

text \<open>
  The verdict on one executed step: the steps to compensate, the reason so far, and whether all
  succeeded. A result that is no dictionary is turned into text (\<open>Json\<close> stands for the text of a
  list with a float in it).
\<close>

definition saga_reason :: "pyval \<Rightarrow> pyval" where
  "saga_reason result = (case result of
     PDict d \<Rightarrow> dict_get d ''reason'' (Str ''insufficient_resources'')
   | _ \<Rightarrow> (case py_str result of Inr t \<Rightarrow> PStr t | Inl _ \<Rightarrow> PStr (Json result)))"

definition saga_verdict :: "step_def \<times> pyval \<Rightarrow> step_def list \<times> pyval \<times> bool \<Rightarrow>
    ('n proc, step_def list \<times> pyval \<times> bool) py" where
  "saga_verdict = (\<lambda>(step, result) (completed, failure_reason, ok).
     if dict_has result ''event'' ''executed''
     then bindE (breaker_success (service step)) (\<lambda>_. ret (completed @ [step], failure_reason, ok))
     else bindE (if dict_has result ''reason'' ''timeout'' then breaker_failure (service step) else ret ()) (\<lambda>_.
       bindE (lift_sum (choose_failure_reason failure_reason (saga_reason result))) (\<lambda>reason.
       ret (if dict_has result ''reason'' ''timeout'' then completed @ [step] else completed, reason, False))))"

definition saga_execute :: "redis_client \<Rightarrow> 'n transport \<Rightarrow> transaction \<Rightarrow> string \<Rightarrow> dict \<Rightarrow> string \<Rightarrow> ('n proc, pyval) py" where
  "saga_execute cl tr tx_def saga_id context tx_name =
     bindE (check_circuit_breakers (td_steps tx_def)) (\<lambda>err. case err of
       Some msg \<Rightarrow> bindE (wal_log_terminal cl saga_id ''FAILED'' None) (\<lambda>_. ret (status_failed (Str msg)))
     | None \<Rightarrow>
       bindE (wal_log cl saga_id ''EXECUTING''
           (Some (dict_merge context [(''protocol'', Str ''saga''), (''tx_name'', Str tx_name)]))) (\<lambda>_.
       bindE (broadcast tr ''execute'' saga_id (td_steps tx_def) context) (\<lambda>step_results.
       bindE (fold_each saga_verdict step_results ([], Str [], True)) (\<lambda>(completed_steps, failure_reason, all_succeeded).
       if all_succeeded then
         bindE (wal_log_terminal cl saga_id ''COMPLETED'' None) (\<lambda>_. ret status_success)
       else
         bindE (wal_log cl saga_id ''COMPENSATING'' (Some (dict_merge context
             [(''completed_steps'', PList (map (\<lambda>s. Str (step_name s)) completed_steps))]))) (\<lambda>_.
         bindE (for_each (rev completed_steps) (\<lambda>step.
             verified_action cl tr ''compensate'' ''compensated'' saga_id [step] context)) (\<lambda>_.
         bindE (wal_log_terminal cl saga_id ''FAILED'' None) (\<lambda>_. ret (status_failed failure_reason))))))))"

end
