(* ===== verification/Recovery.thy ===== *)
theory Recovery
  imports Executor
begin

text \<open>
  \<open>RecoveryWorker\<close> of \<open>orchestrator/recovery.py\<close>: what the leader does with the sagas the log
  says are unfinished, after taking over and then periodically.
\<close>

definition RECONCILIATION_INTERVAL :: rat where "RECONCILIATION_INTERVAL = 60"
definition ORPHAN_SAGA_TIMEOUT :: rat where "ORPHAN_SAGA_TIMEOUT = 120"
definition MAX_RECOVERY_RETRIES :: nat where "MAX_RECOVERY_RETRIES = 30"

type_synonym definitions = "(string \<times> transaction) list"

text \<open>
  \<open>self.definitions.get(data.get("tx_name", ""))\<close>, where \<open>data\<close> is what the log held: \<open>None\<close> or any
  JSON value.
\<close>

definition tx_def_of :: "definitions \<Rightarrow> pyval \<Rightarrow> exn + transaction option" where
  "tx_def_of defs data = (case py_get data ''tx_name'' (Str []) of
     Inl e \<Rightarrow> Inl e
   | Inr (PStr (Text name)) \<Rightarrow> Inr (map_of defs name)
   | Inr (PList _) \<Rightarrow> Inl (TypeErr ''unhashable type: list'')
   | Inr (PDict _) \<Rightarrow> Inl (TypeErr ''unhashable type: dict'')
   | Inr _ \<Rightarrow> Inr None)"

fun as_dict :: "pyval \<Rightarrow> dict" where
  "as_dict (PDict d) = d"
| "as_dict _ = []"

text \<open>\<open>name in v\<close>\<close>

definition py_in :: "string \<Rightarrow> pyval \<Rightarrow> exn + bool" where
  "py_in name v = (case v of
     PList vs \<Rightarrow> Inr (Str name \<in> set vs)
   | PDict d \<Rightarrow> Inr (map_of d name \<noteq> None)
   | PStr (Text s) \<Rightarrow> Inr (contains name s)
   | PStr (Json _) \<Rightarrow> Inl (TypeErr ''search in a serialised value'')
   | _ \<Rightarrow> Inl (TypeErr ''argument is not iterable''))"

section \<open>Sending an action again\<close>

text \<open>One step of recovery: an exception is part of the outcome, but for the end of the process or the task.\<close>

definition recovery_send :: "'n transport \<Rightarrow> string \<Rightarrow> string \<Rightarrow> dict \<Rightarrow> step_def \<Rightarrow> ('n proc, pyval) py" where
  "recovery_send tr action saga_id data step =
     bindE (lift_sum (build_payload [(''saga_id'', Str saga_id), (''action'', Str action)] step saga_id action data))
       (\<lambda>payload. tr (service step) action payload STEP_TIMEOUT)"

definition recovery_try :: "'n transport \<Rightarrow> string \<Rightarrow> string \<Rightarrow> dict \<Rightarrow> step_def \<Rightarrow> ('n proc, exn + pyval) py" where
  "recovery_try tr action saga_id data step =
     try_except (bindE (recovery_send tr action saga_id data step) (\<lambda>v. ret (Inr v)))
       (\<lambda>e. if is_exception e then Some (ret (Inl e)) else None)"

definition send_action_to_all :: "'n transport \<Rightarrow> definitions \<Rightarrow> string \<Rightarrow> string \<Rightarrow> pyval \<Rightarrow> ('n proc, unit) py" where
  "send_action_to_all tr defs action saga_id data = bindE (lift_sum (tx_def_of defs data)) (\<lambda>tx. case tx of
     None \<Rightarrow> ret ()
   | Some tx_def \<Rightarrow> for_each (td_steps tx_def) (\<lambda>step.
       bindE (lift_sum (build_payload [(''saga_id'', Str saga_id), (''action'', Str action)] step saga_id action (as_dict data)))
         (\<lambda>payload. try_except (bindE (tr (service step) action payload STEP_TIMEOUT) (\<lambda>_. ret ()))
           (\<lambda>e. if is_exception e then Some (ret ()) else None))))"

text \<open>
  \<open>asyncio.gather\<close> of children that catch every \<open>Exception\<close>: what is left leaves the \<open>gather\<close> too.
\<close>

fun gather_all :: "('s, 'a) py list \<Rightarrow> ('s, 'a list) py" where
  "gather_all [] = ret []"
| "gather_all (m # ms) = bindE m (\<lambda>x. bindE (gather_all ms) (\<lambda>xs. ret (x # xs)))"

text \<open>The retry loop of \<open>_abort_all\<close> and \<open>_commit_all\<close>, by the number of attempts left.\<close>

fun recovery_rounds :: "nat \<Rightarrow> 'n transport \<Rightarrow> string \<Rightarrow> string \<Rightarrow> string \<Rightarrow> dict \<Rightarrow> rat \<Rightarrow> nat \<Rightarrow> step_def list \<Rightarrow>
    ('n proc, step_def list \<times> nat) py" where
  "recovery_rounds 0 tr action expected_event saga_id data backoff tries pending_steps = ret (pending_steps, tries)"
| "recovery_rounds (Suc left) tr action expected_event saga_id data backoff tries pending_steps =
     (if pending_steps = [] then ret (pending_steps, tries)
      else bindE (gather_all (map (recovery_try tr action saga_id data) pending_steps)) (\<lambda>results.
        let still_pending = map fst (filter (\<lambda>(step, result). case result of
            Inl e \<Rightarrow> True | Inr v \<Rightarrow> \<not> dict_has v ''event'' expected_event) (zip pending_steps results)) in
        bindE (if still_pending \<noteq> [] then async_sleep (min backoff 60) else ret ()) (\<lambda>_.
        recovery_rounds left tr action expected_event saga_id data
          (if still_pending \<noteq> [] then backoff * 2 else backoff) (tries + 1) still_pending)))"

section \<open>The three ways to finish a saga\<close>

definition abort_all :: "redis_client \<Rightarrow> 'n transport \<Rightarrow> definitions \<Rightarrow> string \<Rightarrow> pyval \<Rightarrow> ('n proc, unit) py" where
  "abort_all cl tr defs saga_id data = bindE (lift_sum (tx_def_of defs data)) (\<lambda>tx. case tx of
     None \<Rightarrow> bindE (send_action_to_all tr defs ''abort'' saga_id data) (\<lambda>_. wal_log cl saga_id ''FAILED'' None)
   | Some tx_def \<Rightarrow>
       bindE (recovery_rounds MAX_RECOVERY_RETRIES tr ''abort'' ''aborted'' saga_id (as_dict data) (5 / 10) 0 (td_steps tx_def))
         (\<lambda>(pending_steps, tries).
       bindE (for_each pending_steps (\<lambda>step. write_to_dlq cl saga_id ''abort'' (step_name step)
           ''recovery_retries_exhausted'' (int tries) (Some (as_dict data)))) (\<lambda>_.
       wal_log cl saga_id ''FAILED'' None)))"

definition commit_all :: "redis_client \<Rightarrow> 'n transport \<Rightarrow> definitions \<Rightarrow> string \<Rightarrow> pyval \<Rightarrow> ('n proc, unit) py" where
  "commit_all cl tr defs saga_id data = bindE (lift_sum (tx_def_of defs data)) (\<lambda>tx. case tx of
     None \<Rightarrow> bindE (send_action_to_all tr defs ''commit'' saga_id data) (\<lambda>_. wal_log cl saga_id ''COMPLETED'' None)
   | Some tx_def \<Rightarrow>
       bindE (recovery_rounds MAX_RECOVERY_RETRIES tr ''commit'' ''committed'' saga_id (as_dict data) (5 / 10) 0 (td_steps tx_def))
         (\<lambda>(pending_steps, tries).
       bindE (for_each pending_steps (\<lambda>step. write_to_dlq cl saga_id ''commit'' (step_name step)
           ''recovery_retries_exhausted'' (int tries)
           (Some (dict_merge (as_dict data) [(''requires_manual_resolution'', PBool True)])))) (\<lambda>_.
       wal_log cl saga_id ''COMPLETED'' None)))"

text \<open>One step is compensated until it says so, at most \<open>MAX_RECOVERY_RETRIES\<close> times.\<close>

fun compensate_rounds :: "nat \<Rightarrow> 'n transport \<Rightarrow> string \<Rightarrow> dict \<Rightarrow> step_def \<Rightarrow> rat \<Rightarrow> nat \<Rightarrow> ('n proc, bool \<times> nat) py" where
  "compensate_rounds 0 tr saga_id data step backoff tries = ret (False, tries)"
| "compensate_rounds (Suc left) tr saga_id data step backoff tries =
     bindE (recovery_try tr ''compensate'' saga_id data step) (\<lambda>result.
     if (case result of Inl e \<Rightarrow> False | Inr v \<Rightarrow> dict_has v ''event'' ''compensated'') then ret (True, tries + 1)
     else bindE (async_sleep (min backoff 60)) (\<lambda>_.
       compensate_rounds left tr saga_id data step (backoff * 2) (tries + 1)))"

definition steps_to_compensate :: "transaction \<Rightarrow> dict \<Rightarrow> exn + step_def list" where
  "steps_to_compensate tx_def data = (let completed_names = dict_get data ''completed_steps'' PNone in
     if truthy completed_names then
       (case map_sum_list (\<lambda>s. case py_in (step_name s) completed_names of
            Inl e \<Rightarrow> Inl e | Inr b \<Rightarrow> Inr (if b then [s] else [])) (td_steps tx_def) of
          Inl e \<Rightarrow> Inl e | Inr ss \<Rightarrow> Inr (concat ss))
     else Inr (td_steps tx_def))"

definition compensate_all :: "redis_client \<Rightarrow> 'n transport \<Rightarrow> definitions \<Rightarrow> string \<Rightarrow> pyval \<Rightarrow> ('n proc, unit) py" where
  "compensate_all cl tr defs saga_id data = bindE (lift_sum (tx_def_of defs data)) (\<lambda>tx. case tx of
     None \<Rightarrow> bindE (send_action_to_all tr defs ''compensate'' saga_id data) (\<lambda>_. wal_log cl saga_id ''FAILED'' None)
   | Some tx_def \<Rightarrow>
       bindE (lift_sum (steps_to_compensate tx_def (as_dict data))) (\<lambda>steps.
       bindE (for_each (rev steps) (\<lambda>step.
         bindE (compensate_rounds MAX_RECOVERY_RETRIES tr saga_id (as_dict data) step (5 / 10) 0) (\<lambda>(succeeded, tries).
         if succeeded then ret ()
         else write_to_dlq cl saga_id ''compensate'' (step_name step) ''recovery_retries_exhausted'' (int tries)
           (Some (as_dict data))))) (\<lambda>_.
       wal_log cl saga_id ''FAILED'' None)))"

section \<open>Recovery after taking over\<close>

definition recover_saga :: "redis_client \<Rightarrow> 'n transport \<Rightarrow> definitions \<Rightarrow> string \<Rightarrow> string \<Rightarrow> pyval \<Rightarrow> ('n proc, unit) py" where
  "recover_saga cl tr defs saga_id lstep data =
     (if lstep = ''PREPARING'' then abort_all cl tr defs saga_id data
      else if lstep = ''COMMITTING'' then commit_all cl tr defs saga_id data
      else if lstep = ''ABORTING'' then abort_all cl tr defs saga_id data
      else if lstep = ''EXECUTING'' then compensate_all cl tr defs saga_id data
      else if lstep = ''COMPENSATING'' then compensate_all cl tr defs saga_id data
      else wal_log cl saga_id ''FAILED'' None)"

text \<open>The result \<open>None\<close> says that \<open>fuel\<close> did not suffice to read the log.\<close>

definition recover_incomplete_sagas :: "redis_client \<Rightarrow> 'n transport \<Rightarrow> definitions \<Rightarrow> nat \<Rightarrow> ('n proc, unit option) py" where
  "recover_incomplete_sagas cl tr defs fuel = bindE (get_incomplete_sagas cl fuel) (\<lambda>r. case r of
     None \<Rightarrow> ret None
   | Some incomplete \<Rightarrow> bindE (for_each incomplete (\<lambda>(saga_id, state).
       try_except (recover_saga cl tr defs saga_id (last_step state) (i_data state))
         (\<lambda>e. if is_exception e then Some (wal_log cl saga_id ''FAILED'' None) else None))) (\<lambda>_. ret (Some ())))"

section \<open>Periodic maintenance\<close>

definition abort_orphaned_sagas :: "redis_client \<Rightarrow> 'n transport \<Rightarrow> definitions \<Rightarrow> nat \<Rightarrow> ('n proc, unit option) py" where
  "abort_orphaned_sagas cl tr defs fuel = bindE (get_incomplete_sagas cl fuel) (\<lambda>r. case r of
     None \<Rightarrow> ret None
   | Some incomplete \<Rightarrow> bindE wall_time (\<lambda>now.
       bindE (for_each incomplete (\<lambda>(saga_id, state).
         let data = (if truthy (i_data state) then i_data state else PDict []);
             age = (if created_at state \<noteq> 0 then now - created_at state else 0) in
         if ORPHAN_SAGA_TIMEOUT < age then
           (if last_step state = ''COMMITTING'' then commit_all cl tr defs saga_id data
            else abort_all cl tr defs saga_id data)
         else ret ())) (\<lambda>_. ret (Some ()))))"

text \<open>One turn of \<open>_reconciliation_loop\<close>; \<open>reconcile_fn\<close> is the callback of the application, if any.\<close>

definition reconciliation_turn :: "redis_client \<Rightarrow> 'n transport \<Rightarrow> definitions \<Rightarrow> ('n proc, unit) py option \<Rightarrow> nat \<Rightarrow>
    ('n proc, unit option) py" where
  "reconciliation_turn cl tr defs reconcile_fn fuel = try_except
     (bindE (async_sleep RECONCILIATION_INTERVAL) (\<lambda>_.
      bindE (case reconcile_fn of Some f \<Rightarrow> f | None \<Rightarrow> ret ()) (\<lambda>_.
      abort_orphaned_sagas cl tr defs fuel)))
     (\<lambda>e. if is_exception e then Some (bindE (async_sleep 10) (\<lambda>_. ret (Some ()))) else None)"

end
