(* ===== verification/Network.thy ===== *)
theory Network
  imports WalTriples Recovery
begin

text \<open>
  Observing the orchestrator. The network and the services behind it are an environment: a
  function of everything sent so far, so that quantifying over it covers every behaviour. The
  recording transport notes each message with the log entry of its saga at the moment of sending.
\<close>

record obs =
  ob_service :: string
  ob_action :: string
  ob_payload :: dict
  ob_wal :: "(string \<times> dict) option"
  ob_reply :: "exn + pyval"

type_synonym env = "obs list \<Rightarrow> string \<Rightarrow> string \<Rightarrow> dict \<Rightarrow> (exn + pyval) \<times> rat"

definition recording :: "string \<Rightarrow> env \<Rightarrow> obs list transport" where
  "recording s env sv action payload timeout = (\<lambda>st. case env (net st) sv action payload of (r, took) \<Rightarrow>
     (r, st\<lparr>net := net st @ [\<lparr>ob_service = sv, ob_action = action, ob_payload = payload,
         ob_wal = wal_map (c_db st) s, ob_reply = r\<rparr>],
       c_clock := c_clock st + took\<rparr>))"

text \<open>No message kills the process or cancels its task.\<close>

definition env_lives :: "env \<Rightarrow> bool" where
  "env_lives env \<longleftrightarrow> (\<forall>h sv a p. fst (env h sv a p) \<notin> {Inl Exit, Inl Cancelled})"

text \<open>What the executor makes of a reply, and the event it says.\<close>

definition step_result :: "exn + pyval \<Rightarrow> exn + pyval" where
  "step_result r = (case r of Inl e \<Rightarrow> if is_timeout e then Inr (event_failed ''timeout'') else r | Inr _ \<Rightarrow> r)"

definition said :: "string \<Rightarrow> obs \<Rightarrow> bool" where
  "said ev e \<longleftrightarrow> (case ob_reply e of Inr v \<Rightarrow> dict_has v ''event'' ev | Inl _ \<Rightarrow> False)"

definition sent :: "string \<Rightarrow> (string \<times> dict) option \<Rightarrow> obs \<Rightarrow> bool" where
  "sent action w e \<longleftrightarrow> ob_action e = action \<and> ob_wal e = w"

definition answered :: "env \<Rightarrow> obs \<Rightarrow> bool" where
  "answered env e \<longleftrightarrow> (\<exists>h p. ob_reply e = fst (env h (ob_service e) (ob_action e) p))"

definition builder_ok :: "string \<Rightarrow> dict \<Rightarrow> step_def \<Rightarrow> bool" where
  "builder_ok s ctx step \<longleftrightarrow> (case payload_builder step of None \<Rightarrow> True
     | Some f \<Rightarrow> \<forall>action. \<exists>p. f s action ctx = Inr p)"

lemma builder_ok_payload: "builder_ok s ctx step \<Longrightarrow> \<exists>p. build_payload base step s action ctx = Inr p"
proof (cases "payload_builder step")
  case (Some f)
  assume "builder_ok s ctx step"
  then obtain p where "f s action ctx = Inr p" using Some by (auto simp: builder_ok_def)
  then show ?thesis using Some by (simp add: build_payload_def)
qed (simp add: build_payload_def)

lemma event_failed_event [simp]: "dict_has (event_failed t) ''event'' ev \<longleftrightarrow> ev = ''failed''"
  by (simp add: dict_has_def event_failed_def dict_get_def eq_commute)

lemma said_result:
  assumes "ev \<noteq> ''failed''"
  shows "said ev e \<longleftrightarrow> (case step_result (ob_reply e) of Inr v \<Rightarrow> dict_has v ''event'' ev | Inl _ \<Rightarrow> False)"
  using assms by (cases "ob_reply e") (simp_all add: said_def step_result_def)

section \<open>Triples of the shared machinery\<close>

definition calm :: "('n proc, 'a) py \<Rightarrow> bool" where
  "calm m \<longleftrightarrow> (\<forall>live w n. triple (wal_at live w n) m (\<lambda>_. wal_at live w n) (\<lambda>_ _. False))"

lemma calmI: "(\<And>st r st'. m st = (r, st') \<Longrightarrow> \<not> isl r \<and> c_db st' = c_db st \<and> c_trips st' = c_trips st \<and> net st' = net st) \<Longrightarrow> calm m"
proof -
  assume frame: "\<And>st r st'. m st = (r, st') \<Longrightarrow> \<not> isl r \<and> c_db st' = c_db st \<and> c_trips st' = c_trips st \<and> net st' = net st"
  have "case r of Inl e \<Rightarrow> False | Inr _ \<Rightarrow> wal_at live w n s'" if "wal_at live w n s" "m s = (r, s')" for live w n s r s'
    using that frame [OF that(2)] by (cases r) (simp_all add: wal_at_def online_def)
  then show ?thesis by (auto simp: calm_def triple_def)
qed

lemma calm_breakers [simp]: "calm (breaker_failure sv)" "calm (breaker_success sv)" "calm (breaker_is_open sv)"
  by (auto intro!: calmI simp: breaker_failure_def breaker_success_def breaker_is_open_def set_breaker_def
      split: option.splits prod.splits)

lemma calm_ret [simp]: "calm (ret x)" and calm_sleep [simp]: "calm (async_sleep d)"
  by (auto intro!: calmI simp: ret_def async_sleep_def)

lemma calm_bind: "calm m \<Longrightarrow> (\<And>x. calm (f x)) \<Longrightarrow> calm (bindE m f)"
  unfolding calm_def by (blast intro: triple_bind)

lemma calm_triple: "calm m \<Longrightarrow> triple (wal_at live w n) m (\<lambda>_. wal_at live w n) E"
  unfolding calm_def by (blast intro: triple_weaken)

lemma calm_for_each: "(\<And>x. x \<in> set xs \<Longrightarrow> calm (f x)) \<Longrightarrow> calm (for_each xs f)"
  by (induction xs) (auto intro: calm_bind)

lemma calm_check: "calm (check_circuit_breakers steps)"
  by (induction steps) (auto intro!: calm_bind)

lemma calm_vote [simp]: "calm (record_vote v)"
  by (auto simp: record_vote_def split: prod.splits)

lemma triple_try_step:
  assumes "builder_ok s ctx step" "live \<longrightarrow> env_lives env"
  shows "triple (wal_at live w n) (try_step (recording s env) step s action ctx)
    (\<lambda>v st. \<exists>e. wal_at live w (n @ [e]) st \<and> sent action (w s) e \<and> answered env e \<and> ob_service e = service step \<and>
       step_result (ob_reply e) = Inr v)
    (\<lambda>x st. \<exists>e. wal_at live w (n @ [e]) st \<and> sent action (w s) e \<and> answered env e \<and> ob_service e = service step \<and>
       step_result (ob_reply e) = Inl x \<and> (live \<longrightarrow> x \<notin> {Exit, Cancelled}))"
proof -
  obtain p where p: "build_payload [(''saga_id'', Str s)] step s action ctx = Inr p"
    using builder_ok_payload [OF assms(1)] by blast
  have main: "\<exists>e. wal_at live w (n @ [e]) st' \<and> sent action (w s) e \<and> answered env e \<and> ob_service e = service step \<and> step_result (ob_reply e) = r' \<and>
      (live \<longrightarrow> r' \<notin> {Inl Exit, Inl Cancelled})"
    if w: "wal_at live w n st" and run: "try_step (recording s env) step s action ctx st = (r', st')" for st r' st'
  proof -
    obtain r took where r: "env (net st) (service step) action p = (r, took)" by (cases "env (net st) (service step) action p")
    let ?e = "\<lparr>ob_service = service step, ob_action = action, ob_payload = p, ob_wal = wal_map (c_db st) s, ob_reply = r\<rparr>"
    have l: "live \<longrightarrow> r \<notin> {Inl Exit, Inl Cancelled}" using assms(2) r unfolding env_lives_def by (metis fst_conv)
    have "r' = step_result r" "st' = st\<lparr>net := net st @ [?e], c_clock := c_clock st + took\<rparr>"
      using run r by (auto simp: try_step_def p recording_def try_except_def ret_def step_result_def split: sum.splits if_splits)
    moreover have "answered env ?e" unfolding answered_def using r by (metis fst_conv obs.select_convs(1,2,5))
    ultimately show ?thesis
      using w l by (intro exI [of _ ?e]) (auto simp: wal_at_def online_def sent_def step_result_def split: sum.splits)
  qed
  show ?thesis by (rule tripleI) (use main in blast)+
qed

lemma triple_gather_Cons:
  assumes "triple P m (\<lambda>x. Q (Inr x)) (\<lambda>e. Q (Inl e))" "\<And>r. triple (Q r) (gather ms) (\<lambda>rs. R (r # rs)) E"
    and "\<And>st. Q (Inl Exit) st \<Longrightarrow> E Exit st"
  shows "triple P (gather (m # ms)) R E"
proof -
  have "case r' of Inl e \<Rightarrow> E e st' | Inr rs \<Rightarrow> R rs st'" if P: "P st" and run: "gather (m # ms) st = (r', st')" for st r' st'
  proof -
    obtain r st1 where m: "m st = (r, st1)" by (cases "m st")
    have q: "Q r st1" using triple_ret_D [OF assms(1) P] triple_raise_D [OF assms(1) P] m by (cases r) auto
    show ?thesis
    proof (cases "r = Inl Exit")
      case True
      then show ?thesis using run m q assms(3) by auto
    next
      case False
      have "gather (m # ms) st = bindE (gather ms) (\<lambda>rs. ret (r # rs)) st1"
        using False m by (auto split: sum.splits exn.splits)
      then have b: "bindE (gather ms) (\<lambda>rs. ret (r # rs)) st1 = (r', st')" using run by simp
      have "triple (Q r) (bindE (gather ms) (\<lambda>rs. ret (r # rs))) R E"
        by (rule triple_bind [OF assms(2)]) (rule triple_ret)
      then show ?thesis using q b by (auto simp: triple_def)
    qed
  qed
  then show ?thesis by (auto simp: triple_def)
qed

text \<open>Messages of one action, under one log entry, to these services in turn.\<close>

definition to_all :: "string \<Rightarrow> (string \<times> dict) option \<Rightarrow> step_def list \<Rightarrow> obs list \<Rightarrow> bool" where
  "to_all action w steps es \<longleftrightarrow> list_all (sent action w) es \<and> map ob_service es = map service steps"

definition to_some :: "string \<Rightarrow> (string \<times> dict) option \<Rightarrow> step_def list \<Rightarrow> obs list \<Rightarrow> bool" where
  "to_some action w steps es \<longleftrightarrow> list_all (sent action w) es \<and> map ob_service es = take (length es) (map service steps)"

lemma triple_gather_steps:
  assumes "\<forall>step\<in>set steps. builder_ok s ctx step" "live \<longrightarrow> env_lives env"
  shows "triple (wal_at live w n) (gather (map (\<lambda>step. try_step (recording s env) step s action ctx) steps))
    (\<lambda>rs st. \<exists>es. wal_at live w (n @ es) st \<and> to_all action (w s) steps es \<and> list_all (answered env) es \<and>
       rs = map (step_result \<circ> ob_reply) es)
    (\<lambda>x st. \<not> live \<and> (\<exists>es. wal_at live w (n @ es) st \<and> to_some action (w s) steps es))"
  using assms(1)
proof (induction steps arbitrary: n)
  case Nil
  show ?case by (auto intro!: triple_ret exI [of _ "[]"] simp: to_all_def)
next
  case (Cons step steps)
  let ?Q = "\<lambda>r st. \<exists>e. wal_at live w (n @ [e]) st \<and> sent action (w s) e \<and> answered env e \<and> ob_service e = service step \<and>
      step_result (ob_reply e) = r \<and> (live \<longrightarrow> r \<noteq> Inl Exit)"
  have first: "triple (wal_at live w n) (try_step (recording s env) step s action ctx) (\<lambda>x. ?Q (Inr x)) (\<lambda>e. ?Q (Inl e))"
    using Cons.prems by (intro triple_weaken [OF triple_try_step [OF _ assms(2)]]) auto
  have rest: "triple (?Q r) (gather (map (\<lambda>step. try_step (recording s env) step s action ctx) steps))
      (\<lambda>rs st. \<exists>es. wal_at live w (n @ es) st \<and> to_all action (w s) (step # steps) es \<and> list_all (answered env) es \<and> r # rs = map (step_result \<circ> ob_reply) es)
      (\<lambda>x st. \<not> live \<and> (\<exists>es. wal_at live w (n @ es) st \<and> to_some action (w s) (step # steps) es))" for r
  proof -
    have IH: "triple (wal_at live w (n @ [e])) (gather (map (\<lambda>step. try_step (recording s env) step s action ctx) steps))
      (\<lambda>rs st. \<exists>es. wal_at live w (n @ es) st \<and> to_all action (w s) (step # steps) es \<and> list_all (answered env) es \<and> r # rs = map (step_result \<circ> ob_reply) es)
      (\<lambda>x st. \<not> live \<and> (\<exists>es. wal_at live w (n @ es) st \<and> to_some action (w s) (step # steps) es))"
      if "sent action (w s) e" "answered env e" "ob_service e = service step" "step_result (ob_reply e) = r" for e
    proof (rule triple_weaken [OF Cons.IH [of "n @ [e]"]])
      show "\<forall>step\<in>set steps. builder_ok s ctx step" using Cons.prems by simp
    next
      fix rs st
      assume "\<exists>es. wal_at live w ((n @ [e]) @ es) st \<and> to_all action (w s) steps es \<and> list_all (answered env) es \<and> rs = map (step_result \<circ> ob_reply) es"
      then obtain es where "wal_at live w (n @ e # es) st" "to_all action (w s) steps es" "list_all (answered env) es" "rs = map (step_result \<circ> ob_reply) es" by auto
      then show "\<exists>es. wal_at live w (n @ es) st \<and> to_all action (w s) (step # steps) es \<and> list_all (answered env) es \<and> r # rs = map (step_result \<circ> ob_reply) es"
        using that by (intro exI [of _ "e # es"]) (auto simp: to_all_def)
    next
      fix x st
      assume "\<not> live \<and> (\<exists>es. wal_at live w ((n @ [e]) @ es) st \<and> to_some action (w s) steps es)"
      then obtain es where "\<not> live" "wal_at live w (n @ e # es) st" "to_some action (w s) steps es" by auto
      then show "\<not> live \<and> (\<exists>es. wal_at live w (n @ es) st \<and> to_some action (w s) (step # steps) es)"
        using that by (intro conjI exI [of _ "e # es"]) (auto simp: to_some_def)
    qed simp
    show ?thesis using IH unfolding triple_def by blast
  qed
  show ?case
    unfolding list.map
    by (rule triple_gather_Cons [OF first rest]) (auto simp: to_some_def intro!: exI [of _ "[_]"])
qed

lemma triple_broadcast:
  assumes "\<forall>step\<in>set steps. builder_ok s ctx step" "live \<longrightarrow> env_lives env"
  shows "triple (wal_at live w n) (broadcast (recording s env) action s steps ctx)
    (\<lambda>votes st. \<exists>es. wal_at live w (n @ es) st \<and> to_all action (w s) steps es \<and> list_all (answered env) es \<and>
       votes = zip steps (map (\<lambda>e. case step_result (ob_reply e) of Inl x \<Rightarrow> event_failed (exn_text x) | Inr v \<Rightarrow> v) es))
    (\<lambda>x st. \<not> live \<and> (\<exists>es. wal_at live w (n @ es) st \<and> to_some action (w s) steps es))"
  unfolding broadcast_def
  by (rule triple_bind [OF triple_gather_steps [OF assms]], rule triple_ret) (fastforce simp: comp_def)

section \<open>The verified action\<close>

definition unsettled :: "string \<Rightarrow> step_def \<times> (exn + pyval) \<Rightarrow> bool" where
  "unsettled expected = (\<lambda>(step, r). case r of Inl e \<Rightarrow> True | Inr v \<Rightarrow> \<not> dict_has v ''event'' expected)"

lemma triple_settle:
  "triple (wal_at live w n) (fold_each (settle expected) ps acc)
     (\<lambda>still st. wal_at live w n st \<and> still = acc @ map fst (filter (unsettled expected) ps)) (\<lambda>_ _. False)"
proof (induction ps arbitrary: acc)
  case Nil
  show ?case by (simp add: triple_ret)
next
  case (Cons p ps)
  obtain step r where p: "p = (step, r)" by (cases p)
  have 1: "triple (wal_at live w n) (settle expected p acc)
      (\<lambda>acc' st. wal_at live w n st \<and> acc' = acc @ map fst (filter (unsettled expected) [p])) (\<lambda>_ _. False)"
    unfolding p settle_def prod.case
    by (cases r) (auto simp: unsettled_def intro!: triple_bind [OF calm_triple] triple_ret)
  show ?case
    unfolding fold_each.simps
  proof (rule triple_bind [OF 1])
    fix acc'
    show "triple (\<lambda>st. wal_at live w n st \<and> acc' = acc @ map fst (filter (unsettled expected) [p])) (fold_each (settle expected) ps acc')
      (\<lambda>still st. wal_at live w n st \<and> still = acc @ map fst (filter (unsettled expected) (p # ps))) (\<lambda>_ _. False)"
      by (rule triple_assume [where b = "acc' = acc @ map fst (filter (unsettled expected) [p])"], simp,
        rule triple_weaken [OF Cons.IH [of acc']]) auto
  qed
qed

text \<open>\<open>f e\<close> is what the sender makes of the reply to \<open>e\<close>.\<close>

definition reads :: "(obs \<Rightarrow> exn + pyval) \<Rightarrow> string \<Rightarrow> bool" where
  "reads f expected \<longleftrightarrow> (\<forall>step e. unsettled expected (step, f e) \<longleftrightarrow> \<not> said expected e)"

lemma reads_result: "expected \<noteq> ''failed'' \<Longrightarrow> reads (step_result \<circ> ob_reply) expected"
  by (auto simp: reads_def unsettled_def said_result split: sum.splits)

lemma reads_reply: "reads ob_reply expected"
  by (auto simp: reads_def unsettled_def said_def split: sum.splits)

lemma unsettled_steps:
  assumes "to_all action w steps es" "reads f expected" "step \<in> set steps"
    and "step \<notin> set (map fst (filter (unsettled expected) (zip steps (map f es))))"
  shows "\<exists>e\<in>set es. ob_service e = service step \<and> said expected e"
proof -
  have len: "length es = length steps" using assms(1) by (metis to_all_def length_map)
  obtain i where i: "i < length steps" "steps ! i = step" using assms(3) by (auto simp: in_set_conv_nth)
  let ?zs = "zip steps (map f es)"
  have "?zs ! i = (step, f (es ! i))" "i < length ?zs" using i len by auto
  then have "(step, f (es ! i)) \<in> set ?zs" by (metis nth_mem)
  then have "\<not> unsettled expected (step, f (es ! i))" using assms(4) by force
  then have "said expected (es ! i)" using assms(2) by (simp add: reads_def)
  moreover have "ob_service (es ! i) = service step"
    using assms(1) i len by (metis to_all_def nth_map)
  ultimately show ?thesis using i len by auto
qed

text \<open>How often a service was asked, and whether it gave the expected answer.\<close>

definition asked :: "string \<Rightarrow> obs list \<Rightarrow> nat" where
  "asked sv es = length (filter (\<lambda>e. ob_service e = sv) es)"

definition acknowledged :: "string \<Rightarrow> string \<Rightarrow> obs list \<Rightarrow> bool" where
  "acknowledged expected sv es \<longleftrightarrow> (\<exists>e\<in>set es. ob_service e = sv \<and> said expected e)"

lemma asked_append [simp]: "asked sv (a @ b) = asked sv a + asked sv b"
  by (simp add: asked_def)

lemma acknowledged_append [simp]: "acknowledged ev sv (a @ b) \<longleftrightarrow> acknowledged ev sv a \<or> acknowledged ev sv b"
  by (auto simp: acknowledged_def)

lemma asked_all: "to_all action w steps es \<Longrightarrow> step \<in> set steps \<Longrightarrow> 1 \<le> asked (service step) es"
proof -
  assume a: "to_all action w steps es" "step \<in> set steps"
  then have "service step \<in> set (map ob_service es)" by (metis to_all_def list.set_map image_eqI)
  then have "filter (\<lambda>e. ob_service e = service step) es \<noteq> []" by (auto simp: filter_empty_conv)
  then show ?thesis by (simp add: asked_def Suc_le_eq)
qed

definition rounds_done :: "bool \<Rightarrow> (string \<rightharpoonup> string \<times> dict) \<Rightarrow> string \<Rightarrow> obs list \<Rightarrow> string \<Rightarrow> string \<Rightarrow> nat \<Rightarrow> step_def list \<Rightarrow>
    step_def list \<Rightarrow> obs list proc \<Rightarrow> bool" where
  "rounds_done live w s n action expected left steps pend st \<longleftrightarrow> (\<exists>qs. wal_at live w (n @ qs) st \<and>
     list_all (sent action (w s)) qs \<and> length qs \<le> left * length steps \<and> set (map ob_service qs) \<subseteq> service ` set steps \<and>
     set pend \<subseteq> set steps \<and>
     (\<forall>step\<in>set steps. step \<in> set pend \<or> acknowledged expected (service step) qs) \<and>
     (\<forall>step\<in>set pend. left \<le> asked (service step) qs))"

lemma rounds_done_step:
  assumes "to_all action (w s) steps es" "reads f expected"
    and "still = map fst (filter (unsettled expected) (zip steps (map f es)))"
    and "rounds_done live w s (n @ es) action expected left still pend st"
  shows "rounds_done live w s n action expected (Suc left) steps pend st"
proof -
  obtain qs where qs: "wal_at live w ((n @ es) @ qs) st" "list_all (sent action (w s)) qs" "length qs \<le> left * length still"
      "set (map ob_service qs) \<subseteq> service ` set still" "set pend \<subseteq> set still"
      "\<forall>step\<in>set still. step \<in> set pend \<or> acknowledged expected (service step) qs"
      "\<forall>step\<in>set pend. left \<le> asked (service step) qs"
    using assms(4) unfolding rounds_done_def by blast
  have len: "length es = length steps" using assms(1) by (metis to_all_def length_map)
  have still: "set still \<subseteq> set steps" "length still \<le> length steps"
    using assms(3) len by (auto dest: set_zip_leftD) (metis length_filter_le length_zip length_map min.idem)
  have "length qs \<le> left * length steps" using qs(3) mult_le_mono2 [OF still(2), of left] by linarith
  then have l: "length (es @ qs) \<le> Suc left * length steps" using len by simp
  have sv: "set (map ob_service (es @ qs)) \<subseteq> service ` set steps"
    using assms(1) qs(4) still(1) unfolding to_all_def by (metis (no_types, lifting) Un_least image_mono list.set_map map_append order_trans set_append subset_refl)
  have ack: "\<forall>step\<in>set steps. step \<in> set pend \<or> acknowledged expected (service step) (es @ qs)"
  proof
    fix step
    assume st: "step \<in> set steps"
    show "step \<in> set pend \<or> acknowledged expected (service step) (es @ qs)"
      using unsettled_steps [OF assms(1,2) st] qs(6) assms(3) by (cases "step \<in> set still") (auto simp: acknowledged_def)
  qed
  have cnt: "\<forall>step\<in>set pend. Suc left \<le> asked (service step) (es @ qs)"
  proof
    fix step
    assume "step \<in> set pend"
    then have "1 \<le> asked (service step) es" "left \<le> asked (service step) qs"
      using asked_all [OF assms(1)] qs(5,7) still(1) by auto
    then show "Suc left \<le> asked (service step) (es @ qs)" by simp
  qed
  show ?thesis
    unfolding rounds_done_def
  proof (intro exI [of _ "es @ qs"] conjI)
    show "wal_at live w (n @ es @ qs) st" using qs(1) by simp
    show "list_all (sent action (w s)) (es @ qs)" using qs(2) assms(1) by (simp add: to_all_def)
    show "set pend \<subseteq> set steps" using qs(5) still(1) by blast
  qed (fact l sv ack cnt)+
qed

definition cut_short :: "bool \<Rightarrow> (string \<rightharpoonup> string \<times> dict) \<Rightarrow> string \<Rightarrow> obs list \<Rightarrow> string \<Rightarrow> obs list proc \<Rightarrow> bool" where
  "cut_short live w s n action st \<longleftrightarrow> \<not> live \<and> (\<exists>qs. wal_at live w (n @ qs) st \<and> list_all (sent action (w s)) qs)"

lemma cut_short_append: "list_all (sent action (w s)) es \<Longrightarrow> cut_short live w s (n @ es) action st \<Longrightarrow> cut_short live w s n action st"
  unfolding cut_short_def by (metis append_assoc list_all_append)

lemma triple_rounds:
  assumes "\<forall>step\<in>set steps. builder_ok s ctx step" "live \<longrightarrow> env_lives env" "expected \<noteq> ''failed''"
  shows "triple (wal_at live w n) (verified_rounds left (recording s env) action expected s ctx backoff tries steps)
    (\<lambda>(pend, _). rounds_done live w s n action expected left steps pend)
    (\<lambda>_. cut_short live w s n action)"
  using assms(1)
proof (induction left arbitrary: n backoff tries steps)
  case 0
  show ?case by (auto intro!: triple_ret exI [of _ "[]"] simp: rounds_done_def)
next
  case (Suc left)
  let ?Q = "\<lambda>(pend, _). rounds_done live w s n action expected (Suc left) steps pend"
  let ?E = "\<lambda>_::exn. cut_short live w s n action"
  show ?case
  proof (cases "steps = []")
    case True
    then show ?thesis by (auto intro!: triple_ret exI [of _ "[]"] simp: rounds_done_def)
  next
    case False
    have body: "triple (\<lambda>st. wal_at live w (n @ es) st)
        (bindE (fold_each (settle expected) (zip steps (map (step_result \<circ> ob_reply) es)) []) (\<lambda>still_pending.
         bindE (if still_pending \<noteq> [] then async_sleep (min backoff 5) else ret ()) (\<lambda>_.
         verified_rounds left (recording s env) action expected s ctx
           (if still_pending \<noteq> [] then backoff * 2 else backoff) (tries + 1) still_pending))) ?Q ?E"
      if es: "to_all action (w s) steps es" for es
    proof (rule triple_bind [where Q = "\<lambda>still st. wal_at live w (n @ es) st \<and>
          still = map fst (filter (unsettled expected) (zip steps (map (step_result \<circ> ob_reply) es)))"])
      show "triple (wal_at live w (n @ es)) (fold_each (settle expected) (zip steps (map (step_result \<circ> ob_reply) es)) [])
          (\<lambda>still st. wal_at live w (n @ es) st \<and>
            still = map fst (filter (unsettled expected) (zip steps (map (step_result \<circ> ob_reply) es)))) ?E"
        by (rule triple_weaken [OF triple_settle]) auto
    next
      fix still
      let ?s = "map fst (filter (unsettled expected) (zip steps (map (step_result \<circ> ob_reply) es)))"
      have tail: "triple (wal_at live w (n @ es))
          (bindE (if still \<noteq> [] then async_sleep (min backoff 5) else ret ()) (\<lambda>_.
           verified_rounds left (recording s env) action expected s ctx (if still \<noteq> [] then backoff * 2 else backoff) (tries + 1) still)) ?Q ?E"
        if still: "still = ?s"
      proof (rule triple_bind [OF calm_triple])
        have "set still \<subseteq> set steps" using still by (auto dest: set_zip_leftD)
        then have ok: "\<forall>step\<in>set still. builder_ok s ctx step" using Suc.prems by blast
        show "triple (wal_at live w (n @ es)) (verified_rounds left (recording s env) action expected s ctx
            (if still \<noteq> [] then backoff * 2 else backoff) (tries + 1) still) ?Q ?E" for x :: unit
          using rounds_done_step [where w = w and s = s, OF es reads_result [OF assms(3)] still] cut_short_append [of action w s es live n] es
          by (intro triple_weaken [OF Suc.IH [OF ok, of "n @ es"]]) (auto simp: to_all_def)
      qed simp
      show "triple (\<lambda>st. wal_at live w (n @ es) st \<and> still = ?s)
          (bindE (if still \<noteq> [] then async_sleep (min backoff 5) else ret ()) (\<lambda>_.
           verified_rounds left (recording s env) action expected s ctx (if still \<noteq> [] then backoff * 2 else backoff) (tries + 1) still)) ?Q ?E"
        by (rule triple_assume [where b = "still = ?s"], simp, rule triple_pre [OF tail]) auto
    qed
    let ?g = "gather (map (\<lambda>step. try_step (recording s env) step s action ctx) steps)"
    have g: "triple (wal_at live w n) ?g
      (\<lambda>rs st. \<exists>es. wal_at live w (n @ es) st \<and> to_all action (w s) steps es \<and> rs = map (step_result \<circ> ob_reply) es) ?E"
      by (rule triple_weaken [OF triple_gather_steps [OF Suc.prems assms(2)]]) (auto simp: cut_short_def to_some_def)
    show ?thesis
      unfolding verified_rounds.simps if_not_P [OF False]
    proof (rule triple_bind [OF g])
      fix rs
      show "triple (\<lambda>st. \<exists>es. wal_at live w (n @ es) st \<and> to_all action (w s) steps es \<and> rs = map (step_result \<circ> ob_reply) es)
          (bindE (fold_each (settle expected) (zip steps rs) []) (\<lambda>still_pending.
           bindE (if still_pending \<noteq> [] then async_sleep (min backoff 5) else ret ()) (\<lambda>_.
           verified_rounds left (recording s env) action expected s ctx
             (if still_pending \<noteq> [] then backoff * 2 else backoff) (tries + 1) still_pending))) ?Q ?E"
        using body unfolding triple_def by blast
    qed
  qed
qed

text \<open>
  After a verified action every step was acknowledged or asked the full number of times, and the
  log did not change.
\<close>

definition action_done :: "bool \<Rightarrow> (string \<rightharpoonup> string \<times> dict) \<Rightarrow> string \<Rightarrow> obs list \<Rightarrow> string \<Rightarrow> string \<Rightarrow> nat \<Rightarrow> step_def list \<Rightarrow>
    obs list proc \<Rightarrow> bool" where
  "action_done live w s n action expected limit steps st \<longleftrightarrow> (\<exists>qs. wal_at live w (n @ qs) st \<and>
     list_all (sent action (w s)) qs \<and> length qs \<le> limit * length steps \<and> set (map ob_service qs) \<subseteq> service ` set steps \<and>
     (\<forall>step\<in>set steps. acknowledged expected (service step) qs \<or> limit \<le> asked (service step) qs))"

lemma triple_verified_action:
  assumes "redis_server (cl_rc cl)" "\<forall>step\<in>set steps. builder_ok s ctx step" "live \<longrightarrow> env_lives env" "expected \<noteq> ''failed''"
  shows "triple (wal_at live w n) (verified_action cl (recording s env) action expected s steps ctx)
    (\<lambda>_. action_done live w s n action expected MAX_VERIFIED_RETRIES steps)
    (\<lambda>_. cut_short live w s n action)"
  unfolding verified_action_def
proof (rule triple_bind [OF triple_rounds [OF assms(2-4)]])
  fix r :: "step_def list \<times> nat"
  obtain pend k where r: "r = (pend, k)" by (cases r)
  have "triple (wal_at live w (n @ qs)) (for_each pend (\<lambda>step. write_to_dlq cl s action (step_name step)
      ''max_retries_exhausted'' (int k) (Some ctx))) (\<lambda>_. wal_at live w (n @ qs)) (\<lambda>_ _. False)" for qs
    by (rule triple_for_each, rule triple_dlq [OF assms(1)])
  then have "triple (rounds_done live w s n action expected MAX_VERIFIED_RETRIES steps pend)
      (for_each pend (\<lambda>step. write_to_dlq cl s action (step_name step) ''max_retries_exhausted'' (int k) (Some ctx)))
      (\<lambda>_. action_done live w s n action expected MAX_VERIFIED_RETRIES steps) (\<lambda>_. cut_short live w s n action)"
    unfolding triple_def rounds_done_def action_done_def
    by (fastforce split: sum.splits)
  then show "triple (case r of (pend, _) \<Rightarrow> rounds_done live w s n action expected MAX_VERIFIED_RETRIES steps pend)
      (case r of (pending, tries) \<Rightarrow> for_each pending (\<lambda>step. write_to_dlq cl s action (step_name step)
        ''max_retries_exhausted'' (int tries) (Some ctx)))
      (\<lambda>_. action_done live w s n action expected MAX_VERIFIED_RETRIES steps) (\<lambda>_. cut_short live w s n action)"
    by (simp add: r)
qed

end
