(* ===== verification/TwoPhase.thy ===== *)
theory TwoPhase
  imports Network
begin

text \<open>
  The two-phase-commit executor as its environment sees it: which messages it sends, under which
  log entries, and what it answers, for every behaviour of the network, of the services and of the
  connection to the order database.
\<close>

section \<open>Histories of two-phase commit\<close>

definition commit_history :: "dict \<Rightarrow> step_def list \<Rightarrow> obs list \<Rightarrow> obs list \<Rightarrow> bool" where
  "commit_history D steps ps qs \<longleftrightarrow> to_all ''prepare'' (Some (''PREPARING'', D)) steps ps \<and>
     list_all (said ''prepared'') ps \<and> list_all (sent ''commit'' (Some (''COMMITTING'', D))) qs"

definition abort_history :: "dict \<Rightarrow> step_def list \<Rightarrow> obs list \<Rightarrow> obs list \<Rightarrow> bool" where
  "abort_history D steps ps qs \<longleftrightarrow> to_all ''prepare'' (Some (''PREPARING'', D)) steps ps \<and>
     \<not> list_all (said ''prepared'') ps \<and> list_all (sent ''abort'' (Some (''ABORTING'', D))) qs"

text \<open>\<open>es\<close> was sent, and \<open>w\<close> is what the log says now.\<close>

definition tpc_history :: "dict \<Rightarrow> step_def list \<Rightarrow> obs list \<Rightarrow> (string \<times> dict) option \<Rightarrow> bool" where
  "tpc_history D steps es w \<longleftrightarrow>
     es = [] \<and> w = None \<or>
     to_some ''prepare'' (Some (''PREPARING'', D)) steps es \<and> w = Some (''PREPARING'', D) \<or>
     (\<exists>ps qs. es = ps @ qs \<and> commit_history D steps ps qs \<and> (w = Some (''COMMITTING'', D) \<or> w = None)) \<or>
     (\<exists>ps qs. es = ps @ qs \<and> abort_history D steps ps qs \<and> (w = Some (''ABORTING'', D) \<or> w = None))"

definition settled :: "string \<Rightarrow> nat \<Rightarrow> step_def list \<Rightarrow> obs list \<Rightarrow> bool" where
  "settled expected limit steps qs \<longleftrightarrow> length qs \<le> limit * length steps \<and>
     (\<forall>step\<in>set steps. acknowledged expected (service step) qs \<or> limit \<le> asked (service step) qs)"

text \<open>The vote the executor makes of a reply; then what a run that voted and returned \<open>r\<close> has done, and any run.\<close>

definition vote_of :: "obs \<Rightarrow> pyval" where
  "vote_of e = (case step_result (ob_reply e) of Inl x \<Rightarrow> event_failed (exn_text x) | Inr v \<Rightarrow> v)"

definition tpc_voted :: "dict \<Rightarrow> step_def list \<Rightarrow> obs list \<Rightarrow> pyval \<Rightarrow> bool" where
  "tpc_voted D steps es r \<longleftrightarrow>
     (\<exists>ps qs. es = ps @ qs \<and> commit_history D steps ps qs \<and> r = status_success \<and>
        settled ''committed'' MAX_VERIFIED_RETRIES steps qs) \<or>
     (\<exists>ps qs. es = ps @ qs \<and> abort_history D steps ps qs \<and> r = status_failed (abort_reason (zip steps (map vote_of ps))) \<and>
        settled ''aborted'' MAX_VERIFIED_RETRIES steps qs)"

definition tpc_outcome :: "dict \<Rightarrow> step_def list \<Rightarrow> obs list \<Rightarrow> pyval \<Rightarrow> bool" where
  "tpc_outcome D steps es r \<longleftrightarrow>
     (es = [] \<and> (\<exists>sv\<in>service ` set steps. r = status_failed (Str (''service_'' @ sv @ ''_unavailable'')))) \<or>
     tpc_voted D steps es r"

lemma to_all_length: "to_all a w steps es \<Longrightarrow> length es = length steps"
proof -
  assume "to_all a w steps es"
  then have "length (map ob_service es) = length (map service steps)" unfolding to_all_def by (elim conjE) (rule arg_cong)
  then show ?thesis by simp
qed

lemma to_all_some: "to_all a w steps es \<Longrightarrow> to_some a w steps es"
  by (metis length_map order_refl take_all to_all_def to_some_def)

lemma status_ne [simp]: "status_failed x \<noteq> status_success" "status_success \<noteq> status_failed x"
  by (simp_all add: status_failed_def status_success_def)

section \<open>The executor\<close>

lemma vote_said: "ev \<noteq> ''failed'' \<Longrightarrow> dict_has (vote_of e) ''event'' ev \<longleftrightarrow> said ev e"
  by (simp add: vote_of_def said_result split: sum.splits)

lemma votes_said:
  "length es = length steps \<Longrightarrow> ev \<noteq> ''failed'' \<Longrightarrow>
     list_all (\<lambda>v. dict_has (snd v) ''event'' ev) (zip steps (map vote_of es)) \<longleftrightarrow> list_all (said ev) es"
  by (induction steps es rule: list_induct2') (auto simp: vote_said)

lemma triple_votes:
  assumes "\<forall>step\<in>set steps. builder_ok s ctx step" "live \<longrightarrow> env_lives env"
  shows "triple (wal_at live w n) (broadcast (recording s env) action s steps ctx)
    (\<lambda>votes st. \<exists>es. wal_at live w (n @ es) st \<and> to_all action (w s) steps es \<and> list_all (answered env) es \<and>
       votes = zip steps (map vote_of es))
    (\<lambda>x st. \<not> live \<and> (\<exists>es. wal_at live w (n @ es) st \<and> to_some action (w s) steps es))"
  by (rule triple_weaken [OF triple_broadcast [OF assms]]) (auto simp: vote_of_def [abs_def])

text \<open>The check before anything is sent.\<close>

lemma triple_check:
  "triple (wal_at live w n) (check_circuit_breakers steps)
     (\<lambda>err st. wal_at live w n st \<and> (\<forall>msg. err = Some msg \<longrightarrow> (\<exists>sv\<in>service ` set steps. msg = ''service_'' @ sv @ ''_unavailable'')))
     E"
proof (induction steps)
  case Nil
  show ?case by (simp add: triple_ret)
next
  case (Cons step steps)
  show ?case
    unfolding check_circuit_breakers.simps
    by (rule triple_bind [OF calm_triple [OF calm_breakers(3)]])
      (auto intro!: triple_ret intro: triple_weaken [OF Cons.IH])
qed

lemma tpc_data_nonempty [simp]: "tpc_data ctx name \<noteq> []"
  using map_of_dict_merge [of ctx "[(''protocol'', Str ''2pc''), (''tx_name'', Str name)]" "''tx_name''"]
  by (auto simp: tpc_data_def)

definition tpc_cut :: "bool \<Rightarrow> (string \<rightharpoonup> string \<times> dict) \<Rightarrow> string \<Rightarrow> dict \<Rightarrow> step_def list \<Rightarrow> obs list proc \<Rightarrow> bool" where
  "tpc_cut live w0 s D steps st \<longleftrightarrow> \<not> live \<and> (\<exists>w es. wal_at live (w0(s := w)) es st \<and> tpc_history D steps es w)"

lemma tpc_cutI: "\<not> live \<Longrightarrow> wal_at live (w0(s := w)) es st \<Longrightarrow> tpc_history D steps es w \<Longrightarrow> tpc_cut live w0 s D steps st"
  unfolding tpc_cut_def by blast

lemma tpc_cut_between:
  "wal_between live (w0(s := a)) (w0(s := b)) es e st \<Longrightarrow> tpc_history D steps es a \<Longrightarrow> tpc_history D steps es b \<Longrightarrow>
     tpc_cut live w0 s D steps st"
  unfolding wal_between_def by (blast intro: tpc_cutI)

text \<open>The second phase, whichever it is.\<close>

lemma second_phase:
  assumes "redis_server (cl_rc cl)" "\<forall>step\<in>set steps. builder_ok s ctx step" "live \<longrightarrow> env_lives env"
    and "expected \<noteq> ''failed''" "lstep \<notin> set TERMINAL_STATES" "final \<in> set TERMINAL_STATES" "D \<noteq> []"
    and before: "tpc_history D steps ps (Some (''PREPARING'', D))"
    and during: "\<And>qs w. list_all (sent action (Some (lstep, D))) qs \<Longrightarrow> w \<in> {Some (lstep, D), None} \<Longrightarrow> tpc_history D steps (ps @ qs) w"
  shows "triple (wal_at live (w0(s \<mapsto> (''PREPARING'', D))) ps)
     (bindE (wal_log cl s lstep (Some D)) (\<lambda>_. bindE (verified_action cl (recording s env) action expected s steps ctx) (\<lambda>_.
        bindE (wal_log_terminal cl s final None) (\<lambda>_. ret x))))
     (\<lambda>r st. \<exists>qs. wal_at live (w0(s := None)) (ps @ qs) st \<and> list_all (sent action (Some (lstep, D))) qs \<and>
        settled expected MAX_VERIFIED_RETRIES steps qs \<and> r = x)
     (\<lambda>_. tpc_cut live w0 s D steps)"
proof (rule triple_bind [where Q = "\<lambda>_. wal_at live (w0(s \<mapsto> (lstep, D))) ps"])
  show "triple (wal_at live (w0(s \<mapsto> (''PREPARING'', D))) ps) (wal_log cl s lstep (Some D))
      (\<lambda>_. wal_at live (w0(s \<mapsto> (lstep, D))) ps) (\<lambda>_. tpc_cut live w0 s D steps)"
  proof (rule triple_weaken [OF triple_wal_log [OF assms(1,5,7)]])
    fix e st
    assume "wal_between live (w0(s \<mapsto> (''PREPARING'', D))) (w0(s \<mapsto> (''PREPARING'', D), s \<mapsto> (lstep, D))) ps e st"
    then show "tpc_cut live w0 s D steps st"
      using before during [of "[]" "Some (lstep, D)"] by (auto intro: tpc_cut_between)
  qed auto
next
  let ?w = "w0(s \<mapsto> (lstep, D))"
  fix u :: unit
  show "triple (wal_at live ?w ps)
      (bindE (verified_action cl (recording s env) action expected s steps ctx) (\<lambda>_.
        bindE (wal_log_terminal cl s final None) (\<lambda>_. ret x)))
      (\<lambda>r st. \<exists>qs. wal_at live (w0(s := None)) (ps @ qs) st \<and> list_all (sent action (Some (lstep, D))) qs \<and>
         settled expected MAX_VERIFIED_RETRIES steps qs \<and> r = x)
      (\<lambda>_. tpc_cut live w0 s D steps)"
  proof (rule triple_bind [where Q = "\<lambda>_. action_done live ?w s ps action expected MAX_VERIFIED_RETRIES steps"],
      rule triple_weaken [OF triple_verified_action [OF assms(1-4)]])
    fix e :: exn and st
    assume "cut_short live ?w s ps action st"
    then obtain qs where "\<not> live" "wal_at live ?w (ps @ qs) st" "list_all (sent action (Some (lstep, D))) qs"
      by (auto simp: cut_short_def)
    then show "tpc_cut live w0 s D steps st"
      using during [of qs "Some (lstep, D)"] by (auto intro: tpc_cutI)
  next
    fix u :: unit
    have fin: "triple (wal_at live ?w (ps @ qs)) (bindE (wal_log_terminal cl s final None) (\<lambda>_. ret x))
        (\<lambda>r st. \<exists>qs. wal_at live (w0(s := None)) (ps @ qs) st \<and> list_all (sent action (Some (lstep, D))) qs \<and>
          settled expected MAX_VERIFIED_RETRIES steps qs \<and> r = x) (\<lambda>_. tpc_cut live w0 s D steps)"
      if q: "list_all (sent action (Some (lstep, D))) qs" "settled expected MAX_VERIFIED_RETRIES steps qs" for qs
    proof (rule triple_bind [where Q = "\<lambda>_. wal_at live (w0(s := None)) (ps @ qs)"],
        rule triple_weaken [OF triple_wal_finish [OF assms(1,6), of wal_log_terminal]])
      fix e st
      assume "wal_between live ?w (?w(s := None)) (ps @ qs) e st"
      then show "tpc_cut live w0 s D steps st"
        using during [OF q(1), of "Some (lstep, D)"] during [OF q(1), of None]
        by (auto intro: tpc_cut_between)
    next
      show "triple (wal_at live (w0(s := None)) (ps @ qs)) (ret x)
          (\<lambda>r st. \<exists>qs. wal_at live (w0(s := None)) (ps @ qs) st \<and> list_all (sent action (Some (lstep, D))) qs \<and>
            settled expected MAX_VERIFIED_RETRIES steps qs \<and> r = x) (\<lambda>_. tpc_cut live w0 s D steps)" for u :: unit
        by (rule triple_ret) (use q in blast)
    qed auto
    show "triple (action_done live ?w s ps action expected MAX_VERIFIED_RETRIES steps)
        (bindE (wal_log_terminal cl s final None) (\<lambda>_. ret x))
        (\<lambda>r st. \<exists>qs. wal_at live (w0(s := None)) (ps @ qs) st \<and> list_all (sent action (Some (lstep, D))) qs \<and>
          settled expected MAX_VERIFIED_RETRIES steps qs \<and> r = x) (\<lambda>_. tpc_cut live w0 s D steps)"
      unfolding action_done_def
    proof (rule triple_ex)
      fix qs
      show "triple (\<lambda>st. wal_at live ?w (ps @ qs) st \<and> list_all (sent action (?w s)) qs \<and>
            length qs \<le> MAX_VERIFIED_RETRIES * length steps \<and> set (map ob_service qs) \<subseteq> service ` set steps \<and>
            (\<forall>step\<in>set steps. acknowledged expected (service step) qs \<or> MAX_VERIFIED_RETRIES \<le> asked (service step) qs))
          (bindE (wal_log_terminal cl s final None) (\<lambda>_. ret x))
          (\<lambda>r st. \<exists>qs. wal_at live (w0(s := None)) (ps @ qs) st \<and> list_all (sent action (Some (lstep, D))) qs \<and>
            settled expected MAX_VERIFIED_RETRIES steps qs \<and> r = x) (\<lambda>_. tpc_cut live w0 s D steps)"
        by (rule triple_pure, rule triple_pre [OF fin]) (simp_all add: settled_def)
    qed
  qed auto
qed

lemma tpc_history_commit: "commit_history D steps ps qs \<Longrightarrow> w \<in> {Some (''COMMITTING'', D), None} \<Longrightarrow> tpc_history D steps (ps @ qs) w"
  unfolding tpc_history_def by blast

lemma tpc_history_abort: "abort_history D steps ps qs \<Longrightarrow> w \<in> {Some (''ABORTING'', D), None} \<Longrightarrow> tpc_history D steps (ps @ qs) w"
  unfolding tpc_history_def by blast

lemma tpc_history_prepare: "to_some ''prepare'' (Some (''PREPARING'', D)) steps es \<Longrightarrow> tpc_history D steps es (Some (''PREPARING'', D))"
  unfolding tpc_history_def by blast

definition tpc_post :: "bool \<Rightarrow> (string \<rightharpoonup> string \<times> dict) \<Rightarrow> string \<Rightarrow> dict \<Rightarrow> step_def list \<Rightarrow> pyval \<Rightarrow> obs list proc \<Rightarrow> bool" where
  "tpc_post live w0 s D steps r st \<longleftrightarrow> (\<exists>es. wal_at live (w0(s := None)) es st \<and> tpc_outcome D steps es r)"

definition tpc_done :: "bool \<Rightarrow> (string \<rightharpoonup> string \<times> dict) \<Rightarrow> string \<Rightarrow> dict \<Rightarrow> step_def list \<Rightarrow> pyval \<Rightarrow> obs list proc \<Rightarrow> bool" where
  "tpc_done live w0 s D steps r st \<longleftrightarrow> (\<exists>es. wal_at live (w0(s := None)) es st \<and> tpc_voted D steps es r)"

lemma tpc_done_post: "tpc_done live w0 s D steps r st \<Longrightarrow> tpc_post live w0 s D steps r st"
  unfolding tpc_done_def tpc_post_def tpc_outcome_def by blast

lemma tpc_done_commit:
  "wal_at live (w0(s := None)) (ps @ qs) st \<Longrightarrow> commit_history D steps ps qs \<Longrightarrow>
     settled ''committed'' MAX_VERIFIED_RETRIES steps qs \<Longrightarrow> tpc_done live w0 s D steps status_success st"
  unfolding tpc_done_def tpc_voted_def by blast

lemma tpc_done_abort:
  "wal_at live (w0(s := None)) (ps @ qs) st \<Longrightarrow> abort_history D steps ps qs \<Longrightarrow> settled ''aborted'' MAX_VERIFIED_RETRIES steps qs \<Longrightarrow>
     tpc_done live w0 s D steps (status_failed (abort_reason (zip steps (map vote_of ps)))) st"
  unfolding tpc_done_def tpc_voted_def by blast

lemma triple_decision:
  assumes "redis_server (cl_rc cl)" "\<forall>step\<in>set steps. builder_ok s ctx step" "live \<longrightarrow> env_lives env" "D \<noteq> []"
    and ps: "to_all ''prepare'' (Some (''PREPARING'', D)) steps ps" and votes: "votes = zip steps (map vote_of ps)"
  shows "triple (wal_at live (w0(s \<mapsto> (''PREPARING'', D))) ps)
     (if list_all (\<lambda>v. dict_has (snd v) ''event'' ''prepared'') votes then
         bindE (wal_log cl s ''COMMITTING'' (Some D)) (\<lambda>_.
         bindE (verified_action cl (recording s env) ''commit'' ''committed'' s steps ctx) (\<lambda>_.
         bindE (wal_log_terminal cl s ''COMPLETED'' None) (\<lambda>_. ret status_success)))
       else
         bindE (wal_log cl s ''ABORTING'' (Some D)) (\<lambda>_.
         bindE (verified_action cl (recording s env) ''abort'' ''aborted'' s steps ctx) (\<lambda>_.
         bindE (wal_log_terminal cl s ''FAILED'' None) (\<lambda>_. ret (status_failed (abort_reason votes))))))
     (tpc_done live w0 s D steps) (\<lambda>_. tpc_cut live w0 s D steps)"
proof -
  note len = to_all_length [OF ps]
  have before: "tpc_history D steps ps (Some (''PREPARING'', D))"
    by (rule tpc_history_prepare [OF to_all_some [OF ps]])
  have all: "list_all (\<lambda>v. dict_has (snd v) ''event'' ''prepared'') votes \<longleftrightarrow> list_all (said ''prepared'') ps"
    using votes_said [OF len] votes by simp
  show ?thesis
  proof (rule triple_if)
    assume "list_all (\<lambda>v. dict_has (snd v) ''event'' ''prepared'') votes"
    then have c: "commit_history D steps ps qs" if "list_all (sent ''commit'' (Some (''COMMITTING'', D))) qs" for qs
      using ps all that by (simp add: commit_history_def)
    show "triple (wal_at live (w0(s \<mapsto> (''PREPARING'', D))) ps)
        (bindE (wal_log cl s ''COMMITTING'' (Some D)) (\<lambda>_.
         bindE (verified_action cl (recording s env) ''commit'' ''committed'' s steps ctx) (\<lambda>_.
         bindE (wal_log_terminal cl s ''COMPLETED'' None) (\<lambda>_. ret status_success))))
        (tpc_done live w0 s D steps) (\<lambda>_. tpc_cut live w0 s D steps)"
    proof (rule triple_weaken [OF second_phase [OF assms(1-3) _ _ _ assms(4) before tpc_history_commit [OF c]]])
      fix r st
      assume "\<exists>qs. wal_at live (w0(s := None)) (ps @ qs) st \<and> list_all (sent ''commit'' (Some (''COMMITTING'', D))) qs \<and>
          settled ''committed'' MAX_VERIFIED_RETRIES steps qs \<and> r = status_success"
      then obtain qs where qs: "wal_at live (w0(s := None)) (ps @ qs) st" "list_all (sent ''commit'' (Some (''COMMITTING'', D))) qs"
          "settled ''committed'' MAX_VERIFIED_RETRIES steps qs" "r = status_success" by blast
      then show "tpc_done live w0 s D steps r st" using tpc_done_commit [OF qs(1) c [OF qs(2)] qs(3)] by simp
    qed (simp_all add: TERMINAL_STATES_def)
  next
    assume "\<not> list_all (\<lambda>v. dict_has (snd v) ''event'' ''prepared'') votes"
    then have c: "abort_history D steps ps qs" if "list_all (sent ''abort'' (Some (''ABORTING'', D))) qs" for qs
      using ps all that by (simp add: abort_history_def)
    show "triple (wal_at live (w0(s \<mapsto> (''PREPARING'', D))) ps)
        (bindE (wal_log cl s ''ABORTING'' (Some D)) (\<lambda>_.
         bindE (verified_action cl (recording s env) ''abort'' ''aborted'' s steps ctx) (\<lambda>_.
         bindE (wal_log_terminal cl s ''FAILED'' None) (\<lambda>_. ret (status_failed (abort_reason votes))))))
        (tpc_done live w0 s D steps) (\<lambda>_. tpc_cut live w0 s D steps)"
    proof (rule triple_weaken [OF second_phase [OF assms(1-3) _ _ _ assms(4) before tpc_history_abort [OF c]]])
      fix r st
      assume "\<exists>qs. wal_at live (w0(s := None)) (ps @ qs) st \<and> list_all (sent ''abort'' (Some (''ABORTING'', D))) qs \<and>
          settled ''aborted'' MAX_VERIFIED_RETRIES steps qs \<and> r = status_failed (abort_reason votes)"
      then obtain qs where qs: "wal_at live (w0(s := None)) (ps @ qs) st" "list_all (sent ''abort'' (Some (''ABORTING'', D))) qs"
          "settled ''aborted'' MAX_VERIFIED_RETRIES steps qs" "r = status_failed (abort_reason votes)" by blast
      then show "tpc_done live w0 s D steps r st" using tpc_done_abort [OF qs(1) c [OF qs(2)] qs(3)] votes by simp
    qed (simp_all add: TERMINAL_STATES_def)
  qed
qed

text \<open>The executor once no breaker is in the way.\<close>

definition two_pc_vote :: "redis_client \<Rightarrow> 'n transport \<Rightarrow> transaction \<Rightarrow> string \<Rightarrow> dict \<Rightarrow> string \<Rightarrow> ('n proc, pyval) py" where
  "two_pc_vote cl tr tx s ctx name =
     bindE (wal_log cl s ''PREPARING'' (Some (tpc_data ctx name))) (\<lambda>_.
     bindE (broadcast tr ''prepare'' s (td_steps tx) ctx) (\<lambda>votes.
     bindE (for_each votes record_vote) (\<lambda>_.
     if list_all (\<lambda>v. dict_has (snd v) ''event'' ''prepared'') votes then
       bindE (wal_log cl s ''COMMITTING'' (Some (tpc_data ctx name))) (\<lambda>_.
       bindE (verified_action cl tr ''commit'' ''committed'' s (td_steps tx) ctx) (\<lambda>_.
       bindE (wal_log_terminal cl s ''COMPLETED'' None) (\<lambda>_. ret status_success)))
     else
       bindE (wal_log cl s ''ABORTING'' (Some (tpc_data ctx name))) (\<lambda>_.
       bindE (verified_action cl tr ''abort'' ''aborted'' s (td_steps tx) ctx) (\<lambda>_.
       bindE (wal_log_terminal cl s ''FAILED'' None) (\<lambda>_. ret (status_failed (abort_reason votes))))))))"

lemma two_pc_execute_eq:
  "two_pc_execute cl tr tx s ctx name = bindE (check_circuit_breakers (td_steps tx)) (\<lambda>err. case err of
     Some msg \<Rightarrow> bindE (wal_log_terminal cl s ''FAILED'' None) (\<lambda>_. ret (status_failed (Str msg)))
   | None \<Rightarrow> two_pc_vote cl tr tx s ctx name)"
  unfolding two_pc_execute_def two_pc_vote_def by (rule refl)

lemma triple_two_pc_vote:
  assumes "redis_server (cl_rc cl)" "\<forall>step\<in>set (td_steps tx). builder_ok s ctx step" "live \<longrightarrow> env_lives env" "w0 s = None"
  shows "triple (wal_at live w0 []) (two_pc_vote cl (recording s env) tx s ctx name)
    (tpc_done live w0 s (tpc_data ctx name) (td_steps tx)) (\<lambda>_. tpc_cut live w0 s (tpc_data ctx name) (td_steps tx))"
proof -
  let ?D = "tpc_data ctx name" and ?ss = "td_steps tx"
  let ?P = "tpc_done live w0 s ?D ?ss" and ?E = "\<lambda>_::exn. tpc_cut live w0 s ?D ?ss"
  have w0: "w0(s := None) = w0" using assms(4) by auto
  have empty: "tpc_history ?D ?ss [] None" by (simp add: tpc_history_def)
  have log: "triple (wal_at live w0 []) (wal_log cl s ''PREPARING'' (Some ?D)) (\<lambda>_. wal_at live (w0(s \<mapsto> (''PREPARING'', ?D))) []) ?E"
  proof (rule triple_weaken [OF triple_wal_log [OF assms(1)]])
    fix e and st :: "obs list proc"
    assume "wal_between live w0 (w0(s \<mapsto> (''PREPARING'', ?D))) [] e st"
    then show "tpc_cut live w0 s ?D ?ss st"
      using tpc_cut_between [of live w0 s None "Some (''PREPARING'', ?D)" "[]" e st, OF _ empty tpc_history_prepare] w0
      by (simp add: to_some_def)
  qed (auto simp: TERMINAL_STATES_def)
  have cast: "triple (wal_at live (w0(s \<mapsto> (''PREPARING'', ?D))) []) (broadcast (recording s env) ''prepare'' s ?ss ctx)
      (\<lambda>votes st. \<exists>ps. wal_at live (w0(s \<mapsto> (''PREPARING'', ?D))) ps st \<and>
         to_all ''prepare'' (Some (''PREPARING'', ?D)) ?ss ps \<and> votes = zip ?ss (map vote_of ps)) ?E"
  proof (rule triple_weaken [OF triple_votes [OF assms(2,3)]])
    fix e and st :: "obs list proc"
    assume "\<not> live \<and> (\<exists>es. wal_at live (w0(s \<mapsto> (''PREPARING'', ?D))) ([] @ es) st \<and>
        to_some ''prepare'' ((w0(s \<mapsto> (''PREPARING'', ?D))) s) ?ss es)"
    then obtain es where "\<not> live" "wal_at live (w0(s \<mapsto> (''PREPARING'', ?D))) es st"
        "to_some ''prepare'' (Some (''PREPARING'', ?D)) ?ss es" by auto
    then show "tpc_cut live w0 s ?D ?ss st" using tpc_cutI tpc_history_prepare by blast
  qed auto
  show ?thesis
    unfolding two_pc_vote_def
  proof (rule triple_bind [OF log], rule triple_bind [OF cast])
    fix votes
    let ?rest = "bindE (for_each votes record_vote) (\<lambda>_.
       if list_all (\<lambda>v. dict_has (snd v) ''event'' ''prepared'') votes then
         bindE (wal_log cl s ''COMMITTING'' (Some ?D)) (\<lambda>_.
         bindE (verified_action cl (recording s env) ''commit'' ''committed'' s ?ss ctx) (\<lambda>_.
         bindE (wal_log_terminal cl s ''COMPLETED'' None) (\<lambda>_. ret status_success)))
       else
         bindE (wal_log cl s ''ABORTING'' (Some ?D)) (\<lambda>_.
         bindE (verified_action cl (recording s env) ''abort'' ''aborted'' s ?ss ctx) (\<lambda>_.
         bindE (wal_log_terminal cl s ''FAILED'' None) (\<lambda>_. ret (status_failed (abort_reason votes))))))"
    have "triple (wal_at live (w0(s \<mapsto> (''PREPARING'', ?D))) ps) ?rest ?P ?E"
      if "to_all ''prepare'' (Some (''PREPARING'', ?D)) ?ss ps" "votes = zip ?ss (map vote_of ps)" for ps
      by (rule triple_bind [OF calm_triple triple_decision [OF assms(1-3) tpc_data_nonempty that]])
        (simp add: calm_for_each)
    then show "triple (\<lambda>st. \<exists>ps. wal_at live (w0(s \<mapsto> (''PREPARING'', ?D))) ps st \<and>
         to_all ''prepare'' (Some (''PREPARING'', ?D)) ?ss ps \<and> votes = zip ?ss (map vote_of ps)) ?rest ?P ?E"
      unfolding triple_def by blast
  qed
qed

lemma triple_two_pc:
  assumes "redis_server (cl_rc cl)" "\<forall>step\<in>set (td_steps tx). builder_ok s ctx step" "live \<longrightarrow> env_lives env" "w0 s = None"
  shows "triple (wal_at live w0 []) (two_pc_execute cl (recording s env) tx s ctx name)
    (tpc_post live w0 s (tpc_data ctx name) (td_steps tx)) (\<lambda>_. tpc_cut live w0 s (tpc_data ctx name) (td_steps tx))"
proof -
  let ?D = "tpc_data ctx name" and ?ss = "td_steps tx"
  let ?P = "tpc_post live w0 s ?D ?ss" and ?E = "\<lambda>_::exn. tpc_cut live w0 s ?D ?ss"
  have w0: "w0(s := None) = w0" using assms(4) by auto
  have empty: "tpc_history ?D ?ss [] None" by (simp add: tpc_history_def)
  show ?thesis
    unfolding two_pc_execute_eq
  proof (rule triple_bind [OF triple_check])
    fix err
    show "triple (\<lambda>st. wal_at live w0 [] st \<and> (\<forall>msg. err = Some msg \<longrightarrow> (\<exists>sv\<in>service ` set ?ss. msg = ''service_'' @ sv @ ''_unavailable'')))
        (case err of Some msg \<Rightarrow> bindE (wal_log_terminal cl s ''FAILED'' None) (\<lambda>_. ret (status_failed (Str msg)))
         | None \<Rightarrow> two_pc_vote cl (recording s env) tx s ctx name) ?P ?E"
    proof (cases err)
      case (Some msg)
      show ?thesis
        unfolding Some option.case
      proof (rule triple_bind)
        show "triple (\<lambda>st. wal_at live w0 [] st \<and> (\<forall>msg'. Some msg = Some msg' \<longrightarrow> (\<exists>sv\<in>service ` set ?ss. msg' = ''service_'' @ sv @ ''_unavailable'')))
            (wal_log_terminal cl s ''FAILED'' None)
            (\<lambda>_ st. wal_at live (w0(s := None)) [] st \<and> (\<exists>sv\<in>service ` set ?ss. msg = ''service_'' @ sv @ ''_unavailable'')) ?E"
        proof (rule triple_pure, rule triple_weaken [OF triple_wal_finish [OF assms(1), of "''FAILED''" wal_log_terminal]])
          fix e and st :: "obs list proc"
          assume "wal_between live w0 (w0(s := None)) [] e st"
          then show "tpc_cut live w0 s ?D ?ss st"
            using tpc_cut_between [of live w0 s None None "[]" e st, OF _ empty empty] w0 by simp
        qed (auto simp: TERMINAL_STATES_def)
        show "triple (\<lambda>st. wal_at live (w0(s := None)) [] st \<and> (\<exists>sv\<in>service ` set ?ss. msg = ''service_'' @ sv @ ''_unavailable''))
            (ret (status_failed (Str msg))) ?P ?E" for u :: unit
          by (rule triple_ret) (auto simp: tpc_post_def tpc_outcome_def)
      qed
    next
      case None
      show ?thesis
        unfolding None option.case
        by (rule triple_weaken [OF triple_two_pc_vote [of cl tx s ctx live env w0 name, OF assms]]) (use tpc_done_post in auto)
    qed
  qed
qed

section \<open>Properties\<close>

lemma two_pc_run:
  assumes "redis_server (cl_rc cl)" "\<forall>step\<in>set (td_steps tx). builder_ok s ctx step"
    and "wal_inv (c_db st)" "wal_map (c_db st) s = None" "net st = []"
    and "two_pc_execute cl (recording s env) tx s ctx name st = (r, st')"
  shows "wal_inv (c_db st') \<and> (\<exists>w. wal_map (c_db st') = (wal_map (c_db st))(s := w) \<and>
      tpc_history (tpc_data ctx name) (td_steps tx) (net st') w \<and>
      (\<forall>x. r = Inr x \<longrightarrow> w = None \<and> tpc_outcome (tpc_data ctx name) (td_steps tx) (net st') x))"
proof -
  let ?w0 = "wal_map (c_db st)" and ?D = "tpc_data ctx name"
  have t: "triple (wal_at False ?w0 []) (two_pc_execute cl (recording s env) tx s ctx name)
      (tpc_post False ?w0 s ?D (td_steps tx)) (\<lambda>_. tpc_cut False ?w0 s ?D (td_steps tx))"
    by (rule triple_two_pc) (use assms in auto)
  have w: "wal_at False ?w0 [] st" using assms(3,5) by (simp add: wal_at_def)
  show ?thesis
  proof (cases r)
    case (Inl e)
    then show ?thesis using triple_raise_D [OF t w] assms(6) by (auto simp: tpc_cut_def wal_at_def)
  next
    case (Inr x)
    then have "tpc_post False ?w0 s ?D (td_steps tx) x st'" using triple_ret_D [OF t w] assms(6) by simp
    then have "wal_at False (?w0(s := None)) (net st') st'" "tpc_outcome ?D (td_steps tx) (net st') x"
      by (auto simp: tpc_post_def wal_at_def)
    then show ?thesis
      using Inr unfolding wal_at_def tpc_outcome_def tpc_voted_def tpc_history_def by (intro conjI exI [of _ None]) auto
  qed
qed

lemma two_pc_live:
  assumes "redis_server (cl_rc cl)" "\<forall>step\<in>set (td_steps tx). builder_ok s ctx step"
    and "wal_inv (c_db st)" "wal_map (c_db st) s = None" "net st = []" "online st" "env_lives env"
  shows "\<exists>x st'. two_pc_execute cl (recording s env) tx s ctx name st = (Inr x, st') \<and>
    tpc_outcome (tpc_data ctx name) (td_steps tx) (net st') x"
proof -
  let ?w0 = "wal_map (c_db st)" and ?D = "tpc_data ctx name"
  have t: "triple (wal_at True ?w0 []) (two_pc_execute cl (recording s env) tx s ctx name)
      (tpc_post True ?w0 s ?D (td_steps tx)) (\<lambda>_. tpc_cut True ?w0 s ?D (td_steps tx))"
    by (rule triple_two_pc) (use assms in auto)
  have w: "wal_at True ?w0 [] st" using assms(3,5,6) by simp
  obtain r st' where run: "two_pc_execute cl (recording s env) tx s ctx name st = (r, st')" by fastforce
  then obtain x where x: "r = Inr x"
    using triple_raise_D [OF t w] by (cases r) (auto simp: tpc_cut_def)
  then have "tpc_outcome ?D (td_steps tx) (net st') x"
    using triple_ret_D [OF t w] run by (auto simp: tpc_post_def)
  then show ?thesis using run x by blast
qed

text \<open>C6 (safety): Write-ahead logging. However the network, the services and the order database
  behave, and wherever the run stops, what the two-phase-commit executor has sent for its saga is a
  legal history of the log entry it leaves: prepares in step order, each sent while the log says
  PREPARING; commits only under COMMITTING, after every step voted prepared; aborts only under
  ABORTING, after some vote was not prepared. The log entries of other sagas do not change.\<close>

theorem two_pc_history:
  assumes "redis_server (cl_rc cl)" "\<forall>step\<in>set (td_steps tx). builder_ok s ctx step"
    and "wal_inv (c_db st)" "wal_map (c_db st) s = None" "net st = []"
    and "two_pc_execute cl (recording s env) tx s ctx name st = (r, st')"
  shows "tpc_history (tpc_data ctx name) (td_steps tx) (net st') (wal_map (c_db st') s) \<and>
    (\<forall>s'. s' \<noteq> s \<longrightarrow> wal_map (c_db st') s' = wal_map (c_db st) s')"
  using two_pc_run [OF assms] by auto

text \<open>C22 (functional): When the executor returns, it either found a breaker open and sent nothing,
  or every step voted prepared, it answers success, and every step acknowledged the commit or was
  asked \<open>MAX_VERIFIED_RETRIES\<close> times, or some step did not, it answers a failure with the reason of the first
  failed vote, and the same holds for the abort; and its saga has left the log.\<close>

theorem two_pc_result:
  assumes "redis_server (cl_rc cl)" "\<forall>step\<in>set (td_steps tx). builder_ok s ctx step"
    and "wal_inv (c_db st)" "wal_map (c_db st) s = None" "net st = []"
    and "two_pc_execute cl (recording s env) tx s ctx name st = (Inr x, st')"
  shows "tpc_outcome (tpc_data ctx name) (td_steps tx) (net st') x \<and> wal_map (c_db st') s = None"
  using two_pc_run [OF assms] by auto

text \<open>C26 (termination): On a connection to the order database that works, and unless the process is
  killed or cancelled, the executor returns, whatever the services do; its retries are bounded.\<close>

theorem two_pc_returns:
  assumes "redis_server (cl_rc cl)" "\<forall>step\<in>set (td_steps tx). builder_ok s ctx step"
    and "wal_inv (c_db st)" "wal_map (c_db st) s = None" "net st = []" "online st" "env_lives env"
  shows "\<exists>x st'. two_pc_execute cl (recording s env) tx s ctx name st = (Inr x, st') \<and>
    length (net st') \<le> (1 + MAX_VERIFIED_RETRIES) * length (td_steps tx)"
proof -
  obtain x st' where run: "two_pc_execute cl (recording s env) tx s ctx name st = (Inr x, st')"
      and out: "tpc_outcome (tpc_data ctx name) (td_steps tx) (net st') x"
    using two_pc_live [OF assms] by blast
  have "length (net st') \<le> (1 + MAX_VERIFIED_RETRIES) * length (td_steps tx)"
    using out unfolding tpc_outcome_def tpc_voted_def commit_history_def abort_history_def settled_def
    by (elim disjE exE conjE) (auto dest: to_all_length)
  then show ?thesis using run by blast
qed

subsection \<open>Witnesses\<close>

definition shop_tx :: transaction where
  "shop_tx = \<lparr>td_name = ''checkout'', td_steps = [
     \<lparr>step_name = ''reserve_stock'', service = ''stock'', payload_builder = Some (\<lambda>s a c. Inr [(''ttl'', Str ''300'')])\<rparr>,
     \<lparr>step_name = ''reserve_payment'', service = ''payment'', payload_builder = None\<rparr>]\<rparr>"

text \<open>Services that do what they are asked.\<close>

definition obliging :: env where
  "obliging h sv a p = (Inr (PDict [(''event'', Str (if a = ''prepare'' then ''prepared'' else if a = ''commit'' then ''committed''
     else if a = ''abort'' then ''aborted'' else if a = ''execute'' then ''executed'' else ''compensated''))]), 1)"

lemma shop_tx_ok: "\<forall>step\<in>set (td_steps shop_tx). builder_ok s ctx step" "length (td_steps shop_tx) = 2"
  by (simp_all add: shop_tx_def builder_ok_def)

lemma mem_client_server: "redis_server (cl_rc mem_client)"
  by (simp add: mem_client_def mem_redis)

lemma obliging_lives: "env_lives obliging"
  by (simp add: env_lives_def obliging_def)

lemma fresh_wal: "wal_inv (c_db (fresh_proc n))" "wal_map (c_db (fresh_proc n)) s = None"
  by (simp_all add: wal_inv_def wal_map_inactive)

lemmas shop_run = mem_client_server shop_tx_ok(1) fresh_wal(1) fresh_wal(2) fresh_proc_log(4)

theorem two_pc_history_witness:
  "\<exists>r st'. two_pc_execute mem_client (recording ''s'' obliging) shop_tx ''s'' [] ''checkout'' (fresh_proc []) = (r, st') \<and>
     tpc_history (tpc_data [] ''checkout'') (td_steps shop_tx) (net st') (wal_map (c_db st') ''s'')"
proof -
  obtain r st' where "two_pc_execute mem_client (recording ''s'' obliging) shop_tx ''s'' [] ''checkout'' (fresh_proc []) = (r, st')"
    by (metis surj_pair)
  then show ?thesis using two_pc_history [OF shop_run] by blast
qed

theorem two_pc_result_witness:
  "\<exists>x st'. two_pc_execute mem_client (recording ''s'' obliging) shop_tx ''s'' [] ''checkout'' (fresh_proc []) = (Inr x, st') \<and>
     tpc_outcome (tpc_data [] ''checkout'') (td_steps shop_tx) (net st') x \<and> wal_map (c_db st') ''s'' = None"
proof -
  obtain x st' where "two_pc_execute mem_client (recording ''s'' obliging) shop_tx ''s'' [] ''checkout'' (fresh_proc []) = (Inr x, st')"
    using two_pc_live [OF shop_run fresh_proc_log(1) obliging_lives] by blast
  then show ?thesis using two_pc_result [OF shop_run] by blast
qed

theorem two_pc_returns_witness:
  "\<exists>x st'. two_pc_execute mem_client (recording ''s'' obliging) shop_tx ''s'' [] ''checkout'' (fresh_proc []) = (Inr x, st') \<and>
     length (net st') \<le> 32"
  using two_pc_returns [OF shop_run fresh_proc_log(1) obliging_lives, of "''s''" "[]"]
  by (simp add: MAX_VERIFIED_RETRIES_def shop_tx_ok)

end
