(* ===== verification/CrashRecovery.thy ===== *)
theory CrashRecovery
  imports TwoPhase
begin

text \<open>
  Recovery as its environment sees it, and its composition with a two-phase-commit run that was
  cut short: whatever happens, no saga is both committed and aborted.
\<close>

section \<open>Triples of recovery\<close>

definition stopped :: "bool \<Rightarrow> (string \<rightharpoonup> string \<times> dict) \<Rightarrow> string \<Rightarrow> obs list \<Rightarrow> string \<Rightarrow> exn \<Rightarrow> obs list proc \<Rightarrow> bool" where
  "stopped live w s n action x st \<longleftrightarrow> \<not> is_exception x \<and> cut_short live w s n action st"

lemma triple_recovery_try:
  assumes "builder_ok s ctx step" "live \<longrightarrow> env_lives env"
  shows "triple (wal_at live w n) (recovery_try (recording s env) action s ctx step)
    (\<lambda>r st. \<exists>e. wal_at live w (n @ [e]) st \<and> sent action (w s) e \<and> ob_service e = service step \<and> r = ob_reply e)
    (stopped live w s n action)"
proof -
  obtain p where p: "build_payload [(''saga_id'', Str s), (''action'', Str action)] step s action ctx = Inr p"
    using builder_ok_payload [OF assms(1)] by blast
  have main: "\<exists>e. wal_at live w (n @ [e]) st' \<and> sent action (w s) e \<and> ob_service e = service step \<and>
      (case r' of Inr x \<Rightarrow> x = ob_reply e | Inl x \<Rightarrow> \<not> live \<and> \<not> is_exception x)"
    if w: "wal_at live w n st" and run: "recovery_try (recording s env) action s ctx step st = (r', st')" for st r' st'
  proof -
    obtain r took where r: "env (net st) (service step) action p = (r, took)" by (cases "env (net st) (service step) action p")
    let ?e = "\<lparr>ob_service = service step, ob_action = action, ob_payload = p, ob_wal = wal_map (c_db st) s, ob_reply = r\<rparr>"
    have l: "live \<longrightarrow> r \<notin> {Inl Exit, Inl Cancelled}" using assms(2) r unfolding env_lives_def by (metis fst_conv)
    have ex: "\<not> is_exception x \<Longrightarrow> x \<in> {Exit, Cancelled}" for x by (cases x) auto
    have "st' = st\<lparr>net := net st @ [?e], c_clock := c_clock st + took\<rparr>"
        "r' = (case r of Inl x \<Rightarrow> if is_exception x then Inr (Inl x) else Inl x | Inr v \<Rightarrow> Inr (Inr v))"
      using run r by (auto simp: recovery_try_def recovery_send_def p recording_def try_except_def ret_def bindE_def lift_sum_def
          split: sum.splits if_splits)
    then show ?thesis
      using w l ex by (intro exI [of _ ?e]) (auto simp: wal_at_def online_def sent_def split: sum.splits)
  qed
  show ?thesis
  proof (rule tripleI)
    fix st x st'
    assume "wal_at live w n st" "recovery_try (recording s env) action s ctx step st = (Inl x, st')"
    from main [OF this] obtain e where "wal_at live w (n @ [e]) st'" "sent action (w s) e" "\<not> live" "\<not> is_exception x" by auto
    then show "stopped live w s n action x st'" unfolding stopped_def cut_short_def by (intro conjI exI [of _ "[e]"]) simp_all
  qed (use main in fastforce)
qed

lemma stopped_append: "list_all (sent action (w s)) es \<Longrightarrow> stopped live w s (n @ es) action x st \<Longrightarrow> stopped live w s n action x st"
  by (auto simp: stopped_def intro: cut_short_append)

lemma triple_gather_all:
  assumes "\<forall>step\<in>set steps. builder_ok s ctx step" "live \<longrightarrow> env_lives env"
  shows "triple (wal_at live w n) (gather_all (map (recovery_try (recording s env) action s ctx) steps))
    (\<lambda>rs st. \<exists>es. wal_at live w (n @ es) st \<and> to_all action (w s) steps es \<and> rs = map ob_reply es)
    (stopped live w s n action)"
  using assms(1)
proof (induction steps arbitrary: n)
  case Nil
  show ?case by (auto intro!: triple_ret simp: to_all_def)
next
  case (Cons step steps)
  have rest: "triple (wal_at live w (n @ [e]))
      (bindE (gather_all (map (recovery_try (recording s env) action s ctx) steps)) (\<lambda>xs. ret (ob_reply e # xs)))
      (\<lambda>rs st. \<exists>es. wal_at live w (n @ es) st \<and> to_all action (w s) (step # steps) es \<and> rs = map ob_reply es)
      (stopped live w s n action)"
    if e: "sent action (w s) e" "ob_service e = service step" for e
  proof (rule triple_bind [where Q = "\<lambda>rs st. \<exists>es. wal_at live w (n @ e # es) st \<and> to_all action (w s) steps es \<and> rs = map ob_reply es"])
    show "triple (wal_at live w (n @ [e])) (gather_all (map (recovery_try (recording s env) action s ctx) steps))
        (\<lambda>rs st. \<exists>es. wal_at live w (n @ e # es) st \<and> to_all action (w s) steps es \<and> rs = map ob_reply es)
        (stopped live w s n action)"
    proof (rule triple_weaken [OF Cons.IH [of "n @ [e]"]])
      fix x st
      assume "stopped live w s (n @ [e]) action x st"
      then show "stopped live w s n action x st" by (rule stopped_append [rotated]) (simp add: e)
    qed (use Cons.prems in auto)
    show "triple (\<lambda>st. \<exists>es. wal_at live w (n @ e # es) st \<and> to_all action (w s) steps es \<and> xs = map ob_reply es) (ret (ob_reply e # xs))
        (\<lambda>rs st. \<exists>es. wal_at live w (n @ es) st \<and> to_all action (w s) (step # steps) es \<and> rs = map ob_reply es)
        (stopped live w s n action)" for xs
      by (rule triple_ret, elim exE, rule_tac x = "e # es" in exI) (simp add: to_all_def e)
  qed
  show ?case
    unfolding list.map gather_all.simps
  proof (rule triple_bind [OF triple_recovery_try [OF _ assms(2)]])
    fix r
    show "triple (\<lambda>st. \<exists>e. wal_at live w (n @ [e]) st \<and> sent action (w s) e \<and> ob_service e = service step \<and> r = ob_reply e)
        (bindE (gather_all (map (recovery_try (recording s env) action s ctx) steps)) (\<lambda>xs. ret (r # xs)))
        (\<lambda>rs st. \<exists>es. wal_at live w (n @ es) st \<and> to_all action (w s) (step # steps) es \<and> rs = map ob_reply es)
        (stopped live w s n action)"
      by (rule triple_ex, rule triple_pure, use rest in simp)
  qed (use Cons.prems in simp)
qed

lemma triple_recovery_rounds:
  assumes "\<forall>step\<in>set steps. builder_ok s ctx step" "live \<longrightarrow> env_lives env"
  shows "triple (wal_at live w n) (recovery_rounds left (recording s env) action expected s ctx backoff tries steps)
    (\<lambda>(pend, _). rounds_done live w s n action expected left steps pend)
    (stopped live w s n action)"
  using assms(1)
proof (induction left arbitrary: n backoff tries steps)
  case 0
  show ?case by (auto intro!: triple_ret exI [of _ "[]"] simp: rounds_done_def)
next
  case (Suc left)
  let ?Q = "\<lambda>(pend, _). rounds_done live w s n action expected (Suc left) steps pend"
  show ?case
  proof (cases "steps = []")
    case True
    then show ?thesis by (auto intro!: triple_ret exI [of _ "[]"] simp: rounds_done_def)
  next
    case False
    have body: "triple (wal_at live w (n @ es))
        (let still_pending = map fst (filter (\<lambda>(step, result). case result of
            Inl e \<Rightarrow> True | Inr v \<Rightarrow> \<not> dict_has v ''event'' expected) (zip steps (map ob_reply es))) in
         bindE (if still_pending \<noteq> [] then async_sleep (min backoff 60) else ret ()) (\<lambda>_.
         recovery_rounds left (recording s env) action expected s ctx
           (if still_pending \<noteq> [] then backoff * 2 else backoff) (tries + 1) still_pending)) ?Q (stopped live w s n action)"
      if es: "to_all action (w s) steps es" for es
    proof -
      define still where still: "still = map fst (filter (unsettled expected) (zip steps (map ob_reply es)))"
      have eq: "map fst (filter (\<lambda>(step, result). case result of Inl e \<Rightarrow> True | Inr v \<Rightarrow> \<not> dict_has v ''event'' expected)
          (zip steps (map ob_reply es))) = still"
        by (simp add: still unsettled_def)
      have "set still \<subseteq> set steps" using still by (auto dest: set_zip_leftD)
      then have ok: "\<forall>step\<in>set still. builder_ok s ctx step" using Suc.prems by blast
      have all: "list_all (sent action (w s)) es" using es by (simp add: to_all_def)
      show ?thesis
        unfolding Let_def eq
      proof (rule triple_bind [OF calm_triple])
        fix u :: unit
        show "triple (wal_at live w (n @ es)) (recovery_rounds left (recording s env) action expected s ctx
            (if still \<noteq> [] then backoff * 2 else backoff) (tries + 1) still) ?Q (stopped live w s n action)"
          using rounds_done_step [where w = w and s = s, OF es reads_reply still] stopped_append [of action w s es live n, OF all]
          by (intro triple_weaken [OF Suc.IH [OF ok, of "n @ es"]]) auto
      qed simp
    qed
    show ?thesis
      unfolding recovery_rounds.simps if_not_P [OF False]
    proof (rule triple_bind [OF triple_gather_all [OF Suc.prems assms(2)]])
      fix rs
      show "triple (\<lambda>st. \<exists>es. wal_at live w (n @ es) st \<and> to_all action (w s) steps es \<and> rs = map ob_reply es)
          (let still_pending = map fst (filter (\<lambda>(step, result). case result of
              Inl e \<Rightarrow> True | Inr v \<Rightarrow> \<not> dict_has v ''event'' expected) (zip steps rs)) in
           bindE (if still_pending \<noteq> [] then async_sleep (min backoff 60) else ret ()) (\<lambda>_.
           recovery_rounds left (recording s env) action expected s ctx
             (if still_pending \<noteq> [] then backoff * 2 else backoff) (tries + 1) still_pending)) ?Q (stopped live w s n action)"
        by (rule triple_ex, rule triple_pure, use body in simp)
    qed
  qed
qed

section \<open>Finishing a saga\<close>

definition resumed :: "bool \<Rightarrow> (string \<rightharpoonup> string \<times> dict) \<Rightarrow> string \<Rightarrow> obs list \<Rightarrow> string \<Rightarrow> string \<Rightarrow> step_def list \<Rightarrow> obs list proc \<Rightarrow> bool" where
  "resumed live w s n action expected steps st \<longleftrightarrow> (\<exists>qs. wal_at live (w(s := None)) (n @ qs) st \<and>
     list_all (sent action (w s)) qs \<and> settled expected MAX_RECOVERY_RETRIES steps qs)"

definition halted :: "bool \<Rightarrow> (string \<rightharpoonup> string \<times> dict) \<Rightarrow> string \<Rightarrow> obs list \<Rightarrow> string \<Rightarrow> obs list proc \<Rightarrow> bool" where
  "halted live w s n action st \<longleftrightarrow> \<not> live \<and> (\<exists>qs. (wal_at live w (n @ qs) st \<or> wal_at live (w(s := None)) (n @ qs) st) \<and>
     list_all (sent action (w s)) qs)"

lemma triple_resume:
  assumes "redis_server (cl_rc cl)" "\<forall>step\<in>set steps. builder_ok s D step" "live \<longrightarrow> env_lives env" "final \<in> set TERMINAL_STATES"
  shows "triple (wal_at live w n)
    (bindE (recovery_rounds MAX_RECOVERY_RETRIES (recording s env) action expected s D backoff tries steps) (\<lambda>(pending_steps, tries).
     bindE (for_each pending_steps (\<lambda>step. write_to_dlq cl s action (step_name step) why (int tries) ctx)) (\<lambda>_.
     wal_log cl s final None)))
    (\<lambda>_. resumed live w s n action expected steps) (\<lambda>_. halted live w s n action)"
proof (rule triple_seq [OF triple_recovery_rounds [OF assms(2,3)]])
  fix r :: "step_def list \<times> nat"
  obtain pend k where r: "r = (pend, k)" by (cases r)
  have fin: "triple (wal_at live w (n @ qs))
      (bindE (for_each pend (\<lambda>step. write_to_dlq cl s action (step_name step) why (int k) ctx)) (\<lambda>_. wal_log cl s final None))
      (\<lambda>_. resumed live w s n action expected steps) (\<lambda>_. halted live w s n action)"
    if q: "list_all (sent action (w s)) qs" "settled expected MAX_RECOVERY_RETRIES steps qs" for qs
  proof (rule triple_bind [where Q = "\<lambda>_. wal_at live w (n @ qs)"], rule triple_for_each)
    show "triple (wal_at live w (n @ qs)) (write_to_dlq cl s action (step_name step) why (int k) ctx) (\<lambda>_. wal_at live w (n @ qs))
        (\<lambda>_. halted live w s n action)" for step
      by (rule triple_weaken [OF triple_dlq [OF assms(1)]]) auto
    show "triple (wal_at live w (n @ qs)) (wal_log cl s final None) (\<lambda>_. resumed live w s n action expected steps) (\<lambda>_. halted live w s n action)" for u :: unit
    proof (rule triple_weaken [OF triple_wal_finish [OF assms(1,4), of wal_log]])
      fix e and st :: "obs list proc"
      assume "wal_between live w (w(s := None)) (n @ qs) e st"
      then show "halted live w s n action st" unfolding wal_between_def halted_def using q(1) by blast
    qed (use q in \<open>auto simp: resumed_def\<close>)
  qed
  show "triple (case r of (pend, _) \<Rightarrow> rounds_done live w s n action expected MAX_RECOVERY_RETRIES steps pend)
      (case r of (pending_steps, tries) \<Rightarrow>
        bindE (for_each pending_steps (\<lambda>step. write_to_dlq cl s action (step_name step) why (int tries) ctx)) (\<lambda>_. wal_log cl s final None))
      (\<lambda>_. resumed live w s n action expected steps) (\<lambda>_. halted live w s n action)"
    unfolding r prod.case rounds_done_def
    by (rule triple_ex, rule triple_pure, rule fin) (auto simp: settled_def)
qed (auto simp: stopped_def cut_short_def halted_def)

lemma triple_abort_all:
  assumes "redis_server (cl_rc cl)" "tx_def_of defs (PDict D) = Inr (Some tx)" "\<forall>step\<in>set (td_steps tx). builder_ok s D step"
    and "live \<longrightarrow> env_lives env"
  shows "triple (wal_at live w n) (abort_all cl (recording s env) defs s (PDict D))
    (\<lambda>_. resumed live w s n ''abort'' ''aborted'' (td_steps tx)) (\<lambda>_. halted live w s n ''abort'')"
  unfolding abort_all_def assms(2) lift_sum_Inr option.case as_dict.simps
  by (rule triple_resume) (use assms in \<open>auto simp: TERMINAL_STATES_def\<close>)

lemma triple_commit_all:
  assumes "redis_server (cl_rc cl)" "tx_def_of defs (PDict D) = Inr (Some tx)" "\<forall>step\<in>set (td_steps tx). builder_ok s D step"
    and "live \<longrightarrow> env_lives env"
  shows "triple (wal_at live w n) (commit_all cl (recording s env) defs s (PDict D))
    (\<lambda>_. resumed live w s n ''commit'' ''committed'' (td_steps tx)) (\<lambda>_. halted live w s n ''commit'')"
  unfolding commit_all_def assms(2) lift_sum_Inr option.case as_dict.simps
  by (rule triple_resume) (use assms in \<open>auto simp: TERMINAL_STATES_def\<close>)

definition recovery_action :: "string \<Rightarrow> string" where
  "recovery_action lstep = (if lstep = ''COMMITTING'' then ''commit'' else ''abort'')"

definition recovery_event :: "string \<Rightarrow> string" where
  "recovery_event lstep = (if lstep = ''COMMITTING'' then ''committed'' else ''aborted'')"

lemma triple_recover:
  assumes "redis_server (cl_rc cl)" "tx_def_of defs (PDict D) = Inr (Some tx)" "\<forall>step\<in>set (td_steps tx). builder_ok s D step"
    and "live \<longrightarrow> env_lives env" "lstep \<in> {''PREPARING'', ''COMMITTING'', ''ABORTING''}"
  shows "triple (wal_at live w n) (recover_saga cl (recording s env) defs s lstep (PDict D))
    (\<lambda>_. resumed live w s n (recovery_action lstep) (recovery_event lstep) (td_steps tx))
    (\<lambda>_. halted live w s n (recovery_action lstep))"
  using assms(5) triple_abort_all [OF assms(1-4)] triple_commit_all [OF assms(1-4)]
  by (auto simp: recover_saga_def recovery_action_def recovery_event_def)

lemma tx_def_of_tpc: "map_of defs name = Some tx \<Longrightarrow> tx_def_of defs (PDict (tpc_data ctx name)) = Inr (Some tx)"
  by (simp add: tx_def_of_def py_get_def dict_get_def tpc_data_def map_of_dict_merge)

section \<open>A crash and any number of recoveries\<close>

text \<open>
  Each recovery runs in some process, on the database and in the network the previous one left;
  it may be cut short itself.
\<close>

inductive recoveries :: "redis_client \<Rightarrow> env \<Rightarrow> definitions \<Rightarrow> string \<Rightarrow> keyspace \<Rightarrow> obs list \<Rightarrow> keyspace \<Rightarrow> obs list \<Rightarrow> bool"
  for cl env defs s where
  none: "recoveries cl env defs s d n d n"
| again: "recoveries cl env defs s d n d' n' \<Longrightarrow> c_db st = d' \<Longrightarrow> net st = n' \<Longrightarrow> wal_map d' s = Some (lstep, x) \<Longrightarrow>
    recover_saga cl (recording s env) defs s lstep (PDict x) st = (r, st') \<Longrightarrow>
    recoveries cl env defs s d n (c_db st') (net st')"

definition does :: "string \<Rightarrow> obs \<Rightarrow> bool" where
  "does action e \<longleftrightarrow> ob_action e = action"

text \<open>All the messages so far: prepares, then one decision; \<open>w\<close> is what the log says.\<close>

definition decided :: "dict \<Rightarrow> step_def list \<Rightarrow> obs list \<Rightarrow> (string \<times> dict) option \<Rightarrow> bool" where
  "decided D steps es w \<longleftrightarrow> (\<exists>ps qs. es = ps @ qs \<and> to_some ''prepare'' (Some (''PREPARING'', D)) steps ps \<and>
     (list_all (does ''abort'') qs \<and> w \<in> {None, Some (''PREPARING'', D), Some (''ABORTING'', D)} \<or>
      to_all ''prepare'' (Some (''PREPARING'', D)) steps ps \<and> list_all (said ''prepared'') ps \<and>
        list_all (does ''commit'') qs \<and> w \<in> {None, Some (''COMMITTING'', D)}))"

lemma decided_abortI:
  "to_some ''prepare'' (Some (''PREPARING'', D)) steps ps \<Longrightarrow> list_all (does ''abort'') qs \<Longrightarrow>
     w \<in> {None, Some (''PREPARING'', D), Some (''ABORTING'', D)} \<Longrightarrow> decided D steps (ps @ qs) w"
  unfolding decided_def by blast

lemma decided_commitI:
  "to_all ''prepare'' (Some (''PREPARING'', D)) steps ps \<Longrightarrow> list_all (said ''prepared'') ps \<Longrightarrow> list_all (does ''commit'') qs \<Longrightarrow>
     w \<in> {None, Some (''COMMITTING'', D)} \<Longrightarrow> decided D steps (ps @ qs) w"
  unfolding decided_def by (blast intro: to_all_some)

lemma decidedE:
  assumes "decided D steps es w"
  obtains (abort) ps qs where "es = ps @ qs" "to_some ''prepare'' (Some (''PREPARING'', D)) steps ps" "list_all (does ''abort'') qs"
      "w \<in> {None, Some (''PREPARING'', D), Some (''ABORTING'', D)}"
    | (commit) ps qs where "es = ps @ qs" "to_all ''prepare'' (Some (''PREPARING'', D)) steps ps" "list_all (said ''prepared'') ps"
      "list_all (does ''commit'') qs" "w \<in> {None, Some (''COMMITTING'', D)}"
  using assms unfolding decided_def by blast

lemma sent_does: "list_all (sent action w) qs \<Longrightarrow> list_all (does action) qs"
  by (auto simp: list_all_iff sent_def does_def)

lemma filter_two:
  "es = ps @ qs \<Longrightarrow> list_all (does a) ps \<Longrightarrow> list_all (does b) qs \<Longrightarrow> a \<noteq> b \<Longrightarrow> filter (does a) es = ps"
  by (auto simp: list_all_iff does_def filter_empty_conv filter_id_conv)

lemma history_decided: "tpc_history D steps es w \<Longrightarrow> decided D steps es w"
proof -
  assume "tpc_history D steps es w"
  then consider "es = []" "w = None" | "to_some ''prepare'' (Some (''PREPARING'', D)) steps es" "w = Some (''PREPARING'', D)"
    | ps qs where "es = ps @ qs" "commit_history D steps ps qs" "w = Some (''COMMITTING'', D) \<or> w = None"
    | ps qs where "es = ps @ qs" "abort_history D steps ps qs" "w = Some (''ABORTING'', D) \<or> w = None"
    unfolding tpc_history_def by blast
  then show ?thesis
  proof cases
    case 1
    then show ?thesis using decided_abortI [of D steps "[]" "[]" w] by (simp add: to_some_def)
  next
    case 2
    then show ?thesis using decided_abortI [of D steps es "[]" w] by simp
  next
    case 3
    then have "to_all ''prepare'' (Some (''PREPARING'', D)) steps ps" "list_all (said ''prepared'') ps" "list_all (does ''commit'') qs"
      unfolding commit_history_def using sent_does by blast+
    then show ?thesis unfolding 3(1) by (rule decided_commitI) (use 3(3) in blast)
  next
    case 4
    then have "to_some ''prepare'' (Some (''PREPARING'', D)) steps ps" "list_all (does ''abort'') qs"
      unfolding abort_history_def using sent_does to_all_some by blast+
    then show ?thesis unfolding 4(1) by (rule decided_abortI) (use 4(3) in blast)
  qed
qed

lemma decided_step:
  assumes "decided D steps es (Some (lstep, x))" "list_all (sent (recovery_action lstep) w') qs" "w \<in> {Some (lstep, x), None}"
  shows "decided D steps (es @ qs) w"
proof -
  have d: "list_all (does (recovery_action lstep)) qs" using assms(2) by (rule sent_does)
  show ?thesis
    using assms(1)
  proof (cases rule: decidedE)
    case (abort ps qs')
    then have "recovery_action lstep = ''abort''" by (auto simp: recovery_action_def)
    then show ?thesis
      using decided_abortI [OF abort(2), of "qs' @ qs" w] abort d assms(3) by auto
  next
    case (commit ps qs')
    then have "recovery_action lstep = ''commit''" by (auto simp: recovery_action_def)
    then show ?thesis
      using decided_commitI [OF commit(2,3), of "qs' @ qs" w] commit d assms(3) by auto
  qed
qed

lemma recover_run:
  assumes "redis_server (cl_rc cl)" "tx_def_of defs (PDict D) = Inr (Some tx)" "\<forall>step\<in>set (td_steps tx). builder_ok s D step"
    and "wal_inv (c_db st)" "wal_map (c_db st) s = Some (lstep, x)" "decided D (td_steps tx) (net st) (Some (lstep, x))"
    and run: "recover_saga cl (recording s env) defs s lstep (PDict x) st = (r, st')"
  shows "wal_inv (c_db st') \<and> decided D (td_steps tx) (net st') (wal_map (c_db st') s)"
proof -
  let ?w = "wal_map (c_db st)" and ?a = "recovery_action lstep"
  have x: "x = D" "lstep \<in> {''PREPARING'', ''COMMITTING'', ''ABORTING''}"
    using assms(6) unfolding decided_def by auto
  have t: "triple (wal_at False ?w (net st)) (recover_saga cl (recording s env) defs s lstep (PDict x))
      (\<lambda>_. resumed False ?w s (net st) ?a (recovery_event lstep) (td_steps tx)) (\<lambda>_. halted False ?w s (net st) ?a)"
    unfolding x(1) by (rule triple_recover) (use assms x in auto)
  have w: "wal_at False ?w (net st) st" using assms(4) by (simp add: wal_at_def)
  have "\<exists>qs. (wal_at False ?w (net st @ qs) st' \<or> wal_at False (?w(s := None)) (net st @ qs) st') \<and> list_all (sent ?a (?w s)) qs"
    using triple_ret_D [OF t w] triple_raise_D [OF t w] run by (cases r) (auto simp: resumed_def halted_def)
  then obtain qs where q: "wal_inv (c_db st')" "net st' = net st @ qs" "wal_map (c_db st') s \<in> {?w s, None}" "list_all (sent ?a (?w s)) qs"
    by (auto simp: wal_at_def)
  show ?thesis using decided_step [OF assms(6) q(4)] q assms(5) by simp
qed

lemma recoveries_decided:
  assumes "recoveries cl env defs s d n d' n'" "redis_server (cl_rc cl)" "tx_def_of defs (PDict D) = Inr (Some tx)"
    and "\<forall>step\<in>set (td_steps tx). builder_ok s D step" "wal_inv d" "decided D (td_steps tx) n (wal_map d s)"
  shows "wal_inv d' \<and> decided D (td_steps tx) n' (wal_map d' s)"
  using assms
proof (induction rule: recoveries.induct)
  case (again d n d' n' st lstep x r st')
  then show ?case using recover_run [OF again.prems(1-3), of st lstep x env r st'] by simp
qed simp

section \<open>Properties\<close>

text \<open>C5 (safety): Atomicity across crashes. A two-phase-commit run may stop anywhere (a crash, a
  lost database connection, a cancelled task) and recovery may then run any number of times in any
  process, each time cut short or not, against any network and services. Over the whole history the
  saga never sends both a commit and an abort; a commit is only sent when every step voted
  prepared; and every step is asked to prepare at most once.\<close>

theorem crash_recovery_atomic:
  assumes "redis_server (cl_rc cl)" "\<forall>step\<in>set (td_steps tx). builder_ok s ctx step"
    and "\<forall>step\<in>set (td_steps tx). builder_ok s (tpc_data ctx name) step" "map_of defs name = Some tx"
    and "wal_inv (c_db st)" "wal_map (c_db st) s = None" "net st = []"
    and "two_pc_execute cl (recording s env) tx s ctx name st = (r, st1)"
    and "recoveries cl env defs s (c_db st1) (net st1) d es"
  shows "\<not> ((\<exists>e\<in>set es. does ''commit'' e) \<and> (\<exists>e\<in>set es. does ''abort'' e)) \<and>
    ((\<exists>e\<in>set es. does ''commit'' e) \<longrightarrow> (\<forall>step\<in>set (td_steps tx). \<exists>e\<in>set es.
       does ''prepare'' e \<and> ob_service e = service step \<and> said ''prepared'' e)) \<and>
    (\<exists>k. map ob_service (filter (does ''prepare'') es) = take k (map service (td_steps tx)))"
proof -
  let ?D = "tpc_data ctx name"
  have "wal_inv (c_db st1) \<and> decided ?D (td_steps tx) (net st1) (wal_map (c_db st1) s)"
    using two_pc_run [OF assms(1,2,5-8)] history_decided by fastforce
  then have "decided ?D (td_steps tx) es (wal_map d s)"
    using recoveries_decided [OF assms(9,1) tx_def_of_tpc [OF assms(4)] assms(3)] by blast
  then show ?thesis
  proof (cases rule: decidedE)
    case (abort ps qs)
    have a: "list_all (does ''prepare'') ps" using abort(2) by (auto simp: to_some_def dest: sent_does)
    have f: "filter (does ''prepare'') es = ps" by (rule filter_two [OF abort(1) a abort(3)]) simp
    have "\<not> does ''commit'' e" if "e \<in> set es" for e
      using that a abort(1,3) by (auto simp: list_all_iff does_def)
    moreover have "map ob_service ps = take (length ps) (map service (td_steps tx))" using abort(2) by (simp add: to_some_def)
    ultimately show ?thesis using f by blast
  next
    case (commit ps qs)
    have a: "list_all (does ''prepare'') ps" using commit(2) by (auto simp: to_all_def dest: sent_does)
    have f: "filter (does ''prepare'') es = ps" by (rule filter_two [OF commit(1) a commit(4)]) simp
    have ps: "map ob_service ps = map service (td_steps tx)" using commit(2) by (simp add: to_all_def)
    have "\<not> does ''abort'' e" if "e \<in> set es" for e
      using that a commit(1,4) by (auto simp: list_all_iff does_def)
    moreover have "\<exists>e\<in>set es. does ''prepare'' e \<and> ob_service e = service step \<and> said ''prepared'' e" if "step \<in> set (td_steps tx)" for step
    proof -
      have "service step \<in> ob_service ` set ps" using ps that by (metis image_eqI list.set_map)
      then show ?thesis using a commit(1,3) by (auto simp: list_all_iff)
    qed
    moreover have "map ob_service ps = take (length (td_steps tx)) (map service (td_steps tx))" using ps by simp
    ultimately show ?thesis using f by blast
  qed
qed

text \<open>A run killed while it prepares: the payment service never answers.\<close>

definition deadly :: env where
  "deadly h sv a p = (if sv = ''payment'' \<and> a = ''prepare'' then (Inl Exit, 1) else obliging h sv a p)"

theorem crash_recovery_atomic_witness:
  "\<exists>r st1. two_pc_execute mem_client (recording ''s'' deadly) shop_tx ''s'' [] ''checkout'' (fresh_proc []) = (r, st1) \<and>
     \<not> ((\<exists>e\<in>set (net st1). does ''commit'' e) \<and> (\<exists>e\<in>set (net st1). does ''abort'' e))"
proof -
  obtain r st1 where r: "two_pc_execute mem_client (recording ''s'' deadly) shop_tx ''s'' [] ''checkout'' (fresh_proc []) = (r, st1)"
    by (metis surj_pair)
  have rec: "recoveries mem_client deadly [(''checkout'', shop_tx)] ''s'' (c_db st1) (net st1) (c_db st1) (net st1)"
    by (rule recoveries.none)
  have def: "map_of [(''checkout'', shop_tx)] ''checkout'' = Some shop_tx" by simp
  show ?thesis
    using crash_recovery_atomic [OF mem_client_server shop_tx_ok(1) shop_tx_ok(1) def fresh_wal(1) fresh_wal(2) fresh_proc_log(4) r rec] r
    by blast
qed

end
