(* ===== verification/Frames.thy ===== *)
theory Frames
  imports Executor
begin

text \<open>
  Frames: which parts of the state a computation leaves alone, as a property of computations that
  composes like they do.
\<close>

named_theorems frame \<open>computations that leave a view of the state alone\<close>

definition preserves :: "('s \<Rightarrow> 'v) \<Rightarrow> ('e, 's, 'a) eff \<Rightarrow> bool" where
  "preserves view m \<longleftrightarrow> (\<forall>st. view (snd (m st)) = view st)"

lemma preserves_run: "preserves view m \<Longrightarrow> m st = (r, st') \<Longrightarrow> view st' = view st"
  unfolding preserves_def by (metis snd_conv)

lemma preservesI: "(\<And>st r st'. m st = (r, st') \<Longrightarrow> view st' = view st) \<Longrightarrow> preserves view m"
  unfolding preserves_def by (metis prod.collapse)

lemma preserves_pure [frame]: "preserves view (ret x)" "preserves view (throw e)" "preserves view (lift_sum v)" "preserves view get_state"
  by (simp_all add: preserves_def ret_def throw_def lift_sum_def get_state_def)

lemma preserves_bind [frame]:
  assumes "preserves view m" "\<And>x. preserves view (f x)"
  shows "preserves view (bindE m f)"
proof (rule preservesI)
  fix st r st'
  assume run: "bindE m f st = (r, st')"
  obtain q st1 where m: "m st = (q, st1)" by (cases "m st")
  then show "view st' = view st"
    using run preserves_run [OF assms(1) m] preserves_run [OF assms(2)] by (cases q) (auto simp: bindE_def)
qed

lemma preserves_try [frame]:
  assumes "preserves view m" "\<And>e k. h e = Some k \<Longrightarrow> preserves view k"
  shows "preserves view (try_except m h)"
proof (rule preservesI)
  fix st r st'
  assume run: "try_except m h st = (r, st')"
  obtain q st1 where m: "m st = (q, st1)" by (cases "m st")
  then show "view st' = view st"
    using run preserves_run [OF assms(1) m] preserves_run [OF assms(2)]
    by (cases q) (auto simp: try_except_def split: option.splits)
qed

lemma preserves_attempt [frame]: "preserves view m \<Longrightarrow> preserves view (attempt m)"
  by (auto simp: preserves_def attempt_def split: prod.splits) (metis snd_conv)

lemma preserves_if [frame]: "preserves view m \<Longrightarrow> preserves view k \<Longrightarrow> preserves view (if b then m else k)"
  by simp

lemma preserves_modify: "(\<And>st. view (f st) = view st) \<Longrightarrow> preserves view (modify f)"
  by (simp add: preserves_def modify_def)

lemma preserves_for_each [frame]: "(\<And>x. preserves view (f x)) \<Longrightarrow> preserves view (for_each xs f)"
  by (induction xs) (auto intro: frame)

lemma preserves_fold_each [frame]: "(\<And>x acc. preserves view (f x acc)) \<Longrightarrow> preserves view (fold_each f xs acc)"
  by (induction xs arbitrary: acc) (auto intro: frame)

lemma preserves_gather [frame]: "(\<And>m. m \<in> set ms \<Longrightarrow> preserves view m) \<Longrightarrow> preserves view (gather ms)"
proof (induction ms)
  case (Cons m ms)
  show ?case
  proof (rule preservesI)
    fix st r st'
    assume run: "gather (m # ms) st = (r, st')"
    obtain q st1 where m: "m st = (q, st1)" by (cases "m st")
    have v: "view st1 = view st" using Cons.prems m preserves_run by (metis list.set_intros(1))
    have p: "preserves view (bindE (gather ms) (\<lambda>rs. ret (q # rs)))" using Cons by (auto intro!: frame)
    have "st' = st1 \<or> bindE (gather ms) (\<lambda>rs. ret (q # rs)) st1 = (r, st')"
      using run m by (cases q) (auto split: exn.splits)
    then show "view st' = view st" using v preserves_run [OF p] by auto
  qed
qed (simp add: preserves_pure)

section \<open>The process and its parts\<close>

text \<open>A view of the process that does not look at the connection.\<close>

definition off_line :: "('n proc \<Rightarrow> 'v) \<Rightarrow> bool" where
  "off_line view \<longleftrightarrow> (\<forall>st d ts c. view (st\<lparr>c_db := d, c_trips := ts, c_clock := c\<rparr>) = view st)"

lemma off_line_views [simp]: "off_line net" "off_line circuit_breakers" "off_line collector" "off_line boot_time"
  by (simp_all add: off_line_def)

lemma off_lineD:
  assumes "off_line view"
  shows "view (st\<lparr>c_db := d\<rparr>) = view st" "view (st\<lparr>c_trips := ts, c_clock := c\<rparr>) = view st" "view (st\<lparr>c_clock := c\<rparr>) = view st"
    "view (after_trip st) = view st"
  using assms [unfolded off_line_def, rule_format, where st = st and d = d and ts = "c_trips st" and c = "c_clock st"]
    assms [unfolded off_line_def, rule_format, where st = st and d = "c_db st" and ts = ts and c = c]
    assms [unfolded off_line_def, rule_format, where st = st and d = "c_db st" and ts = "c_trips st" and c = c]
    assms [unfolded off_line_def, rule_format, where st = st and d = "c_db st" and ts = "tl (c_trips st)"
      and c = "c_clock st + t_took (next_trip (c_trips st))"]
  by (simp_all add: after_trip_def)

lemma preserves_connection [frame]:
  assumes "off_line view"
  shows "preserves view (redis_call cl sc)" "preserves view (pipeline cl tx cs)" "preserves view (async_sleep d)"
    "preserves view wall_time" "preserves view monotonic"
  using assms
  by (auto simp: preserves_def redis_call_def pipeline_def async_sleep_def wall_time_def monotonic_def off_lineD Let_def
      split: fate.splits nat.splits sum.splits prod.splits)

lemma preserves_wal [frame]:
  assumes "off_line view"
  shows "preserves view (wal_log cl s step data)" "preserves view (wal_log_terminal cl s step data)"
    "preserves view (write_to_dlq cl s action name reason n context)"
  using assms by (auto simp: wal_log_def wal_log_terminal_def write_to_dlq_def Let_def split: if_splits intro!: frame)

text \<open>The breakers change only their own part, and the executors what their messages and breakers do.\<close>

definition off_breakers :: "('n proc \<Rightarrow> 'v) \<Rightarrow> bool" where
  "off_breakers view \<longleftrightarrow> (\<forall>st bs. view (st\<lparr>circuit_breakers := bs\<rparr>) = view st)"

lemma off_breakers_views [simp]: "off_breakers net" "off_breakers collector" "off_breakers boot_time"
  by (simp_all add: off_breakers_def)

lemma preserves_breakers [frame]:
  assumes "off_breakers view"
  shows "preserves view (breaker_failure sv)" "preserves view (breaker_success sv)" "preserves view (breaker_is_open sv)"
  using assms
  by (auto simp: preserves_def breaker_failure_def breaker_success_def breaker_is_open_def set_breaker_def off_breakers_def
      split: option.splits prod.splits)

lemma preserves_check [frame]: "off_breakers view \<Longrightarrow> preserves view (check_circuit_breakers steps)"
  by (induction steps) (auto intro!: frame)

lemma preserves_vote [frame]: "off_breakers view \<Longrightarrow> preserves view (record_vote v)"
  by (cases v) (auto simp: record_vote_def intro!: frame)

lemma preserves_settle [frame]: "off_breakers view \<Longrightarrow> preserves view (settle ev p acc)"
  by (cases p) (auto simp: settle_def intro!: frame split: sum.split)

lemma preserves_verdict [frame]: "off_breakers view \<Longrightarrow> preserves view (saga_verdict p acc)"
  by (cases p; cases acc) (auto simp: saga_verdict_def intro!: frame)

definition quiet :: "('n proc \<Rightarrow> 'v) \<Rightarrow> 'n transport \<Rightarrow> bool" where
  "quiet view tr \<longleftrightarrow> (\<forall>sv action payload timeout. preserves view (tr sv action payload timeout))"

lemma preserves_try_step [frame]: "quiet view tr \<Longrightarrow> preserves view (try_step tr step s action ctx)"
  by (auto simp: try_step_def quiet_def intro!: frame split: if_splits)

text \<open>What the executors do to the database and the clock, besides their messages.\<close>

definition logging :: "('n proc \<Rightarrow> 'v) \<Rightarrow> redis_client \<Rightarrow> string \<Rightarrow> bool" where
  "logging view cl s \<longleftrightarrow> (\<forall>step data. preserves view (wal_log cl s step data) \<and> preserves view (wal_log_terminal cl s step data)) \<and>
     (\<forall>action name reason n context. preserves view (write_to_dlq cl s action name reason n context)) \<and>
     (\<forall>d. preserves view (async_sleep d))"

lemma logging_off_line [frame]: "off_line view \<Longrightarrow> logging view cl s"
  by (auto simp: logging_def intro: frame)

lemma logging_parts:
  assumes "logging view cl s"
  shows "preserves view (wal_log cl s step data)" "preserves view (wal_log_terminal cl s step data)"
    "preserves view (write_to_dlq cl s action name reason n context)" "preserves view (async_sleep d)"
  using assms by (auto simp: logging_def)

lemmas frame_rules = preserves_pure preserves_bind preserves_try preserves_if preserves_for_each preserves_fold_each
  preserves_gather preserves_breakers preserves_check preserves_vote preserves_settle preserves_verdict preserves_try_step

lemma preserves_rounds:
  assumes "logging view cl s" "off_breakers view" "quiet view tr"
  shows "preserves view (verified_rounds left tr action ev s ctx b n ss)"
proof (induction left arbitrary: b n ss)
  case (Suc left)
  then show ?case using assms logging_parts(4) [OF assms(1)] by (auto intro!: frame_rules)
qed (simp add: frame)

lemma preserves_executors [frame]:
  assumes "logging view cl s" "off_breakers view" "quiet view tr"
  shows "preserves view (verified_action cl tr action ev s ss ctx)"
    "preserves view (two_pc_execute cl tr tx s ctx name)" "preserves view (saga_execute cl tr tx s ctx name)"
proof -
  have b: "preserves view (broadcast tr action s ss ctx)" for action ss
    using assms by (auto simp: broadcast_def intro!: frame_rules)
  show v: "preserves view (verified_action cl tr action ev s ss ctx)" for action ev ss
    using assms logging_parts [OF assms(1)] preserves_rounds [OF assms]
    by (auto simp: verified_action_def intro!: frame_rules split: prod.split)
  show "preserves view (two_pc_execute cl tr tx s ctx name)"
    unfolding two_pc_execute_def using assms b v logging_parts [OF assms(1)] by (auto intro!: frame_rules split: option.split)
  show "preserves view (saga_execute cl tr tx s ctx name)"
    unfolding saga_execute_def using assms b v logging_parts [OF assms(1)] by (auto intro!: frame_rules split: option.split prod.split)
qed

end
