(* ===== verification/Traces.thy ===== *)
theory Traces
  imports Network Frames
begin

text \<open>
  What a computation over the recording transport appends to the list of messages: rules that follow
  the structure of the executors and of recovery, for any relation between the messages so far and
  the next one.
\<close>

named_theorems trace \<open>computations that only append messages of a given kind\<close>

section \<open>Growing histories\<close>

type_synonym growth = "obs list \<Rightarrow> obs \<Rightarrow> bool"

inductive grows :: "growth \<Rightarrow> obs list \<Rightarrow> obs list \<Rightarrow> bool" for R where
  same: "grows R h h"
| send: "grows R h h1 \<Longrightarrow> R h1 e \<Longrightarrow> grows R h (h1 @ [e])"

lemma grows_trans: "grows R h1 h2 \<Longrightarrow> grows R h h1 \<Longrightarrow> grows R h h2"
  by (induction rule: grows.induct) (auto intro: grows.intros)

lemma grows_mono: "grows R h h' \<Longrightarrow> (\<And>h e. R h e \<Longrightarrow> R' h e) \<Longrightarrow> grows R' h h'"
  by (induction rule: grows.induct) (auto intro: grows.intros)

lemma grows_nth:
  assumes "grows R [] h" "i < length h"
  shows "R (take i h) (h ! i)"
  using assms
proof (induction "[] :: obs list" h rule: grows.induct)
  case (send h1 e)
  then show ?case by (cases "i = length h1") (auto simp: nth_append)
qed simp

lemma grows_member: "grows R [] h \<Longrightarrow> e \<in> set h \<Longrightarrow> \<exists>i<length h. e = h ! i \<and> R (take i h) e"
  using grows_nth by (metis in_set_conv_nth)

definition sends :: "growth \<Rightarrow> (obs list proc, 'a) py \<Rightarrow> bool" where
  "sends R m \<longleftrightarrow> (\<forall>st. grows R (net st) (net (snd (m st))))"

lemma sends_run: "sends R m \<Longrightarrow> m st = (r, st') \<Longrightarrow> grows R (net st) (net st')"
  unfolding sends_def by (metis snd_conv)

lemma sendsI: "(\<And>st r st'. m st = (r, st') \<Longrightarrow> grows R (net st) (net st')) \<Longrightarrow> sends R m"
  unfolding sends_def by (metis prod.collapse)

lemma sends_quiet: "preserves net m \<Longrightarrow> sends R m"
  unfolding sends_def preserves_def by (simp add: grows.same)

section \<open>Rules\<close>

lemma sends_bind [trace]:
  assumes "sends R m" "\<And>x. sends R (f x)"
  shows "sends R (bindE m f)"
proof (rule sendsI)
  fix st r st'
  assume run: "bindE m f st = (r, st')"
  obtain q st1 where m: "m st = (q, st1)" by (cases "m st")
  have 1: "grows R (net st) (net st1)" by (rule sends_run [OF assms(1) m])
  have "st' = st1 \<or> (\<exists>x. f x st1 = (r, st'))" using run m by (cases q) (auto simp: bindE_def)
  then show "grows R (net st) (net st')" using 1 sends_run [OF assms(2)] grows_trans by blast
qed

lemma sends_try [trace]:
  assumes "sends R m" "\<And>e k. h e = Some k \<Longrightarrow> sends R k"
  shows "sends R (try_except m h)"
proof (rule sendsI)
  fix st r st'
  assume run: "try_except m h st = (r, st')"
  obtain q st1 where m: "m st = (q, st1)" by (cases "m st")
  have 1: "grows R (net st) (net st1)" by (rule sends_run [OF assms(1) m])
  have "st' = st1 \<or> (\<exists>e k. h e = Some k \<and> k st1 = (r, st'))"
    using run m by (cases q) (auto simp: try_except_def split: option.splits)
  then show "grows R (net st) (net st')" using 1 sends_run [OF assms(2)] grows_trans by blast
qed

lemma sends_bind_result:
  assumes "sends R m" "\<And>st x st'. m st = (Inr x, st') \<Longrightarrow> sends R (f x)"
  shows "sends R (bindE m f)"
proof (rule sendsI)
  fix st r st'
  assume run: "bindE m f st = (r, st')"
  obtain q st1 where m: "m st = (q, st1)" by (cases "m st")
  have 1: "grows R (net st) (net st1)" by (rule sends_run [OF assms(1) m])
  show "grows R (net st) (net st')"
  proof (cases q)
    case (Inl e)
    then show ?thesis using run m 1 by (simp add: bindE_def)
  next
    case (Inr x)
    then have "f x st1 = (r, st')" using run m by (simp add: bindE_def)
    from sends_run [OF assms(2) this] show ?thesis using 1 grows_trans m Inr by blast
  qed
qed

lemma sends_pure [trace]: "sends R (ret x)" "sends R (throw e)" "sends R (lift_sum v)" "sends R get_state"
  by (simp_all add: sends_quiet preserves_pure)

lemma sends_bind_sum:
  assumes "\<And>x. v = Inr x \<Longrightarrow> sends R (f x)"
  shows "sends R (bindE (lift_sum v) f)"
  using assms by (cases v) (simp_all add: sends_def bindE_def lift_sum_def grows.same)

lemma sends_if [trace]: "sends R m \<Longrightarrow> sends R k \<Longrightarrow> sends R (if b then m else k)"
  by simp

lemma sends_for_each [trace]: "(\<And>x. x \<in> set xs \<Longrightarrow> sends R (f x)) \<Longrightarrow> sends R (for_each xs f)"
  by (induction xs) (auto intro: trace)

lemma sends_fold_each [trace]: "(\<And>x acc. sends R (f x acc)) \<Longrightarrow> sends R (fold_each f xs acc)"
  by (induction xs arbitrary: acc) (auto intro: trace)

lemma sends_gather [trace]: "(\<And>m. m \<in> set ms \<Longrightarrow> sends R m) \<Longrightarrow> sends R (gather ms)"
proof (induction ms)
  case (Cons m ms)
  show ?case
  proof (rule sendsI)
    fix st r st'
    assume run: "gather (m # ms) st = (r, st')"
    obtain q st1 where m: "m st = (q, st1)" by (cases "m st")
    have v: "grows R (net st) (net st1)" using Cons.prems m sends_run by (metis list.set_intros(1))
    have p: "sends R (bindE (gather ms) (\<lambda>rs. ret (q # rs)))" using Cons by (auto intro!: trace)
    have "st' = st1 \<or> bindE (gather ms) (\<lambda>rs. ret (q # rs)) st1 = (r, st')"
      using run m by (cases q) (auto split: exn.splits)
    then show "grows R (net st) (net st')" using v sends_run [OF p] grows_trans by blast
  qed
qed (simp add: sends_pure)

lemma sends_gather_all [trace]: "(\<And>m. m \<in> set ms \<Longrightarrow> sends R m) \<Longrightarrow> sends R (gather_all ms)"
  by (induction ms) (auto intro!: trace)

text \<open>The parts of the process that send nothing.\<close>

lemma sends_connection [trace]:
  "sends R (redis_call cl sc)" "sends R (pipeline cl tx cs)" "sends R (async_sleep d)" "sends R wall_time" "sends R monotonic"
  "sends R (wal_log cl s step data)" "sends R (wal_log_terminal cl s step data)"
  "sends R (write_to_dlq cl s action name reason n context)"
  by (rule sends_quiet, rule frame, rule off_line_views)+

lemma sends_breakers [trace]:
  "sends R (breaker_failure sv)" "sends R (breaker_success sv)" "sends R (check_circuit_breakers steps)"
  "sends R (record_vote v)" "sends R (settle ev p acc)" "sends R (saga_verdict q acc')"
  by (rule sends_quiet, rule frame, rule off_breakers_views)+

section \<open>Messages of a transaction\<close>

text \<open>
  \<open>asks_step R s steps ctx action\<close>: every message of this action the transaction makes, by the executors or by
  recovery, with any reply of the environment.
\<close>

definition reply_of :: "env \<Rightarrow> obs list \<Rightarrow> obs \<Rightarrow> bool" where
  "reply_of env h e \<longleftrightarrow> ob_reply e = fst (env h (ob_service e) (ob_action e) (ob_payload e))"

definition made_by :: "string \<Rightarrow> dict \<Rightarrow> step_def list \<Rightarrow> string \<Rightarrow> obs \<Rightarrow> bool" where
  "made_by s ctx steps action e \<longleftrightarrow> ob_action e = action \<and> (\<exists>step\<in>set steps. ob_service e = service step \<and>
     (build_payload [(''saga_id'', Str s)] step s action ctx = Inr (ob_payload e) \<or>
      build_payload [(''saga_id'', Str s), (''action'', Str action)] step s action ctx = Inr (ob_payload e)))"

definition making :: "env \<Rightarrow> string \<Rightarrow> dict set \<Rightarrow> step_def list \<Rightarrow> string set \<Rightarrow> growth" where
  "making env s ctxs steps actions h e \<longleftrightarrow> reply_of env h e \<and> (\<exists>ctx\<in>ctxs. \<exists>action\<in>actions. made_by s ctx steps action e)"

lemma sends_recording:
  assumes "\<And>(st :: obs list proc) e. ob_service e = sv \<Longrightarrow> ob_action e = action \<Longrightarrow> ob_payload e = payload \<Longrightarrow> reply_of env (net st) e \<Longrightarrow> R (net st) e"
  shows "sends R (recording s env sv action payload t)"
proof (rule sendsI)
  fix st r st'
  assume run: "recording s env sv action payload t st = (r, st')"
  obtain q took where q: "env (net st) sv action payload = (q, took)" by (cases "env (net st) sv action payload")
  let ?e = "\<lparr>ob_service = sv, ob_action = action, ob_payload = payload, ob_wal = wal_map (c_db st) s, ob_reply = q\<rparr>"
  have "net st' = net st @ [?e]" using run q by (auto simp: recording_def)
  moreover have "R (net st) ?e" by (rule assms [of ?e st]) (simp_all add: reply_of_def q)
  ultimately show "grows R (net st) (net st')" by (simp add: grows.intros)
qed

lemma sends_try_step:
  assumes "step \<in> set steps" "ctx \<in> ctxs" "action \<in> actions"
  shows "sends (making env s ctxs steps actions) (try_step (recording s env) step s action ctx)"
  unfolding try_step_def
  by (rule sends_bind_sum, rule sends_try [OF sends_recording])
    (use assms in \<open>auto simp: making_def made_by_def intro: trace split: if_splits\<close>)

lemma sends_recovery_try:
  assumes "step \<in> set steps" "ctx \<in> ctxs" "action \<in> actions"
  shows "sends (making env s ctxs steps actions) (recovery_try (recording s env) action s ctx step)"
proof -
  have "sends (making env s ctxs steps actions) (recovery_send (recording s env) action s ctx step)"
    unfolding recovery_send_def
    by (rule sends_bind_sum, rule sends_recording) (use assms in \<open>auto simp: making_def made_by_def\<close>)
  then show ?thesis by (auto simp: recovery_try_def intro!: trace split: if_splits)
qed

lemma settle_result: "settle ev p acc st = (Inr still, st') \<Longrightarrow> set still \<subseteq> set acc \<union> {fst p}"
  by (cases p) (auto simp: settle_def bindE_def ret_def split: sum.splits if_splits prod.splits)

lemma settled_result:
  "fold_each (settle ev) ps acc st = (Inr still, st') \<Longrightarrow> set still \<subseteq> set acc \<union> fst ` set ps"
proof (induction ps arbitrary: acc st)
  case (Cons p ps)
  obtain q st1 where q: "settle ev p acc st = (q, st1)" by (cases "settle ev p acc st")
  with Cons.prems obtain acc1 where acc1: "q = Inr acc1" "fold_each (settle ev) ps acc1 st1 = (Inr still, st')"
    by (cases q) (auto simp: bindE_def)
  show ?case using Cons.IH [OF acc1(2)] settle_result [OF q [unfolded acc1(1)]] by auto
qed (simp add: ret_def)

lemma sends_verified_rounds:
  assumes "set pending \<subseteq> set steps" "ctx \<in> ctxs" "action \<in> actions"
  shows "sends (making env s ctxs steps actions) (verified_rounds left (recording s env) action ev s ctx b n pending)"
  using assms(1)
proof (induction left arbitrary: b n pending)
  case (Suc left)
  let ?R = "making env s ctxs steps actions"
  have g: "sends ?R (gather (map (\<lambda>step. try_step (recording s env) step s action ctx) pending))"
    using Suc.prems assms(2,3) by (intro sends_gather) (auto intro: sends_try_step)
  have f: "sends ?R (fold_each (settle ev) (zip pending results) [])" for results by (intro trace)
  have "sends ?R (verified_rounds left (recording s env) action ev s ctx b' n' still)"
    if "fold_each (settle ev) (zip pending results) [] st = (Inr still, st')" for results st still st' b' n'
    by (rule Suc.IH) (use settled_result [OF that] Suc.prems in \<open>fastforce dest: set_zip_leftD\<close>)
  then have rest: "sends ?R (bindE (fold_each (settle ev) (zip pending results) []) (\<lambda>still.
      bindE (if still \<noteq> [] then async_sleep (min b 5) else ret ()) (\<lambda>_.
      verified_rounds left (recording s env) action ev s ctx (if still \<noteq> [] then b * 2 else b) (n + 1) still)))" for results
    by (intro sends_bind_result [OF f] sends_bind sends_if trace)
  show ?case unfolding verified_rounds.simps by (intro sends_if sends_pure sends_bind [OF g] rest)
qed (simp add: trace)

lemma sends_recovery_rounds:
  assumes "set pending \<subseteq> set steps" "ctx \<in> ctxs" "action \<in> actions"
  shows "sends (making env s ctxs steps actions) (recovery_rounds left (recording s env) action ev s ctx b n pending)"
  using assms(1)
proof (induction left arbitrary: b n pending)
  case (Suc left)
  let ?R = "making env s ctxs steps actions"
  have g: "sends ?R (gather_all (map (recovery_try (recording s env) action s ctx) pending))"
    using Suc.prems assms(2,3) by (intro sends_gather_all) (auto intro: sends_recovery_try)
  have "sends ?R (recovery_rounds left (recording s env) action ev s ctx b' n' (map fst (filter P (zip pending results))))"
    for P and results :: "(exn + pyval) list" and b' n'
    using Suc.prems by (intro Suc.IH) (auto dest: set_zip_leftD)
  then show ?case by (auto simp: Let_def intro!: sends_bind [OF g] sends_bind trace)
qed (simp add: trace)

section \<open>The executors and recovery\<close>

lemma sends_broadcast:
  assumes "ctx \<in> ctxs" "action \<in> actions"
  shows "sends (making env s ctxs steps actions) (broadcast (recording s env) action s steps ctx)"
  unfolding broadcast_def using assms by (auto intro!: trace sends_try_step)

lemma sends_verified:
  assumes "set pending \<subseteq> set steps" "ctx \<in> ctxs" "action \<in> actions"
  shows "sends (making env s ctxs steps actions) (verified_action cl (recording s env) action ev s pending ctx)"
  unfolding verified_action_def using assms by (auto intro!: trace sends_verified_rounds split: prod.split)

lemma sends_two_pc:
  assumes "{''prepare'', ''commit'', ''abort''} \<subseteq> actions"
  shows "sends (making env s {ctx} (td_steps tx) actions) (two_pc_execute cl (recording s env) tx s ctx name)"
  unfolding two_pc_execute_def using assms
  by (auto intro!: trace sends_broadcast sends_verified split: option.split)

lemma sends_abort_commit:
  assumes "tx_def_of defs (PDict ctx) = Inr (Some tx)"
  shows "''abort'' \<in> actions \<Longrightarrow> sends (making env s {ctx} (td_steps tx) actions) (abort_all cl (recording s env) defs s (PDict ctx))"
    "''commit'' \<in> actions \<Longrightarrow> sends (making env s {ctx} (td_steps tx) actions) (commit_all cl (recording s env) defs s (PDict ctx))"
  unfolding abort_all_def commit_all_def using assms
  by (auto intro!: trace sends_recovery_rounds split: prod.split)

end
