(* ===== verification/OrderScripts.thy ===== *)
theory OrderScripts
  imports Redis Python
begin

text \<open>
  The scripts the order service loads, \<open>lua/order_add_item.lua\<close> and \<open>lua/order_load_and_claim.lua\<close>,
  the keys of the order database they work on, and what they do to it.
\<close>

section \<open>Keys\<close>

definition order_key :: "string \<Rightarrow> string" where
  "order_key order_id = ''order:'' @ order_id"

definition items_key :: "string \<Rightarrow> string" where
  "items_key order_id = ''order:'' @ order_id @ '':items''"

definition idempotency_key :: "string \<Rightarrow> string" where
  "idempotency_key order_id = ''idempotency:checkout:'' @ order_id"

section \<open>The scripts\<close>

definition order_add_item :: "redis \<Rightarrow> string list \<Rightarrow> string list \<Rightarrow> int script" where
  "order_add_item rc KEYS ARGV =
    bindE (lua_at KEYS 1) (\<lambda>items. bindE (lua_at KEYS 2) (\<lambda>order.
    bindE (lua_at ARGV 1) (\<lambda>entry. bindE (lua_at ARGV 2) (\<lambda>c.
    bindE (rc (EXISTS order)) (\<lambda>exists.
    if exists = Num 0 then throw (ErrReply ''ORDER_NOT_FOUND'')
    else bindE (act rc (RPUSH items [Text entry])) (\<lambda>_.
      bindE (number c) (\<lambda>cost.
      bindE (act rc (HINCRBY order ''total_cost'' cost)) (\<lambda>_. ret 1)))))))) "

text \<open>
  The reply \<open>{found, entry_flat_json, items_json, acquired}\<close>. \<open>cjson.encode\<close> writes an empty table
  as an object, \<open>pcall(cjson.decode, ..)\<close> never fails the script.
\<close>

record claim_reply =
  found :: int
  entry_flat_json :: rtext
  items_json :: rtext
  acquired :: int

definition cjson_encode :: "rtext list \<Rightarrow> rtext" where
  "cjson_encode ts = (if ts = [] then Json (PDict []) else Json (PList (map PStr ts)))"

definition claimable :: "rtext \<Rightarrow> bool" where
  "claimable existing \<longleftrightarrow> (case json_loads existing of Inr v \<Rightarrow> dict_has v ''status'' ''failed'' | Inl _ \<Rightarrow> False)"

definition arr_of :: "reply \<Rightarrow> rtext list" where
  "arr_of r = (case r of Arr l \<Rightarrow> l | _ \<Rightarrow> [])"

definition order_load_and_claim :: "redis \<Rightarrow> string list \<Rightarrow> rtext \<Rightarrow> string \<Rightarrow> claim_reply script" where
  "order_load_and_claim rc KEYS claim_value ttl_arg =
    bindE (lua_at KEYS 1) (\<lambda>order. bindE (lua_at KEYS 2) (\<lambda>items. bindE (lua_at KEYS 3) (\<lambda>idempotency.
    bindE (number ttl_arg) (\<lambda>ttl.
    bindE (rc (HGETALL order)) (\<lambda>entry.
    if arr_of entry = [] then ret \<lparr>found = 0, entry_flat_json = Text [], items_json = Json (PList []), acquired = 0\<rparr>
    else bindE (rc (LRANGE_ALL items)) (\<lambda>raw_items.
      bindE (rc (GET idempotency)) (\<lambda>existing.
      bindE (case existing of
          Bulk t \<Rightarrow> if claimable t then bindE (act rc (SET idempotency claim_value False (Some ttl))) (\<lambda>_. ret 1) else ret 0
        | _ \<Rightarrow> bindE (act rc (SET idempotency claim_value False (Some ttl))) (\<lambda>_. ret 1)) (\<lambda>acq.
      ret \<lparr>found = 1, entry_flat_json = cjson_encode (arr_of entry), items_json = cjson_encode (arr_of raw_items),
           acquired = acq\<rparr>)))))))) "

section \<open>What they do\<close>

lemma order_keys [simp]:
  "order_key o' = order_key o'' \<longleftrightarrow> o' = o''" "items_key o' = items_key o'' \<longleftrightarrow> o' = o''"
  "idempotency_key o' = idempotency_key o'' \<longleftrightarrow> o' = o''"
  "idempotency_key o' \<noteq> order_key o''" "order_key o'' \<noteq> idempotency_key o'"
  "idempotency_key o' \<noteq> items_key o''" "items_key o'' \<noteq> idempotency_key o'"
  by (simp_all add: order_key_def items_key_def idempotency_key_def)

text \<open>Order ids are UUIDs or numbers; a colon in one could make an order's key another order's item list.\<close>

lemma order_items_keys [simp]:
  assumes "CHR '':'' \<notin> set o'"
  shows "order_key o' \<noteq> items_key o''" "items_key o'' \<noteq> order_key o'"
proof -
  show "order_key o' \<noteq> items_key o''"
  proof
    assume "order_key o' = items_key o''"
    then have "o' = o'' @ '':items''" by (simp add: order_key_def items_key_def)
    then show False using assms by simp
  qed
  then show "items_key o'' \<noteq> order_key o'" by metis
qed

context redis_server begin

lemma add_item_law:
  assumes "CHR '':'' \<notin> set o'" "counter d (order_key o') ''total_cost'' = Some t" "list_of d (items_key o') = Some l"
    and "in64 c" "in64 (t + c)"
  shows "order_add_item rc [items_key o', order_key o'] [entry, show_int c] d =
    (Inr 1, put_fields (order_key o') [(''total_cost'', Text (show_int (t + c)))] (put (items_key o') (RList (l @ [Text entry])) d))"
proof -
  let ?d = "put (items_key o') (RList (l @ [Text entry])) d"
  obtain h where h: "hash_of d (order_key o') = Some h" "map_of h ''total_cost'' \<noteq> None" using counter_hash [OF assms(2)] by blast
  then have "entries d (order_key o') \<noteq> None" by (auto simp: hash_of_def split: option.splits)
  moreover have "counter ?d (order_key o') ''total_cost'' = Some t" using assms(1,2) by simp
  note hincrby_act [OF this assms(5)]
  ultimately show ?thesis
    using assms(3,4) by (auto simp: order_add_item_def lua_at_def exists bindE_def ret_def act_def rpush)
qed

lemma add_item_missing:
  assumes "entries d (order_key o') = None"
  shows "order_add_item rc [items_key o', order_key o'] [entry, c] d = (Inl (ErrReply ''ORDER_NOT_FOUND''), d)"
  using assms by (simp add: order_add_item_def lua_at_def exists bindE_def ret_def throw_def)

lemma claim_law:
  "order_load_and_claim rc [order_key o', items_key o', idempotency_key o'] claim ''300'' d =
    (case hash_of d (order_key o') of None \<Rightarrow> (Inl WrongType, d)
     | Some h \<Rightarrow> if h = [] then (Inr \<lparr>found = 0, entry_flat_json = Text [], items_json = Json (PList []), acquired = 0\<rparr>, d)
       else (case list_of d (items_key o') of None \<Rightarrow> (Inl WrongType, d)
         | Some l \<Rightarrow> (case text_of d (idempotency_key o') of None \<Rightarrow> (Inl WrongType, d)
             | Some t \<Rightarrow> (let free = (case t of None \<Rightarrow> True | Some v \<Rightarrow> claimable v) in
                 (Inr \<lparr>found = 1, entry_flat_json = cjson_encode (flat h), items_json = cjson_encode l, acquired = (if free then 1 else 0)\<rparr>,
                  if free then set_ttl (idempotency_key o') (Some 300) (put (idempotency_key o') (RStr claim) d) else d)))))"
proof -
  have n: "number ''300'' = ret 300" by (simp add: number_def counter_text_def parse_int_def parse_nat_def digit_value_def in64_def)
  have f: "flat h = [] \<longleftrightarrow> h = []" for h by (cases h) (auto simp: flat_def)
  show ?thesis
    by (auto simp: order_load_and_claim_def lua_at_def n bindE_def ret_def hgetall arr_of_def f lrange_all get bulk_def act_def
        set_ex Let_def split: option.split)
qed

end

section \<open>Claims\<close>

text \<open>Several requests claim the checkout of one order, one after the other.\<close>

fun claim_all :: "redis \<Rightarrow> string \<Rightarrow> rtext list \<Rightarrow> keyspace \<Rightarrow> int list" where
  "claim_all rc order_id [] d = []"
| "claim_all rc order_id (v # vs) d =
     (case order_load_and_claim rc [order_key order_id, items_key order_id, idempotency_key order_id] v ''300'' d of
        (Inr r, d') \<Rightarrow> acquired r # claim_all rc order_id vs d'
      | (Inl e, d') \<Rightarrow> claim_all rc order_id vs d')"

definition claim_value :: "string \<Rightarrow> rtext" where
  "claim_value saga_id = json_dumps (PDict [(''status'', Str ''processing''), (''saga_id'', Str saga_id)])"

lemma claim_value_busy [simp]: "\<not> claimable (claim_value s)"
  by (simp add: claimable_def claim_value_def dict_has_def dict_get_def)

lemma claim_all_busy:
  assumes "redis_server rc" "text_of d (idempotency_key o') = Some (Some t)" "\<not> claimable t"
  shows "\<forall>a\<in>set (claim_all rc o' vs d). a = 0"
  using assms(2)
proof (induction vs)
  case (Cons v vs)
  then show ?case using assms(3)
    by (auto simp: redis_server.claim_law [OF assms(1)] Let_def split: option.splits prod.splits sum.splits)
qed simp

text \<open>C16 (safety): However many requests check out one order at once, at most one gets the claim; it is the
  first one, exactly when the key is free or says that an earlier attempt failed.\<close>

theorem one_claim_wins:
  assumes "redis_server rc" and "hash_of d (order_key order_id) = Some h" and "h \<noteq> []"
    and "list_of d (items_key order_id) = Some l" and "text_of d (idempotency_key order_id) = Some t"
  shows "claim_all rc order_id (map claim_value (s # ss)) d =
    (if t = None \<or> (\<exists>v. t = Some v \<and> claimable v) then 1 else 0) # replicate (length ss) 0"
proof -
  have busy: "claim_all rc order_id (map claim_value ss) d' = replicate (length ss) 0"
    if "hash_of d' (order_key order_id) = Some h" "list_of d' (items_key order_id) = Some l"
      "text_of d' (idempotency_key order_id) = Some (Some x)" "\<not> claimable x" for d' x
    using that
    by (induction ss) (simp_all add: redis_server.claim_law [OF assms(1)] assms(3) Let_def)
  let ?d = "set_ttl (idempotency_key order_id) (Some 300) (put (idempotency_key order_id) (RStr (claim_value s)) d)"
  have "hash_of ?d (order_key order_id) = Some h" "list_of ?d (items_key order_id) = Some l"
    "text_of ?d (idempotency_key order_id) = Some (Some (claim_value s))"
    using assms(2,4) view_cong [of ?d "items_key order_id" d] by simp_all
  note after = busy [OF this claim_value_busy]
  show ?thesis
  proof (cases t)
    case None
    then show ?thesis using assms after by (simp add: redis_server.claim_law [OF assms(1)] Let_def)
  next
    case (Some v)
    then show ?thesis using assms after busy [of d v] by (simp add: redis_server.claim_law [OF assms(1)] Let_def)
  qed
qed

section \<open>The total of an order\<close>

text \<open>What \<open>create_order\<close> writes, and a run of \<open>add_item\<close> calls with the cost each adds.\<close>

definition order_mapping :: "string \<Rightarrow> int \<Rightarrow> (string \<times> rtext) list" where
  "order_mapping user_id total_cost = [(''user_id'', Text user_id), (''paid'', Text ''false''),
     (''total_cost'', Text (show_int total_cost))]"

definition add_items :: "redis \<Rightarrow> string \<Rightarrow> (string \<times> int) list \<Rightarrow> unit script" where
  "add_items rc order_id calls = for_each calls (\<lambda>(entry, c).
     bindE (order_add_item rc [items_key order_id, order_key order_id] [entry, show_int c]) (\<lambda>_. ret ()))"

lemma add_items_run:
  assumes "redis_server rc" "CHR '':'' \<notin> set order_id" "\<forall>(entry, c) \<in> set calls. 0 \<le> c"
    and "counter d (order_key order_id) ''total_cost'' = Some t" "0 \<le> t" "list_of d (items_key order_id) = Some l"
    and "in64 (t + sum_list (map snd calls))"
  shows "\<exists>d'. add_items rc order_id calls d = (Inr (), d') \<and>
    counter d' (order_key order_id) ''total_cost'' = Some (t + sum_list (map snd calls)) \<and>
    list_of d' (items_key order_id) = Some (l @ map (Text \<circ> fst) calls) \<and>
    (\<forall>f. f \<noteq> ''total_cost'' \<longrightarrow> field d' (order_key order_id) f = field d (order_key order_id) f)"
  using assms(3-7)
proof (induction calls arbitrary: d t l)
  case Nil
  then show ?case by (simp add: add_items_def ret_def)
next
  case (Cons x calls)
  obtain entry c where x: "x = (entry, c)" by (cases x)
  have nonneg: "0 \<le> c" "0 \<le> sum_list (map snd calls)" using Cons.prems(1) x by (auto 0 3 intro!: sum_list_nonneg)
  have fits: "in64 c" "in64 (t + c)" using Cons.prems(3,5) nonneg x by (auto simp: in64_def)
  let ?d1 = "put (items_key order_id) (RList (l @ [Text entry])) d"
  let ?d = "put_fields (order_key order_id) [(''total_cost'', Text (show_int (t + c)))] ?d1"
  have one: "order_add_item rc [items_key order_id, order_key order_id] [entry, show_int c] d = (Inr 1, ?d)"
    by (rule redis_server.add_item_law [OF assms(1,2) Cons.prems(2,4) fits])
  have h: "hash_of ?d1 (order_key order_id) \<noteq> None" using counter_hash [OF Cons.prems(2)] assms(2) by auto
  have "counter ?d (order_key order_id) ''total_cost'' = Some (t + c)" using h fits by simp
  moreover have "list_of ?d (items_key order_id) = Some (l @ [Text entry])"
    using assms(2) by (simp add: list_of_def entries_put_fields)
  moreover have "field ?d (order_key order_id) f = field d (order_key order_id) f" if "f \<noteq> ''total_cost''" for f
    using h that assms(2) by simp
  ultimately show ?case
    using Cons.IH [of ?d "t + c" "l @ [Text entry]"] Cons.prems nonneg x one
    by (auto simp: add_items_def bindE_def ret_def algebra_simps)
qed

text \<open>C33 (invariant): An order's total is the sum of the costs of the items added to it, and its list holds
  exactly these items in order: after \<open>create_order\<close> and any calls of \<open>add_item\<close> whose costs fit a
  counter, the order is still unpaid and of the same user.\<close>

theorem order_total:
  assumes "redis_server rc" and "CHR '':'' \<notin> set order_id" and "\<forall>(entry, c) \<in> set calls. 0 \<le> c"
    and "in64 (sum_list (map snd calls))" and "entries d (order_key order_id) = None" and "entries d (items_key order_id) = None"
  shows "\<exists>d1 d'. rc (HSET (order_key order_id) (order_mapping user_id 0)) d = (Inr (Num 3), d1) \<and>
    add_items rc order_id calls d1 = (Inr (), d') \<and>
    counter d' (order_key order_id) ''total_cost'' = Some (sum_list (map snd calls)) \<and>
    list_of d' (items_key order_id) = Some (map (Text \<circ> fst) calls) \<and>
    field d' (order_key order_id) ''paid'' = Some (Text ''false'') \<and> field d' (order_key order_id) ''user_id'' = Some (Text user_id)"
proof -
  let ?d = "put_fields (order_key order_id) (order_mapping user_id 0) d"
  have h: "hash_of d (order_key order_id) = Some []" using assms(5) by (simp add: hash_of_def)
  have create: "rc (HSET (order_key order_id) (order_mapping user_id 0)) d = (Inr (Num 3), ?d)"
    using redis_server.hset [OF assms(1)] h by (simp add: order_mapping_def)
  have f: "field ?d (order_key order_id) k = map_of (rev (order_mapping user_id 0)) k" for k
    using h by (simp add: field_of_hash map_of_dict_merge split: option.split)
  have "counter ?d (order_key order_id) ''total_cost'' = Some 0"
    unfolding counter_def f by (simp add: order_mapping_def in64_def)
  moreover have "list_of ?d (items_key order_id) = Some []"
    using assms(2,6) by (simp add: list_of_def entries_put_fields)
  ultimately obtain d' where d': "add_items rc order_id calls ?d = (Inr (), d')"
      "counter d' (order_key order_id) ''total_cost'' = Some (sum_list (map snd calls))"
      "list_of d' (items_key order_id) = Some (map (Text \<circ> fst) calls)"
      and rest: "\<And>k. k \<noteq> ''total_cost'' \<Longrightarrow> field d' (order_key order_id) k = field ?d (order_key order_id) k"
    using add_items_run [OF assms(1-3), of ?d 0 "[]"] assms(4) by auto
  have "field d' (order_key order_id) ''paid'' = Some (Text ''false'')" "field d' (order_key order_id) ''user_id'' = Some (Text user_id)"
    using rest [of "''paid''"] rest [of "''user_id''"] unfolding f by (simp_all add: order_mapping_def)
  with create d' show ?thesis by blast
qed

theorem one_claim_wins_witness:
  "claim_all mem_rc ''7'' (map claim_value [''a'', ''b'', ''c'']) (put (order_key ''7'') (RHash (order_mapping ''1'' 5)) empty_keyspace)
     = [1, 0, 0]"
  using one_claim_wins [OF mem_redis, of "put (order_key ''7'') (RHash (order_mapping ''1'' 5)) empty_keyspace" "''7''"
      "order_mapping ''1'' 5" "[]" None "''a''" "[''b'', ''c'']"]
  by (simp add: order_mapping_def list_of_def text_of_def empty_keyspace_def numeral_eq_Suc)

theorem order_total_witness:
  "\<exists>d1 d'. mem_rc (HSET (order_key ''7'') (order_mapping ''1'' 0)) empty_keyspace = (Inr (Num 3), d1) \<and>
     add_items mem_rc ''7'' [(''3:2'', 10), (''4:1'', 7)] d1 = (Inr (), d') \<and>
     counter d' (order_key ''7'') ''total_cost'' = Some 17"
  using order_total [OF mem_redis, of "''7''" "[(''3:2'', 10), (''4:1'', 7)]" empty_keyspace "''1''"]
  by (auto simp: in64_def empty_keyspace_def)

end
