(* ===== verification/Faults.thy ===== *)
theory Faults
  imports Python
begin

text \<open>
  \<open>common/fault_injection.py\<close>: the injector the service handlers call before and after every
  action. The state is the dictionary of rules; \<open>maybe_inject\<close> also needs the sleep of the event
  loop, which is an argument.
\<close>

text \<open>The rule keeps what it was given: the HTTP endpoint checks neither the point nor the action nor the value.\<close>

record fault_rule =
  rule_point :: pyval
  rule_action :: pyval
  rule_value :: pyval

type_synonym injector = "(pyval \<times> fault_rule) list"

text \<open>\<open>raw.split(":")\<close>\<close>

fun split_all :: "string \<Rightarrow> string list" where
  "split_all [] = [[]]"
| "split_all (c # s) = (if c = CHR '':'' then [] # split_all s
     else (case split_all s of [] \<Rightarrow> [[c]] | p # ps \<Rightarrow> (c # p) # ps))"

definition load_from_env :: "string \<Rightarrow> injector \<Rightarrow> exn + injector" where
  "load_from_env raw rules = (if raw = [] then Inr rules
     else (case split_all raw of
       p # a # rest \<Rightarrow> (case (case rest of [] \<Rightarrow> Inr 0 | v # _ \<Rightarrow> py_int (Str v)) of
           Inl e \<Rightarrow> Inl e
         | Inr v \<Rightarrow> Inr (AList.update (Str p) \<lparr>rule_point = Str p, rule_action = Str a, rule_value = PInt v\<rparr> rules))
     | _ \<Rightarrow> Inr rules))"

text \<open>A list or a dictionary is no key of the dictionary of rules.\<close>

definition set_fault :: "pyval \<Rightarrow> pyval \<Rightarrow> pyval \<Rightarrow> injector \<Rightarrow> exn + injector" where
  "set_fault p a v rules = (case p of
     PList _ \<Rightarrow> Inl (TypeErr ''unhashable type: list'')
   | PDict _ \<Rightarrow> Inl (TypeErr ''unhashable type: dict'')
   | _ \<Rightarrow> Inr (AList.update p \<lparr>rule_point = p, rule_action = a, rule_value = v\<rparr> rules))"

text \<open>\<open>clear_fault(point)\<close>: an empty or missing point clears every rule.\<close>

definition clear_fault :: "string option \<Rightarrow> injector \<Rightarrow> injector" where
  "clear_fault p rules = (case p of
     Some q \<Rightarrow> if q \<noteq> [] then filter (\<lambda>(k, _). k \<noteq> Str q) rules else []
   | None \<Rightarrow> [])"

text \<open>\<open>v / 1000.0\<close>\<close>

fun milliseconds :: "pyval \<Rightarrow> exn + rat" where
  "milliseconds (PInt n) = Inr (of_int n / 1000)"
| "milliseconds (PFloat r) = Inr (r / 1000)"
| "milliseconds (PBool b) = Inr ((if b then 1 else 0) / 1000)"
| "milliseconds _ = Inl (TypeErr ''unsupported operand type(s) for /'')"

definition maybe_inject :: "(rat \<Rightarrow> ('s, unit) py) \<Rightarrow> injector \<Rightarrow> string \<Rightarrow> ('s, unit) py" where
  "maybe_inject sleep rules p = (case map_of rules (Str p) of
     None \<Rightarrow> ret ()
   | Some rule \<Rightarrow>
       if rule_action rule = Str ''crash'' then throw Exit
       else if rule_action rule = Str ''delay'' then bindE (lift_sum (milliseconds (rule_value rule))) sleep
       else if rule_action rule = Str ''error'' then throw (RuntimeErr (''Injected fault at '' @ p))
       else ret ())"

lemma maybe_inject_none [simp]: "map_of rules (Str p) = None \<Longrightarrow> maybe_inject sl rules p = ret ()"
  by (simp add: maybe_inject_def)

lemma map_of_set_fault:
  "set_fault p a v rules = Inr rules' \<Longrightarrow>
     map_of rules' q = (if q = p then Some \<lparr>rule_point = p, rule_action = a, rule_value = v\<rparr> else map_of rules q)"
  by (auto simp: set_fault_def update_conv' split: pyval.splits)

lemma map_of_clear_fault: "map_of (clear_fault p rules) q =
    (case p of None \<Rightarrow> None | Some r \<Rightarrow> if r = [] \<or> Str r = q then None else map_of rules q)"
proof -
  have "map_of (filter (\<lambda>(k, _). k \<noteq> r) rules) q = (if r = q then None else map_of rules q)" for r
    by (induction rules) auto
  then show ?thesis by (auto simp: clear_fault_def split: option.splits)
qed

end
