(* ===== verification/Service.thy ===== *)
theory Service
  imports Client Faults Metrics
begin

text \<open>
  What the stock and the payment service share: the state of the process (its Redis connection,
  its fault rules, its per-action metrics), the metric update, the dispatch around a handler, and
  the HTTP responses.
\<close>

section \<open>The state of a service process\<close>

record svc = conn +
  sv_rules :: injector
  action_counts :: "(string \<times> (string \<times> nat) list) list"
  action_latency :: "(string \<times> hist) list"

datatype response = JSONResponse pyval | PlainTextResponse string

definition DB_ERROR_STR :: string where
  "DB_ERROR_STR = ''DB error''"

text \<open>\<open>_record_metric\<close>, the same in both services.\<close>

definition record_metric :: "string \<Rightarrow> string \<Rightarrow> rat \<Rightarrow> svc \<Rightarrow> svc" where
  "record_metric action result duration st =
    (let st1 = (if map_of (action_counts st) action = None
         then st\<lparr>action_counts := AList.update action [(''success'', 0), (''failed'', 0)] (action_counts st),
                 action_latency := AList.update action new_hist (action_latency st)\<rparr> else st);
         counts = dict_get (action_counts st1) action [] in
     st1\<lparr>action_counts := AList.update action
           (AList.update result (dict_get counts result 0 + 1) counts) (action_counts st1),
         action_latency := AList.update action
           (observe duration (dict_get (action_latency st1) action new_hist)) (action_latency st1)\<rparr>)"

definition inject_at :: "string \<Rightarrow> (svc, unit) py" where
  "inject_at p = (\<lambda>st. maybe_inject async_sleep (sv_rules st) p st)"

text \<open>\<open>fields.get(k, dflt)\<close> where the value ends up in a key or a message.\<close>

definition text_field :: "dict \<Rightarrow> string \<Rightarrow> string \<Rightarrow> exn + string" where
  "text_field msg k dflt = py_format (dict_get msg k (Str dflt))"

definition int_field :: "dict \<Rightarrow> string \<Rightarrow> string \<Rightarrow> exn + int" where
  "int_field msg k dflt = py_int (dict_get msg k (Str dflt))"

text \<open>
  The end of a handled command: the second injection point, the metric, the outcome.
\<close>

definition finish_command :: "string \<Rightarrow> rat \<Rightarrow> string \<Rightarrow> (svc, string) py" where
  "finish_command action cmd_start outcome =
     bindE (inject_at (''after_'' @ action)) (\<lambda>_.
     bindE monotonic (\<lambda>now.
     bindE (modify (record_metric action (if outcome \<noteq> ''failed'' then ''success'' else ''failed'') (now - cmd_start)))
       (\<lambda>_. ret outcome)))"

text \<open>
  The reply to a NATS command: \<open>except Exception\<close> turns every error into a failed event with the
  message as its reason. A dead process does not reply.
\<close>

definition nats_reply :: "string \<Rightarrow> pyval \<Rightarrow> (svc, string) py \<Rightarrow> (svc, pyval) py" where
  "nats_reply refusal saga_id handler = try_except
     (bindE handler (\<lambda>event. ret (if event = ''failed''
        then PDict [(''saga_id'', saga_id), (''event'', Str ''failed''), (''reason'', Str refusal)]
        else PDict [(''saga_id'', saga_id), (''event'', Str event)])))
     (\<lambda>e. if is_exception e
        then Some (ret (PDict [(''saga_id'', saga_id), (''event'', Str ''failed''), (''reason'', Str (exn_text e))]))
        else None)"

text \<open>
  What precedes the \<open>try\<close> of a message handler: the message is unpacked and the trace context extracted from it.
  \<open>unpackb\<close> stands for \<open>msgpack.unpackb\<close> and \<open>get_context\<close> for \<open>propagate.extract\<close> of OpenTelemetry; either may raise, and
  so does \<open>payload.get\<close> when the message is no dictionary.
\<close>

definition extract_trace_context :: "(pyval \<Rightarrow> exn + unit) \<Rightarrow> pyval \<Rightarrow> exn + unit" where
  "extract_trace_context get_context payload = (case py_get payload ''_trace'' PNone of
     Inl e \<Rightarrow> Inl e | Inr carrier \<Rightarrow> get_context (if truthy carrier then carrier else PDict []))"

definition read_message :: "('m \<Rightarrow> exn + pyval) \<Rightarrow> (pyval \<Rightarrow> exn + unit) \<Rightarrow> 'm \<Rightarrow> exn + dict" where
  "read_message unpackb get_context data = (case unpackb data of Inl e \<Rightarrow> Inl e | Inr unpacked \<Rightarrow>
     (case extract_trace_context get_context unpacked of Inl e \<Rightarrow> Inl e | Inr _ \<Rightarrow>
       (case unpacked of PDict msg \<Rightarrow> Inr msg | _ \<Rightarrow> Inl (OtherErr ''object has no attribute get''))))"

section \<open>HTTP endpoints\<close>

definition http_error :: "string \<Rightarrow> ('s, 'a) py" where
  "http_error detail = throw (HttpErr 400 detail)"

text \<open>\<open>except aioredis.RedisError: raise HTTPException(400, detail=DB_ERROR_STR)\<close>\<close>

definition or_db_error :: "('s, 'a) py \<Rightarrow> ('s, 'a) py" where
  "or_db_error m = try_except m (\<lambda>e. if is_redis_error e then Some (http_error DB_ERROR_STR) else None)"

definition http_exception_handler :: "exn \<Rightarrow> (int \<times> response) option" where
  "http_exception_handler e = (case e of
     HttpErr status detail \<Rightarrow> Some (status, JSONResponse (PDict [(''error'', Str detail)]))
   | _ \<Rightarrow> None)"

text \<open>The chunks of \<open>range(0, n, size)\<close>, as half-open intervals, and the commands of each.\<close>

definition init_chunks :: "nat \<Rightarrow> int \<Rightarrow> (nat \<times> nat) list" where
  "init_chunks sz n = (let m = nat n in
     map (\<lambda>k. (k * sz, min (k * sz + sz) m)) [0..<(m + sz - 1) div sz])"

definition batch_init :: "redis_client \<Rightarrow> nat \<Rightarrow> int \<Rightarrow> (nat \<Rightarrow> cmd list) \<Rightarrow> ('b conn_scheme, unit) py" where
  "batch_init cl sz n cmds = or_db_error (for_each (init_chunks sz n) (\<lambda>(chunk_start, chunk_end).
     bindE (pipeline cl False (concat (map cmds [chunk_start..<chunk_end]))) (\<lambda>_. ret ())))"

text \<open>
  Reads prefer the master; any exception there falls back to the replica, if there is one.
\<close>

definition read_entry :: "redis_client \<Rightarrow> string \<Rightarrow> (svc, (string \<times> rtext) list) py" where
  "read_entry cl k = try_except (redis_call cl (hgetall (cl_rc cl) k)) (\<lambda>e.
     if is_exception e then Some (bindE get_state (\<lambda>st. case c_replica st of
         None \<Rightarrow> http_error DB_ERROR_STR
       | Some d \<Rightarrow> or_db_error (replica_call cl (hgetall (cl_rc cl) k) d)))
     else None)"

definition ping_health :: "redis_client \<Rightarrow> ('b conn_scheme, response) py" where
  "ping_health cl = bindE (try_except (redis_call cl (ret ())) (\<lambda>e.
       if is_exception e then Some (throw (HttpErr 503 ''Redis unavailable'')) else None))
     (\<lambda>_. ret (JSONResponse (PDict [(''status'', Str ''healthy'')])))"

subsection \<open>Metrics and faults endpoints\<close>

definition quoted :: "string \<Rightarrow> string" where
  "quoted s = [CHR 0x22] @ s @ [CHR 0x22]"

definition metrics_lines :: "string \<Rightarrow> svc \<Rightarrow> string list" where
  "metrics_lines service st =
    [''# HELP '' @ service @ ''_requests_total Total '' @ service @ '' service requests by action and result'',
     ''# TYPE '' @ service @ ''_requests_total counter''] @
    concat (map (\<lambda>(action, counts). map (\<lambda>(result, count). service @ ''_requests_total{action='' @ quoted action @
        '',result='' @ quoted result @ ''} '' @ show_nat count) counts) (action_counts st)) @
    [[]] @
    [''# HELP '' @ service @ ''_request_duration_seconds '' @ 
       (if service = ''stock'' then ''Stock'' else ''Payment'') @ '' service request latency'',
     ''# TYPE '' @ service @ ''_request_duration_seconds histogram''] @
    concat (map (\<lambda>(action, h). prometheus_lines (service @ ''_request_duration_seconds'')
        (''action='' @ quoted action) h) (action_latency st))"

definition metrics_endpoint :: "string \<Rightarrow> (svc, response) py" where
  "metrics_endpoint service = (\<lambda>st.
     (Inr (PlainTextResponse (concat (map (\<lambda>l. l @ [CHR 0x0A]) (metrics_lines service st)))), st))"

definition set_fault_endpoint :: "pyval \<Rightarrow> (svc, response) py" where
  "set_fault_endpoint body =
     bindE (lift_sum (py_item body ''point'')) (\<lambda>p. bindE (lift_sum (py_item body ''action'')) (\<lambda>a.
     bindE (lift_sum (py_get body ''value'' (PInt 0))) (\<lambda>v.
     bindE get_state (\<lambda>st. bindE (lift_sum (set_fault p a v (sv_rules st))) (\<lambda>rules.
     bindE (modify (\<lambda>st. st\<lparr>sv_rules := rules\<rparr>)) (\<lambda>_.
     ret (JSONResponse (PDict [(''status'', Str ''ok'')]))))))))"

definition clear_fault_endpoint :: "string option \<Rightarrow> (svc, response) py" where
  "clear_fault_endpoint p = bindE (modify (\<lambda>st. st\<lparr>sv_rules := clear_fault p (sv_rules st)\<rparr>)) (\<lambda>_.
     ret (JSONResponse (PDict [(''status'', Str ''ok'')])))"

text \<open>A key of a JSON object: texts stay, \<open>None\<close>, Booleans and numbers become texts (floats are not modelled as texts).\<close>

fun json_key :: "pyval \<Rightarrow> exn + string" where
  "json_key (PStr (Text s)) = Inr s"
| "json_key PNone = Inr ''null''"
| "json_key (PBool b) = Inr (if b then ''true'' else ''false'')"
| "json_key (PInt n) = Inr (show_int n)"
| "json_key _ = Inl (TypeErr ''keys must be str, int, float, bool or None'')"

definition get_faults_endpoint :: "(svc, response) py" where
  "get_faults_endpoint = bindE get_state (\<lambda>st.
     bindE (lift_sum (map_sum_list (\<lambda>(k, v). case json_key k of Inl e \<Rightarrow> Inl e
       | Inr key \<Rightarrow> Inr (key, PDict [(''action'', rule_action v), (''value'', rule_value v)])) (sv_rules st))) (\<lambda>rules.
     ret (JSONResponse (PDict rules))))"

section \<open>What a handler does to the database\<close>

text \<open>\<open>keeps_db m\<close>: \<open>m\<close> never touches the database, whether it returns or raises.\<close>

definition keeps_db :: "(svc, 'a) py \<Rightarrow> bool" where
  "keeps_db m \<longleftrightarrow> (\<forall>st. c_db (snd (m st)) = c_db st)"

text \<open>
  \<open>once sc good m\<close>: \<open>m\<close> runs the script \<open>sc\<close> at most once and does nothing else to the database;
  when it returns a value that \<open>good\<close> relates to a reply, the script has run and gave that reply.
  Nothing is assumed of the round trips, of the fault rules or of the metrics.
\<close>

definition ran_once :: "int script \<Rightarrow> (int \<Rightarrow> 'a \<Rightarrow> bool) \<Rightarrow> keyspace \<Rightarrow> (exn + 'a) \<times> svc \<Rightarrow> bool" where
  "ran_once sc good d res \<longleftrightarrow> (case res of (r, st') \<Rightarrow>
     c_db st' = d \<and> isl r \<or>
     c_db st' = snd (sc d) \<and> (case r of Inl _ \<Rightarrow> True | Inr x \<Rightarrow> \<exists>n. fst (sc d) = Inr n \<and> good n x))"

definition once :: "int script \<Rightarrow> (int \<Rightarrow> 'a \<Rightarrow> bool) \<Rightarrow> (svc, 'a) py \<Rightarrow> bool" where
  "once sc good m \<longleftrightarrow> (\<forall>st. ran_once sc good (c_db st) (m st))"

lemma keeps_ret [simp]: "keeps_db (ret x)" "keeps_db (throw e)" "keeps_db (lift_sum r)" "keeps_db monotonic"
  by (simp_all add: keeps_db_def ret_def throw_def lift_sum_def monotonic_def)

lemma keeps_run: "keeps_db m \<Longrightarrow> m st = (r, st') \<Longrightarrow> c_db st' = c_db st"
  by (metis keeps_db_def snd_conv)

lemma keeps_bindE:
  assumes "keeps_db m" "\<And>x. keeps_db (f x)"
  shows "keeps_db (bindE m f)"
  unfolding keeps_db_def
proof
  fix st
  obtain r st1 where m: "m st = (r, st1)" by (cases "m st")
  with keeps_run [OF assms(1) m] assms(2) show "c_db (snd (bindE m f st)) = c_db st"
    by (cases r) (auto simp: bindE_def keeps_db_def)
qed

lemma keeps_modify: "(\<And>st. c_db (f st) = c_db st) \<Longrightarrow> keeps_db (modify f)"
  by (simp add: keeps_db_def modify_def)

lemma keeps_inject [simp]: "keeps_db (inject_at p)"
  by (auto simp: keeps_db_def inject_at_def maybe_inject_def async_sleep_def throw_def ret_def bindE_def lift_sum_def
      split: option.splits sum.splits)

lemma record_metric_db [simp]: "c_db (record_metric a r t st) = c_db st"
  by (simp add: record_metric_def Let_def)

lemma keeps_finish [simp]: "keeps_db (finish_command action t outcome)"
  unfolding finish_command_def by (intro keeps_bindE keeps_modify) simp_all

lemma once_redis_call: "once sc (\<lambda>n x. x = n) (redis_call cl sc)"
  by (auto simp: once_def ran_once_def Let_def redis_call_def split: fate.splits nat.splits sum.splits prod.splits)

lemma once_before:
  assumes "keeps_db m" "\<And>x. once sc good (f x)"
  shows "once sc good (bindE m f)"
  unfolding once_def
proof
  fix st
  obtain r st1 where m: "m st = (r, st1)" by (cases "m st")
  have d: "c_db st1 = c_db st" by (rule keeps_run [OF assms(1) m])
  show "ran_once sc good (c_db st) (bindE m f st)"
  proof (cases r)
    case (Inl e)
    with m d show ?thesis by (simp add: bindE_Inl ran_once_def)
  next
    case (Inr x)
    have "ran_once sc good (c_db st1) (f x st1)" using assms(2) by (simp add: once_def)
    with m d Inr show ?thesis by (simp add: bindE_Inr)
  qed
qed

lemma once_after:
  assumes "once sc good m" "\<And>x. keeps_db (f x)"
    and "\<And>n x st st' y. good n x \<Longrightarrow> f x st = (Inr y, st') \<Longrightarrow> good' n y"
  shows "once sc good' (bindE m f)"
  unfolding once_def
proof
  fix st
  obtain r st1 where m: "m st = (r, st1)" by (cases "m st")
  have o: "ran_once sc good (c_db st) (r, st1)" using assms(1) m by (metis once_def)
  show "ran_once sc good' (c_db st) (bindE m f st)"
  proof (cases r)
    case (Inl e)
    with o m show ?thesis by (auto simp: bindE_Inl ran_once_def)
  next
    case (Inr x)
    obtain r2 st2 where f: "f x st1 = (r2, st2)" by (cases "f x st1")
    have "c_db st2 = c_db st1" by (rule keeps_run [OF assms(2) f])
    with o m f Inr assms(3) [of _ x st1] show ?thesis
      by (cases r2) (auto simp: bindE_Inr ran_once_def)
  qed
qed

text \<open>Completing a command returns its outcome or raises.\<close>

lemma finish_returns: "finish_command action t outcome st = (Inr y, st') \<Longrightarrow> y = outcome"
  by (auto simp: finish_command_def bindE_def modify_def ret_def monotonic_def split: prod.splits sum.splits)

lemma nats_reply_cases:
  assumes "nats_reply refusal sid m st = (r, st')"
  obtains ev where "m st = (Inr ev, st')" "r = Inr (if ev = ''failed''
        then PDict [(''saga_id'', sid), (''event'', Str ''failed''), (''reason'', Str refusal)]
        else PDict [(''saga_id'', sid), (''event'', Str ev)])"
  | e where "m st = (Inl e, st')" "is_exception e"
      "r = Inr (PDict [(''saga_id'', sid), (''event'', Str ''failed''), (''reason'', Str (exn_text e))])"
  | e where "m st = (Inl e, st')" "\<not> is_exception e" "r = Inl e"
  using assms by (cases "m st"; cases "fst (m st)")
    (auto simp: nats_reply_def try_except_def bindE_def ret_def split: if_splits)


text \<open>Without fault rules the injection points do nothing.\<close>

lemma inject_none [simp]: "sv_rules st = [] \<Longrightarrow> inject_at p st = (Inr (), st)"
  by (simp add: inject_at_def maybe_inject_def ret_def)

lemma finish_none:
  "sv_rules st = [] \<Longrightarrow> \<exists>st'. finish_command a t outcome st = (Inr outcome, st') \<and> c_db st' = c_db st"
  by (simp add: finish_command_def bindE_def monotonic_def modify_def ret_def)

lemma after_trip_rules [simp]: "sv_rules (after_trip st) = sv_rules (st :: svc)"
  by (simp add: after_trip_def)

end
