(* ===== verification/Core.thy ===== *)
theory Core
  imports Frames
begin

text \<open>
  \<open>Orchestrator\<close> of \<open>orchestrator/core.py\<close>: the choice between two-phase commit and saga, the run
  of a transaction with its metrics, and the publication of the result. The semaphore only bounds
  the runs in flight; the tracing span has no effect.
\<close>

section \<open>The orchestrator\<close>

record orchestrator =
  definitions :: "(string \<times> transaction) list"
  protocol_mode :: string

definition new_orchestrator :: "transaction list \<Rightarrow> string \<Rightarrow> orchestrator" where
  "new_orchestrator defs protocol = \<lparr>definitions = dict_merge [] (map (\<lambda>d. (td_name d, d)) defs), protocol_mode = protocol\<rparr>"

text \<open>
  One breaker per service. The program iterates over a set of services, in an order of its own;
  the properties below hold for every order.
\<close>

definition new_breakers :: "transaction list \<Rightarrow> (string \<times> breaker) list" where
  "new_breakers defs = map (\<lambda>sv. (sv, new_breaker 5 30)) (remdups (concat (map (\<lambda>d. map service (td_steps d)) defs)))"

text \<open>\<open>any(cb.is_open() for cb in ...)\<close> stops at the first that is open.\<close>

fun any_breaker_open :: "string list \<Rightarrow> ('n proc, bool) py" where
  "any_breaker_open [] = ret False"
| "any_breaker_open (sv # svs) = bindE (breaker_is_open sv) (\<lambda>is_opened. if is_opened then ret True else any_breaker_open svs)"

definition set_protocol :: "string \<Rightarrow> ('n proc, unit) py" where
  "set_protocol p = modify (\<lambda>st. st\<lparr>collector := (collector st)\<lparr>current_protocol := p\<rparr>\<rparr>)"

text \<open>
  The quotient of the window is compared with 0.10 and 0.05 as floats; on windows of at most 100
  results this is the comparison of the rationals.
\<close>

definition select_protocol :: "orchestrator \<Rightarrow> ('n proc, string) py" where
  "select_protocol orch =
     (if protocol_mode orch \<noteq> ''auto'' then ret (protocol_mode orch)
      else bindE get_state (\<lambda>st.
        bindE (any_breaker_open (map fst (circuit_breakers st))) (\<lambda>degraded.
        if degraded then
          bindE (if current_protocol (collector st) \<noteq> ''2pc'' then set_protocol ''2pc'' else ret ()) (\<lambda>_. ret ''2pc'')
        else let abort_rate = sliding_abort_rate (collector st); current = current_protocol (collector st) in
          bindE (if current = ''2pc'' \<and> 1 / 10 \<le> abort_rate then set_protocol ''saga''
                 else if current = ''saga'' \<and> abort_rate \<le> 5 / 100 then set_protocol ''2pc''
                 else ret ()) (\<lambda>_.
          bindE get_state (\<lambda>st. ret (current_protocol (collector st)))))))"

definition publish_result :: "redis_client \<Rightarrow> string \<Rightarrow> pyval \<Rightarrow> ('n proc, unit) py" where
  "publish_result cl saga_id result =
     bindE (pipeline cl False [SET (''saga-result:'' @ saga_id) (json_dumps result) False (Some 60),
        PUBLISH (''saga-notify:'' @ saga_id) (Text ''done'')]) (\<lambda>_. ret ())"

text \<open>\<open>result.get(k, d)\<close> and \<open>result[k] = v\<close>; the executors return dictionaries.\<close>

definition result_get :: "pyval \<Rightarrow> string \<Rightarrow> pyval \<Rightarrow> pyval" where
  "result_get r k dflt = (case r of PDict d \<Rightarrow> dict_get d k dflt | _ \<Rightarrow> dflt)"

definition result_set :: "pyval \<Rightarrow> string \<Rightarrow> pyval \<Rightarrow> pyval" where
  "result_set r k v = (case r of PDict d \<Rightarrow> PDict (AList.update k v d) | _ \<Rightarrow> r)"

text \<open>
  The publication is a task of its own, started when the result is there: whatever happens to it,
  the caller gets the result. The model runs it at once.
\<close>

definition execute_inner :: "redis_client \<Rightarrow> 'n transport \<Rightarrow> orchestrator \<Rightarrow> transaction \<Rightarrow> string \<Rightarrow> dict \<Rightarrow> string \<Rightarrow>
    ('n proc, pyval) py" where
  "execute_inner cl tr orch tx_def tx_name context saga_id =
     bindE (select_protocol orch) (\<lambda>protocol.
     bindE (set_protocol protocol) (\<lambda>_.
     bindE monotonic (\<lambda>start.
     bindE (if protocol = ''2pc'' then two_pc_execute cl tr tx_def saga_id context tx_name
            else saga_execute cl tr tx_def saga_id context tx_name) (\<lambda>result.
     bindE monotonic (\<lambda>now. bindE wall_time (\<lambda>wall.
     bindE (modify (\<lambda>st. st\<lparr>collector :=
        record_result wall (result_get result ''status'' PNone = Str ''success'') protocol (now - start) (collector st)\<rparr>)) (\<lambda>_.
     let result = result_set (result_set result ''saga_id'' (Str saga_id)) ''protocol'' (Str protocol) in
     bindE (attempt (publish_result cl saga_id result)) (\<lambda>_. ret result))))))))"

definition execute :: "redis_client \<Rightarrow> 'n transport \<Rightarrow> orchestrator \<Rightarrow> string \<Rightarrow> dict \<Rightarrow> string \<Rightarrow> ('n proc, pyval) py" where
  "execute cl tr orch tx_name context saga_id = (case map_of (definitions orch) tx_name of
     None \<Rightarrow> ret (status_failed (Str (''Unknown transaction: '' @ tx_name)))
   | Some tx_def \<Rightarrow> execute_inner cl tr orch tx_def tx_name context saga_id)"


section \<open>Which protocol runs\<close>

lemma update_same: "map_of d k = Some v \<Longrightarrow> AList.update k v d = d"
  by (induction d) (auto split: if_splits)

lemma any_open_closed:
  assumes "\<forall>sv b. map_of (circuit_breakers st) sv = Some b \<longrightarrow> breaker_state b = Closed"
  shows "any_breaker_open svs st = (Inr False, st)"
proof (induction svs)
  case (Cons sv svs)
  have "breaker_is_open sv st = (Inr False, st)"
    using assms by (auto simp: breaker_is_open_def is_open_def set_breaker_def update_same split: option.splits)
  with Cons show ?case by (simp add: bindE_def)
qed (simp add: ret_def)

text \<open>C35 (functional): In automatic mode, with every breaker closed, the protocol moves to saga when the
  abort rate reaches 10 percent, back to two-phase commit when it has fallen to 5 percent, and stays in
  between; the choice is remembered and nothing else changes.\<close>

theorem protocol_hysteresis:
  assumes "protocol_mode orch = ''auto''"
    and "\<forall>sv b. map_of (circuit_breakers st) sv = Some b \<longrightarrow> breaker_state b = Closed"
    and "current_protocol (collector st) \<in> {''2pc'', ''saga''}"
  shows "select_protocol orch st = (let rate = sliding_abort_rate (collector st);
      p = (if 1 / 10 \<le> rate then ''saga'' else if rate \<le> 1 / 20 then ''2pc'' else current_protocol (collector st)) in
    (Inr p, st\<lparr>collector := (collector st)\<lparr>current_protocol := p\<rparr>\<rparr>))"
  using assms(1,3) any_open_closed [OF assms(2)]
  by (auto simp: select_protocol_def bindE_def get_state_def set_protocol_def modify_def ret_def Let_def)

lemma ask_other: "breaker_is_open sv st = (r, st') \<Longrightarrow> sv' \<noteq> sv \<Longrightarrow> map_of (circuit_breakers st') sv' = map_of (circuit_breakers st) sv'"
  by (auto simp: breaker_is_open_def set_breaker_def split: option.splits prod.splits)

lemma keys_update: "map_of d k = Some v \<Longrightarrow> map fst (AList.update k w d) = map fst d"
  by (induction d) (auto split: if_splits)

lemma ask_clock: "breaker_is_open sv st = (r, st') \<Longrightarrow> c_clock st' = c_clock st \<and> net st' = net st \<and> \<not> isl r \<and>
    map fst (circuit_breakers st') = map fst (circuit_breakers st)"
  by (cases "map_of (circuit_breakers st) sv")
    (auto simp: breaker_is_open_def set_breaker_def keys_update split: prod.splits)

text \<open>A breaker that refuses now refuses again at the same time, whoever else was asked.\<close>

definition refuses :: "'n proc \<Rightarrow> string \<Rightarrow> bool" where
  "refuses st sv \<longleftrightarrow> (case map_of (circuit_breakers st) sv of Some b \<Rightarrow> fst (is_open (c_clock st) b) | None \<Rightarrow> False)"

definition tripped :: "'n proc \<Rightarrow> string \<Rightarrow> bool" where
  "tripped st sv \<longleftrightarrow> (case map_of (circuit_breakers st) sv of
     Some b \<Rightarrow> breaker_state b = Open \<or> breaker_state b = HalfOpen \<and> probe_in_flight b | None \<Rightarrow> False)"

lemma breakers_cong:
  "c_clock st' = c_clock st \<Longrightarrow> circuit_breakers st' = circuit_breakers st \<Longrightarrow> refuses st' = refuses st \<and> tripped st' = tripped st"
  by (simp only: refuses_def tripped_def fun_eq_iff simp_thms)

lemma refuses_ask: "breaker_is_open sv st = (Inr r, st') \<Longrightarrow> r = refuses st sv"
  by (auto simp: breaker_is_open_def refuses_def split: option.splits prod.splits)

lemma refuses_stays:
  assumes "breaker_is_open sv st = (r, st')" "refuses st sv'"
  shows "refuses st' sv'"
proof (cases "sv' = sv")
  case False
  then have "map_of (circuit_breakers st') sv' = map_of (circuit_breakers st) sv'" "c_clock st' = c_clock st"
    using ask_other [OF assms(1) False] ask_clock [OF assms(1)] by auto
  then show ?thesis using assms(2) by (simp only: refuses_def)
next
  case True
  obtain b where b: "map_of (circuit_breakers st) sv = Some b" "fst (is_open (c_clock st) b)"
    using assms(2) True by (auto simp: refuses_def split: option.splits)
  have "fst (is_open (c_clock st) (snd (is_open (c_clock st) b)))"
    using b(2) by (auto simp: is_open_def Let_def split: breaker_state.splits if_splits)
  then show ?thesis using assms(1) b(1) True
    by (auto simp: breaker_is_open_def refuses_def set_breaker_def split: prod.splits)
qed

lemma tripped_stays:
  assumes "breaker_is_open sv st = (r, st')" "tripped st sv'"
  shows "tripped st' sv' \<and> (sv' = sv \<longrightarrow> refuses st' sv')"
proof (cases "sv' = sv")
  case False
  then show ?thesis using assms ask_other [OF assms(1) False] by (simp add: tripped_def)
next
  case True
  obtain b where b: "map_of (circuit_breakers st) sv = Some b" "breaker_state b = Open \<or> breaker_state b = HalfOpen \<and> probe_in_flight b"
    using assms(2) True by (auto simp: tripped_def split: option.splits)
  let ?b = "snd (is_open (c_clock st) b)"
  have "(breaker_state ?b = Open \<or> breaker_state ?b = HalfOpen \<and> probe_in_flight ?b) \<and> fst (is_open (c_clock st) ?b)"
    using b(2) by (auto simp: is_open_def Let_def)
  then show ?thesis using assms(1) b(1) True
    by (auto simp: breaker_is_open_def refuses_def tripped_def set_breaker_def split: prod.splits)
qed

lemma any_open_effect:
  assumes "any_breaker_open svs st = (r, st')"
  shows "\<exists>degraded. r = Inr degraded \<and> c_clock st' = c_clock st \<and> net st' = net st \<and>
    map fst (circuit_breakers st') = map fst (circuit_breakers st) \<and>
    (\<forall>sv. refuses st sv \<longrightarrow> refuses st' sv) \<and> (\<forall>sv. tripped st sv \<longrightarrow> tripped st' sv) \<and>
    (degraded \<longrightarrow> (\<exists>sv\<in>set svs. refuses st' sv)) \<and>
    (\<not> degraded \<longrightarrow> (\<forall>sv\<in>set svs. tripped st sv \<longrightarrow> refuses st' sv) \<and> (\<forall>sv\<in>set svs. \<not> refuses st sv))"
  using assms
proof (induction svs arbitrary: st)
  case (Cons sv svs)
  obtain q st1 where q0: "breaker_is_open sv st = (q, st1)" by (cases "breaker_is_open sv st")
  then obtain o1 where q: "breaker_is_open sv st = (Inr o1, st1)" using ask_clock [OF q0] by (cases q) auto
  note facts = ask_clock [OF q] refuses_ask [OF q] refuses_stays [OF q] tripped_stays [OF q]
  show ?case
  proof (cases o1)
    case True
    then have "r = Inr True \<and> st' = st1" using Cons.prems q by (simp add: bindE_def ret_def)
    moreover have "refuses st1 sv" using facts(2,3) True by simp
    ultimately show ?thesis using facts by (intro exI [of _ True]) auto
  next
    case False
    then have "any_breaker_open svs st1 = (r, st')" using Cons.prems q by (simp add: bindE_def)
    from Cons.IH [OF this] obtain degraded where IH: "r = Inr degraded" "c_clock st' = c_clock st1" "net st' = net st1"
      "map fst (circuit_breakers st') = map fst (circuit_breakers st1)"
      "\<And>sv. refuses st1 sv \<Longrightarrow> refuses st' sv" "\<And>sv. tripped st1 sv \<Longrightarrow> tripped st' sv"
      "degraded \<longrightarrow> (\<exists>sv\<in>set svs. refuses st' sv)"
      "\<not> degraded \<longrightarrow> (\<forall>sv\<in>set svs. tripped st1 sv \<longrightarrow> refuses st' sv) \<and> (\<forall>sv\<in>set svs. \<not> refuses st1 sv)" by blast
    have "\<not> refuses st sv" using facts(2) False by simp
    moreover have "\<not> refuses st1 sv' \<Longrightarrow> \<not> refuses st sv'" "tripped st sv' \<Longrightarrow> tripped st1 sv'"
      "tripped st sv \<Longrightarrow> refuses st1 sv" for sv' using facts(3,4) by blast+
    ultimately show ?thesis using facts(1,3) IH by (intro exI [of _ degraded]) auto
  qed
qed (auto simp: ret_def)

lemma preserves_any_open [frame]: "off_breakers view \<Longrightarrow> preserves view (any_breaker_open svs)"
  by (induction svs) (auto intro!: frame)

lemma refuses_known: "refuses st sv \<Longrightarrow> sv \<in> set (map fst (circuit_breakers st))"
  by (auto simp: refuses_def split: option.splits dest!: map_of_SomeD) (metis fst_conv image_eqI)

lemma tripped_known: "tripped st sv \<Longrightarrow> sv \<in> set (map fst (circuit_breakers st))"
  by (auto simp: tripped_def split: option.splits dest!: map_of_SomeD) (metis fst_conv image_eqI)+

text \<open>In automatic mode, a breaker that refuses calls now forces two-phase commit, whatever
  the abort rate and the protocol in use.\<close>

lemma degraded_forces_2pc:
  assumes "protocol_mode orch = ''auto''" and "refuses st sv"
  shows "\<exists>st'. select_protocol orch st = (Inr ''2pc'', st') \<and> current_protocol (collector st') = ''2pc''"
proof -
  let ?any = "any_breaker_open (map fst (circuit_breakers st))"
  obtain q st1 where q0: "?any st = (q, st1)" by (cases "?any st")
  then obtain degraded where d: "q = Inr degraded" using any_open_effect [OF q0] by blast
  then have "degraded" using any_open_effect [OF q0] refuses_known [OF assms(2)] assms(2) by auto
  then have q: "?any st = (Inr True, st1)" using q0 d by simp
  have "preserves collector ?any" by (simp add: frame)
  from preserves_run [OF this q] have "collector st1 = collector st" .
  then show ?thesis using assms(1) q
    by (auto simp: select_protocol_def bindE_def get_state_def set_protocol_def modify_def ret_def)
qed

section \<open>Results\<close>

definition returns :: "('a \<Rightarrow> bool) \<Rightarrow> ('e, 's, 'a) eff \<Rightarrow> bool" where
  "returns good m \<longleftrightarrow> (\<forall>st x st'. m st = (Inr x, st') \<longrightarrow> good x)"

lemma returns_bind: "(\<And>x. returns good (f x)) \<Longrightarrow> returns good (bindE m f)"
  by (auto simp: returns_def bindE_def split: prod.splits sum.splits)

lemma returns_cases:
  "good x \<Longrightarrow> returns good (ret x)"
  "returns good m \<Longrightarrow> returns good k \<Longrightarrow> returns good (if b then m else k)"
  "returns good m \<Longrightarrow> (\<And>x. returns good (f x)) \<Longrightarrow> returns good (case_option m f v)"
  "(\<And>a b. returns good (g a b)) \<Longrightarrow> returns good (case_prod g p)"
  by (simp_all add: returns_def ret_def split: option.split prod.split)

lemma returnsD: "returns good m \<Longrightarrow> m st = (Inr x, st') \<Longrightarrow> good x"
  by (auto simp: returns_def)

definition is_status :: "pyval \<Rightarrow> bool" where
  "is_status x \<longleftrightarrow> x = status_success \<or> (\<exists>reason. x = status_failed reason)"

lemma executors_status: "returns is_status (two_pc_execute cl tr tx s ctx name)" "returns is_status (saga_execute cl tr tx s ctx name)"
  unfolding two_pc_execute_def saga_execute_def
  by (auto intro!: returns_bind returns_cases simp: is_status_def)

lemma status_fields:
  assumes "is_status x"
  shows "result_get (result_set (result_set x ''saga_id'' a) ''protocol'' b) ''saga_id'' PNone = a"
    "result_get (result_set (result_set x ''saga_id'' a) ''protocol'' b) ''protocol'' PNone = b"
    "result_get (result_set (result_set x ''saga_id'' a) ''protocol'' b) ''status'' PNone = result_get x ''status'' PNone"
  using assms by (auto simp: is_status_def result_get_def result_set_def status_success_def status_failed_def dict_get_def)

section \<open>A breaker that opened\<close>

lemma check_effect:
  assumes "check_circuit_breakers steps st = (r, st')"
  shows "\<exists>err. r = Inr err \<and> net st' = net st \<and> map fst (circuit_breakers st') = map fst (circuit_breakers st) \<and>
    (\<forall>sv. tripped st sv \<longrightarrow> tripped st' sv) \<and> ((\<exists>sv\<in>service ` set steps. refuses st sv) \<longrightarrow> err \<noteq> None)"
  using assms
proof (induction steps arbitrary: st)
  case (Cons step steps)
  let ?sv = "service step"
  obtain q st1 where q0: "breaker_is_open ?sv st = (q, st1)" by (cases "breaker_is_open ?sv st")
  then obtain o1 where q: "breaker_is_open ?sv st = (Inr o1, st1)" using ask_clock [OF q0] by (cases q) auto
  note facts = ask_clock [OF q] refuses_ask [OF q] refuses_stays [OF q] tripped_stays [OF q]
  show ?case
  proof (cases o1)
    case True
    then have "r = Inr (Some (''service_'' @ ?sv @ ''_unavailable'')) \<and> st' = st1"
      using Cons.prems q by (simp add: bindE_def ret_def)
    then show ?thesis using facts by auto
  next
    case False
    then have "check_circuit_breakers steps st1 = (r, st')" using Cons.prems q by (simp add: bindE_def)
    from Cons.IH [OF this] obtain err where IH: "r = Inr err" "net st' = net st1"
      "map fst (circuit_breakers st') = map fst (circuit_breakers st1)"
      "\<And>sv. tripped st1 sv \<Longrightarrow> tripped st' sv" "(\<exists>sv\<in>service ` set steps. refuses st1 sv) \<longrightarrow> err \<noteq> None" by blast
    have "\<not> refuses st ?sv" using facts(2) False by simp
    then have "(\<exists>sv\<in>service ` set (step # steps). refuses st sv) \<longrightarrow> (\<exists>sv\<in>service ` set steps. refuses st1 sv)"
      using facts(3) by auto
    then show ?thesis using IH facts(1,4) by auto
  qed
qed (auto simp: ret_def)

text \<open>What a run leaves of the breakers and of the network.\<close>

definition still :: "'n proc \<Rightarrow> 'n proc \<Rightarrow> bool" where
  "still st st' \<longleftrightarrow> net st' = net st \<and> map fst (circuit_breakers st') = map fst (circuit_breakers st) \<and>
     (\<forall>sv. tripped st sv \<longrightarrow> tripped st' sv)"

lemma still_trans: "still st st1 \<Longrightarrow> still st1 st2 \<Longrightarrow> still st st2"
  by (simp add: still_def)

lemma still_frame:
  assumes "preserves net m" "preserves circuit_breakers m" "m st = (r, st')"
  shows "still st st'"
  using preserves_run [OF assms(1,3)] preserves_run [OF assms(2,3)] by (simp add: still_def tripped_def)

lemma check_still: "check_circuit_breakers steps st = (r, st') \<Longrightarrow> still st st'"
  using check_effect by (fastforce simp: still_def)

lemma refused_run:
  assumes "\<exists>sv\<in>service ` set (td_steps tx). refuses st sv"
    and "(if p = ''2pc'' then two_pc_execute cl tr tx s ctx name else saga_execute cl tr tx s ctx name) st = (r, st')"
  shows "still st st' \<and> (\<forall>x. r = Inr x \<longrightarrow> (\<exists>msg. x = status_failed (Str msg)))"
proof -
  obtain q st1 where c: "check_circuit_breakers (td_steps tx) st = (q, st1)" by (cases "check_circuit_breakers (td_steps tx) st")
  obtain msg where msg: "q = Inr (Some msg)" using check_effect [OF c] assms(1) by auto
  let ?stop = "bindE (wal_log_terminal cl s ''FAILED'' None) (\<lambda>_. ret (status_failed (Str msg)))"
  have e: "?stop st1 = (r, st')"
    using assms(2) c msg by (auto simp: two_pc_execute_def saga_execute_def bindE_def split: if_splits)
  have "preserves net ?stop" "preserves circuit_breakers ?stop" by (auto intro!: frame)
  then have "still st1 st'" using e by (rule still_frame)
  moreover have "\<forall>x. r = Inr x \<longrightarrow> x = status_failed (Str msg)"
    using e by (auto simp: bindE_def ret_def split: prod.splits sum.splits)
  ultimately show ?thesis using check_still [OF c] still_trans by blast
qed

lemma select_degraded:
  assumes "protocol_mode orch = ''auto''" "select_protocol orch st = (r, st')" "tripped st sv"
    and "set (map fst (circuit_breakers st)) \<subseteq> svs"
  shows "still st st' \<and> c_clock st' = c_clock st \<and> (\<exists>sv\<in>svs. refuses st' sv) \<and> \<not> isl r"
proof -
  let ?any = "any_breaker_open (map fst (circuit_breakers st))"
  obtain q st1 where q0: "?any st = (q, st1)" by (cases "?any st")
  then obtain degraded where q: "?any st = (Inr degraded, st1)" using any_open_effect [OF q0] by blast
  have eff: "c_clock st1 = c_clock st" "still st st1" using any_open_effect [OF q] by (auto simp: still_def)
  have "(\<exists>sv\<in>set (map fst (circuit_breakers st)). refuses st1 sv)"
    using any_open_effect [OF q] tripped_known [OF assms(3)] assms(3) by (cases degraded) auto
  then have ref: "\<exists>sv\<in>svs. refuses st1 sv" using assms(4) by blast
  let ?m = "if degraded then
        bindE (if current_protocol (collector st) \<noteq> ''2pc'' then set_protocol ''2pc'' else ret ()) (\<lambda>_. ret ''2pc'')
      else let abort_rate = sliding_abort_rate (collector st); current = current_protocol (collector st) in
        bindE (if current = ''2pc'' \<and> 1 / 10 \<le> abort_rate then set_protocol ''saga''
               else if current = ''saga'' \<and> abort_rate \<le> 5 / 100 then set_protocol ''2pc''
               else ret ()) (\<lambda>_.
        bindE get_state (\<lambda>st. ret (current_protocol (collector st))))"
  have m: "?m st1 = (r, st')"
    using assms(1,2) q preserves_run [OF preserves_any_open q, of collector]
    by (simp add: select_protocol_def bindE_def get_state_def)
  have same: "c_clock st' = c_clock st1 \<and> circuit_breakers st' = circuit_breakers st1 \<and> net st' = net st1 \<and> \<not> isl r"
    using m by (auto simp: bindE_def ret_def set_protocol_def modify_def get_state_def Let_def split: if_splits)
  then have same': "refuses st' = refuses st1" "tripped st' = tripped st1" using breakers_cong [of st' st1] by auto
  have "still st1 st'" using same same'(2) by (simp add: still_def)
  then show ?thesis using eff ref same same'(1) still_trans by auto
qed

text \<open>An orchestrated run, step by step.\<close>

definition finish_run :: "redis_client \<Rightarrow> string \<Rightarrow> string \<Rightarrow> rat \<Rightarrow> pyval \<Rightarrow> 'n proc \<Rightarrow> 'n proc" where
  "finish_run cl s p start y st = snd (publish_result cl s (result_set (result_set y ''saga_id'' (Str s)) ''protocol'' (Str p))
     (st\<lparr>collector := record_result (boot_time st + c_clock st) (result_get y ''status'' PNone = Str ''success'') p
        (c_clock st - start) (collector st)\<rparr>))"

lemma execute_inner_run:
  assumes "select_protocol orch st = (Inr p, st1)"
    and "(if p = ''2pc'' then two_pc_execute cl tr tx s ctx name else saga_execute cl tr tx s ctx name)
      (st1\<lparr>collector := (collector st1)\<lparr>current_protocol := p\<rparr>\<rparr>) = (q, st3)"
  shows "execute_inner cl tr orch tx name ctx s st = (case q of Inl e \<Rightarrow> (Inl e, st3)
    | Inr y \<Rightarrow> (Inr (result_set (result_set y ''saga_id'' (Str s)) ''protocol'' (Str p)), finish_run cl s p (c_clock st1) y st3))"
proof -
  let ?st2 = "st1\<lparr>collector := (collector st1)\<lparr>current_protocol := p\<rparr>\<rparr>"
  let ?run = "if p = ''2pc'' then two_pc_execute cl tr tx s ctx name else saga_execute cl tr tx s ctx name"
  let ?rest = "\<lambda>result. bindE monotonic (\<lambda>now. bindE wall_time (\<lambda>wall.
     bindE (modify (\<lambda>st. st\<lparr>collector :=
        record_result wall (result_get result ''status'' PNone = Str ''success'') p (now - c_clock ?st2) (collector st)\<rparr>)) (\<lambda>_.
     let result = result_set (result_set result ''saga_id'' (Str s)) ''protocol'' (Str p) in
     bindE (attempt (publish_result cl s result)) (\<lambda>_. ret result))))"
  have a: "set_protocol p st1 = (Inr (), ?st2)" "monotonic ?st2 = (Inr (c_clock ?st2), ?st2)"
    by (simp_all add: set_protocol_def modify_def monotonic_def)
  have e: "execute_inner cl tr orch tx name ctx s st = bindE ?run ?rest ?st2"
    by (simp only: execute_inner_def bindE_Inr [where m = "select_protocol orch" and s = st, OF assms(1)]
        bindE_Inr [where m = "set_protocol p" and s = st1, OF a(1)] bindE_Inr [where m = monotonic and s = ?st2, OF a(2)])
  show ?thesis
  proof (cases q)
    case (Inl x)
    then show ?thesis
      unfolding e using bindE_Inl [where m = ?run and s = ?st2 and e = x and s' = st3 and f = ?rest] assms(2) by simp
  next
    case (Inr y)
    have "?rest y st3 = (Inr (result_set (result_set y ''saga_id'' (Str s)) ''protocol'' (Str p)), finish_run cl s p (c_clock st1) y st3)"
      by (simp add: finish_run_def bindE_def monotonic_def wall_time_def modify_def Let_def attempt_def ret_def split: prod.split)
    then show ?thesis
      unfolding e Inr using bindE_Inr [where m = ?run and s = ?st2 and x = y and s' = st3 and f = ?rest] assms(2) Inr by simp
  qed
qed

lemma preserves_publish [frame]: "off_line view \<Longrightarrow> preserves view (publish_result cl s r)"
  by (auto simp: publish_result_def intro!: frame)

lemma finish_run_fields:
  "net (finish_run cl s p t y st) = net st" "circuit_breakers (finish_run cl s p t y st) = circuit_breakers st"
  "collector (finish_run cl s p t y st) = record_result (boot_time st + c_clock st) (result_get y ''status'' PNone = Str ''success'') p
     (c_clock st - t) (collector st)"
  by (simp_all add: finish_run_def preserves_publish [of net, unfolded preserves_def]
      preserves_publish [of circuit_breakers, unfolded preserves_def] preserves_publish [of collector, unfolded preserves_def])

lemma execute_degraded:
  assumes "protocol_mode orch = ''auto''" "map_of (definitions orch) name = Some tx"
    and "set (map fst (circuit_breakers st)) \<subseteq> service ` set (td_steps tx)" "tripped st sv"
    and "execute cl tr orch name ctx s st = (r, st')"
  shows "still st st' \<and> (\<forall>x. r = Inr x \<longrightarrow> result_get x ''status'' PNone = Str ''failed'')"
proof -
  obtain q st1 where "select_protocol orch st = (q, st1)" by (cases "select_protocol orch st")
  with select_degraded [OF assms(1) this assms(4,3)] obtain p where
    sel: "select_protocol orch st = (Inr p, st1)" "still st st1" "\<exists>sv\<in>service ` set (td_steps tx). refuses st1 sv"
    by (cases q) auto
  let ?st2 = "st1\<lparr>collector := (collector st1)\<lparr>current_protocol := p\<rparr>\<rparr>"
  let ?run = "if p = ''2pc'' then two_pc_execute cl tr tx s ctx name else saga_execute cl tr tx s ctx name"
  have st2: "still st1 ?st2" "\<exists>sv\<in>service ` set (td_steps tx). refuses ?st2 sv"
    using sel(3) breakers_cong [of ?st2 st1] by (simp_all add: still_def)
  obtain q3 st3 where run: "?run ?st2 = (q3, st3)" by (cases "?run ?st2")
  have ran: "still ?st2 st3 \<and> (\<forall>x. q3 = Inr x \<longrightarrow> (\<exists>msg. x = status_failed (Str msg)))"
    by (rule refused_run [OF st2(2) run])
  note e = execute_inner_run [OF sel(1) run]
  have "still st3 st' \<and> (\<forall>x. r = Inr x \<longrightarrow> result_get x ''status'' PNone = Str ''failed'')"
  proof (cases q3)
    case (Inl e)
    then have "st' = st3" "r = Inl e" using assms(2,5) e by (simp_all add: execute_def)
    then show ?thesis by (simp add: still_def)
  next
    case (Inr y)
    then obtain msg where y: "y = status_failed (Str msg)" using ran by blast
    have "st' = finish_run cl s p (c_clock st1) y st3" "r = Inr (result_set (result_set y ''saga_id'' (Str s)) ''protocol'' (Str p))"
      using assms(2,5) e Inr by (simp_all add: execute_def)
    moreover have "is_status y" "result_get y ''status'' PNone = Str ''failed''"
      using y by (simp_all add: is_status_def result_get_def status_failed_def dict_get_def)
    ultimately show ?thesis by (simp add: status_fields(3) still_def tripped_def finish_run_fields)
  qed
  moreover have "still st st3" using still_trans [OF sel(2) still_trans [OF st2(1)]] ran by blast
  ultimately show ?thesis using still_trans [of st st3 st'] by blast
qed

text \<open>
  A sequence of checkouts of one process, one after the other, at any times, with any behaviour of the
  connection and with the order database changed by others in between.
\<close>

inductive checkouts :: "redis_client \<Rightarrow> 'n transport \<Rightarrow> orchestrator \<Rightarrow> string \<Rightarrow> 'n proc \<Rightarrow> (exn + pyval) list \<Rightarrow> 'n proc \<Rightarrow> bool"
  for cl tr orch name where
  none: "checkouts cl tr orch name st [] st"
| more: "c_clock st \<le> t \<Longrightarrow> execute cl tr orch name ctx s (st\<lparr>c_db := d, c_trips := ts, c_clock := t\<rparr>) = (r, st1) \<Longrightarrow>
    checkouts cl tr orch name st1 rs st' \<Longrightarrow> checkouts cl tr orch name st (r # rs) st'"

lemma checkouts_still:
  assumes "checkouts cl tr orch name st rs st'" "protocol_mode orch = ''auto''" "map_of (definitions orch) name = Some tx"
    and "set (map fst (circuit_breakers st)) \<subseteq> service ` set (td_steps tx)" "tripped st sv"
  shows "still st st' \<and> (\<forall>x. Inr x \<in> set rs \<longrightarrow> result_get x ''status'' PNone = Str ''failed'')"
  using assms(1,4,5)
proof (induction rule: checkouts.induct)
  case (none st)
  then show ?case by (simp add: still_def)
next
  case (more st t ctx s ts d r st1 rs st')
  let ?st = "st\<lparr>c_db := d, c_trips := ts, c_clock := t\<rparr>"
  have same: "still st ?st" "tripped ?st sv" using more.prems(2) by (simp_all add: still_def tripped_def)
  have one: "still ?st st1" "\<forall>x. r = Inr x \<longrightarrow> result_get x ''status'' PNone = Str ''failed''"
    using execute_degraded [OF assms(2,3) _ same(2) more.hyps(2)] more.prems(1) by auto
  have "set (map fst (circuit_breakers st1)) \<subseteq> service ` set (td_steps tx)" "tripped st1 sv"
    using one(1) same(2) more.prems(1) by (simp_all add: still_def)
  from more.IH [OF this] show ?case using one still_trans [OF same(1) still_trans [OF one(1)]] by auto
qed

text \<open>C23 (error): A breaker that opened stays open for good in automatic mode. \<open>_select_protocol\<close> asks
  it first and takes the probe it grants after the recovery timeout; the executor asks again, is refused
  and fails the checkout before it sends anything, so nobody reports on the probe. No later checkout of
  the process gets through, unless a message that was under way when the breaker opened still succeeds.\<close>

theorem open_breaker_never_recovers:
  assumes "protocol_mode orch = ''auto''" and "map_of (definitions orch) name = Some tx"
    and "set (map fst (circuit_breakers st)) \<subseteq> service ` set (td_steps tx)"
    and "map_of (circuit_breakers st) sv = Some b" and "breaker_state b = Open"
    and "checkouts cl tr orch name st rs st'"
  shows "net st' = net st \<and> (\<forall>x. Inr x \<in> set rs \<longrightarrow> result_get x ''status'' PNone = Str ''failed'') \<and>
    (\<exists>b'. map_of (circuit_breakers st') sv = Some b' \<and> breaker_state b' \<noteq> Closed)"
proof -
  have "tripped st sv" using assms(4,5) by (simp add: tripped_def)
  from checkouts_still [OF assms(6,1-3) this] this
  have "net st' = net st" "tripped st' sv" "\<forall>x. Inr x \<in> set rs \<longrightarrow> result_get x ''status'' PNone = Str ''failed''"
    by (simp_all add: still_def)
  then show ?thesis by (auto simp: tripped_def split: option.splits)
qed

section \<open>What the orchestrator remembers\<close>

text \<open>Every checkout that returns is counted once: it is appended to the window the abort
  rate is computed from, as a success exactly when its result says success, and the result names its saga
  and the protocol that ran, which is now the current one.\<close>

lemma execute_counts:
  assumes "quiet collector tr" and "execute_inner cl tr orch tx name ctx s st = (Inr x, st')"
  shows "\<exists>p now. m_results (collector st') = deque_append (window_size (collector st)) (m_results (collector st))
      \<lparr>r_success = (result_get x ''status'' PNone = Str ''success''), r_protocol = p, r_timestamp = now\<rparr> \<and>
    total_success (collector st') + total_failure (collector st') = total_success (collector st) + total_failure (collector st) + 1 \<and>
    result_get x ''saga_id'' PNone = Str s \<and> result_get x ''protocol'' PNone = Str p \<and> current_protocol (collector st') = p"
proof -
  obtain q st1 where sel0: "select_protocol orch st = (q, st1)" by (cases "select_protocol orch st")
  then obtain p where sel: "select_protocol orch st = (Inr p, st1)"
    using assms(2) by (cases q) (auto simp: execute_inner_def bindE_def)
  let ?st2 = "st1\<lparr>collector := (collector st1)\<lparr>current_protocol := p\<rparr>\<rparr>"
  let ?run = "if p = ''2pc'' then two_pc_execute cl tr tx s ctx name else saga_execute cl tr tx s ctx name"
  obtain q3 st3 where run0: "?run ?st2 = (q3, st3)" by (cases "?run ?st2")
  then obtain y where y3: "q3 = Inr y" using assms(2) execute_inner_run [OF sel run0] by (cases q3) auto
  note run = run0 [unfolded y3]
  have x: "x = result_set (result_set y ''saga_id'' (Str s)) ''protocol'' (Str p)" "st' = finish_run cl s p (c_clock st1) y st3"
    using assms(2) execute_inner_run [OF sel run] by simp_all
  have "returns is_status ?run" by (simp add: executors_status)
  note y = returnsD [OF this run]
  have "preserves collector ?run" using assms(1) by (auto intro!: frame)
  from preserves_run [OF this run] have c3: "collector st3 = (collector st1)\<lparr>current_protocol := p\<rparr>" by simp
  have "preserves (\<lambda>st. (collector st)\<lparr>current_protocol := []\<rparr>) (select_protocol orch)"
    unfolding select_protocol_def set_protocol_def
    by (auto intro!: frame preserves_modify simp: Let_def off_breakers_def)
  from preserves_run [OF this sel] have c1: "(collector st1)\<lparr>current_protocol := []\<rparr> = (collector st)\<lparr>current_protocol := []\<rparr>" .
  have "window_size (collector st3) = window_size (collector st)" "m_results (collector st3) = m_results (collector st)"
    "total_success (collector st3) = total_success (collector st)" "total_failure (collector st3) = total_failure (collector st)"
    using c1 c3 by (auto dest: arg_cong [where f = window_size] arg_cong [where f = m_results]
        arg_cong [where f = total_success] arg_cong [where f = total_failure])
  then show ?thesis unfolding x finish_run_fields using c3 status_fields [OF y] by auto
qed

section \<open>Witnesses\<close>

definition shop_orchestrator :: orchestrator where
  "shop_orchestrator = new_orchestrator [\<lparr>td_name = ''checkout'', td_steps = [\<lparr>step_name = ''reserve_stock'',
     service = ''stock'', payload_builder = None\<rparr>]\<rparr>] ''auto''"

text \<open>A process ten seconds after five failures of the stock service; its transport counts the messages.\<close>

definition degraded_proc :: "nat proc" where
  "degraded_proc = (fresh_proc 0)\<lparr>circuit_breakers := [(''stock'', fail_all [0, 0, 0, 0, 0] (new_breaker 5 30))], c_clock := 10\<rparr>"

definition counting_transport :: "nat transport" where
  "counting_transport sv action payload timeout = bindE (modify (\<lambda>st. st\<lparr>net := net st + 1\<rparr>)) (\<lambda>_. throw (TimeoutErr []))"

theorem protocol_hysteresis_witness:
  "select_protocol shop_orchestrator ((fresh_proc ())\<lparr>circuit_breakers := [(''stock'', new_breaker 5 30)],
     collector := record_result 0 False ''2pc'' 1 (new_metrics 100)\<rparr>) =
   (Inr ''saga'', (fresh_proc ())\<lparr>circuit_breakers := [(''stock'', new_breaker 5 30)],
     collector := (record_result 0 False ''2pc'' 1 (new_metrics 100))\<lparr>current_protocol := ''saga''\<rparr>\<rparr>)"
  by (subst protocol_hysteresis)
    (simp_all add: shop_orchestrator_def new_orchestrator_def fresh_proc_def new_breaker_def Let_def sliding_abort_rate_def
      new_metrics_def deque_append_def split: if_splits)

lemma degraded_facts:
  "map_of (circuit_breakers degraded_proc) ''stock'' = Some (fail_all [0, 0, 0, 0, 0] (new_breaker 5 30))"
  "breaker_state (fail_all [0, 0, 0, 0, 0] (new_breaker 5 30)) = Open" "net degraded_proc = 0"
  "set (map fst (circuit_breakers degraded_proc)) = {''stock''}"
  "map_of (definitions shop_orchestrator) ''checkout'' = Some \<lparr>td_name = ''checkout'', td_steps = [\<lparr>step_name = ''reserve_stock'',
     service = ''stock'', payload_builder = None\<rparr>]\<rparr>"
  "protocol_mode shop_orchestrator = ''auto''"
  by (simp_all add: degraded_proc_def fail_all_def record_failure_def new_breaker_def Let_def shop_orchestrator_def
      new_orchestrator_def fresh_proc_def)

theorem open_breaker_never_recovers_witness:
  "\<exists>r st'. checkouts mem_client counting_transport shop_orchestrator ''checkout'' degraded_proc [r] st' \<and> net st' = 0 \<and>
     (\<forall>x. r = Inr x \<longrightarrow> result_get x ''status'' PNone = Str ''failed'')"
proof -
  let ?st = "degraded_proc\<lparr>c_db := empty_keyspace, c_trips := [], c_clock := 100\<rparr>"
  obtain r st' where run: "execute mem_client counting_transport shop_orchestrator ''checkout'' [] ''s'' ?st = (r, st')"
    by (cases "execute mem_client counting_transport shop_orchestrator ''checkout'' [] ''s'' ?st")
  have seq: "checkouts mem_client counting_transport shop_orchestrator ''checkout'' degraded_proc [r] st'"
    by (rule checkouts.more [OF _ run checkouts.none]) (simp add: degraded_proc_def)
  have "set (map fst (circuit_breakers degraded_proc)) \<subseteq> service ` set (td_steps \<lparr>td_name = ''checkout'',
      td_steps = [\<lparr>step_name = ''reserve_stock'', service = ''stock'', payload_builder = None\<rparr>]\<rparr>)"
    unfolding degraded_facts(4) by simp
  from open_breaker_never_recovers [OF degraded_facts(6,5) this degraded_facts(1,2) seq] seq
  show ?thesis by (intro exI [of _ r] exI [of _ st']) (auto simp: degraded_facts(3))
qed

end
