(* ===== verification/Leader.thy ===== *)
theory Leader
  imports Process
begin

text \<open>
  \<open>LeaderElection\<close> of \<open>orchestrator/leader.py\<close>: a lock key with a time to live, taken with
  \<open>SET NX\<close>, renewed and released by scripts that check the owner. The operations of one instance,
  then a step relation of all instances on one database with time passing.
\<close>

section \<open>One instance\<close>

definition LOCK_KEY :: string where "LOCK_KEY = ''orchestrator:leader''"
definition LOCK_TTL :: int where "LOCK_TTL = 5"
definition HEARTBEAT_INTERVAL :: rat where "HEARTBEAT_INTERVAL = 2"

text \<open>An instance of the order service: its process, the leader election, the task of its recovery worker.\<close>

record 'n leader = "'n proc" +
  instance_id :: string
  is_leader :: bool
  heartbeat_task :: bool
  reconciliation_task :: bool

definition renew_script :: "redis \<Rightarrow> string \<Rightarrow> string \<Rightarrow> int \<Rightarrow> reply script" where
  "renew_script rc key owner ttl = bindE (rc (GET key)) (\<lambda>r.
     if r = Bulk (Text owner) then rc (EXPIRE key ttl) else ret (Num 0))"

definition release_script :: "redis \<Rightarrow> string \<Rightarrow> string \<Rightarrow> reply script" where
  "release_script rc key owner = bindE (rc (GET key)) (\<lambda>r.
     if r = Bulk (Text owner) then rc (DEL key) else ret (Num 0))"

definition acquire :: "redis_client \<Rightarrow> ('n leader, bool) py" where
  "acquire cl = bindE get_state (\<lambda>st.
     bindE (redis_call cl (cl_rc cl (SET LOCK_KEY (Text (instance_id st)) True (Some LOCK_TTL)))) (\<lambda>acquired.
     if acquired = Status then bindE (modify (\<lambda>st. st\<lparr>is_leader := True, heartbeat_task := True\<rparr>)) (\<lambda>_. ret True)
     else ret False))"

text \<open>
  The body of \<open>_heartbeat_loop\<close> after its sleep; the result says whether the loop goes on.
\<close>

definition heartbeat_renew :: "redis_client \<Rightarrow> ('n leader, bool) py" where
  "heartbeat_renew cl = bindE get_state (\<lambda>st. try_except
     (bindE (redis_call cl (renew_script (cl_rc cl) LOCK_KEY (instance_id st) LOCK_TTL)) (\<lambda>result.
      if result = Num 0 then bindE (modify (\<lambda>st. st\<lparr>is_leader := False\<rparr>)) (\<lambda>_. ret False) else ret True))
     (\<lambda>e. if is_exception e then Some (bindE (modify (\<lambda>st. st\<lparr>is_leader := False\<rparr>)) (\<lambda>_. ret False)) else None))"

definition heartbeat_turn :: "redis_client \<Rightarrow> ('n leader, bool) py" where
  "heartbeat_turn cl = bindE (async_sleep HEARTBEAT_INTERVAL) (\<lambda>_. heartbeat_renew cl)"

definition release :: "redis_client \<Rightarrow> ('n leader, unit) py" where
  "release cl = bindE (modify (\<lambda>st. st\<lparr>heartbeat_task := False\<rparr>)) (\<lambda>_. bindE get_state (\<lambda>st.
     if is_leader st then bindE (redis_call cl (release_script (cl_rc cl) LOCK_KEY (instance_id st))) (\<lambda>_.
       modify (\<lambda>st. st\<lparr>is_leader := False\<rparr>))
     else ret ()))"

text \<open>\<open>wait_for_leadership\<close>, where the stop event is set after so many turns.\<close>

fun wait_for_leadership :: "redis_client \<Rightarrow> nat \<Rightarrow> ('n leader, unit) py" where
  "wait_for_leadership cl 0 = ret ()"
| "wait_for_leadership cl (Suc turns) = bindE (acquire cl) (\<lambda>ok.
     if ok then ret () else bindE (async_sleep 2) (\<lambda>_. wait_for_leadership cl turns))"

section \<open>All instances\<close>

text \<open>
  Time passes in the database: keys whose time to live is over disappear.
\<close>

definition elapse :: "int \<Rightarrow> keyspace \<Rightarrow> keyspace" where
  "elapse n d = \<lparr>entries = (\<lambda>k. case expires d k of Some t \<Rightarrow> if t \<le> n then None else entries d k | None \<Rightarrow> entries d k),
     expires = (\<lambda>k. case expires d k of Some t \<Rightarrow> if t \<le> n then None else Some (t - n) | None \<Rightarrow> None)\<rparr>"

text \<open>
  The calls of an instance travel: the server carries one out at one moment, the instance goes on with its reply at a
  later one, in whatever order the replies come. A call in flight keeps what was asked, when the server did it, and the
  state it ran on.
\<close>

datatype lock_op = Acquire | Heartbeat | Release

fun lock_call :: "redis_client \<Rightarrow> lock_op \<Rightarrow> (unit leader, bool) py" where
  "lock_call cl Acquire = acquire cl"
| "lock_call cl Heartbeat = heartbeat_renew cl"
| "lock_call cl Release = bindE (release cl) (\<lambda>_. ret False)"

text \<open>
  \<open>believes\<close> and \<open>beats\<close> are \<open>is_leader\<close> and \<open>heartbeat_task\<close> of each instance; \<open>renewed i\<close> is the time at which the
  server carried out the last call whose reply told \<open>i\<close> that it holds the lock.
\<close>

record cluster =
  cstore :: keyspace
  ctime :: int
  believes :: "string \<Rightarrow> bool"
  beats :: "string \<Rightarrow> bool"
  renewed :: "string \<Rightarrow> int"
  in_flight :: "string \<Rightarrow> (lock_op \<times> int \<times> unit leader) list"

definition seen_by :: "string \<Rightarrow> cluster \<Rightarrow> unit leader \<Rightarrow> unit leader" where
  "seen_by i c st = st\<lparr>instance_id := i, is_leader := believes c i, heartbeat_task := beats c i\<rparr>"

definition carry_out :: "string \<Rightarrow> lock_op \<Rightarrow> unit leader \<Rightarrow> unit leader \<Rightarrow> cluster \<Rightarrow> cluster" where
  "carry_out i asked st st' c = c\<lparr>cstore := c_db st', in_flight := (in_flight c)(i := (asked, ctime c, st) # in_flight c i)\<rparr>"

definition go_on :: "string \<Rightarrow> lock_op \<times> int \<times> unit leader \<Rightarrow> exn + bool \<Rightarrow> unit leader \<Rightarrow> cluster \<Rightarrow> cluster" where
  "go_on i x r st' c = c\<lparr>believes := (believes c)(i := is_leader st'), beats := (beats c)(i := heartbeat_task st'),
     renewed := (if r = Inr True then (renewed c)(i := fst (snd x)) else renewed c),
     in_flight := (in_flight c)(i := remove1 x (in_flight c i))\<rparr>"

text \<open>
  Which calls an instance can make: only a running heartbeat renews; a release comes after the heartbeat and whatever
  else was in flight has been cancelled, and nothing is acquired meanwhile.
\<close>

fun may_call :: "lock_op \<Rightarrow> string \<Rightarrow> cluster \<Rightarrow> bool" where
  "may_call Acquire i c \<longleftrightarrow> (\<forall>x\<in>set (in_flight c i). fst x \<noteq> Release)"
| "may_call Heartbeat i c \<longleftrightarrow> beats c i"
| "may_call Release i c \<longleftrightarrow> \<not> beats c i \<and> in_flight c i = []"

inductive cluster_step :: "redis_client \<Rightarrow> cluster \<Rightarrow> cluster \<Rightarrow> bool" for cl where
  tick: "0 \<le> n \<Longrightarrow> cluster_step cl c (c\<lparr>cstore := elapse n (cstore c), ctime := ctime c + n\<rparr>)"
| executed: "may_call asked i c \<Longrightarrow> c_db st = cstore c \<Longrightarrow> lock_call cl asked (seen_by i c st) = (r, st') \<Longrightarrow>
    cluster_step cl c (carry_out i asked st st' c)"
| replied: "(asked, t, st) \<in> set (in_flight c i) \<Longrightarrow> lock_call cl asked (seen_by i c st) = (r, st') \<Longrightarrow>
    cluster_step cl c (go_on i (asked, t, st) r st' c)"
| cancelled: "cluster_step cl c (c\<lparr>beats := (beats c)(i := False), in_flight := (in_flight c)(i := [])\<rparr>)"
| crash: "cluster_step cl c (c\<lparr>believes := (believes c)(i := False), beats := (beats c)(i := False), in_flight := (in_flight c)(i := [])\<rparr>)"
| other: "entries d LOCK_KEY = entries (cstore c) LOCK_KEY \<Longrightarrow> expires d LOCK_KEY = expires (cstore c) LOCK_KEY \<Longrightarrow>
    cluster_step cl c (c\<lparr>cstore := d\<rparr>)"

inductive cluster_reaches :: "redis_client \<Rightarrow> cluster \<Rightarrow> cluster \<Rightarrow> bool" for cl where
  start: "cluster_reaches cl c c"
| step: "cluster_reaches cl c c1 \<Longrightarrow> cluster_step cl c1 c2 \<Longrightarrow> cluster_reaches cl c c2"

lemma cluster_reaches_trans:
  assumes "cluster_reaches cl a b" "cluster_reaches cl b c"
  shows "cluster_reaches cl a c"
  using assms(2,1) by (induction rule: cluster_reaches.induct) (auto intro: cluster_reaches.step)

text \<open>The lease of an instance: it believes to lead, its heartbeat runs, and its last confirmation is younger than the lock's life.\<close>

definition lease :: "cluster \<Rightarrow> string \<Rightarrow> bool" where
  "lease c i \<longleftrightarrow> believes c i \<and> beats c i \<and> ctime c < renewed c i + LOCK_TTL"

text \<open>A confirmation of time \<open>t\<close> is secured while the lock names the instance at least as long as the confirmation lasts.\<close>

definition secured :: "cluster \<Rightarrow> string \<Rightarrow> int \<Rightarrow> bool" where
  "secured c i t \<longleftrightarrow> t \<le> ctime c \<and> (ctime c < t + LOCK_TTL \<longrightarrow> entries (cstore c) LOCK_KEY = Some (RStr (Text i)) \<and>
     (\<exists>e. expires (cstore c) LOCK_KEY = Some e \<and> t + LOCK_TTL - ctime c \<le> e))"

definition confirms_lock :: "redis_client \<Rightarrow> string \<Rightarrow> lock_op \<times> int \<times> unit leader \<Rightarrow> bool" where
  "confirms_lock cl i x \<longleftrightarrow> (case x of (asked, t, st) \<Rightarrow> \<exists>l b. fst (lock_call cl asked
     (st\<lparr>instance_id := i, is_leader := l, heartbeat_task := b\<rparr>)) = Inr True)"

definition cluster_inv :: "redis_client \<Rightarrow> cluster \<Rightarrow> bool" where
  "cluster_inv cl c \<longleftrightarrow> (\<forall>i. (lease c i \<longrightarrow> secured c i (renewed c i)) \<and>
     (\<forall>x\<in>set (in_flight c i). confirms_lock cl i x \<longrightarrow> secured c i (fst (snd x))))"

section \<open>The operations on the lock\<close>

lemma put_lock [simp]: "entries (set_ttl k t (put k v d)) k = Some v" "expires (set_ttl k t (put k v d)) k = t"
  by simp_all

context redis_server begin

lemma lock_set: "(\<exists>x. entries d LOCK_KEY = Some x \<and> rc (SET LOCK_KEY (Text i) True (Some LOCK_TTL)) d = (Inr Nil, d)) \<or>
    entries d LOCK_KEY = None \<and> rc (SET LOCK_KEY (Text i) True (Some LOCK_TTL)) d =
      (Inr Status, set_ttl LOCK_KEY (Some LOCK_TTL) (put LOCK_KEY (RStr (Text i)) d))"
  by (cases "entries d LOCK_KEY") (auto simp: set_nx_ex LOCK_TTL_def)

lemma lock_renew: "(entries d LOCK_KEY = Some (RStr (Text i)) \<and> renew_script rc LOCK_KEY i LOCK_TTL d = (Inr (Num 1), set_ttl LOCK_KEY (Some LOCK_TTL) d)) \<or>
    entries d LOCK_KEY \<noteq> Some (RStr (Text i)) \<and> snd (renew_script rc LOCK_KEY i LOCK_TTL d) = d \<and>
      (fst (renew_script rc LOCK_KEY i LOCK_TTL d) = Inr (Num 0) \<or> isl (fst (renew_script rc LOCK_KEY i LOCK_TTL d)))"
  by (auto simp: renew_script_def bindE_def ret_def get text_of_def expire LOCK_TTL_def bulk_def split: option.splits rval.splits)

lemma lock_release: "snd (release_script rc LOCK_KEY i d) = d \<or>
    entries d LOCK_KEY = Some (RStr (Text i)) \<and> snd (release_script rc LOCK_KEY i d) = remove LOCK_KEY d"
  by (auto simp: release_script_def bindE_def ret_def get text_of_def del bulk_def split: option.splits rval.splits)

end

text \<open>What a call to the server leaves of the instance.\<close>

lemma redis_call_leader:
  "redis_call cl sc (st :: 'n leader) = (r, st') \<Longrightarrow> instance_id st' = instance_id st \<and> is_leader st' = is_leader st \<and>
     (c_db st' = c_db st \<or> c_db st' = snd (sc (c_db st))) \<and>
     (\<forall>x. r = Inr x \<longrightarrow> sc (c_db st) = (Inr x, c_db st')) \<and> (\<forall>e. r = Inl e \<longrightarrow> is_exception e)"
  by (auto simp: redis_call_def Let_def after_trip_def split: fate.splits nat.splits sum.splits prod.splits)

lemma acquire_cases:
  assumes "redis_server (cl_rc cl)" "acquire cl st = (r, st')"
  shows "(c_db st' = c_db st \<and> is_leader st' = is_leader st \<and> r \<noteq> Inr True) \<or>
    (entries (c_db st) LOCK_KEY = None \<and>
     c_db st' = set_ttl LOCK_KEY (Some LOCK_TTL) (put LOCK_KEY (RStr (Text (instance_id st))) (c_db st)) \<and>
     (r = Inr True \<and> is_leader st' \<or> r \<noteq> Inr True \<and> is_leader st' = is_leader st))"
proof -
  let ?sc = "cl_rc cl (SET LOCK_KEY (Text (instance_id st)) True (Some LOCK_TTL))"
  obtain q st1 where q: "redis_call cl ?sc st = (q, st1)" by (cases "redis_call cl ?sc st")
  note c = redis_call_leader [OF q]
  have st': "r = (case q of Inl e \<Rightarrow> Inl e | Inr x \<Rightarrow> Inr (x = Status))" "c_db st' = c_db st1"
    "is_leader st' = (if q = Inr Status then True else is_leader st1)"
    using assms(2) q by (auto simp: acquire_def get_state_def modify_def bindE_def ret_def split: sum.splits if_splits)
  show ?thesis
    using redis_server.lock_set [OF assms(1), of "c_db st" "instance_id st"] c st'
    by (cases q) auto
qed

lemma heartbeat_cases:
  assumes "redis_server (cl_rc cl)" "heartbeat_renew cl st = (r, st')"
  shows "(r = Inr True \<and> is_leader st' = is_leader st \<and> entries (c_db st) LOCK_KEY = Some (RStr (Text (instance_id st))) \<and>
      c_db st' = set_ttl LOCK_KEY (Some LOCK_TTL) (c_db st)) \<or>
    (r \<noteq> Inr True \<and> \<not> is_leader st' \<and> (c_db st' = c_db st \<or>
       entries (c_db st) LOCK_KEY = Some (RStr (Text (instance_id st))) \<and> c_db st' = set_ttl LOCK_KEY (Some LOCK_TTL) (c_db st)))"
proof -
  let ?sc = "renew_script (cl_rc cl) LOCK_KEY (instance_id st) LOCK_TTL"
  obtain q st1 where q: "redis_call cl ?sc st = (q, st1)" by (cases "redis_call cl ?sc st")
  note c = redis_call_leader [OF q]
  have st': "r = Inr (case q of Inl e \<Rightarrow> False | Inr x \<Rightarrow> x \<noteq> Num 0)" "c_db st' = c_db st1"
    "is_leader st' = (case q of Inl e \<Rightarrow> False | Inr x \<Rightarrow> x \<noteq> Num 0 \<and> is_leader st1)"
    using assms(2) q c
    by (auto simp: heartbeat_renew_def get_state_def modify_def bindE_def ret_def try_except_def split: sum.splits if_splits)
  show ?thesis
    using redis_server.lock_renew [OF assms(1), of "c_db st" "instance_id st"] c st'
    by (cases q) auto
qed

lemma release_cases:
  assumes "redis_server (cl_rc cl)" "release cl st = (r, st')"
  shows "c_db st' = c_db st \<or> entries (c_db st) LOCK_KEY = Some (RStr (Text (instance_id st))) \<and> c_db st' = remove LOCK_KEY (c_db st)"
proof -
  let ?st = "st\<lparr>heartbeat_task := False\<rparr>" and ?sc = "release_script (cl_rc cl) LOCK_KEY (instance_id st)"
  obtain q st1 where q: "redis_call cl ?sc ?st = (q, st1)" by (cases "redis_call cl ?sc ?st")
  have "c_db st' \<in> {c_db st, c_db st1}"
    using assms(2) q by (auto simp: release_def get_state_def modify_def bindE_def ret_def split: sum.splits if_splits)
  then show ?thesis
    using redis_call_leader [OF q] redis_server.lock_release [OF assms(1), of "instance_id st" "c_db st"] by auto
qed

text \<open>What a call does to the lock and how it ends do not depend on what the instance believes meanwhile.\<close>

lemma redis_call_blind:
  "redis_call cl sc (st\<lparr>is_leader := l, heartbeat_task := b\<rparr> :: 'n leader) =
     (case redis_call cl sc st of (r, st') \<Rightarrow> (r, st'\<lparr>is_leader := l, heartbeat_task := b\<rparr>))"
  by (cases st rule: leader.cases)
    (simp add: redis_call_def after_trip_def Let_def split: fate.split nat.split sum.split prod.split)

lemma acquire_blind:
  "fst (acquire cl (st\<lparr>is_leader := l, heartbeat_task := b\<rparr>)) = fst (acquire cl st)"
  by (simp add: acquire_def bindE_def get_state_def modify_def ret_def redis_call_blind split: prod.split sum.split)

lemma heartbeat_blind:
  "fst (heartbeat_renew cl (st\<lparr>is_leader := l, heartbeat_task := b\<rparr>)) = fst (heartbeat_renew cl st)"
  by (simp add: heartbeat_renew_def try_except_def bindE_def get_state_def modify_def ret_def redis_call_blind split: prod.split sum.split)

section \<open>Mutual exclusion\<close>

lemma lock_call_store:
  assumes "redis_server (cl_rc cl)" "lock_call cl asked st = (r, st')"
  shows "(c_db st' = c_db st \<and> r \<noteq> Inr True) \<or>
    (asked = Acquire \<and> entries (c_db st) LOCK_KEY = None \<and>
      c_db st' = set_ttl LOCK_KEY (Some LOCK_TTL) (put LOCK_KEY (RStr (Text (instance_id st))) (c_db st))) \<or>
    (entries (c_db st) LOCK_KEY = Some (RStr (Text (instance_id st))) \<and>
      (asked = Heartbeat \<and> c_db st' = set_ttl LOCK_KEY (Some LOCK_TTL) (c_db st) \<or>
       asked = Release \<and> r \<noteq> Inr True \<and> c_db st' = remove LOCK_KEY (c_db st)))"
proof (cases asked)
  case Acquire
  then have "acquire cl st = (r, st')" using assms(2) by simp
  from acquire_cases [OF assms(1) this] show ?thesis using Acquire by auto
next
  case Heartbeat
  then have "heartbeat_renew cl st = (r, st')" using assms(2) by simp
  from heartbeat_cases [OF assms(1) this] show ?thesis using Heartbeat by auto
next
  case Release
  then obtain q where "release cl st = (q, st')" "r \<noteq> Inr True"
    using assms(2) by (auto simp: bindE_def ret_def split: prod.splits sum.splits)
  then show ?thesis using release_cases [OF assms(1)] Release by blast
qed

text \<open>Only a confirmation makes an instance a leader or starts its heartbeat.\<close>

lemma redis_call_local:
  "redis_call cl sc (st :: 'n leader) = (r, st') \<Longrightarrow> is_leader st' = is_leader st \<and> heartbeat_task st' = heartbeat_task st"
  by (auto simp: redis_call_def Let_def after_trip_def split: fate.splits nat.splits sum.splits prod.splits)

lemma lock_call_local:
  assumes "lock_call cl asked st = (r, st')" "r \<noteq> Inr True"
  shows "(is_leader st' \<longrightarrow> is_leader st) \<and> (heartbeat_task st' \<longrightarrow> heartbeat_task st)"
  using assms
  by (cases asked) (auto simp: acquire_def heartbeat_renew_def release_def get_state_def modify_def bindE_def ret_def try_except_def
      split: prod.splits sum.splits if_splits dest!: redis_call_local)

lemma confirms_lock_call:
  assumes "confirms_lock cl i (asked, t, st)" "lock_call cl asked (seen_by i c st) = (r, st')"
  shows "r = Inr True"
proof -
  obtain l b where "fst (lock_call cl asked (st\<lparr>instance_id := i, is_leader := l, heartbeat_task := b\<rparr>)) = Inr True"
    using assms(1) by (auto simp: confirms_lock_def)
  moreover have "fst (lock_call cl asked (st\<lparr>instance_id := i, is_leader := l, heartbeat_task := b\<rparr>)) = fst (lock_call cl asked (st\<lparr>instance_id := i\<rparr>))"
    if "asked \<noteq> Release" for l b
    using that by (cases asked) (simp_all add: acquire_blind [where st = "st\<lparr>instance_id := i\<rparr>"] heartbeat_blind [where st = "st\<lparr>instance_id := i\<rparr>"])
  moreover have "asked \<noteq> Release"
    using calculation(1) by (cases asked) (auto simp: bindE_def ret_def split: prod.splits sum.splits)
  ultimately show ?thesis using assms(2) unfolding seen_by_def by (metis fst_conv)
qed

text \<open>What keeps a confirmation secured.\<close>

lemma secured_frame:
  "secured c i t \<Longrightarrow> ctime c' = ctime c \<Longrightarrow> entries (cstore c') LOCK_KEY = entries (cstore c) LOCK_KEY \<Longrightarrow>
     expires (cstore c') LOCK_KEY = expires (cstore c) LOCK_KEY \<Longrightarrow> secured c' i t"
  by (simp add: secured_def)

lemma secured_tick: "secured c i t \<Longrightarrow> 0 \<le> n \<Longrightarrow> secured (c\<lparr>cstore := elapse n (cstore c), ctime := ctime c + n\<rparr>) i t"
  by (auto simp: secured_def elapse_def)

lemma secured_call:
  assumes "redis_server (cl_rc cl)" "c_db st = cstore c" "lock_call cl asked (seen_by i c st) = (r, st')"
    and "secured c j t" "asked = Release \<Longrightarrow> j \<noteq> i"
  shows "secured (carry_out i asked st st' c) j t"
  using lock_call_store [OF assms(1,3)] assms(2,4,5)
  by (auto simp: secured_def carry_out_def seen_by_def)

lemma secured_confirmed:
  assumes "redis_server (cl_rc cl)" "c_db st = cstore c" "lock_call cl asked (seen_by i c st) = (r, st')" "r = Inr True"
  shows "secured (carry_out i asked st st' c) i (ctime c)"
  using lock_call_store [OF assms(1,3)] assms(2,4)
  by (auto simp: secured_def carry_out_def seen_by_def)

lemma cluster_inv_step:
  assumes "redis_server (cl_rc cl)" and "cluster_step cl c c'" and "cluster_inv cl c"
  shows "cluster_inv cl c'"
  using assms(2,3)
proof (induction rule: cluster_step.induct)
  case (tick n c)
  have "lease c i" if "lease (c\<lparr>cstore := elapse n (cstore c), ctime := ctime c + n\<rparr>) i" for i
    using that tick(1) by (simp add: lease_def)
  then show ?case using tick secured_tick by (simp add: cluster_inv_def)
next
  case (executed asked i c st r st')
  let ?c = "carry_out i asked st st' c"
  have keep: "secured ?c j t" if "secured c j t" "asked = Release \<Longrightarrow> j \<noteq> i" for j t
    using secured_call [OF assms(1) executed(2,3) that] .
  have "secured ?c j (renewed ?c j)" if "lease ?c j" for j
  proof -
    have "lease c j" using that by (simp add: lease_def carry_out_def)
    then have "secured c j (renewed c j)" "asked = Release \<Longrightarrow> j \<noteq> i"
      using executed(1,4) by (auto simp: cluster_inv_def lease_def)
    then show ?thesis using keep by (simp add: carry_out_def)
  qed
  moreover have "secured ?c j (fst (snd x))" if x: "x \<in> set (in_flight ?c j)" "confirms_lock cl j x" for j x
  proof (cases "j = i \<and> x = (asked, ctime c, st)")
    case True
    then show ?thesis using secured_confirmed [OF assms(1) executed(2,3)] confirms_lock_call [OF _ executed(3)] x(2) by simp
  next
    case False
    then have "x \<in> set (in_flight c j)" using x(1) by (auto simp: carry_out_def split: if_splits)
    moreover from this have "asked = Release \<Longrightarrow> j \<noteq> i" using executed(1) by auto
    ultimately show ?thesis using keep executed(4) x(2) by (simp add: cluster_inv_def)
  qed
  ultimately show ?case by (simp add: cluster_inv_def)
next
  case (replied asked t st c i r st')
  let ?x = "(asked, t, st)" and ?c = "go_on i (asked, t, st) r st' c"
  have keep: "secured c j u \<Longrightarrow> secured ?c j u" for j u by (rule secured_frame) (simp_all add: go_on_def)
  have "secured ?c j (renewed ?c j)" if l: "lease ?c j" for j
  proof (cases "j = i \<and> r = Inr True")
    case True
    have "confirms_lock cl i ?x" using replied(2) True unfolding confirms_lock_def seen_by_def prod.case
      by (intro exI [of _ "believes c i"] exI [of _ "beats c i"]) simp
    moreover have "\<forall>x\<in>set (in_flight c i). confirms_lock cl i x \<longrightarrow> secured c i (fst (snd x))" using replied(3) by (simp add: cluster_inv_def)
    ultimately have "secured c i t" using replied(1) by fastforce
    then show ?thesis using keep True by (simp add: go_on_def)
  next
    case False
    then have "lease c j" using l lock_call_local [OF replied(2)] by (auto simp: lease_def go_on_def seen_by_def split: if_splits)
    then show ?thesis using keep replied(3) False by (auto simp: cluster_inv_def go_on_def)
  qed
  moreover have "secured ?c j (fst (snd x))" if "x \<in> set (in_flight ?c j)" "confirms_lock cl j x" for j x
  proof -
    have "x \<in> set (in_flight c j)" using that(1) by (auto simp: go_on_def split: if_splits dest: subsetD [OF set_remove1_subset])
    then show ?thesis using that(2) keep replied(3) by (simp add: cluster_inv_def)
  qed
  ultimately show ?case by (simp add: cluster_inv_def)
next
  case (cancelled c i)
  then show ?case by (auto simp: cluster_inv_def lease_def secured_def)
next
  case (crash c i)
  then show ?case by (auto simp: cluster_inv_def lease_def secured_def)
next
  case (other d c)
  have "secured c j t \<Longrightarrow> secured (c\<lparr>cstore := d\<rparr>) j t" for j t by (rule secured_frame) (simp_all add: other)
  then show ?case using other(3) by (simp add: cluster_inv_def lease_def)
qed

text \<open>C14 (safety): Of any number of instances that acquire, renew and release, with calls and replies under way for any time
  and in any order, lost replies, cancelled calls, crashes and time passing, at most one holds a lease: it believes to
  lead, its heartbeat runs, and the last reply that told it so is of a call the server carried out less than
  \<open>LOCK_TTL\<close> seconds ago. The lock key then names it.\<close>

theorem leader_exclusive:
  assumes "redis_server (cl_rc cl)" and "\<And>i. \<not> believes c i \<and> in_flight c i = []" and "cluster_reaches cl c c'"
    and "lease c' i" and "lease c' j"
  shows "i = j \<and> entries (cstore c') LOCK_KEY = Some (RStr (Text i))"
proof -
  have "cluster_inv cl c'"
    using assms(3,2)
  proof (induction rule: cluster_reaches.induct)
    case (start c)
    then show ?case by (simp add: cluster_inv_def lease_def)
  next
    case (step c c1 c2)
    then show ?case using cluster_inv_step [OF assms(1)] by blast
  qed
  then have "secured c' i (renewed c' i)" "secured c' j (renewed c' j)" using assms(4,5) by (simp_all add: cluster_inv_def)
  then show ?thesis using assms(4,5) by (auto simp: secured_def lease_def)
qed

text \<open>The lock is not reentrant: its holder is refused like anybody else.\<close>

lemma acquire_not_reentrant:
  assumes "redis_server (cl_rc cl)" and "online st" and "is_leader st"
    and "entries (c_db st) LOCK_KEY = Some (RStr (Text (instance_id st)))"
  shows "\<exists>st'. acquire cl st = (Inr False, st') \<and> is_leader st' \<and> c_db st' = c_db st"
proof -
  let ?sc = "cl_rc cl (SET LOCK_KEY (Text (instance_id st)) True (Some LOCK_TTL))"
  have "?sc (c_db st) = (Inr Nil, c_db st)"
    using redis_server.lock_set [OF assms(1), of "c_db st" "instance_id st"] assms(4) by simp
  then have "redis_call cl ?sc st = (Inr Nil, (after_trip st)\<lparr>c_db := c_db st\<rparr>)"
    using redis_call_online [of st ?sc] assms(2) by blast
  then show ?thesis using assms(3) by (simp add: acquire_def get_state_def bindE_def ret_def after_trip_def)
qed

subsection \<open>Witnesses\<close>

definition candidate :: "string \<Rightarrow> unit leader" where
  "candidate i = \<lparr>c_db = empty_keyspace, c_replica = None, c_trips = [], c_clock = 0, boot_time = 1000, net = (),
     circuit_breakers = [], collector = new_metrics 100, instance_id = i, is_leader = False, heartbeat_task = False, reconciliation_task = False\<rparr>"

definition idle_cluster :: cluster where
  "idle_cluster = \<lparr>cstore = empty_keyspace, ctime = 0, believes = (\<lambda>_. False), beats = (\<lambda>_. False),
     renewed = (\<lambda>_. 0), in_flight = (\<lambda>_. [])\<rparr>"

lemma candidate_acquires:
  "acquire mem_client (candidate i) = (Inr True, (candidate i)\<lparr>c_db := set_ttl LOCK_KEY (Some LOCK_TTL) (put LOCK_KEY (RStr (Text i)) empty_keyspace),
     is_leader := True, heartbeat_task := True\<rparr>)"
  by (simp add: acquire_def candidate_def mem_client_def get_state_def modify_def bindE_def ret_def redis_call_def next_trip_def
      after_trip_def empty_keyspace_def LOCK_TTL_def Let_def)

text \<open>Instance \<open>i\<close> asks for a free lock and gets the reply at once.\<close>

definition lock_of :: "string \<Rightarrow> keyspace \<Rightarrow> keyspace" where
  "lock_of i d = set_ttl LOCK_KEY (Some LOCK_TTL) (put LOCK_KEY (RStr (Text i)) d)"

definition led_by :: "string \<Rightarrow> cluster \<Rightarrow> cluster" where
  "led_by i c = c\<lparr>cstore := lock_of i (cstore c), believes := (believes c)(i := True), beats := (beats c)(i := True),
     renewed := (renewed c)(i := ctime c)\<rparr>"

lemma free_lock_acquired:
  assumes "entries d LOCK_KEY = None"
  shows "acquire mem_client ((candidate i)\<lparr>c_db := d, is_leader := l, heartbeat_task := b\<rparr>) =
    (Inr True, (candidate i)\<lparr>c_db := lock_of i d, is_leader := True, heartbeat_task := True\<rparr>)"
  using assms
  by (simp add: acquire_def candidate_def mem_client_def get_state_def modify_def bindE_def ret_def redis_call_def next_trip_def
      after_trip_def LOCK_TTL_def lock_of_def Let_def)

lemma led_by_reached:
  assumes "entries (cstore c) LOCK_KEY = None" "in_flight c i = []"
  shows "cluster_reaches mem_client c (led_by i c)"
proof -
  let ?st = "(candidate i)\<lparr>c_db := cstore c\<rparr>" and ?st' = "(candidate i)\<lparr>c_db := lock_of i (cstore c), is_leader := True, heartbeat_task := True\<rparr>"
  let ?c1 = "carry_out i Acquire ?st ?st' c"
  have seen: "seen_by i c' ?st = (candidate i)\<lparr>c_db := cstore c, is_leader := believes c' i, heartbeat_task := beats c' i\<rparr>" for c'
    by (simp add: seen_by_def candidate_def)
  have call: "lock_call mem_client Acquire (seen_by i c' ?st) = (Inr True, ?st')" for c'
    using free_lock_acquired [OF assms(1)] by (simp add: seen)
  have 1: "cluster_step mem_client c ?c1" by (rule cluster_step.executed [OF _ _ call]) (simp_all add: assms(2))
  have 2: "cluster_step mem_client ?c1 (go_on i (Acquire, ctime c, ?st) (Inr True) ?st' ?c1)"
    by (rule cluster_step.replied [OF _ call]) (simp add: carry_out_def)
  have "go_on i (Acquire, ctime c, ?st) (Inr True) ?st' ?c1 = led_by i c"
    using assms(2) by (cases c) (simp add: go_on_def carry_out_def led_by_def fun_upd_idem)
  with cluster_reaches.step [OF cluster_reaches.step [OF cluster_reaches.start 1] 2] show ?thesis by simp
qed

theorem leader_exclusive_witness:
  "\<exists>c. cluster_reaches mem_client idle_cluster c \<and> lease c ''a'' \<and> \<not> lease c ''b'' \<and>
     entries (cstore c) LOCK_KEY = Some (RStr (Text ''a''))"
proof -
  have rs: "redis_server (cl_rc mem_client)" by (simp add: mem_client_def mem_redis)
  let ?c = "led_by ''a'' idle_cluster"
  have c: "cluster_reaches mem_client idle_cluster ?c" "lease ?c ''a''"
    by (rule led_by_reached) (simp_all add: idle_cluster_def empty_keyspace_def lease_def led_by_def LOCK_TTL_def)
  have none: "\<And>i. \<not> believes idle_cluster i \<and> in_flight idle_cluster i = []" by (simp add: idle_cluster_def)
  have "\<not> lease ?c ''b''" using leader_exclusive [OF rs none c, of "''b''"] by auto
  then show ?thesis using c leader_exclusive [OF rs none c c(2)] by blast
qed

section \<open>A release whose reply is lost\<close>

text \<open>Instance a leads; it stops and releases the lock, but the connection breaks after the script has run.\<close>

definition broken_trip :: trip where
  "broken_trip = \<lparr>t_fate = Broken 1, t_took = 0, t_error = ''reset''\<rparr>"

definition after_lost_release :: cluster where
  "after_lost_release = (let c = led_by ''a'' idle_cluster in
     c\<lparr>cstore := remove LOCK_KEY (cstore c), beats := (beats c)(''a'' := False)\<rparr>)"

lemma lost_release_reached: "cluster_reaches mem_client idle_cluster after_lost_release"
proof -
  let ?c0 = "led_by ''a'' idle_cluster"
  let ?c1 = "?c0\<lparr>beats := (beats ?c0)(''a'' := False), in_flight := (in_flight ?c0)(''a'' := [])\<rparr>"
  let ?st = "(candidate ''a'')\<lparr>c_db := cstore ?c0, c_trips := [broken_trip]\<rparr>"
  let ?st' = "(candidate ''a'')\<lparr>c_db := remove LOCK_KEY (cstore ?c0), is_leader := True\<rparr>"
  let ?r = "Inl (RedisErr ''reset'')"
  let ?c2 = "carry_out ''a'' Release ?st ?st' ?c1"
  have c0: "cluster_reaches mem_client idle_cluster ?c0"
    by (rule led_by_reached) (simp_all add: idle_cluster_def empty_keyspace_def)
  have call: "lock_call mem_client Release (seen_by ''a'' c ?st) = (?r, ?st')" if "believes c ''a''" "\<not> beats c ''a''" for c
    using that by (simp add: seen_by_def candidate_def release_def release_script_def mem_client_def get_state_def modify_def bindE_def ret_def
        redis_call_def next_trip_def after_trip_def broken_trip_def Let_def led_by_def idle_cluster_def lock_of_def empty_keyspace_def text_of_def bulk_def)
  have b: "believes ?c1 ''a''" "\<not> beats ?c1 ''a''" "believes ?c2 ''a''" "\<not> beats ?c2 ''a''"
    by (simp_all add: led_by_def carry_out_def)
  have 1: "cluster_step mem_client ?c0 ?c1" by (rule cluster_step.cancelled)
  have 2: "cluster_step mem_client ?c1 ?c2" by (rule cluster_step.executed [OF _ _ call [OF b(1,2)]]) simp_all
  have 3: "cluster_step mem_client ?c2 (go_on ''a'' (Release, ctime ?c1, ?st) ?r ?st' ?c2)"
    by (rule cluster_step.replied [OF _ call [OF b(3,4)]]) (simp add: carry_out_def)
  have "go_on ''a'' (Release, ctime ?c1, ?st) ?r ?st' ?c2 = after_lost_release"
    by (simp add: after_lost_release_def go_on_def carry_out_def led_by_def idle_cluster_def candidate_def fun_upd_idem)
  with cluster_reaches.step [OF cluster_reaches.step [OF cluster_reaches.step [OF c0 1] 2] 3] show ?thesis by (simp only:)
qed


end
