(* ===== verification/OrderService.thy ===== *)
theory OrderService
  imports OrderScripts Service Core Leader
begin

text \<open>
  \<open>order/app.py\<close> and \<open>common/result.py\<close>: the payload builders, the checkout transaction and the
  endpoints of the order service. What the service uses from outside the repository is a parameter:
  fresh ids, random draws, the lookup of an item's price over HTTP, the text of a value in an
  f-string, and the calls of \<open>get_message\<close> while it waits for another instance.
\<close>

section \<open>Payload builders and the checkout transaction\<close>

definition stock_payload :: "string \<Rightarrow> string \<Rightarrow> dict \<Rightarrow> exn + dict" where
  "stock_payload saga_id action context = (let items = dict_get context ''items'' (PList []) in
     case py_str (dict_get context ''_reservation_ttl'' (PInt 300)) of
       Inl e \<Rightarrow> Inl e
     | Inr ttl \<Rightarrow> Inr ((if truthy items then [(''items'', PStr (json_dumps items))] else []) @ [(''ttl'', PStr ttl)]))"

definition payment_payload :: "string \<Rightarrow> string \<Rightarrow> dict \<Rightarrow> exn + dict" where
  "payment_payload saga_id action context =
     (case py_str (dict_get context ''total_cost'' (PInt 0)) of
       Inl e \<Rightarrow> Inl e
     | Inr amount \<Rightarrow> (case py_str (dict_get context ''_reservation_ttl'' (PInt 300)) of
         Inl e \<Rightarrow> Inl e
       | Inr ttl \<Rightarrow> Inr [(''user_id'', dict_get context ''user_id'' (Str [])), (''amount'', PStr amount), (''ttl'', PStr ttl)]))"

definition checkout_tx :: transaction where
  "checkout_tx = \<lparr>td_name = ''checkout'', td_steps = [
     \<lparr>step_name = ''reserve_stock'', service = ''stock'', payload_builder = Some stock_payload\<rparr>,
     \<lparr>step_name = ''reserve_payment'', service = ''payment'', payload_builder = Some payment_payload\<rparr>]\<rparr>"

section \<open>The surroundings of the service\<close>

record 'n order_app =
  app_cl :: redis_client
  app_tr :: "'n transport"
  app_orch :: orchestrator
  app_str :: "pyval \<Rightarrow> string"

abbreviation app_rc :: "'n order_app \<Rightarrow> redis" where
  "app_rc app \<equiv> cl_rc (app_cl app)"

text \<open>\<open>try: .. finally: ..\<close>; a dead process runs no \<open>finally\<close>.\<close>

definition finally_do :: "('s, 'a) py \<Rightarrow> ('s, unit) py \<Rightarrow> ('s, 'a) py" where
  "finally_do m k = (\<lambda>s. case m s of
     (Inl Exit, s1) \<Rightarrow> (Inl Exit, s1)
   | (r, s1) \<Rightarrow> (case k s1 of (Inl e, s2) \<Rightarrow> (Inl e, s2) | (Inr _, s2) \<Rightarrow> (r, s2)))"

text \<open>
  \<open>wait_for_result\<close>. \<open>calls\<close> are the calls of \<open>get_message\<close> that return before the timeout, each with
  its answer whether there was a message; what other instances do meanwhile is part of them.
\<close>

definition read_result :: "redis_client \<Rightarrow> string \<Rightarrow> ('n proc, pyval option) py" where
  "read_result cl result_key = bindE (redis_call cl (cl_rc cl (GET result_key))) (\<lambda>r. case r of
     Bulk t \<Rightarrow> if truthy (PStr t) then bindE (lift_sum (json_loads t)) (\<lambda>v. ret (Some v)) else ret None
   | _ \<Rightarrow> ret None)"

fun await_messages :: "redis_client \<Rightarrow> string \<Rightarrow> ('n proc, bool) py list \<Rightarrow> ('n proc, pyval option) py" where
  "await_messages cl result_key [] = ret None"
| "await_messages cl result_key (get_message # calls) = bindE get_message (\<lambda>msg.
     if msg then bindE (read_result cl result_key) (\<lambda>r. case r of
        Some v \<Rightarrow> ret (Some v) | None \<Rightarrow> await_messages cl result_key calls)
     else await_messages cl result_key calls)"

definition wait_for_result :: "redis_client \<Rightarrow> ('n proc, bool) py list \<Rightarrow> string \<Rightarrow> ('n proc, pyval) py" where
  "wait_for_result cl calls saga_id = (let result_key = ''saga-result:'' @ saga_id in
     bindE (read_result cl result_key) (\<lambda>r. case r of Some v \<Rightarrow> ret v | None \<Rightarrow>
     bindE (redis_call cl (ret ())) (\<lambda>_. finally_do
       (bindE (read_result cl result_key) (\<lambda>r. case r of Some v \<Rightarrow> ret v | None \<Rightarrow>
        bindE (await_messages cl result_key calls) (\<lambda>r. case r of Some v \<Rightarrow> ret v | None \<Rightarrow>
        bindE (read_result cl result_key) (\<lambda>r. case r of Some v \<Rightarrow> ret v | None \<Rightarrow>
        ret (status_failed (Str ''timeout''))))))
       (redis_call cl (ret ())))))"

section \<open>Orders\<close>

definition create_order :: "'n order_app \<Rightarrow> string \<Rightarrow> string \<Rightarrow> ('n proc, response) py" where
  "create_order app key user_id =
     bindE (or_db_error (redis_call (app_cl app) (app_rc app (HSET (order_key key) (order_mapping user_id 0))))) (\<lambda>_.
     ret (JSONResponse (PDict [(''order_id'', Str key)])))"

text \<open>\<open>draw i k n\<close> is the \<open>k\<close>-th random number below \<open>n\<close> for order \<open>i\<close>; there is none below 0 or 1 of nothing.\<close>

definition order_batch_init :: "'n order_app \<Rightarrow> nat \<Rightarrow> (nat \<Rightarrow> nat \<Rightarrow> int \<Rightarrow> int) \<Rightarrow> string \<Rightarrow> string \<Rightarrow> string \<Rightarrow> string \<Rightarrow>
    ('n proc, response) py" where
  "order_batch_init app chunk_size draw n_param n_items_param n_users_param price_param =
     bindE (lift_sum (py_int (Str n_param))) (\<lambda>n. bindE (lift_sum (py_int (Str n_items_param))) (\<lambda>n_items.
     bindE (lift_sum (py_int (Str n_users_param))) (\<lambda>n_users. bindE (lift_sum (py_int (Str price_param))) (\<lambda>item_price.
     if 0 < n \<and> (n_users \<le> 0 \<or> n_items \<le> 0) then throw (ValueErr ''empty range for randrange()'')
     else bindE (batch_init (app_cl app) chunk_size n (\<lambda>i.
        [HSET (order_key (show_nat i)) (order_mapping (show_int (draw i 0 n_users)) (2 * item_price)),
         RPUSH (items_key (show_nat i)) [Text (show_int (draw i 1 n_items) @ '':1''), Text (show_int (draw i 2 n_items) @ '':1'')]]))
       (\<lambda>_. ret (JSONResponse (PDict [(''msg'', Str ''Batch init for orders successful'')])))))))"

text \<open>\<open>item_id, quantity = raw.split(":", 1)\<close>\<close>

definition split_item :: "rtext \<Rightarrow> exn + (string \<times> string)" where
  "split_item raw = (case raw of
     Text s \<Rightarrow> (case split_colon s of (a, Some b) \<Rightarrow> Inr (a, b)
       | (a, None) \<Rightarrow> Inl (ValueErr ''not enough values to unpack (expected 2, got 1)''))
   | Json _ \<Rightarrow> Inl (ValueErr ''not enough values to unpack (expected 2, got 1)''))"

text \<open>\<open>int(entry["total_cost"])\<close> and the like, on what the pipeline or the script returned.\<close>

definition entry_text :: "(string \<times> rtext) list \<Rightarrow> string \<Rightarrow> exn + rtext" where
  "entry_text e f = (case map_of e f of Some t \<Rightarrow> Inr t | None \<Rightarrow> Inl (KeyErr f))"

definition order_reads :: "string \<Rightarrow> cmd list" where
  "order_reads order_id = [HGETALL (order_key order_id), LRANGE_ALL (items_key order_id)]"

definition order_replies :: "reply list \<Rightarrow> (string \<times> rtext) list \<times> rtext list" where
  "order_replies rs = (case rs of [e, l] \<Rightarrow> (pairs_of (arr_of e), arr_of l) | _ \<Rightarrow> ([], []))"

definition replica_pipeline :: "redis_client \<Rightarrow> cmd list \<Rightarrow> keyspace \<Rightarrow> ('b conn_scheme, reply list) py" where
  "replica_pipeline cl cs d = replica_call cl (\<lambda>d. case run_cmds (cl_rc cl) cs d of (rs, d') \<Rightarrow> (first_error rs, d')) d"

definition find_order :: "'n order_app \<Rightarrow> string \<Rightarrow> ('n proc, response) py" where
  "find_order app order_id =
     bindE (try_except (pipeline (app_cl app) False (order_reads order_id)) (\<lambda>e.
       if is_exception e then Some (bindE get_state (\<lambda>st. case c_replica st of
           None \<Rightarrow> http_error DB_ERROR_STR
         | Some d \<Rightarrow> or_db_error (replica_pipeline (app_cl app) (order_reads order_id) d)))
       else None)) (\<lambda>rs. case order_replies rs of (entry, raw_items) \<Rightarrow>
     if entry = [] then http_error (''Order: '' @ order_id @ '' not found!'')
     else bindE (lift_sum (map_sum_list split_item raw_items)) (\<lambda>items.
       bindE (lift_sum (entry_text entry ''paid'')) (\<lambda>paid. bindE (lift_sum (entry_text entry ''user_id'')) (\<lambda>user_id.
       bindE (lift_sum (int_entry entry ''total_cost'')) (\<lambda>total_cost.
       ret (JSONResponse (PDict [(''order_id'', Str order_id), (''paid'', PBool (paid = Text ''true'')),
         (''items'', PList (map (\<lambda>i. Str (fst i)) items)), (''user_id'', PStr user_id), (''total_cost'', PInt total_cost)])))))))"

text \<open>
  \<open>fetch item_id\<close> is the HTTP request for an item: nothing when the client raises, else the status and
  the decoded body.
\<close>

type_synonym 'n fetcher = "string \<Rightarrow> ('n proc, (int \<times> (exn + pyval)) option) py"

definition add_item :: "'n order_app \<Rightarrow> 'n fetcher \<Rightarrow> string \<Rightarrow> string \<Rightarrow> string \<Rightarrow> ('n proc, response) py" where
  "add_item app fetch order_id item_id quantity_param =
     bindE (lift_sum (py_int (Str quantity_param))) (\<lambda>quantity.
     if quantity \<le> 0 then http_error ''Quantity must be positive''
     else bindE (fetch item_id) (\<lambda>resp. case resp of
       None \<Rightarrow> http_error DB_ERROR_STR
     | Some (status_code, body) \<Rightarrow>
       if status_code \<noteq> 200 then http_error (''Item: '' @ item_id @ '' does not exist!'')
       else bindE (lift_sum body) (\<lambda>item_data. bindE (lift_sum (py_item item_data ''price'')) (\<lambda>p.
         bindE (lift_sum (py_int p)) (\<lambda>price. let cost_increase = quantity * price in
         bindE (try_except (redis_call (app_cl app) (order_add_item (app_rc app) [items_key order_id, order_key order_id]
             [item_id @ '':'' @ show_int quantity, show_int cost_increase]))
           (\<lambda>e. case e of
              ResponseErr m \<Rightarrow> Some (http_error (if contains ''ORDER_NOT_FOUND'' m
                then ''Order: '' @ order_id @ '' not found!'' else DB_ERROR_STR))
            | _ \<Rightarrow> if is_redis_error e then Some (http_error DB_ERROR_STR) else None)) (\<lambda>_.
         ret (PlainTextResponse (''Item: '' @ item_id @ '' added to: '' @ order_id @ '' price updated to: '' @ show_int cost_increase))))))))"

definition load_order :: "'n order_app \<Rightarrow> string \<Rightarrow> ('n proc, (string \<times> rtext) list \<times> (string \<times> int) list) py" where
  "load_order app order_id =
     bindE (or_db_error (pipeline (app_cl app) False (order_reads order_id))) (\<lambda>rs. case order_replies rs of (entry, raw_items) \<Rightarrow>
     if entry = [] then http_error (''Order: '' @ order_id @ '' not found!'')
     else bindE (lift_sum (map_sum_list (\<lambda>raw. case split_item raw of Inl e \<Rightarrow> Inl e
         | Inr (item_id, quantity) \<Rightarrow> (case py_int (Str quantity) of Inl e \<Rightarrow> Inl e | Inr q \<Rightarrow> Inr (item_id, q))) raw_items)) (\<lambda>items.
       ret (entry, items)))"

section \<open>Checkout\<close>

definition checkout_ok :: response where
  "checkout_ok = PlainTextResponse ''Checkout successful''"

text \<open>The flat \<open>HGETALL\<close> array becomes a dictionary, the item texts become pairs.\<close>

fun pair_up :: "dict \<Rightarrow> pyval list \<Rightarrow> exn + dict" where
  "pair_up acc [] = Inr acc"
| "pair_up acc (PStr (Text k) # v # rest) = pair_up (AList.update k v acc) rest"
| "pair_up acc _ = Inl (OtherErr ''list index out of range'')"

definition parse_entry :: "pyval \<Rightarrow> exn + dict" where
  "parse_entry entry_flat = (case entry_flat of
     PList vs \<Rightarrow> pair_up [] vs | _ \<Rightarrow> Inl (TypeErr ''unexpected entry''))"

definition parse_raw_items :: "pyval list \<Rightarrow> exn + (string \<times> int) list" where
  "parse_raw_items = map_sum_list (\<lambda>raw_item. case raw_item of
     PStr t \<Rightarrow> (case split_item t of Inl e \<Rightarrow> Inl e
       | Inr (item_id, quantity) \<Rightarrow> (case py_int (Str quantity) of Inl e \<Rightarrow> Inl e | Inr q \<Rightarrow> Inr (item_id, q)))
   | _ \<Rightarrow> Inl (OtherErr ''object has no attribute split''))"

definition aggregate :: "(string \<times> int) list \<Rightarrow> (string \<times> int) list" where
  "aggregate items = fold (\<lambda>(item_id, quantity) d. AList.update item_id (dict_get d item_id 0 + quantity) d) items []"

definition checkout_context :: "string \<Rightarrow> pyval \<Rightarrow> (string \<times> int) list \<Rightarrow> int \<Rightarrow> dict" where
  "checkout_context order_id user_id items total_cost = [(''order_id'', Str order_id), (''user_id'', user_id),
     (''items'', PList (map (\<lambda>(i, q). PList [Str i, PInt q]) items)), (''total_cost'', PInt total_cost)]"

text \<open>Another request holds the claim: what it says, or what the wait for its result brings.\<close>

definition await_existing :: "'n order_app \<Rightarrow> ('n proc, bool) py list \<Rightarrow> string \<Rightarrow> ('n proc, response) py" where
  "await_existing app calls order_id =
     bindE (redis_call (app_cl app) (app_rc app (GET (idempotency_key order_id)))) (\<lambda>existing. case existing of
       Bulk t \<Rightarrow> if truthy (PStr t) then bindE (lift_sum (json_loads t)) (\<lambda>existing_data. case existing_data of
           PDict d \<Rightarrow> let status = dict_get d ''status'' PNone in
             if status = Str ''success'' then ret checkout_ok
             else if status = Str ''failed'' then http_error (''Checkout failed: '' @ app_str app (dict_get d ''error'' (Str ''unknown'')))
             else let existing_saga_id = dict_get d ''saga_id'' (Str []) in
               if truthy existing_saga_id then
                 bindE (wait_for_result (app_cl app) calls (app_str app existing_saga_id)) (\<lambda>result.
                 bindE (lift_sum (py_get result ''status'' PNone)) (\<lambda>status.
                 if status = Str ''success'' then ret checkout_ok
                 else bindE (lift_sum (py_get result ''error'' (Str ''unknown''))) (\<lambda>err.
                   http_error (''Checkout failed: '' @ app_str app err))))
               else http_error ''Checkout already in progress''
         | _ \<Rightarrow> http_error ''Checkout already in progress'')
         else http_error ''Checkout already in progress''
     | _ \<Rightarrow> http_error ''Checkout already in progress'')"

text \<open>This request holds the claim: run the transaction and persist its result.\<close>

definition success_value :: "string \<Rightarrow> rtext" where
  "success_value saga_id = json_dumps (PDict [(''status'', Str ''success''), (''saga_id'', Str saga_id)])"

definition failed_value :: "pyval \<Rightarrow> string \<Rightarrow> rtext" where
  "failed_value err saga_id = json_dumps (PDict [(''status'', Str ''failed''), (''error'', err), (''saga_id'', Str saga_id)])"

definition run_checkout :: "'n order_app \<Rightarrow> string \<Rightarrow> string \<Rightarrow> dict \<Rightarrow> ('n proc, response) py" where
  "run_checkout app order_id saga_id context =
     bindE (execute (app_cl app) (app_tr app) (app_orch app) ''checkout'' context saga_id) (\<lambda>result.
     if result_get result ''status'' PNone = Str ''success'' then
       bindE (pipeline (app_cl app) True [SET (idempotency_key order_id) (success_value saga_id) False (Some 86400),
          HSET (order_key order_id) [(''paid'', Text ''true'')]]) (\<lambda>_. ret checkout_ok)
     else let err = result_get result ''error'' (Str ''unknown'') in
       bindE (redis_call (app_cl app) (app_rc app (SET (idempotency_key order_id) (failed_value err saga_id) False (Some 60)))) (\<lambda>_.
       http_error (''Checkout failed: '' @ app_str app err)))"

definition checkout :: "'n order_app \<Rightarrow> ('n proc, bool) py list \<Rightarrow> string \<Rightarrow> string \<Rightarrow> ('n proc, response) py" where
  "checkout app calls order_id saga_id =
     bindE (redis_call (app_cl app) (order_load_and_claim (app_rc app)
         [order_key order_id, items_key order_id, idempotency_key order_id] (claim_value saga_id) ''300'')) (\<lambda>raw.
     if found raw = 0 then http_error (''Order: '' @ order_id @ '' not found!'')
     else bindE (lift_sum (json_loads (entry_flat_json raw))) (\<lambda>entry_flat. bindE (lift_sum (parse_entry entry_flat)) (\<lambda>entry.
       bindE (lift_sum (json_loads (items_json raw))) (\<lambda>v. bindE (lift_sum (py_iter v)) (\<lambda>raw_items.
       bindE (lift_sum (parse_raw_items raw_items)) (\<lambda>items.
       bindE (lift_sum (py_item (PDict entry) ''total_cost'')) (\<lambda>c. bindE (lift_sum (py_int c)) (\<lambda>total_cost.
       bindE (lift_sum (py_item (PDict entry) ''user_id'')) (\<lambda>user_id.
       bindE (lift_sum (py_item (PDict entry) ''paid'')) (\<lambda>paid.
       if paid = Str ''true'' then
         bindE (if acquired raw = 1 then bindE (redis_call (app_cl app) (app_rc app (DEL (idempotency_key order_id)))) (\<lambda>_. ret ()) else ret ())
           (\<lambda>_. ret checkout_ok)
       else if aggregate items = [] then
         bindE (if acquired raw = 1 then bindE (redis_call (app_cl app) (app_rc app (SET (idempotency_key order_id)
             (json_dumps (PDict [(''status'', Str ''failed''), (''error'', Str ''no_items'')])) False (Some 60)))) (\<lambda>_. ret ()) else ret ())
           (\<lambda>_. http_error ''Order has no items'')
       else if acquired raw \<noteq> 1 then await_existing app calls order_id
       else run_checkout app order_id saga_id (checkout_context order_id user_id (aggregate items) total_cost)))))))))))"

section \<open>Health and metrics\<close>

definition order_health :: "'n order_app \<Rightarrow> ('n proc, response) py" where
  "order_health app = ping_health (app_cl app)"

definition order_metrics_lines :: "'n leader \<Rightarrow> string list" where
  "order_metrics_lines st = (let m = collector st; q = [CHR 0x22] in
     [''# HELP saga_total Total number of completed sagas'', ''# TYPE saga_total counter'',
      ''saga_total{result='' @ q @ ''success'' @ q @ ''} '' @ show_nat (total_success m),
      ''saga_total{result='' @ q @ ''failure'' @ q @ ''} '' @ show_nat (total_failure m), [],
      ''# HELP saga_abort_rate Current sliding window abort rate (100-saga window)'', ''# TYPE saga_abort_rate gauge'',
      ''saga_abort_rate '' @ show_fixed 4 (sliding_abort_rate m), [],
      ''# HELP saga_current_protocol Currently active transaction protocol'', ''# TYPE saga_current_protocol gauge'',
      ''saga_current_protocol{protocol='' @ q @ current_protocol m @ q @ ''} 1'', [],
      ''# HELP leader_status Whether this instance runs background maintenance'', ''# TYPE leader_status gauge'',
      ''leader_status '' @ show_nat (if is_leader st then 1 else 0), [],
      ''# HELP checkout_duration_seconds Checkout saga latency histogram'', ''# TYPE checkout_duration_seconds histogram''] @
     prometheus_lines ''checkout_duration_seconds'' (''protocol='' @ q @ ''2pc'' @ q) (latency_2pc m) @
     prometheus_lines ''checkout_duration_seconds'' (''protocol='' @ q @ ''saga'' @ q) (latency_saga m))"

definition order_metrics :: "('n leader, response) py" where
  "order_metrics = (\<lambda>st. (Inr (PlainTextResponse (concat (map (\<lambda>l. l @ [CHR 0x0A]) (order_metrics_lines st)))), st))"

end
