(* ===== verification/SagaRun.thy ===== *)
theory SagaRun
  imports TwoPhase
begin

text \<open>
  The saga executor as its environment sees it: what it executes, which steps it compensates, in
  which order and under which log entries.
\<close>

section \<open>Histories of a saga\<close>

text \<open>A step that answered in time or may have been executed without an answer.\<close>

definition timed_out :: "obs \<Rightarrow> bool" where
  "timed_out e \<longleftrightarrow> dict_has (vote_of e) ''reason'' ''timeout''"

definition maybe_done :: "obs \<Rightarrow> bool" where
  "maybe_done e \<longleftrightarrow> said ''executed'' e \<or> timed_out e"

definition to_undo :: "step_def list \<Rightarrow> obs list \<Rightarrow> step_def list" where
  "to_undo steps xs = map fst (filter (\<lambda>(step, e). maybe_done e) (zip steps xs))"

definition undo_block :: "(string \<times> dict) option \<Rightarrow> step_def \<Rightarrow> obs list \<Rightarrow> bool" where
  "undo_block w step b \<longleftrightarrow> list_all (sent ''compensate'' w) b \<and> set (map ob_service b) \<subseteq> {service step} \<and>
     settled ''compensated'' MAX_VERIFIED_RETRIES [step] b"

text \<open>The steps of a list are compensated one after the other.\<close>

fun undone :: "(string \<times> dict) option \<Rightarrow> step_def list \<Rightarrow> obs list \<Rightarrow> bool" where
  "undone w [] ys \<longleftrightarrow> ys = []"
| "undone w (step # ss) ys \<longleftrightarrow> (\<exists>b ys'. ys = b @ ys' \<and> undo_block w step b \<and> undone w ss ys')"

definition undoing :: "(string \<times> dict) option \<Rightarrow> step_def list \<Rightarrow> obs list \<Rightarrow> bool" where
  "undoing w ss ys \<longleftrightarrow> (\<exists>k ys' b. ys = ys' @ b \<and> undone w (take k ss) ys' \<and> list_all (sent ''compensate'' w) b)"

definition saga_data :: "dict \<Rightarrow> string \<Rightarrow> dict" where
  "saga_data ctx name = dict_merge ctx [(''protocol'', Str ''saga''), (''tx_name'', Str name)]"

definition comp_data :: "dict \<Rightarrow> step_def list \<Rightarrow> dict" where
  "comp_data ctx completed = dict_merge ctx [(''completed_steps'', PList (map (\<lambda>s. Str (step_name s)) completed))]"

definition undo_log :: "dict \<Rightarrow> step_def list \<Rightarrow> obs list \<Rightarrow> (string \<times> dict) option" where
  "undo_log ctx steps xs = Some (''COMPENSATING'', comp_data ctx (to_undo steps xs))"

definition saga_history :: "dict \<Rightarrow> string \<Rightarrow> step_def list \<Rightarrow> obs list \<Rightarrow> (string \<times> dict) option \<Rightarrow> bool" where
  "saga_history ctx name steps es w \<longleftrightarrow> (let X = Some (''EXECUTING'', saga_data ctx name) in
     es = [] \<and> w = None \<or>
     to_some ''execute'' X steps es \<and> w = X \<or>
     to_all ''execute'' X steps es \<and> list_all (said ''executed'') es \<and> w = None \<or>
     (\<exists>xs ys. es = xs @ ys \<and> to_all ''execute'' X steps xs \<and> \<not> list_all (said ''executed'') xs \<and>
        undoing (undo_log ctx steps xs) (rev (to_undo steps xs)) ys \<and> (w = undo_log ctx steps xs \<or> w = None)))"

text \<open>The reason with the highest priority among the answers that are not executed; the first of several.\<close>

fun worst :: "pyval \<Rightarrow> obs list \<Rightarrow> exn + pyval" where
  "worst reason [] = Inr reason"
| "worst reason (e # es) = (if said ''executed'' e then worst reason es
     else case choose_failure_reason reason (saga_reason (vote_of e)) of Inl x \<Rightarrow> Inl x | Inr reason' \<Rightarrow> worst reason' es)"

definition saga_voted :: "dict \<Rightarrow> string \<Rightarrow> step_def list \<Rightarrow> obs list \<Rightarrow> pyval \<Rightarrow> bool" where
  "saga_voted ctx name steps es r \<longleftrightarrow> (let X = Some (''EXECUTING'', saga_data ctx name) in
     (to_all ''execute'' X steps es \<and> list_all (said ''executed'') es \<and> r = status_success) \<or>
     (\<exists>xs ys reason. es = xs @ ys \<and> to_all ''execute'' X steps xs \<and> \<not> list_all (said ''executed'') xs \<and>
        undone (undo_log ctx steps xs) (rev (to_undo steps xs)) ys \<and> worst (Str []) xs = Inr reason \<and> r = status_failed reason))"

definition saga_outcome :: "dict \<Rightarrow> string \<Rightarrow> step_def list \<Rightarrow> obs list \<Rightarrow> pyval \<Rightarrow> bool" where
  "saga_outcome ctx name steps es r \<longleftrightarrow>
     (es = [] \<and> (\<exists>sv\<in>service ` set steps. r = status_failed (Str (''service_'' @ sv @ ''_unavailable'')))) \<or>
     saga_voted ctx name steps es r"

section \<open>Verdicts\<close>

definition hashable :: "pyval \<Rightarrow> bool" where
  "hashable v \<longleftrightarrow> (\<exists>k. reason_priority v = Inr k)"

lemma choose_hashable: "hashable a \<Longrightarrow> hashable b \<Longrightarrow> \<exists>c. choose_failure_reason a b = Inr c \<and> hashable c"
  by (auto simp: hashable_def choose_failure_reason_def)

lemma choose_in: "choose_failure_reason a b = Inr c \<Longrightarrow> c \<in> {a, b}"
  by (auto simp: choose_failure_reason_def split: sum.splits if_splits)

lemma triple_verdict:
  assumes "live \<longrightarrow> hashable (saga_reason (vote_of e))"
  shows "triple (\<lambda>st. wal_at live w n st \<and> (live \<longrightarrow> hashable reason)) (saga_verdict (step, vote_of e) (completed, reason, ok))
    (\<lambda>(c, r, k) st. (wal_at live w n st \<and> (live \<longrightarrow> hashable r)) \<and>
       c = completed @ (if maybe_done e then [step] else []) \<and> k = (ok \<and> said ''executed'' e) \<and>
       (if said ''executed'' e then r = reason else choose_failure_reason reason (saga_reason (vote_of e)) = Inr r))
    (\<lambda>_ st. wal_at live w n st \<and> \<not> live)"
proof (cases "said ''executed'' e")
  case True
  then have "dict_has (vote_of e) ''event'' ''executed''" by (simp add: vote_said)
  then have eq: "saga_verdict (step, vote_of e) (completed, reason, ok) =
      bindE (breaker_success (service step)) (\<lambda>_. ret (completed @ [step], reason, ok))"
    by (simp add: saga_verdict_def)
  show ?thesis
    unfolding eq
  proof (rule triple_assume [where b = "live \<longrightarrow> hashable reason"], simp,
      rule triple_bind [where Q = "\<lambda>_. wal_at live w n"])
    show "triple (\<lambda>st. wal_at live w n st \<and> (live \<longrightarrow> hashable reason)) (breaker_success (service step)) (\<lambda>_. wal_at live w n)
        (\<lambda>_ st. wal_at live w n st \<and> \<not> live)"
      by (rule triple_pre [OF calm_triple [OF calm_breakers(2)]]) blast
    show "triple (wal_at live w n) (ret (completed @ [step], reason, ok))
      (\<lambda>(c, r, k) st. (wal_at live w n st \<and> (live \<longrightarrow> hashable r)) \<and>
         c = completed @ (if maybe_done e then [step] else []) \<and> k = (ok \<and> said ''executed'' e) \<and>
       (if said ''executed'' e then r = reason else choose_failure_reason reason (saga_reason (vote_of e)) = Inr r))
      (\<lambda>_ st. wal_at live w n st \<and> \<not> live)" if h: "live \<longrightarrow> hashable reason" for u :: unit
      by (rule triple_ret) (use True h in \<open>auto simp: maybe_done_def\<close>)
  qed
next
  case False
  let ?t = "dict_has (vote_of e) ''reason'' ''timeout''"
  have ne: "\<not> dict_has (vote_of e) ''event'' ''executed''" using False by (simp add: vote_said)
  have c: "calm (if ?t then breaker_failure (service step) else ret ())" by simp
  show ?thesis
    unfolding saga_verdict_def prod.case if_not_P [OF ne]
  proof (rule triple_assume [where b = "live \<longrightarrow> hashable reason"], simp)
    assume h: "live \<longrightarrow> hashable reason"
    show "triple (\<lambda>st. wal_at live w n st \<and> (live \<longrightarrow> hashable reason))
      (bindE (if ?t then breaker_failure (service step) else ret ()) (\<lambda>_.
        bindE (lift_sum (choose_failure_reason reason (saga_reason (vote_of e)))) (\<lambda>reason'.
        ret (if ?t then completed @ [step] else completed, reason', False))))
      (\<lambda>(c, r, k) st. (wal_at live w n st \<and> (live \<longrightarrow> hashable r)) \<and>
         c = completed @ (if maybe_done e then [step] else []) \<and> k = (ok \<and> said ''executed'' e) \<and>
       (if said ''executed'' e then r = reason else choose_failure_reason reason (saga_reason (vote_of e)) = Inr r))
      (\<lambda>_ st. wal_at live w n st \<and> \<not> live)"
    proof (rule triple_bind [where Q = "\<lambda>_. wal_at live w n"], rule triple_pre [OF calm_triple [OF c]], simp,
        rule triple_bind [where Q = "\<lambda>r st. wal_at live w n st \<and> (live \<longrightarrow> hashable r) \<and>
          choose_failure_reason reason (saga_reason (vote_of e)) = Inr r"], rule triple_lift)
      fix e' st
      assume "choose_failure_reason reason (saga_reason (vote_of e)) = Inl e'" "wal_at live w n st"
      then show "wal_at live w n st \<and> \<not> live" using h assms choose_hashable by fastforce
    next
      fix r st
      assume "choose_failure_reason reason (saga_reason (vote_of e)) = Inr r" "wal_at live w n st"
      then show "wal_at live w n st \<and> (live \<longrightarrow> hashable r) \<and> choose_failure_reason reason (saga_reason (vote_of e)) = Inr r"
        using h assms choose_in by blast
    next
      fix r
      show "triple (\<lambda>st. wal_at live w n st \<and> (live \<longrightarrow> hashable r) \<and> choose_failure_reason reason (saga_reason (vote_of e)) = Inr r)
          (ret (if ?t then completed @ [step] else completed, r, False))
        (\<lambda>(c, r, k) st. (wal_at live w n st \<and> (live \<longrightarrow> hashable r)) \<and>
           c = completed @ (if maybe_done e then [step] else []) \<and> k = (ok \<and> said ''executed'' e) \<and>
       (if said ''executed'' e then r = reason else choose_failure_reason reason (saga_reason (vote_of e)) = Inr r))
        (\<lambda>_ st. wal_at live w n st \<and> \<not> live)"
        by (rule triple_ret) (use False in \<open>auto simp: maybe_done_def timed_out_def\<close>)
    qed
  qed
qed

lemma triple_verdicts:
  assumes "live \<longrightarrow> (\<forall>e\<in>set es. hashable (saga_reason (vote_of e)))" "length es = length steps"
  shows "triple (\<lambda>st. wal_at live w n st \<and> (live \<longrightarrow> hashable reason))
    (fold_each saga_verdict (zip steps (map vote_of es)) (completed, reason, ok))
    (\<lambda>(c, r, k) st. wal_at live w n st \<and> c = completed @ to_undo steps es \<and> k = (ok \<and> list_all (said ''executed'') es) \<and> worst reason es = Inr r)
    (\<lambda>_ st. wal_at live w n st \<and> \<not> live)"
  using assms
proof (induction steps arbitrary: es completed reason ok)
  case Nil
  then show ?case by (auto intro!: triple_ret simp: to_undo_def)
next
  case (Cons step steps)
  then obtain e es' where es: "es = e # es'" by (cases es) auto
  show ?case
    unfolding es list.map zip_Cons_Cons fold_each.simps
  proof (rule triple_bind [OF triple_verdict])
    fix x :: "step_def list \<times> pyval \<times> bool"
    obtain c r k where x: "x = (c, r, k)" by (cases x)
    show "triple (case x of (c, r, k) \<Rightarrow> \<lambda>st. (wal_at live w n st \<and> (live \<longrightarrow> hashable r)) \<and>
          c = completed @ (if maybe_done e then [step] else []) \<and> k = (ok \<and> said ''executed'' e) \<and> (if said ''executed'' e then r = reason else choose_failure_reason reason (saga_reason (vote_of e)) = Inr r))
        (fold_each saga_verdict (zip steps (map vote_of es')) x)
        (\<lambda>(c, r, k) st. wal_at live w n st \<and> c = completed @ to_undo (step # steps) (e # es') \<and>
           k = (ok \<and> list_all (said ''executed'') (e # es')) \<and> worst reason (e # es') = Inr r)
        (\<lambda>_ st. wal_at live w n st \<and> \<not> live)"
      unfolding x prod.case
      by (rule triple_pure, rule triple_weaken [OF Cons.IH [of es']]) (use Cons.prems es in \<open>auto simp: to_undo_def split: if_splits\<close>)
  qed (use Cons.prems es in auto)
qed

section \<open>Compensation\<close>

lemma undoingI: "undone w (take k ss) ys' \<Longrightarrow> list_all (sent ''compensate'' w) b \<Longrightarrow> undoing w ss (ys' @ b)"
  unfolding undoing_def by blast

lemma undoing_block: "list_all (sent ''compensate'' w) b \<Longrightarrow> undoing w ss b"
  using undoingI [of w 0 ss "[]" b] by simp

lemma undoing_start: "undoing w ss []"
  by (rule undoing_block) simp

lemma undoing_step: "undo_block w step b \<Longrightarrow> undoing w ss ys \<Longrightarrow> undoing w (step # ss) (b @ ys)"
proof -
  assume b: "undo_block w step b" and "undoing w ss ys"
  then obtain k ys' c where y: "ys = ys' @ c" "undone w (take k ss) ys'" "list_all (sent ''compensate'' w) c"
    unfolding undoing_def by blast
  have "undone w (take (Suc k) (step # ss)) (b @ ys')" using b y(2) unfolding take_Suc_Cons undone.simps by blast
  from undoingI [OF this y(3)] show ?thesis using y(1) by simp
qed

lemma undone_undoing: "undone w ss ys \<Longrightarrow> undoing w ss ys"
  using undoingI [of w "length ss" ss ys "[]"] by simp

lemma triple_undo:
  assumes "redis_server (cl_rc cl)" "\<forall>step\<in>set ss. builder_ok s ctx step" "live \<longrightarrow> env_lives env"
  shows "triple (wal_at live w n) (for_each ss (\<lambda>step. verified_action cl (recording s env) ''compensate'' ''compensated'' s [step] ctx))
    (\<lambda>_ st. \<exists>ys. wal_at live w (n @ ys) st \<and> undone (w s) ss ys)
    (\<lambda>_ st. \<not> live \<and> (\<exists>ys. wal_at live w (n @ ys) st \<and> undoing (w s) ss ys))"
  using assms(2)
proof (induction ss arbitrary: n)
  case Nil
  show ?case by (auto intro!: triple_ret)
next
  case (Cons step ss)
  have "triple (wal_at live w n) (verified_action cl (recording s env) ''compensate'' ''compensated'' s [step] ctx)
      (\<lambda>_. action_done live w s n ''compensate'' ''compensated'' MAX_VERIFIED_RETRIES [step])
      (\<lambda>_. cut_short live w s n ''compensate'')"
    by (rule triple_verified_action) (use assms Cons.prems in auto)
  then show ?case
    unfolding for_each.simps
  proof (rule triple_seq)
    fix e :: exn and st
    assume "cut_short live w s n ''compensate'' st"
    then show "\<not> live \<and> (\<exists>ys. wal_at live w (n @ ys) st \<and> undoing (w s) (step # ss) ys)"
      unfolding cut_short_def using undoing_block by blast
  next
    fix u :: unit
    have rest: "triple (wal_at live w (n @ b))
        (for_each ss (\<lambda>step. verified_action cl (recording s env) ''compensate'' ''compensated'' s [step] ctx))
        (\<lambda>_ st. \<exists>ys. wal_at live w (n @ ys) st \<and> undone (w s) (step # ss) ys)
        (\<lambda>_ st. \<not> live \<and> (\<exists>ys. wal_at live w (n @ ys) st \<and> undoing (w s) (step # ss) ys))"
      if b: "undo_block (w s) step b" for b
    proof (rule triple_weaken [OF Cons.IH [of "n @ b"]])
      fix u :: unit and st
      assume "\<exists>ys. wal_at live w ((n @ b) @ ys) st \<and> undone (w s) ss ys"
      then obtain ys where "wal_at live w (n @ b @ ys) st" "undone (w s) ss ys" by auto
      then show "\<exists>ys. wal_at live w (n @ ys) st \<and> undone (w s) (step # ss) ys"
        using b unfolding undone.simps by blast
    next
      fix e :: exn and st
      assume "\<not> live \<and> (\<exists>ys. wal_at live w ((n @ b) @ ys) st \<and> undoing (w s) ss ys)"
      then obtain ys where "\<not> live" "wal_at live w (n @ b @ ys) st" "undoing (w s) ss ys" by auto
      then show "\<not> live \<and> (\<exists>ys. wal_at live w (n @ ys) st \<and> undoing (w s) (step # ss) ys)"
        using undoing_step [OF b] by blast
    qed (use Cons.prems in auto)
    show "triple (action_done live w s n ''compensate'' ''compensated'' MAX_VERIFIED_RETRIES [step])
        (for_each ss (\<lambda>step. verified_action cl (recording s env) ''compensate'' ''compensated'' s [step] ctx))
        (\<lambda>_ st. \<exists>ys. wal_at live w (n @ ys) st \<and> undone (w s) (step # ss) ys)
        (\<lambda>_ st. \<not> live \<and> (\<exists>ys. wal_at live w (n @ ys) st \<and> undoing (w s) (step # ss) ys))"
      unfolding action_done_def
      by (rule triple_ex, rule triple_pure, rule rest) (simp add: undo_block_def settled_def)
  qed
qed

section \<open>The executor\<close>

definition saga_cut :: "bool \<Rightarrow> (string \<rightharpoonup> string \<times> dict) \<Rightarrow> string \<Rightarrow> dict \<Rightarrow> string \<Rightarrow> step_def list \<Rightarrow> obs list proc \<Rightarrow> bool" where
  "saga_cut live w0 s ctx name steps st \<longleftrightarrow> \<not> live \<and> (\<exists>w es. wal_at live (w0(s := w)) es st \<and> saga_history ctx name steps es w)"

definition saga_post :: "bool \<Rightarrow> (string \<rightharpoonup> string \<times> dict) \<Rightarrow> string \<Rightarrow> dict \<Rightarrow> string \<Rightarrow> step_def list \<Rightarrow> pyval \<Rightarrow> obs list proc \<Rightarrow> bool" where
  "saga_post live w0 s ctx name steps r st \<longleftrightarrow> (\<exists>es. wal_at live (w0(s := None)) es st \<and> saga_outcome ctx name steps es r)"

definition saga_done :: "bool \<Rightarrow> (string \<rightharpoonup> string \<times> dict) \<Rightarrow> string \<Rightarrow> dict \<Rightarrow> string \<Rightarrow> step_def list \<Rightarrow> pyval \<Rightarrow> obs list proc \<Rightarrow> bool" where
  "saga_done live w0 s ctx name steps r st \<longleftrightarrow> (\<exists>es. wal_at live (w0(s := None)) es st \<and> saga_voted ctx name steps es r)"

lemma saga_done_post: "saga_done live w0 s ctx name steps r st \<Longrightarrow> saga_post live w0 s ctx name steps r st"
  unfolding saga_done_def saga_post_def saga_outcome_def by blast

lemma saga_cutI: "\<not> live \<Longrightarrow> wal_at live (w0(s := w)) es st \<Longrightarrow> saga_history ctx name steps es w \<Longrightarrow> saga_cut live w0 s ctx name steps st"
  unfolding saga_cut_def by blast

lemma saga_cut_between:
  "wal_between live (w0(s := a)) (w0(s := b)) es e st \<Longrightarrow> saga_history ctx name steps es a \<Longrightarrow> saga_history ctx name steps es b \<Longrightarrow>
     saga_cut live w0 s ctx name steps st"
  unfolding wal_between_def by (blast intro: saga_cutI)

lemma saga_history_empty: "saga_history ctx name steps [] None"
  by (simp add: saga_history_def Let_def)

lemma saga_history_execute:
  "to_some ''execute'' (Some (''EXECUTING'', saga_data ctx name)) steps es \<Longrightarrow>
     saga_history ctx name steps es (Some (''EXECUTING'', saga_data ctx name))"
  unfolding saga_history_def Let_def by blast

lemma saga_history_success:
  "to_all ''execute'' (Some (''EXECUTING'', saga_data ctx name)) steps es \<Longrightarrow> list_all (said ''executed'') es \<Longrightarrow>
     saga_history ctx name steps es None"
  unfolding saga_history_def Let_def by blast

lemma saga_history_undo:
  "to_all ''execute'' (Some (''EXECUTING'', saga_data ctx name)) steps xs \<Longrightarrow> \<not> list_all (said ''executed'') xs \<Longrightarrow>
     undoing (undo_log ctx steps xs) (rev (to_undo steps xs)) ys \<Longrightarrow> w = undo_log ctx steps xs \<or> w = None \<Longrightarrow>
     saga_history ctx name steps (xs @ ys) w"
  unfolding saga_history_def Let_def by blast

lemma comp_data_nonempty [simp]: "comp_data ctx c \<noteq> []"
  using map_of_dict_merge [of ctx "[(''completed_steps'', PList (map (\<lambda>s. Str (step_name s)) c))]" "''completed_steps''"]
  by (auto simp: comp_data_def)

lemma saga_data_nonempty [simp]: "saga_data ctx name \<noteq> []"
  using map_of_dict_merge [of ctx "[(''protocol'', Str ''saga''), (''tx_name'', Str name)]" "''tx_name''"]
  by (auto simp: saga_data_def)

text \<open>The executor once the results are in.\<close>

definition saga_conclude :: "redis_client \<Rightarrow> 'n transport \<Rightarrow> string \<Rightarrow> dict \<Rightarrow> step_def list \<Rightarrow> pyval \<Rightarrow> bool \<Rightarrow> ('n proc, pyval) py" where
  "saga_conclude cl tr s ctx completed reason ok = (if ok then
       bindE (wal_log_terminal cl s ''COMPLETED'' None) (\<lambda>_. ret status_success)
     else
       bindE (wal_log cl s ''COMPENSATING'' (Some (comp_data ctx completed))) (\<lambda>_.
       bindE (for_each (rev completed) (\<lambda>step. verified_action cl tr ''compensate'' ''compensated'' s [step] ctx)) (\<lambda>_.
       bindE (wal_log_terminal cl s ''FAILED'' None) (\<lambda>_. ret (status_failed reason)))))"

lemma to_undo_subset: "set (to_undo steps xs) \<subseteq> set steps"
  by (auto simp: to_undo_def dest: set_zip_leftD)

lemma triple_undo_phase:
  fixes w0 :: "string \<rightharpoonup> string \<times> dict"
  assumes "redis_server (cl_rc cl)" "\<forall>step\<in>set steps. builder_ok s ctx step" "live \<longrightarrow> env_lives env"
    and xs: "to_all ''execute'' (Some (''EXECUTING'', saga_data ctx name)) steps xs" "\<not> list_all (said ''executed'') xs" and reason: "worst (Str []) xs = Inr reason"
  shows "triple (wal_at live (w0(s := undo_log ctx steps xs)) xs)
    (bindE (for_each (rev (to_undo steps xs)) (\<lambda>step. verified_action cl (recording s env) ''compensate'' ''compensated'' s [step] ctx)) (\<lambda>_.
     bindE (wal_log_terminal cl s ''FAILED'' None) (\<lambda>_. ret (status_failed reason))))
    (saga_done live w0 s ctx name steps) (\<lambda>_. saga_cut live w0 s ctx name steps)"
proof -
  let ?U = "undo_log ctx steps xs" and ?ss = "rev (to_undo steps xs)"
  have "\<forall>step\<in>set ?ss. builder_ok s ctx step" using assms(2) to_undo_subset by fastforce
  from triple_undo [OF assms(1) this assms(3), of "w0(s := ?U)" xs]
  have u: "triple (wal_at live (w0(s := ?U)) xs)
      (for_each ?ss (\<lambda>step. verified_action cl (recording s env) ''compensate'' ''compensated'' s [step] ctx))
      (\<lambda>_ st. \<exists>ys. wal_at live (w0(s := ?U)) (xs @ ys) st \<and> undone ?U ?ss ys)
      (\<lambda>_ st. \<not> live \<and> (\<exists>ys. wal_at live (w0(s := ?U)) (xs @ ys) st \<and> undoing ?U ?ss ys))" by simp
  show ?thesis
  proof (rule triple_seq [OF u])
    fix e :: exn and st
    assume "\<not> live \<and> (\<exists>ys. wal_at live (w0(s := ?U)) (xs @ ys) st \<and> undoing ?U ?ss ys)"
    then obtain ys where y: "\<not> live" "wal_at live (w0(s := ?U)) (xs @ ys) st" "undoing ?U ?ss ys" by blast
    show "saga_cut live w0 s ctx name steps st"
      by (rule saga_cutI [OF y(1,2) saga_history_undo [OF xs y(3) disjI1 [OF refl]]])
  next
    fix u :: unit
    have "triple (wal_at live (w0(s := ?U)) (xs @ ys))
        (bindE (wal_log_terminal cl s ''FAILED'' None) (\<lambda>_. ret (status_failed reason)))
        (saga_done live w0 s ctx name steps) (\<lambda>_. saga_cut live w0 s ctx name steps)" if ys: "undone ?U ?ss ys" for ys
    proof (rule triple_seq [OF triple_wal_finish [OF assms(1), of "''FAILED''" wal_log_terminal]])
      fix e and st :: "obs list proc"
      assume "wal_between live (w0(s := ?U)) ((w0(s := ?U))(s := None)) (xs @ ys) e st"
      then show "saga_cut live w0 s ctx name steps st"
        using saga_history_undo [OF xs undone_undoing [OF ys]] by (auto intro: saga_cut_between)
    next
      have "saga_voted ctx name steps (xs @ ys) (status_failed reason)"
        unfolding saga_voted_def Let_def using xs ys reason by blast
      then show "triple (wal_at live ((w0(s := ?U))(s := None)) (xs @ ys)) (ret (status_failed reason))
          (saga_done live w0 s ctx name steps) (\<lambda>_. saga_cut live w0 s ctx name steps)" for u :: unit
        by (auto intro!: triple_ret simp: saga_done_def)
    qed (simp_all add: TERMINAL_STATES_def)
    then show "triple (\<lambda>st. \<exists>ys. wal_at live (w0(s := ?U)) (xs @ ys) st \<and> undone ?U ?ss ys)
        (bindE (wal_log_terminal cl s ''FAILED'' None) (\<lambda>_. ret (status_failed reason)))
        (saga_done live w0 s ctx name steps) (\<lambda>_. saga_cut live w0 s ctx name steps)"
      by (intro triple_ex triple_pure)
  qed
qed

lemma triple_conclude:
  fixes w0 :: "string \<rightharpoonup> string \<times> dict"
  assumes "redis_server (cl_rc cl)" "\<forall>step\<in>set steps. builder_ok s ctx step" "live \<longrightarrow> env_lives env"
    and xs: "to_all ''execute'' (Some (''EXECUTING'', saga_data ctx name)) steps xs" and reason: "worst (Str []) xs = Inr reason"
  shows "triple (wal_at live (w0(s \<mapsto> (''EXECUTING'', saga_data ctx name))) xs)
    (saga_conclude cl (recording s env) s ctx (to_undo steps xs) reason (list_all (said ''executed'') xs))
    (saga_done live w0 s ctx name steps) (\<lambda>_. saga_cut live w0 s ctx name steps)"
  unfolding saga_conclude_def
proof (rule triple_if)
  assume ok: "list_all (said ''executed'') xs"
  show "triple (wal_at live (w0(s \<mapsto> (''EXECUTING'', saga_data ctx name))) xs)
      (bindE (wal_log_terminal cl s ''COMPLETED'' None) (\<lambda>_. ret status_success))
      (saga_done live w0 s ctx name steps) (\<lambda>_. saga_cut live w0 s ctx name steps)"
  proof (rule triple_seq [OF triple_wal_finish [OF assms(1), of "''COMPLETED''" wal_log_terminal]])
    fix e and st :: "obs list proc"
    assume "wal_between live (w0(s \<mapsto> (''EXECUTING'', saga_data ctx name)))
        ((w0(s \<mapsto> (''EXECUTING'', saga_data ctx name)))(s := None)) xs e st"
    then show "saga_cut live w0 s ctx name steps st"
      using saga_history_execute [OF to_all_some [OF xs]] saga_history_success [OF xs ok] by (auto intro: saga_cut_between)
  next
    have "saga_voted ctx name steps xs status_success" unfolding saga_voted_def Let_def using xs ok by blast
    then show "triple (wal_at live ((w0(s \<mapsto> (''EXECUTING'', saga_data ctx name)))(s := None)) xs) (ret status_success)
        (saga_done live w0 s ctx name steps) (\<lambda>_. saga_cut live w0 s ctx name steps)" for u :: unit
      by (auto intro!: triple_ret simp: saga_done_def)
  qed (simp_all add: TERMINAL_STATES_def)
next
  assume ok: "\<not> list_all (said ''executed'') xs"
  let ?C = "comp_data ctx (to_undo steps xs)"
  have U: "Some (''COMPENSATING'', ?C) = undo_log ctx steps xs" by (simp add: undo_log_def)
  show "triple (wal_at live (w0(s \<mapsto> (''EXECUTING'', saga_data ctx name))) xs)
      (bindE (wal_log cl s ''COMPENSATING'' (Some ?C)) (\<lambda>_.
       bindE (for_each (rev (to_undo steps xs)) (\<lambda>step. verified_action cl (recording s env) ''compensate'' ''compensated'' s [step] ctx)) (\<lambda>_.
       bindE (wal_log_terminal cl s ''FAILED'' None) (\<lambda>_. ret (status_failed reason)))))
      (saga_done live w0 s ctx name steps) (\<lambda>_. saga_cut live w0 s ctx name steps)"
  proof (rule triple_seq [OF triple_wal_log [OF assms(1)]])
    fix e and st :: "obs list proc"
    assume "wal_between live (w0(s \<mapsto> (''EXECUTING'', saga_data ctx name)))
        ((w0(s \<mapsto> (''EXECUTING'', saga_data ctx name)))(s \<mapsto> (''COMPENSATING'', ?C))) xs e st"
    then have w: "wal_between live (w0(s := Some (''EXECUTING'', saga_data ctx name))) (w0(s := undo_log ctx steps xs)) xs e st"
      by (simp only: fun_upd_upd U)
    have "saga_history ctx name steps (xs @ []) (undo_log ctx steps xs)"
      by (rule saga_history_undo [OF xs ok undoing_start disjI1 [OF refl]])
    then have h: "saga_history ctx name steps xs (undo_log ctx steps xs)" unfolding append_Nil2 .
    show "saga_cut live w0 s ctx name steps st"
      by (rule saga_cut_between [OF w saga_history_execute [OF to_all_some [OF xs]] h])
  next
    show "triple (wal_at live ((w0(s \<mapsto> (''EXECUTING'', saga_data ctx name)))(s \<mapsto> (''COMPENSATING'', ?C))) xs)
       (bindE (for_each (rev (to_undo steps xs)) (\<lambda>step. verified_action cl (recording s env) ''compensate'' ''compensated'' s [step] ctx)) (\<lambda>_.
        bindE (wal_log_terminal cl s ''FAILED'' None) (\<lambda>_. ret (status_failed reason))))
       (saga_done live w0 s ctx name steps) (\<lambda>_. saga_cut live w0 s ctx name steps)" for u :: unit
      unfolding fun_upd_upd U by (rule triple_undo_phase [OF assms(1-4) ok reason])
  qed (simp_all add: TERMINAL_STATES_def)
qed

text \<open>The executor once no breaker is in the way.\<close>

definition saga_vote :: "redis_client \<Rightarrow> 'n transport \<Rightarrow> transaction \<Rightarrow> string \<Rightarrow> dict \<Rightarrow> string \<Rightarrow> ('n proc, pyval) py" where
  "saga_vote cl tr tx s ctx name =
     bindE (wal_log cl s ''EXECUTING'' (Some (saga_data ctx name))) (\<lambda>_.
     bindE (broadcast tr ''execute'' s (td_steps tx) ctx) (\<lambda>step_results.
     bindE (fold_each saga_verdict step_results ([], Str [], True)) (\<lambda>(completed, reason, ok).
     saga_conclude cl tr s ctx completed reason ok)))"

lemma saga_execute_eq:
  "saga_execute cl tr tx s ctx name = bindE (check_circuit_breakers (td_steps tx)) (\<lambda>err. case err of
     Some msg \<Rightarrow> bindE (wal_log_terminal cl s ''FAILED'' None) (\<lambda>_. ret (status_failed (Str msg)))
   | None \<Rightarrow> saga_vote cl tr tx s ctx name)"
  unfolding saga_execute_def saga_vote_def saga_conclude_def saga_data_def comp_data_def by (rule refl)

text \<open>Every reply has a reason the executor can rank.\<close>

definition env_ranked :: "env \<Rightarrow> bool" where
  "env_ranked env \<longleftrightarrow> (\<forall>h sv a p v. fst (env h sv a p) = Inr v \<longrightarrow> hashable (saga_reason v))"

lemma vote_ranked: "env_ranked env \<Longrightarrow> answered env e \<Longrightarrow> hashable (saga_reason (vote_of e))"
proof -
  assume r: "env_ranked env" "answered env e"
  have f: "hashable (saga_reason (event_failed t))" for t
    by (simp add: hashable_def saga_reason_def event_failed_def dict_get_def reason_priority_def)
  show ?thesis
  proof (cases "ob_reply e")
    case (Inl x)
    then show ?thesis using f by (simp add: vote_of_def step_result_def)
  next
    case (Inr v)
    then have "hashable (saga_reason v)" using r unfolding env_ranked_def answered_def by metis
    then show ?thesis using Inr by (simp add: vote_of_def step_result_def)
  qed
qed

lemma triple_saga_vote:
  fixes w0 :: "string \<rightharpoonup> string \<times> dict"
  assumes "redis_server (cl_rc cl)" "\<forall>step\<in>set (td_steps tx). builder_ok s ctx step" "live \<longrightarrow> env_lives env \<and> env_ranked env"
    and "w0 s = None"
  shows "triple (wal_at live w0 []) (saga_vote cl (recording s env) tx s ctx name)
    (saga_done live w0 s ctx name (td_steps tx)) (\<lambda>_. saga_cut live w0 s ctx name (td_steps tx))"
proof -
  let ?ss = "td_steps tx" and ?X = "(''EXECUTING'', saga_data ctx name)"
  let ?P = "saga_done live w0 s ctx name ?ss" and ?E = "\<lambda>_::exn. saga_cut live w0 s ctx name ?ss"
  have w0: "w0(s := None) = w0" using assms(4) by auto
  have lv: "live \<longrightarrow> env_lives env" using assms(3) by blast
  have log: "triple (wal_at live w0 []) (wal_log cl s ''EXECUTING'' (Some (saga_data ctx name))) (\<lambda>_. wal_at live (w0(s \<mapsto> ?X)) []) ?E"
  proof (rule triple_weaken [OF triple_wal_log [OF assms(1)]])
    fix e and st :: "obs list proc"
    assume "wal_between live w0 (w0(s \<mapsto> ?X)) [] e st"
    then show "saga_cut live w0 s ctx name ?ss st"
      using saga_cut_between [of live w0 s None "Some ?X" "[]" e st, OF _ saga_history_empty saga_history_execute] w0
      by (simp add: to_some_def)
  qed (auto simp: TERMINAL_STATES_def)
  have fin: "triple (wal_at live (w0(s \<mapsto> ?X)) es)
      (bindE (fold_each saga_verdict (zip ?ss (map vote_of es)) ([], Str [], True)) (\<lambda>(completed, reason, ok).
       saga_conclude cl (recording s env) s ctx completed reason ok)) ?P ?E"
    if es: "to_all ''execute'' (Some ?X) ?ss es" "list_all (answered env) es" for es
  proof (rule triple_seq [OF triple_pre [OF triple_verdicts]])
    show "live \<longrightarrow> (\<forall>e\<in>set es. hashable (saga_reason (vote_of e)))"
      using assms(3) es(2) vote_ranked by (auto simp: list_all_iff)
    show "length es = length ?ss" by (rule to_all_length [OF es(1)])
    show "wal_at live (w0(s \<mapsto> ?X)) es st \<and> (live \<longrightarrow> hashable (Str []))" if "wal_at live (w0(s \<mapsto> ?X)) es st" for st
      using that by (simp add: hashable_def reason_priority_def)
    show "saga_cut live w0 s ctx name ?ss st" if "wal_at live (w0(s \<mapsto> ?X)) es st \<and> \<not> live" for e st
      using that saga_cutI saga_history_execute [OF to_all_some [OF es(1)]] by blast
    fix x :: "step_def list \<times> pyval \<times> bool"
    obtain c r k where x: "x = (c, r, k)" by (cases x)
    have "triple (wal_at live (w0(s \<mapsto> ?X)) es) (saga_conclude cl (recording s env) s ctx (to_undo ?ss es) r (list_all (said ''executed'') es)) ?P ?E"
      if "worst (Str []) es = Inr r"
      by (rule triple_conclude [OF assms(1,2) lv es(1) that])
    then show "triple (case x of (c, r, k) \<Rightarrow> \<lambda>st. wal_at live (w0(s \<mapsto> ?X)) es st \<and> c = [] @ to_undo ?ss es \<and> k = (True \<and> list_all (said ''executed'') es) \<and> worst (Str []) es = Inr r)
        (case x of (completed, reason, ok) \<Rightarrow> saga_conclude cl (recording s env) s ctx completed reason ok) ?P ?E"
      unfolding x prod.case by (intro triple_pure) simp
  qed
  have cast: "triple (wal_at live (w0(s \<mapsto> ?X)) [])
      (bindE (broadcast (recording s env) ''execute'' s ?ss ctx) (\<lambda>step_results.
       bindE (fold_each saga_verdict step_results ([], Str [], True)) (\<lambda>(completed, reason, ok).
       saga_conclude cl (recording s env) s ctx completed reason ok))) ?P ?E"
  proof (rule triple_seq [OF triple_votes [OF assms(2) lv]])
    fix x :: exn and st
    assume "\<not> live \<and> (\<exists>es. wal_at live (w0(s \<mapsto> ?X)) ([] @ es) st \<and> to_some ''execute'' ((w0(s \<mapsto> ?X)) s) ?ss es)"
    then obtain es where "\<not> live" "wal_at live (w0(s \<mapsto> ?X)) es st" "to_some ''execute'' (Some ?X) ?ss es" by auto
    then show "saga_cut live w0 s ctx name ?ss st" using saga_cutI saga_history_execute by blast
  next
    fix votes
    show "triple (\<lambda>st. \<exists>es. wal_at live (w0(s \<mapsto> ?X)) ([] @ es) st \<and> to_all ''execute'' ((w0(s \<mapsto> ?X)) s) ?ss es \<and>
          list_all (answered env) es \<and> votes = zip ?ss (map vote_of es))
        (bindE (fold_each saga_verdict votes ([], Str [], True)) (\<lambda>(completed, reason, ok).
         saga_conclude cl (recording s env) s ctx completed reason ok)) ?P ?E"
      by (intro triple_ex triple_pure) (use fin in auto)
  qed
  show ?thesis
    unfolding saga_vote_def by (rule triple_bind [OF log cast])
qed

lemma triple_saga:
  fixes w0 :: "string \<rightharpoonup> string \<times> dict"
  assumes "redis_server (cl_rc cl)" "\<forall>step\<in>set (td_steps tx). builder_ok s ctx step" "live \<longrightarrow> env_lives env \<and> env_ranked env"
    and "w0 s = None"
  shows "triple (wal_at live w0 []) (saga_execute cl (recording s env) tx s ctx name)
    (saga_post live w0 s ctx name (td_steps tx)) (\<lambda>_. saga_cut live w0 s ctx name (td_steps tx))"
proof -
  let ?ss = "td_steps tx" and ?X = "(''EXECUTING'', saga_data ctx name)"
  let ?P = "saga_post live w0 s ctx name ?ss" and ?E = "\<lambda>_::exn. saga_cut live w0 s ctx name ?ss"
  have w0: "w0(s := None) = w0" using assms(4) by auto
  have check: "triple (wal_at live w0 []) (bindE (wal_log_terminal cl s ''FAILED'' None) (\<lambda>_. ret (status_failed (Str msg)))) ?P ?E"
    if "\<exists>sv\<in>service ` set ?ss. msg = ''service_'' @ sv @ ''_unavailable''" for msg
  proof (rule triple_seq [OF triple_wal_finish [OF assms(1), of "''FAILED''" wal_log_terminal]])
    fix e and st :: "obs list proc"
    assume "wal_between live w0 (w0(s := None)) [] e st"
    then show "saga_cut live w0 s ctx name ?ss st"
      using saga_cut_between [of live w0 s None None "[]" e st, OF _ saga_history_empty saga_history_empty] w0 by simp
  next
    have "saga_outcome ctx name ?ss [] (status_failed (Str msg))" unfolding saga_outcome_def using that by blast
    then show "triple (wal_at live (w0(s := None)) []) (ret (status_failed (Str msg))) ?P ?E" for u :: unit
      by (intro triple_ret) (auto simp: saga_post_def)
  qed (simp_all add: TERMINAL_STATES_def)
  have vote: "triple (wal_at live w0 []) (saga_vote cl (recording s env) tx s ctx name) ?P ?E"
    by (rule triple_weaken [OF triple_saga_vote [of cl tx s ctx live env w0 name, OF assms]]) (use saga_done_post in auto)
  show ?thesis
    unfolding saga_execute_eq
  proof (rule triple_bind [OF triple_check])
    fix err
    show "triple (\<lambda>st. wal_at live w0 [] st \<and> (\<forall>msg. err = Some msg \<longrightarrow> (\<exists>sv\<in>service ` set ?ss. msg = ''service_'' @ sv @ ''_unavailable'')))
        (case err of Some msg \<Rightarrow> bindE (wal_log_terminal cl s ''FAILED'' None) (\<lambda>_. ret (status_failed (Str msg)))
         | None \<Rightarrow> saga_vote cl (recording s env) tx s ctx name) ?P ?E"
      by (rule triple_pure, cases err) (use check vote in auto)
  qed
qed

section \<open>Properties\<close>

lemma saga_run:
  assumes "redis_server (cl_rc cl)" "\<forall>step\<in>set (td_steps tx). builder_ok s ctx step"
    and "wal_inv (c_db st)" "wal_map (c_db st) s = None" "net st = []"
    and "saga_execute cl (recording s env) tx s ctx name st = (r, st')"
  shows "\<exists>w. wal_map (c_db st') = (wal_map (c_db st))(s := w) \<and> saga_history ctx name (td_steps tx) (net st') w"
proof -
  let ?w0 = "wal_map (c_db st)"
  have t: "triple (wal_at False ?w0 []) (saga_execute cl (recording s env) tx s ctx name)
      (saga_post False ?w0 s ctx name (td_steps tx)) (\<lambda>_. saga_cut False ?w0 s ctx name (td_steps tx))"
    by (rule triple_saga) (use assms in auto)
  have w: "wal_at False ?w0 [] st" using assms(3,5) by (simp add: wal_at_def)
  show ?thesis
  proof (cases r)
    case (Inl e)
    then show ?thesis using triple_raise_D [OF t w] assms(6) by (auto simp: saga_cut_def wal_at_def)
  next
    case (Inr x)
    then have "saga_post False ?w0 s ctx name (td_steps tx) x st'" using triple_ret_D [OF t w] assms(6) by simp
    then have p: "wal_map (c_db st') = ?w0(s := None)" "saga_outcome ctx name (td_steps tx) (net st') x"
      by (auto simp: saga_post_def wal_at_def)
    consider "net st' = []"
      | "to_all ''execute'' (Some (''EXECUTING'', saga_data ctx name)) (td_steps tx) (net st')" "list_all (said ''executed'') (net st')"
      | xs ys where "net st' = xs @ ys" "to_all ''execute'' (Some (''EXECUTING'', saga_data ctx name)) (td_steps tx) xs"
          "\<not> list_all (said ''executed'') xs" "undone (undo_log ctx (td_steps tx) xs) (rev (to_undo (td_steps tx) xs)) ys"
      using p(2) unfolding saga_outcome_def saga_voted_def Let_def by blast
    then have "saga_history ctx name (td_steps tx) (net st') None"
    proof cases
      case 1
      then show ?thesis using saga_history_empty by simp
    next
      case 2
      then show ?thesis by (rule saga_history_success)
    next
      case 3
      show ?thesis unfolding 3(1) by (rule saga_history_undo [OF 3(2,3) undone_undoing [OF 3(4)] disjI2 [OF refl]])
    qed
    then show ?thesis using p(1) by blast
  qed
qed

lemma saga_run_outcome:
  assumes "redis_server (cl_rc cl)" "\<forall>step\<in>set (td_steps tx). builder_ok s ctx step"
    and "wal_inv (c_db st)" "wal_map (c_db st) s = None" "net st = []"
    and "saga_execute cl (recording s env) tx s ctx name st = (Inr x, st')"
  shows "saga_outcome ctx name (td_steps tx) (net st') x" "wal_map (c_db st') s = None"
proof -
  let ?w0 = "wal_map (c_db st)"
  have t: "triple (wal_at False ?w0 []) (saga_execute cl (recording s env) tx s ctx name)
      (saga_post False ?w0 s ctx name (td_steps tx)) (\<lambda>_. saga_cut False ?w0 s ctx name (td_steps tx))"
    by (rule triple_saga) (use assms in auto)
  have w: "wal_at False ?w0 [] st" using assms(3,5) by (simp add: wal_at_def)
  show "saga_outcome ctx name (td_steps tx) (net st') x" "wal_map (c_db st') s = None"
    using triple_ret_D [OF t w assms(6)] by (auto simp: saga_post_def wal_at_def)
qed

lemma saga_live:
  assumes "redis_server (cl_rc cl)" "\<forall>step\<in>set (td_steps tx). builder_ok s ctx step"
    and "wal_inv (c_db st)" "wal_map (c_db st) s = None" "net st = []" "online st" "env_lives env" "env_ranked env"
  shows "\<exists>x st'. saga_execute cl (recording s env) tx s ctx name st = (Inr x, st') \<and>
    saga_outcome ctx name (td_steps tx) (net st') x \<and> wal_map (c_db st') s = None"
proof -
  let ?w0 = "wal_map (c_db st)"
  have t: "triple (wal_at True ?w0 []) (saga_execute cl (recording s env) tx s ctx name)
      (saga_post True ?w0 s ctx name (td_steps tx)) (\<lambda>_. saga_cut True ?w0 s ctx name (td_steps tx))"
    by (rule triple_saga) (use assms in auto)
  have w: "wal_at True ?w0 [] st" using assms(3,5,6) by simp
  obtain r st' where run: "saga_execute cl (recording s env) tx s ctx name st = (r, st')" by fastforce
  then obtain x where x: "r = Inr x"
    using triple_raise_D [OF t w] by (cases r) (auto simp: saga_cut_def)
  then have "saga_post True ?w0 s ctx name (td_steps tx) x st'" using triple_ret_D [OF t w] run by simp
  then show ?thesis using run x by (auto simp: saga_post_def)
qed

text \<open>C11 (safety): However the network, the services and the order database behave, and wherever
  the run stops, what the saga executor has sent is a legal history of the log entry it leaves:
  each step is executed at most once, in order, under EXECUTING; compensations are sent only under
  COMPENSATING, after every step was asked and some step did not answer executed, and only to steps
  that answered executed or timed out, one after the other in reverse order. Other sagas' log
  entries do not change.\<close>

theorem saga_executor_history:
  assumes "redis_server (cl_rc cl)" "\<forall>step\<in>set (td_steps tx). builder_ok s ctx step"
    and "wal_inv (c_db st)" "wal_map (c_db st) s = None" "net st = []"
    and "saga_execute cl (recording s env) tx s ctx name st = (r, st')"
  shows "saga_history ctx name (td_steps tx) (net st') (wal_map (c_db st') s) \<and>
    (\<forall>s'. s' \<noteq> s \<longrightarrow> wal_map (c_db st') s' = wal_map (c_db st) s')"
  using saga_run [OF assms] by auto

text \<open>C29 (liveness): On a database connection that works, unless the process is killed or cancelled,
  and if every reply has a reason that can be ranked, the saga executor returns and its saga leaves
  the log: with success iff every step answered executed; otherwise with a failure, after every step
  that answered executed or timed out was compensated in reverse order, each until it acknowledged or
  \<open>MAX_VERIFIED_RETRIES\<close> times; its reason is the first of the highest priority among the answers.\<close>

theorem saga_executor_returns:
  assumes "redis_server (cl_rc cl)" "\<forall>step\<in>set (td_steps tx). builder_ok s ctx step"
    and "wal_inv (c_db st)" "wal_map (c_db st) s = None" "net st = []" "online st" "env_lives env" "env_ranked env"
  shows "\<exists>x st'. saga_execute cl (recording s env) tx s ctx name st = (Inr x, st') \<and>
    saga_outcome ctx name (td_steps tx) (net st') x \<and> wal_map (c_db st') s = None"
  by (rule saga_live [OF assms])

subsection \<open>Witnesses\<close>

text \<open>The payment service refuses: the stock step is compensated.\<close>

definition broke :: env where
  "broke h sv a p = (if sv = ''payment'' \<and> a = ''execute''
     then (Inr (PDict [(''event'', Str ''failed''), (''reason'', Str ''insufficient_credit'')]), 1) else obliging h sv a p)"

lemma broke_env: "env_lives broke" "env_ranked broke"
proof -
  show "env_lives broke" by (simp add: env_lives_def broke_def obliging_def)
  have "hashable (saga_reason v)" if "fst (broke h sv a p) = Inr v" for h sv a p v
    using that by (auto simp: broke_def obliging_def hashable_def saga_reason_def dict_get_def reason_priority_def split: if_splits)
  then show "env_ranked broke" unfolding env_ranked_def by blast
qed

theorem saga_executor_history_witness:
  "\<exists>r st'. saga_execute mem_client (recording ''s'' broke) shop_tx ''s'' [] ''checkout'' (fresh_proc []) = (r, st') \<and>
     saga_history [] ''checkout'' (td_steps shop_tx) (net st') (wal_map (c_db st') ''s'')"
proof -
  obtain r st' where "saga_execute mem_client (recording ''s'' broke) shop_tx ''s'' [] ''checkout'' (fresh_proc []) = (r, st')"
    by (metis surj_pair)
  then show ?thesis using saga_executor_history [OF shop_run] by blast
qed

theorem saga_executor_returns_witness:
  "\<exists>x st'. saga_execute mem_client (recording ''s'' broke) shop_tx ''s'' [] ''checkout'' (fresh_proc []) = (Inr x, st') \<and>
     saga_outcome [] ''checkout'' (td_steps shop_tx) (net st') x"
  using saga_executor_returns [OF shop_run fresh_proc_log(1) broke_env] by blast

section \<open>Recovery of an interrupted compensation\<close>

text \<open>C30 (error): The log record COMPENSATING does not name the transaction. Recovery of a saga that
  crashed while compensating therefore finds no definition, sends no compensation at all and
  declares the saga failed, whatever it had executed.\<close>

theorem compensating_recovery_sends_nothing:
  assumes "map_of defs [] = None" and "map_of ctx ''tx_name'' = None"
  shows "recover_saga cl tr defs s ''COMPENSATING'' (PDict (comp_data ctx completed)) st = wal_log cl s ''FAILED'' None st"
proof -
  have "tx_def_of defs (PDict (comp_data ctx completed)) = Inr None"
    using assms by (simp add: tx_def_of_def py_get_def dict_get_def comp_data_def map_of_dict_merge)
  then show ?thesis by (simp add: recover_saga_def compensate_all_def send_action_to_all_def)
qed

theorem compensating_recovery_sends_nothing_witness:
  "recover_saga mem_client (recording ''s'' obliging) [(''checkout'', shop_tx)] ''s'' ''COMPENSATING''
     (PDict (comp_data [(''order_id'', Str ''o'')] (td_steps shop_tx))) (fresh_proc []) =
   wal_log mem_client ''s'' ''FAILED'' None (fresh_proc [])"
  by (rule compensating_recovery_sends_nothing) simp_all

end
