(* ===== verification/StockScripts.thy ===== *)
theory StockScripts
  imports Redis
begin

text \<open>
  The Lua scripts of the stock service (\<open>lua/stock_*.lua\<close>), each an atomic transformation of the
  stock database, and the layout of their \<open>KEYS\<close> and \<open>ARGV\<close>.
\<close>

section \<open>Keys of the stock database\<close>

definition item_key :: "string \<Rightarrow> string" where
  "item_key item_id = ''item:'' @ item_id"

definition stock_lock_key :: "string \<Rightarrow> string \<Rightarrow> string" where
  "stock_lock_key saga_id item_id = ''lock:2pc:'' @ saga_id @ '':'' @ item_id"

definition stock_status_key :: "string \<Rightarrow> string" where
  "stock_status_key saga_id = ''saga:'' @ saga_id @ '':stock:status''"

definition stock_amounts_key :: "string \<Rightarrow> string" where
  "stock_amounts_key saga_id = ''saga:'' @ saga_id @ '':stock:amounts''"

definition amount_field :: "string \<Rightarrow> string" where
  "amount_field item_id = ''amount:'' @ item_id"

lemma stock_keys_inject [simp]:
  "item_key i = item_key j \<longleftrightarrow> i = j"
  "stock_status_key s = stock_status_key s' \<longleftrightarrow> s = s'"
  "stock_amounts_key s = stock_amounts_key s' \<longleftrightarrow> s = s'"
  "amount_field i = amount_field j \<longleftrightarrow> i = j"
  by (simp_all add: item_key_def stock_status_key_def stock_amounts_key_def amount_field_def)

lemma stock_status_amounts [simp]:
  "stock_status_key s \<noteq> stock_amounts_key s'" "stock_amounts_key s' \<noteq> stock_status_key s"
proof -
  have "rev (stock_status_key s) \<noteq> rev (stock_amounts_key s')"
    by (simp add: stock_status_key_def stock_amounts_key_def)
  then show "stock_status_key s \<noteq> stock_amounts_key s'" "stock_amounts_key s' \<noteq> stock_status_key s"
    by auto
qed

lemma stock_keys_distinct [simp]:
  "item_key i \<noteq> stock_lock_key s j" "stock_lock_key s j \<noteq> item_key i"
  "item_key i \<noteq> stock_status_key s" "stock_status_key s \<noteq> item_key i"
  "item_key i \<noteq> stock_amounts_key s" "stock_amounts_key s \<noteq> item_key i"
  "stock_lock_key s j \<noteq> stock_status_key s'" "stock_status_key s' \<noteq> stock_lock_key s j"
  "stock_lock_key s j \<noteq> stock_amounts_key s'" "stock_amounts_key s' \<noteq> stock_lock_key s j"
  by (simp_all add: item_key_def stock_status_key_def stock_amounts_key_def stock_lock_key_def)

lemma amount_field_status [simp]: "amount_field i \<noteq> ''status''" "''status'' \<noteq> amount_field i"
  by (simp_all add: amount_field_def)

section \<open>The scripts\<close>

definition stock_2pc_prepare :: "redis \<Rightarrow> string list \<Rightarrow> string list \<Rightarrow> int script" where
  "stock_2pc_prepare rc KEYS ARGV =
    bindE (lua_at ARGV 2) (\<lambda>ttl. bindE (number ttl) (\<lambda>lock_ttl.
    let n_items = (length KEYS - 1) div 2 in
    bindE (lua_at KEYS (2 * n_items + 1)) (\<lambda>status_key.
    bindE (rc (HGET status_key ''status'')) (\<lambda>status.
    if status = Bulk (Text ''prepared'') then ret 1
    else if status = Bulk (Text ''aborted'') \<or> status = Bulk (Text ''committed'') then ret 0
    else bindE (check_upto n_items (\<lambda>i.
        bindE (lua_at KEYS i) (\<lambda>key.
        bindE (lua_at ARGV (2 + i * 2)) (\<lambda>a. bindE (number a) (\<lambda>amount.
        bindE (rc (HGET key ''available_stock'')) (\<lambda>r.
        ret (case tonumber r of None \<Rightarrow> False | Some available \<Rightarrow> \<not> available < amount)))))))
      (\<lambda>ok. if \<not> ok then ret 0
        else bindE (for_upto n_items (\<lambda>i.
            bindE (lua_at KEYS i) (\<lambda>key.
            bindE (lua_at KEYS (n_items + i)) (\<lambda>lock_key.
            bindE (lua_at ARGV (1 + i * 2)) (\<lambda>item_id.
            bindE (lua_at ARGV (2 + i * 2)) (\<lambda>a. bindE (number a) (\<lambda>amount.
            bindE (act rc (HINCRBY key ''available_stock'' (- amount))) (\<lambda>_.
            bindE (act rc (SETEX lock_key lock_ttl (Text (show_int amount)))) (\<lambda>_.
            act rc (HSET status_key [(amount_field item_id, Text (show_int amount))])))))))))) (\<lambda>_.
          bindE (act rc (HSET status_key [(''status'', Text ''prepared'')])) (\<lambda>_.
          bindE (act rc (EXPIRE status_key 86400)) (\<lambda>_. ret 1))))))))"

definition stock_2pc_commit :: "redis \<Rightarrow> string list \<Rightarrow> string list \<Rightarrow> int script" where
  "stock_2pc_commit rc KEYS ARGV =
    bindE (lua_at ARGV 2) (\<lambda>n. bindE (number n) (\<lambda>n'. let n_items = nat n' in
    bindE (lua_at KEYS (2 * n_items + 1)) (\<lambda>status_key.
    bindE (rc (HGET status_key ''status'')) (\<lambda>status.
    if status = Bulk (Text ''committed'') then ret 1
    else bindE (if status \<noteq> Bulk (Text ''prepared'')
        then for_upto n_items (\<lambda>i.
          bindE (lua_at KEYS i) (\<lambda>key.
          bindE (lua_at ARGV (1 + i * 2)) (\<lambda>item_id.
          bindE (lua_at ARGV (2 + i * 2)) (\<lambda>a. bindE (number a) (\<lambda>amount.
          bindE (act rc (HINCRBY key ''available_stock'' (- amount))) (\<lambda>_.
          act rc (HSET status_key [(amount_field item_id, Text (show_int amount))])))))))
        else ret ()) (\<lambda>_.
      bindE (for_upto n_items (\<lambda>i.
        bindE (lua_at KEYS (n_items + i)) (\<lambda>lock_key. act rc (DEL lock_key)))) (\<lambda>_.
      bindE (act rc (HSET status_key [(''status'', Text ''committed'')])) (\<lambda>_.
      bindE (act rc (EXPIRE status_key 86400)) (\<lambda>_. ret 1))))))))"

definition stock_2pc_abort :: "redis \<Rightarrow> string list \<Rightarrow> string list \<Rightarrow> int script" where
  "stock_2pc_abort rc KEYS ARGV =
    bindE (lua_at ARGV 2) (\<lambda>n. bindE (number n) (\<lambda>n'. let n_items = nat n' in
    bindE (lua_at KEYS (2 * n_items + 1)) (\<lambda>status_key.
    bindE (rc (HGET status_key ''status'')) (\<lambda>status.
    if status = Bulk (Text ''aborted'') then ret 1
    else bindE (for_upto n_items (\<lambda>i.
        bindE (lua_at KEYS i) (\<lambda>key.
        bindE (lua_at KEYS (n_items + i)) (\<lambda>lock_key.
        bindE (lua_at ARGV (2 + i)) (\<lambda>item_id.
        bindE (rc (HGET status_key (amount_field item_id))) (\<lambda>amount.
        bindE (if amount \<noteq> Nil
          then (case tonumber amount of
              Some a \<Rightarrow> act rc (HINCRBY key ''available_stock'' a)
            | None \<Rightarrow> throw (LuaError ''nil value''))
          else ret ()) (\<lambda>_.
        act rc (DEL lock_key)))))))) (\<lambda>_.
      bindE (act rc (HSET status_key [(''status'', Text ''aborted'')])) (\<lambda>_.
      bindE (act rc (EXPIRE status_key 86400)) (\<lambda>_. ret 1)))))))"

definition stock_saga_execute :: "redis \<Rightarrow> string list \<Rightarrow> string list \<Rightarrow> int script" where
  "stock_saga_execute rc KEYS ARGV =
    (let n_items = length KEYS - 2 in
    bindE (lua_at KEYS (n_items + 1)) (\<lambda>status_key.
    bindE (lua_at KEYS (n_items + 2)) (\<lambda>amounts_key.
    bindE (rc (GET status_key)) (\<lambda>status.
    if status = Bulk (Text ''executed'') then ret 1
    else if status = Bulk (Text ''compensated'') then ret 0
    else bindE (check_upto n_items (\<lambda>i.
        bindE (lua_at KEYS i) (\<lambda>key.
        bindE (lua_at ARGV (1 + i * 2)) (\<lambda>a. bindE (number a) (\<lambda>amount.
        bindE (rc (HGET key ''available_stock'')) (\<lambda>r.
        ret (case tonumber r of None \<Rightarrow> False | Some available \<Rightarrow> \<not> available < amount)))))))
      (\<lambda>ok. if \<not> ok then ret 0
        else bindE (for_upto n_items (\<lambda>i.
            bindE (lua_at KEYS i) (\<lambda>key.
            bindE (lua_at ARGV (i * 2)) (\<lambda>item_id.
            bindE (lua_at ARGV (1 + i * 2)) (\<lambda>a. bindE (number a) (\<lambda>amount.
            bindE (act rc (HINCRBY key ''available_stock'' (- amount))) (\<lambda>_.
            act rc (HSET amounts_key [(item_id, Text (show_int amount))])))))))) (\<lambda>_.
          bindE (act rc (SETEX status_key 86400 (Text ''executed''))) (\<lambda>_.
          bindE (act rc (EXPIRE amounts_key 86400)) (\<lambda>_. ret 1))))))))"

text \<open>
  \<open>HGETALL\<close> answers a flat array of fields and values; the loop \<open>for j = 1, #all_amounts, 2\<close>
  walks it in steps of two.
\<close>

fun restore_amounts :: "redis \<Rightarrow> rtext list \<Rightarrow> unit script" where
  "restore_amounts rc (Text item_id # t # rest) =
     bindE (case counter_text t of
         Some amount \<Rightarrow> act rc (HINCRBY (item_key item_id) ''available_stock'' amount)
       | None \<Rightarrow> ret ()) (\<lambda>_. restore_amounts rc rest)"
| "restore_amounts rc _ = ret ()"

definition stock_saga_compensate :: "redis \<Rightarrow> string list \<Rightarrow> string list \<Rightarrow> int script" where
  "stock_saga_compensate rc KEYS ARGV =
    bindE (lua_at ARGV 2) (\<lambda>n. bindE (number n) (\<lambda>n'. let n_items = nat n' in
    bindE (lua_at KEYS (n_items + 1)) (\<lambda>status_key.
    bindE (lua_at KEYS (n_items + 2)) (\<lambda>amounts_key.
    bindE (rc (GET status_key)) (\<lambda>status.
    if status = Bulk (Text ''compensated'') then ret 1
    else bindE (rc (HGETALL amounts_key)) (\<lambda>all_amounts.
      bindE (restore_amounts rc (case all_amounts of Arr l \<Rightarrow> l | _ \<Rightarrow> [])) (\<lambda>_.
      bindE (act rc (DEL amounts_key)) (\<lambda>_.
      bindE (act rc (SETEX status_key 86400 (Text ''compensated''))) (\<lambda>_. ret 1)))))))))"

definition stock_subtract_direct :: "redis \<Rightarrow> string list \<Rightarrow> string list \<Rightarrow> int script" where
  "stock_subtract_direct rc KEYS ARGV =
    bindE (lua_at KEYS 1) (\<lambda>key. bindE (lua_at ARGV 1) (\<lambda>a. bindE (number a) (\<lambda>amount.
    bindE (rc (HGET key ''available_stock'')) (\<lambda>r.
    case tonumber r of
      None \<Rightarrow> throw (ErrReply ''ITEM_NOT_FOUND'')
    | Some available \<Rightarrow>
        if available < amount then throw (ErrReply ''INSUFFICIENT_STOCK'')
        else bindE (act rc (HINCRBY key ''available_stock'' (- amount))) (\<lambda>_. ret (available - amount))))))"

definition stock_add_direct :: "redis \<Rightarrow> string list \<Rightarrow> string list \<Rightarrow> int script" where
  "stock_add_direct rc KEYS ARGV =
    bindE (lua_at KEYS 1) (\<lambda>key. bindE (lua_at ARGV 1) (\<lambda>a. bindE (number a) (\<lambda>amount.
    bindE (rc (EXISTS key)) (\<lambda>exists.
    if exists = Num 0 then throw (ErrReply ''ITEM_NOT_FOUND'')
    else bindE (rc (HINCRBY key ''available_stock'' amount)) (\<lambda>r.
      case r of Num n \<Rightarrow> ret n | _ \<Rightarrow> throw (LuaError ''unexpected reply''))))))"

section \<open>The arguments the service passes\<close>

text \<open>The \<open>keys\<close> and \<open>args\<close> lists built by \<open>stock/app.py\<close> for the items of one command.\<close>

type_synonym item_list = "(string \<times> int) list"

definition stock_2pc_keys :: "string \<Rightarrow> item_list \<Rightarrow> string list" where
  "stock_2pc_keys saga_id items = map (\<lambda>p. item_key (fst p)) items
     @ map (\<lambda>p. stock_lock_key saga_id (fst p)) items @ [stock_status_key saga_id]"

definition stock_saga_keys :: "string \<Rightarrow> item_list \<Rightarrow> string list" where
  "stock_saga_keys saga_id items = map (\<lambda>p. item_key (fst p)) items
     @ [stock_status_key saga_id, stock_amounts_key saga_id]"

definition item_args :: "item_list \<Rightarrow> string list" where
  "item_args items = concat (map (\<lambda>p. [fst p, show_int (snd p)]) items)"

lemma stock_2pc_keys_nth:
  assumes "i < length items"
  shows "stock_2pc_keys s items ! i = item_key (fst (items ! i))"
    and "stock_2pc_keys s items ! (length items + i) = stock_lock_key s (fst (items ! i))"
  using assms by (simp_all add: stock_2pc_keys_def nth_append)

lemma stock_2pc_keys_last [simp]: "stock_2pc_keys s items ! (2 * length items) = stock_status_key s"
  by (simp add: stock_2pc_keys_def nth_append)

lemma length_stock_2pc_keys [simp]: "length (stock_2pc_keys s items) = Suc (2 * length items)"
  by (simp add: stock_2pc_keys_def)

lemma stock_saga_keys_nth:
  "i < length items \<Longrightarrow> stock_saga_keys s items ! i = item_key (fst (items ! i))"
  "stock_saga_keys s items ! length items = stock_status_key s"
  "stock_saga_keys s items ! Suc (length items) = stock_amounts_key s"
  by (simp_all add: stock_saga_keys_def nth_append)

lemma length_stock_saga_keys [simp]: "length (stock_saga_keys s items) = Suc (Suc (length items))"
  by (simp add: stock_saga_keys_def)

lemma item_args_nth:
  assumes "i < length items"
  shows "item_args items ! (2 * i) = fst (items ! i)" "item_args items ! Suc (2 * i) = show_int (snd (items ! i))"
  using assms by (simp_all add: item_args_def concat_pairs_nth)

lemma length_item_args [simp]: "length (item_args items) = 2 * length items"
  by (simp add: item_args_def length_concat_pairs)

end
