(* ===== verification/StockLaws.thy ===== *)
theory StockLaws
  imports StockScripts
begin

text \<open>
  What the stock scripts do, stated over the views of the database: the available stock of an
  item, the 2PC status and recorded amounts of a saga, and its Saga status and amounts.
\<close>

section \<open>Views of the stock database\<close>

definition avail :: "keyspace \<Rightarrow> string \<Rightarrow> int option" where
  "avail d i = counter d (item_key i) ''available_stock''"

definition stock_status :: "keyspace \<Rightarrow> string \<Rightarrow> rtext option" where
  "stock_status d s = field d (stock_status_key s) ''status''"

definition stock_amount :: "keyspace \<Rightarrow> string \<Rightarrow> string \<Rightarrow> int option" where
  "stock_amount d s i = counter d (stock_status_key s) (amount_field i)"

text \<open>The status key of a saga is not held by a value of another type.\<close>

definition stock_2pc_open :: "keyspace \<Rightarrow> string \<Rightarrow> bool" where
  "stock_2pc_open d s \<longleftrightarrow> hash_of d (stock_status_key s) \<noteq> None"

definition valid_items :: "item_list \<Rightarrow> bool" where
  "valid_items items \<longleftrightarrow> distinct (map fst items) \<and> list_all (\<lambda>(i, a). 0 < a \<and> in64 a) items"

definition in_stock :: "keyspace \<Rightarrow> item_list \<Rightarrow> bool" where
  "in_stock d items \<longleftrightarrow> list_all (\<lambda>(i, a). case avail d i of None \<Rightarrow> False | Some v \<Rightarrow> a \<le> v) items"

definition known_items :: "keyspace \<Rightarrow> item_list \<Rightarrow> bool" where
  "known_items d items \<longleftrightarrow> list_all (\<lambda>(i, a). avail d i \<noteq> None) items"

section \<open>The scripts item by item\<close>

definition check_item :: "redis \<Rightarrow> string \<times> int \<Rightarrow> bool script" where
  "check_item rc p = bindE (rc (HGET (item_key (fst p)) ''available_stock'')) (\<lambda>r.
     ret (case tonumber r of None \<Rightarrow> False | Some available \<Rightarrow> \<not> available < snd p))"

definition reserve_item :: "redis \<Rightarrow> string \<Rightarrow> int \<Rightarrow> string \<times> int \<Rightarrow> unit script" where
  "reserve_item rc s ttl p =
     bindE (act rc (HINCRBY (item_key (fst p)) ''available_stock'' (- snd p))) (\<lambda>_.
     bindE (act rc (SETEX (stock_lock_key s (fst p)) ttl (Text (show_int (snd p))))) (\<lambda>_.
     act rc (HSET (stock_status_key s) [(amount_field (fst p), Text (show_int (snd p)))])))"

definition redo_item :: "redis \<Rightarrow> string \<Rightarrow> string \<times> int \<Rightarrow> unit script" where
  "redo_item rc s p =
     bindE (act rc (HINCRBY (item_key (fst p)) ''available_stock'' (- snd p))) (\<lambda>_.
     act rc (HSET (stock_status_key s) [(amount_field (fst p), Text (show_int (snd p)))]))"

definition release_item :: "redis \<Rightarrow> string \<Rightarrow> string \<times> int \<Rightarrow> unit script" where
  "release_item rc s p =
     bindE (rc (HGET (stock_status_key s) (amount_field (fst p)))) (\<lambda>amount.
     bindE (if amount \<noteq> Nil
       then (case tonumber amount of
           Some a \<Rightarrow> act rc (HINCRBY (item_key (fst p)) ''available_stock'' a)
         | None \<Rightarrow> throw (LuaError ''nil value''))
       else ret ()) (\<lambda>_.
     act rc (DEL (stock_lock_key s (fst p)))))"

definition unlock_item :: "redis \<Rightarrow> string \<Rightarrow> string \<times> int \<Rightarrow> unit script" where
  "unlock_item rc s p = act rc (DEL (stock_lock_key s (fst p)))"

definition finish_2pc :: "redis \<Rightarrow> string \<Rightarrow> string \<Rightarrow> int script" where
  "finish_2pc rc s st =
     bindE (act rc (HSET (stock_status_key s) [(''status'', Text st)])) (\<lambda>_.
     bindE (act rc (EXPIRE (stock_status_key s) 86400)) (\<lambda>_. ret 1))"

lemma valid_items_nth: "valid_items items \<Longrightarrow> i < length items \<Longrightarrow> in64 (snd (items ! i))"
  by (auto simp: valid_items_def list_all_length case_prod_beta)

lemmas stock_layout = lua_at_ret stock_2pc_keys_nth stock_saga_keys_nth item_args_nth
  mult.commute [of _ "2::nat"] valid_items_nth

lemma stock_2pc_prepare_items:
  assumes "valid_items items" and "in64 ttl"
  shows "stock_2pc_prepare rc (stock_2pc_keys s items) (s # show_int ttl # item_args items) =
    bindE (rc (HGET (stock_status_key s) ''status'')) (\<lambda>status.
      if status = Bulk (Text ''prepared'') then ret 1
      else if status = Bulk (Text ''aborted'') \<or> status = Bulk (Text ''committed'') then ret 0
      else bindE (check_each items (check_item rc)) (\<lambda>ok. if \<not> ok then ret 0
        else bindE (for_each items (reserve_item rc s ttl)) (\<lambda>_. finish_2pc rc s ''prepared'')))"
  using assms unfolding stock_2pc_prepare_def Let_def
  apply (simp add: stock_layout cong: if_cong)
  apply (subst check_upto_list [of items _ "check_item rc"])
   apply (simp add: stock_layout check_item_def)
  apply (subst for_upto_list [of items _ "reserve_item rc s ttl"])
   apply (simp add: stock_layout reserve_item_def)
  apply (simp only: finish_2pc_def)
  done

text \<open>\<open>n_items\<close> arrives as text: a list of fewer than \<open>2 ^ 63\<close> items.\<close>

lemma stock_2pc_commit_items:
  assumes "valid_items items" and "in64 (int (length items))"
  shows "stock_2pc_commit rc (stock_2pc_keys s items) (s # show_int (int (length items)) # item_args items) =
    bindE (rc (HGET (stock_status_key s) ''status'')) (\<lambda>status.
      if status = Bulk (Text ''committed'') then ret 1
      else bindE (if status \<noteq> Bulk (Text ''prepared'') then for_each items (redo_item rc s) else ret ()) (\<lambda>_.
        bindE (for_each items (unlock_item rc s)) (\<lambda>_. finish_2pc rc s ''committed'')))"
  using assms unfolding stock_2pc_commit_def Let_def
  apply (simp add: stock_layout cong: if_cong)
  apply (subst for_upto_list [of items _ "redo_item rc s"])
   apply (simp add: stock_layout redo_item_def)
  apply (subst for_upto_list [of items _ "unlock_item rc s"])
   apply (simp add: stock_layout unlock_item_def)
  apply (simp only: finish_2pc_def)
  done

lemma stock_2pc_abort_items:
  assumes "in64 (int (length items))"
  shows "stock_2pc_abort rc (stock_2pc_keys s items) (s # show_int (int (length items)) # map fst items) =
    bindE (rc (HGET (stock_status_key s) ''status'')) (\<lambda>status.
      if status = Bulk (Text ''aborted'') then ret 1
      else bindE (for_each items (release_item rc s)) (\<lambda>_. finish_2pc rc s ''aborted''))"
  using assms unfolding stock_2pc_abort_def Let_def
  apply (simp add: stock_layout cong: if_cong)
  apply (subst for_upto_list [of items _ "release_item rc s"])
   apply (simp add: stock_layout release_item_def cong: if_cong)
  apply (simp only: finish_2pc_def)
  done

definition deduct_item :: "redis \<Rightarrow> string \<Rightarrow> string \<times> int \<Rightarrow> unit script" where
  "deduct_item rc s p =
     bindE (act rc (HINCRBY (item_key (fst p)) ''available_stock'' (- snd p))) (\<lambda>_.
     act rc (HSET (stock_amounts_key s) [(fst p, Text (show_int (snd p)))]))"

lemma stock_saga_execute_items:
  assumes "valid_items items"
  shows "stock_saga_execute rc (stock_saga_keys s items) (s # item_args items) =
    bindE (rc (GET (stock_status_key s))) (\<lambda>status.
      if status = Bulk (Text ''executed'') then ret 1
      else if status = Bulk (Text ''compensated'') then ret 0
      else bindE (check_each items (check_item rc)) (\<lambda>ok. if \<not> ok then ret 0
        else bindE (for_each items (deduct_item rc s)) (\<lambda>_.
          bindE (act rc (SETEX (stock_status_key s) 86400 (Text ''executed''))) (\<lambda>_.
          bindE (act rc (EXPIRE (stock_amounts_key s) 86400)) (\<lambda>_. ret 1)))))"
  using assms unfolding stock_saga_execute_def Let_def
  apply (simp add: stock_layout cong: if_cong)
  apply (subst check_upto_list [of items _ "check_item rc"])
   apply (simp add: stock_layout check_item_def)
  apply (subst for_upto_list [of items _ "deduct_item rc s"])
   apply (simp add: stock_layout deduct_item_def)
  apply simp
  done

lemma stock_saga_compensate_items:
  assumes "in64 (int (length items))"
  shows "stock_saga_compensate rc (stock_saga_keys s items) [s, show_int (int (length items))] =
    bindE (rc (GET (stock_status_key s))) (\<lambda>status.
      if status = Bulk (Text ''compensated'') then ret 1
      else bindE (rc (HGETALL (stock_amounts_key s))) (\<lambda>all_amounts.
        bindE (restore_amounts rc (case all_amounts of Arr l \<Rightarrow> l | _ \<Rightarrow> [])) (\<lambda>_.
        bindE (act rc (DEL (stock_amounts_key s))) (\<lambda>_.
        bindE (act rc (SETEX (stock_status_key s) 86400 (Text ''compensated''))) (\<lambda>_. ret 1)))))"
  using assms unfolding stock_saga_compensate_def Let_def
  by (simp add: stock_layout cong: if_cong)

section \<open>Effects on the views\<close>

definition qty :: "item_list \<Rightarrow> string \<Rightarrow> int" where
  "qty items j = (case map_of items j of None \<Rightarrow> 0 | Some a \<Rightarrow> a)"

text \<open>Every item's stock moved by \<open>\<delta>\<close>, and nothing else of the items changed.\<close>

definition stock_shift :: "(string \<Rightarrow> int) \<Rightarrow> keyspace \<Rightarrow> keyspace \<Rightarrow> bool" where
  "stock_shift \<delta> d d' \<longleftrightarrow> (\<forall>j. avail d' j = map_option (\<lambda>v. v + \<delta> j) (avail d j)) \<and>
     (\<forall>j f. f \<noteq> ''available_stock'' \<longrightarrow> field d' (item_key j) f = field d (item_key j) f)"

text \<open>The records of every saga but \<open>s\<close> are untouched.\<close>

definition other_sagas_kept :: "string \<Rightarrow> keyspace \<Rightarrow> keyspace \<Rightarrow> bool" where
  "other_sagas_kept s d d' \<longleftrightarrow> (\<forall>s'. s' \<noteq> s \<longrightarrow>
     entries d' (stock_status_key s') = entries d (stock_status_key s') \<and>
     entries d' (stock_amounts_key s') = entries d (stock_amounts_key s'))"

definition recorded :: "keyspace \<Rightarrow> string \<Rightarrow> item_list \<Rightarrow> bool" where
  "recorded d s items \<longleftrightarrow> list_all (\<lambda>(i, a). stock_amount d s i = Some a) items"

definition unrecorded :: "keyspace \<Rightarrow> string \<Rightarrow> item_list \<Rightarrow> bool" where
  "unrecorded d s items \<longleftrightarrow> list_all (\<lambda>(i, a). field d (stock_status_key s) (amount_field i) = None) items"

text \<open>No counter leaves the 64-bit range when it moves by \<open>\<delta>\<close>.\<close>

definition no_overflow :: "(string \<Rightarrow> int) \<Rightarrow> keyspace \<Rightarrow> bool" where
  "no_overflow \<delta> d \<longleftrightarrow> (\<forall>j v. avail d j = Some v \<longrightarrow> in64 (v + \<delta> j))"

lemma stock_shift_refl: "stock_shift (\<lambda>_. 0) d d"
  by (simp add: stock_shift_def option.map_ident)

lemma stock_shift_trans:
  "stock_shift \<delta> d d1 \<Longrightarrow> stock_shift \<delta>' d1 d2 \<Longrightarrow> stock_shift (\<lambda>j. \<delta> j + \<delta>' j) d d2"
  by (simp add: stock_shift_def option.map_comp comp_def add.assoc)

lemma other_sagas_refl: "other_sagas_kept s d d"
  by (simp add: other_sagas_kept_def)

lemma other_sagas_trans: "other_sagas_kept s d d1 \<Longrightarrow> other_sagas_kept s d1 d2 \<Longrightarrow> other_sagas_kept s d d2"
  by (simp add: other_sagas_kept_def)

lemma avail_hash: "avail d i = Some v \<Longrightarrow> hash_of d (item_key i) \<noteq> None"
  by (auto simp: avail_def dest: counter_hash)

text \<open>One iteration of each loop moves the stock of its own item only.\<close>

definition item_moved :: "string \<Rightarrow> int \<Rightarrow> keyspace \<Rightarrow> keyspace \<Rightarrow> bool" where
  "item_moved i \<delta> d d1 \<longleftrightarrow>
     (\<forall>j. avail d1 j = (if j = i then map_option (\<lambda>v. v + \<delta>) (avail d j) else avail d j)) \<and>
     (\<forall>j f. f \<noteq> ''available_stock'' \<longrightarrow> field d1 (item_key j) f = field d (item_key j) f)"

lemma item_moved_put:
  assumes "avail d i = Some v" and "in64 (v + \<delta>)"
  shows "item_moved i \<delta> d (put_fields (item_key i) [(''available_stock'', Text (show_int (v + \<delta>)))] d)"
proof -
  have h: "hash_of d (item_key i) \<noteq> None" using assms(1) by (rule avail_hash)
  have "counter (put_fields (item_key i) [(''available_stock'', Text (show_int (v + \<delta>)))] d) (item_key j) ''available_stock''
      = (if j = i then Some (v + \<delta>) else counter d (item_key j) ''available_stock'')" for j
    using h assms(2) by (cases "j = i") auto
  moreover have "field (put_fields (item_key i) [(''available_stock'', Text (show_int (v + \<delta>)))] d) (item_key j) f
      = field d (item_key j) f" if "f \<noteq> ''available_stock''" for j f
    using h that by (cases "j = i") auto
  ultimately show ?thesis
    using assms(1) by (simp add: item_moved_def avail_def)
qed

lemma item_moved_other:
  assumes "\<And>j. entries d2 (item_key j) = entries d1 (item_key j)"
  shows "item_moved i \<delta> d d2 = item_moved i \<delta> d d1"
  using assms by (simp add: item_moved_def avail_def view_cong [OF assms])

lemma chain_shift:
  assumes rel: "\<And>p d d1. p \<in> set items \<Longrightarrow> rel p d d1 \<Longrightarrow> item_moved (fst p) (g p) d d1"
    and "distinct (map fst items)" and "chain rel items d d'"
  shows "stock_shift (\<lambda>j. case map_of items j of None \<Rightarrow> 0 | Some a \<Rightarrow> g (j, a)) d d'"
proof -
  have "avail d' j = (case map_of items j of None \<Rightarrow> avail d j | Some a \<Rightarrow> map_option (\<lambda>v. v + g (j, a)) (avail d j))" for j
    by (rule chain_update [where F = avail and g = "\<lambda>p. map_option (\<lambda>v. v + g p)", OF _ assms(2,3)])
      (use rel in \<open>auto simp: item_moved_def\<close>)
  moreover have "field d' (item_key j) f = field d (item_key j) f" if "f \<noteq> ''available_stock''" for j f
    by (rule chain_invariant [where F = "\<lambda>d. field d (item_key j) f", OF _ assms(3)])
      (use rel that in \<open>auto simp: item_moved_def\<close>)
  ultimately show ?thesis
    by (auto simp: stock_shift_def option.map_ident split: option.splits)
qed

lemma chain_other_sagas:
  assumes rel: "\<And>p d d1. p \<in> set items \<Longrightarrow> rel p d d1 \<Longrightarrow> other_sagas_kept s d d1"
    and "chain rel items d d'"
  shows "other_sagas_kept s d d'"
  using assms
proof (induction items arbitrary: d)
  case (Cons p ps)
  then obtain d1 where "rel p d d1" "chain rel ps d1 d'" by auto
  with Cons show ?case by (meson list.set_intros other_sagas_trans)
qed (simp add: other_sagas_refl)

section \<open>The loops\<close>

definition reserve_step :: "string \<Rightarrow> string \<times> int \<Rightarrow> keyspace \<Rightarrow> keyspace \<Rightarrow> bool" where
  "reserve_step s p d d1 \<longleftrightarrow> item_moved (fst p) (- snd p) d d1 \<and> other_sagas_kept s d d1 \<and>
     stock_status d1 s = stock_status d s \<and> stock_2pc_open d1 s \<and>
     (\<forall>j. field d1 (stock_status_key s) (amount_field j) =
        (if j = fst p then Some (Text (show_int (snd p))) else field d (stock_status_key s) (amount_field j)))"

definition release_step :: "string \<Rightarrow> (string \<times> int \<Rightarrow> int) \<Rightarrow> string \<times> int \<Rightarrow> keyspace \<Rightarrow> keyspace \<Rightarrow> bool" where
  "release_step s g p d d1 \<longleftrightarrow> item_moved (fst p) (g p) d d1 \<and> other_sagas_kept s d d1 \<and>
     entries d1 (stock_status_key s) = entries d (stock_status_key s)"

definition deduct_step :: "string \<Rightarrow> string \<times> int \<Rightarrow> keyspace \<Rightarrow> keyspace \<Rightarrow> bool" where
  "deduct_step s p d d1 \<longleftrightarrow> item_moved (fst p) (- snd p) d d1 \<and> other_sagas_kept s d d1 \<and>
     entries d1 (stock_status_key s) = entries d (stock_status_key s) \<and>
     (\<exists>h. hash_of d (stock_amounts_key s) = Some h \<and>
        hash_of d1 (stock_amounts_key s) = Some (AList.update (fst p) (Text (show_int (snd p))) h))"

lemma reserve_step_keeps:
  "reserve_step s p d d1 \<Longrightarrow> stock_2pc_open d1 s"
  "reserve_step s p d d1 \<Longrightarrow> fst p \<noteq> fst q \<Longrightarrow> avail d1 (fst q) = avail d (fst q)"
  by (simp_all add: reserve_step_def item_moved_def)

lemma release_step_keeps:
  "release_step s g p d d1 \<Longrightarrow> stock_2pc_open d1 s = stock_2pc_open d s"
  "release_step s g p d d1 \<Longrightarrow> fst p \<noteq> fst q \<Longrightarrow> avail d1 (fst q) = avail d (fst q)"
  "release_step s g p d d1 \<Longrightarrow> stock_amount d1 s i = stock_amount d s i"
  "release_step s g p d d1 \<Longrightarrow> field d1 (stock_status_key s) f = field d (stock_status_key s) f"
  by (simp_all add: release_step_def item_moved_def stock_2pc_open_def stock_amount_def hash_of_def
      counter_def field_def)

lemma deduct_step_keeps:
  "deduct_step s p d d1 \<Longrightarrow> hash_of d1 (stock_amounts_key s) \<noteq> None"
  "deduct_step s p d d1 \<Longrightarrow> fst p \<noteq> fst q \<Longrightarrow> avail d1 (fst q) = avail d (fst q)"
  by (auto simp: deduct_step_def item_moved_def)

definition mark_2pc :: "string \<Rightarrow> string \<Rightarrow> keyspace \<Rightarrow> keyspace" where
  "mark_2pc s st d = set_ttl (stock_status_key s) (Some 86400) (put_fields (stock_status_key s) [(''status'', Text st)] d)"

lemma mark_2pc_views:
  assumes "stock_2pc_open d s"
  shows "stock_status (mark_2pc s st d) s = Some (Text st)" "stock_2pc_open (mark_2pc s st d) s"
    "field (mark_2pc s st d) (stock_status_key s) (amount_field i) = field d (stock_status_key s) (amount_field i)"
    "stock_shift (\<lambda>_. 0) d (mark_2pc s st d)" "other_sagas_kept s d (mark_2pc s st d)"
proof -
  show "stock_shift (\<lambda>_. 0) d (mark_2pc s st d)"
    by (simp add: mark_2pc_def stock_shift_def avail_def option.map_ident)
qed (use assms in \<open>auto simp: mark_2pc_def stock_status_def stock_2pc_open_def other_sagas_kept_def entries_put_fields\<close>)

context redis_server begin

lemma check_items:
  assumes "\<And>p. p \<in> set items \<Longrightarrow> hash_of d (item_key (fst p)) \<noteq> None"
  shows "check_each items (check_item rc) d = (Inr (in_stock d items), d)"
  unfolding in_stock_def
proof (rule check_each_pure)
  fix p assume "p \<in> set items"
  with assms show "check_item rc p d =
      (Inr (case p of (i, a) \<Rightarrow> case avail d i of None \<Rightarrow> False | Some v \<Rightarrow> a \<le> v), d)"
    by (cases p) (auto simp: check_item_def bindE_Inr hget_field ret_def avail_def counter_def
        not_less split: option.splits)
qed

lemma reserve_one:
  assumes "avail d (fst p) = Some v" "in64 (v - snd p)" "stock_2pc_open d s" "0 < ttl"
  shows "\<exists>d1. reserve_item rc s ttl p d = (Inr (), d1) \<and> reserve_step s p d d1"
proof -
  define d1 where "d1 = put_fields (item_key (fst p)) [(''available_stock'', Text (show_int (v + - snd p)))] d"
  define d2 where "d2 = set_ttl (stock_lock_key s (fst p)) (Some ttl)
    (put (stock_lock_key s (fst p)) (RStr (Text (show_int (snd p)))) d1)"
  define d3 where "d3 = put_fields (stock_status_key s) [(amount_field (fst p), Text (show_int (snd p)))] d2"
  have open2: "hash_of d2 (stock_status_key s) \<noteq> None"
    using assms(3) by (simp add: d2_def d1_def stock_2pc_open_def)
  have "act rc (HINCRBY (item_key (fst p)) ''available_stock'' (- snd p)) d = (Inr (), d1)"
    unfolding d1_def using assms(1,2) by (intro hincrby_act) (simp_all add: avail_def)
  moreover have "act rc (SETEX (stock_lock_key s (fst p)) ttl (Text (show_int (snd p)))) d1 = (Inr (), d2)"
    unfolding d2_def by (rule setex_act) (rule assms(4))
  moreover have "act rc (HSET (stock_status_key s) [(amount_field (fst p), Text (show_int (snd p)))]) d2 = (Inr (), d3)"
    unfolding d3_def using open2 by (intro hset_act) simp_all
  ultimately have "reserve_item rc s ttl p d = (Inr (), d3)"
    by (simp add: reserve_item_def bindE_Inr)
  moreover have "item_moved (fst p) (- snd p) d d1"
    unfolding d1_def using assms by (intro item_moved_put) auto
  then have "item_moved (fst p) (- snd p) d d3"
    by (subst item_moved_other [of _ d1]) (auto simp: d3_def d2_def entries_put_fields)
  moreover have "other_sagas_kept s d d3"
    by (auto simp: other_sagas_kept_def d3_def d2_def d1_def entries_put_fields)
  ultimately show ?thesis
    using open2 by (auto simp: reserve_step_def d3_def stock_status_def stock_2pc_open_def field_put_fields)
      (simp_all add: d2_def d1_def)
qed

lemma redo_one:
  assumes "avail d (fst p) = Some v" "in64 (v - snd p)" "stock_2pc_open d s"
  shows "\<exists>d1. redo_item rc s p d = (Inr (), d1) \<and> reserve_step s p d d1"
proof -
  define d1 where "d1 = put_fields (item_key (fst p)) [(''available_stock'', Text (show_int (v + - snd p)))] d"
  define d3 where "d3 = put_fields (stock_status_key s) [(amount_field (fst p), Text (show_int (snd p)))] d1"
  have open1: "hash_of d1 (stock_status_key s) \<noteq> None"
    using assms(3) by (simp add: d1_def stock_2pc_open_def)
  have "act rc (HINCRBY (item_key (fst p)) ''available_stock'' (- snd p)) d = (Inr (), d1)"
    unfolding d1_def using assms(1,2) by (intro hincrby_act) (simp_all add: avail_def)
  moreover have "act rc (HSET (stock_status_key s) [(amount_field (fst p), Text (show_int (snd p)))]) d1 = (Inr (), d3)"
    unfolding d3_def using open1 by (intro hset_act) simp_all
  ultimately have "redo_item rc s p d = (Inr (), d3)"
    by (simp add: redo_item_def bindE_Inr)
  moreover have "item_moved (fst p) (- snd p) d d1"
    unfolding d1_def using assms by (intro item_moved_put) auto
  then have "item_moved (fst p) (- snd p) d d3"
    by (subst item_moved_other [of _ d1]) (auto simp: d3_def entries_put_fields)
  moreover have "other_sagas_kept s d d3"
    by (auto simp: other_sagas_kept_def d3_def d1_def entries_put_fields)
  ultimately show ?thesis
    using open1 by (auto simp: reserve_step_def d3_def stock_status_def stock_2pc_open_def field_put_fields)
      (simp_all add: d1_def)
qed

lemma release_one:
  assumes "avail d (fst p) = Some v" "in64 (v + snd p)" "stock_amount d s (fst p) = Some (snd p)"
  shows "\<exists>d1. release_item rc s p d = (Inr (), d1) \<and> release_step s snd p d d1"
proof -
  define d1 where "d1 = put_fields (item_key (fst p)) [(''available_stock'', Text (show_int (v + snd p)))] d"
  obtain r where r: "rc (HGET (stock_status_key s) (amount_field (fst p))) d = (Inr r, d)"
      "tonumber r = Some (snd p)"
    using hget_counter assms(3) unfolding stock_amount_def by blast
  have "act rc (HINCRBY (item_key (fst p)) ''available_stock'' (snd p)) d = (Inr (), d1)"
    unfolding d1_def using assms(1,2) by (intro hincrby_act) (simp_all add: avail_def)
  moreover have "r \<noteq> Nil" using r(2) by (auto simp: tonumber_def)
  ultimately have "release_item rc s p d = (Inr (), remove (stock_lock_key s (fst p)) d1)"
    using r by (simp add: release_item_def bindE_Inr del_act)
  moreover have "item_moved (fst p) (snd p) d d1"
    unfolding d1_def using assms by (intro item_moved_put) auto
  then have "item_moved (fst p) (snd p) d (remove (stock_lock_key s (fst p)) d1)"
    by (subst item_moved_other [of _ d1]) auto
  ultimately show ?thesis
    by (auto simp: release_step_def other_sagas_kept_def d1_def entries_put_fields)
qed

lemma release_nothing:
  assumes "stock_2pc_open d s" "field d (stock_status_key s) (amount_field (fst p)) = None"
  shows "\<exists>d1. release_item rc s p d = (Inr (), d1) \<and> release_step s (\<lambda>_. 0) p d d1"
proof -
  have "release_item rc s p d = (Inr (), remove (stock_lock_key s (fst p)) d)"
    using assms by (simp add: release_item_def stock_2pc_open_def hget_field bindE_Inr bulk_def ret_def del_act)
  then show ?thesis
    by (auto simp: release_step_def other_sagas_kept_def item_moved_def avail_def option.map_ident)
qed

lemma unlock_one: "\<exists>d1. unlock_item rc s p d = (Inr (), d1) \<and> release_step s (\<lambda>_. 0) p d d1"
  by (auto simp: unlock_item_def del_act release_step_def other_sagas_kept_def item_moved_def avail_def
      option.map_ident)

lemma deduct_one:
  assumes "avail d (fst p) = Some v" "in64 (v - snd p)" "hash_of d (stock_amounts_key s) \<noteq> None"
  shows "\<exists>d1. deduct_item rc s p d = (Inr (), d1) \<and> deduct_step s p d d1"
proof -
  define d1 where "d1 = put_fields (item_key (fst p)) [(''available_stock'', Text (show_int (v + - snd p)))] d"
  define d2 where "d2 = put_fields (stock_amounts_key s) [(fst p, Text (show_int (snd p)))] d1"
  have open1: "hash_of d1 (stock_amounts_key s) \<noteq> None" using assms(3) by (simp add: d1_def)
  have "act rc (HINCRBY (item_key (fst p)) ''available_stock'' (- snd p)) d = (Inr (), d1)"
    unfolding d1_def using assms(1,2) by (intro hincrby_act) (simp_all add: avail_def)
  moreover have "act rc (HSET (stock_amounts_key s) [(fst p, Text (show_int (snd p)))]) d1 = (Inr (), d2)"
    unfolding d2_def using open1 by (intro hset_act) simp_all
  ultimately have "deduct_item rc s p d = (Inr (), d2)"
    by (simp add: deduct_item_def bindE_Inr)
  moreover have "item_moved (fst p) (- snd p) d d1"
    unfolding d1_def using assms by (intro item_moved_put) auto
  then have "item_moved (fst p) (- snd p) d d2"
    by (subst item_moved_other [of _ d1]) (auto simp: d2_def entries_put_fields)
  ultimately show ?thesis
    using assms(3) by (auto simp: deduct_step_def other_sagas_kept_def d1_def d2_def entries_put_fields)
qed

lemma finish_2pc: "stock_2pc_open d s \<Longrightarrow> finish_2pc rc s st d = (Inr 1, mark_2pc s st d)"
  by (simp add: finish_2pc_def stock_2pc_open_def bindE_Inr hset_act expire_act entries_put_fields
      mark_2pc_def ret_def)

end

subsection \<open>The effect of whole loops\<close>

text \<open>The items are charged to saga \<open>s\<close>: deducted, and recorded for the way back.\<close>

definition charged :: "string \<Rightarrow> item_list \<Rightarrow> keyspace \<Rightarrow> keyspace \<Rightarrow> bool" where
  "charged s items d d' \<longleftrightarrow> stock_shift (\<lambda>j. - qty items j) d d' \<and> other_sagas_kept s d d' \<and>
     recorded d' s items"

lemma qty_cases:
  "(\<lambda>j. case map_of items j of None \<Rightarrow> 0 | Some a \<Rightarrow> - snd (j, a)) = (\<lambda>j. - qty items j)"
  "(\<lambda>j. case map_of items j of None \<Rightarrow> 0 | Some a \<Rightarrow> snd (j, a)) = qty items"
  "(\<lambda>j. case map_of items j of None \<Rightarrow> 0 | Some a \<Rightarrow> 0) = (\<lambda>_. 0)"
  by (auto simp: qty_def fun_eq_iff split: option.splits)

lemma qty_Nil: "qty [] = (\<lambda>_. 0)"
  by (simp add: qty_def fun_eq_iff)

lemma qty_member: "distinct (map fst items) \<Longrightarrow> p \<in> set items \<Longrightarrow> qty items (fst p) = snd p"
  by (cases p) (simp add: qty_def)

lemma valid_items_distinct: "valid_items items \<Longrightarrow> distinct (map fst items)"
  by (simp add: valid_items_def)

lemma valid_items_member: "valid_items items \<Longrightarrow> p \<in> set items \<Longrightarrow> 0 < snd p \<and> in64 (snd p)"
  by (auto simp: valid_items_def list_all_iff)

lemma reserve_chain:
  assumes "valid_items items" and ch: "chain (reserve_step s) items d d'"
  shows "charged s items d d'" "stock_status d' s = stock_status d s"
proof -
  note dist = valid_items_distinct [OF assms(1)]
  have "stock_shift (\<lambda>j. case map_of items j of None \<Rightarrow> 0 | Some a \<Rightarrow> - snd (j, a)) d d'"
    by (rule chain_shift [where g = "\<lambda>p. - snd p", OF _ dist ch]) (simp add: reserve_step_def)
  then have "stock_shift (\<lambda>j. - qty items j) d d'" by (simp only: qty_cases)
  moreover have "other_sagas_kept s d d'"
    by (rule chain_other_sagas [OF _ ch]) (simp add: reserve_step_def)
  moreover have "field d' (stock_status_key s) (amount_field i) = Some (Text (show_int a))"
    if "(i, a) \<in> set items" for i a
  proof -
    have "field d' (stock_status_key s) (amount_field i) = (case map_of items i of
        None \<Rightarrow> field d (stock_status_key s) (amount_field i) | Some a \<Rightarrow> Some (Text (show_int (snd (i, a)))))"
      by (rule chain_update [where F = "\<lambda>d i. field d (stock_status_key s) (amount_field i)"
            and g = "\<lambda>p _. Some (Text (show_int (snd p)))", OF _ dist ch]) (simp add: reserve_step_def)
    with dist that show ?thesis by simp
  qed
  then have "recorded d' s items"
    using assms(1) by (auto simp: recorded_def stock_amount_def counter_def list_all_iff valid_items_def)
  ultimately show "charged s items d d'" by (simp add: charged_def)
  show "stock_status d' s = stock_status d s"
    by (rule chain_invariant [where F = "\<lambda>d. stock_status d s", OF _ ch]) (simp add: reserve_step_def)
qed

lemma release_chain:
  assumes "distinct (map fst items)" and ch: "chain (release_step s g) items d d'"
  shows "stock_shift (\<lambda>j. case map_of items j of None \<Rightarrow> 0 | Some a \<Rightarrow> g (j, a)) d d'"
    "other_sagas_kept s d d'" "entries d' (stock_status_key s) = entries d (stock_status_key s)"
proof -
  show "stock_shift (\<lambda>j. case map_of items j of None \<Rightarrow> 0 | Some a \<Rightarrow> g (j, a)) d d'"
    by (rule chain_shift [OF _ assms]) (simp add: release_step_def)
  show "other_sagas_kept s d d'"
    by (rule chain_other_sagas [OF _ ch]) (simp add: release_step_def)
  show "entries d' (stock_status_key s) = entries d (stock_status_key s)"
    by (rule chain_invariant [where F = "\<lambda>d. entries d (stock_status_key s)", OF _ ch])
      (simp add: release_step_def)
qed

definition amount_texts :: "item_list \<Rightarrow> (string \<times> rtext) list" where
  "amount_texts items = map (\<lambda>p. (fst p, Text (show_int (snd p)))) items"

lemma deduct_chain_amounts:
  assumes "chain (deduct_step s) items d d'" and "hash_of d (stock_amounts_key s) = Some h"
  shows "hash_of d' (stock_amounts_key s) = Some (dict_merge h (amount_texts items))"
  using assms
proof (induction items arbitrary: d h)
  case (Cons p ps)
  then obtain d1 where "deduct_step s p d d1" "chain (deduct_step s) ps d1 d'" by auto
  then have "hash_of d1 (stock_amounts_key s) = Some (AList.update (fst p) (Text (show_int (snd p))) h)"
    using Cons.prems(2) by (simp add: deduct_step_def)
  with Cons.IH \<open>chain (deduct_step s) ps d1 d'\<close> show ?case
    by (simp add: amount_texts_def)
qed (simp add: amount_texts_def)

lemma dict_merge_distinct: "distinct (map fst b) \<Longrightarrow> fst ` set a \<inter> fst ` set b = {} \<Longrightarrow> dict_merge a b = a @ b"
proof (induction b arbitrary: a)
  case (Cons p b)
  then have "AList.update (fst p) (snd p) a = a @ [p]" by (subst update_new) auto
  with Cons show ?case by (cases p) auto
qed simp

lemma deduct_chain:
  assumes "valid_items items" and ch: "chain (deduct_step s) items d d'"
    and "hash_of d (stock_amounts_key s) = Some []"
  shows "stock_shift (\<lambda>j. - qty items j) d d'" "other_sagas_kept s d d'"
    "entries d' (stock_status_key s) = entries d (stock_status_key s)"
    "hash_of d' (stock_amounts_key s) = Some (amount_texts items)"
proof -
  note dist = valid_items_distinct [OF assms(1)]
  have "stock_shift (\<lambda>j. case map_of items j of None \<Rightarrow> 0 | Some a \<Rightarrow> - snd (j, a)) d d'"
    by (rule chain_shift [where g = "\<lambda>p. - snd p", OF _ dist ch]) (simp add: deduct_step_def)
  then show "stock_shift (\<lambda>j. - qty items j) d d'" by (simp only: qty_cases)
  show "other_sagas_kept s d d'"
    by (rule chain_other_sagas [OF _ ch]) (simp add: deduct_step_def)
  show "entries d' (stock_status_key s) = entries d (stock_status_key s)"
    by (rule chain_invariant [where F = "\<lambda>d. entries d (stock_status_key s)", OF _ ch])
      (simp add: deduct_step_def)
  have "dict_merge [] (amount_texts items) = [] @ amount_texts items"
    using dist by (intro dict_merge_distinct) (simp_all add: amount_texts_def comp_def)
  with deduct_chain_amounts [OF ch assms(3)]
  show "hash_of d' (stock_amounts_key s) = Some (amount_texts items)" by simp
qed

section \<open>Specifications of the scripts\<close>

text \<open>No item key holds a value of another type.\<close>

definition items_typed :: "keyspace \<Rightarrow> item_list \<Rightarrow> bool" where
  "items_typed d items \<longleftrightarrow> list_all (\<lambda>(i, a). hash_of d (item_key i) \<noteq> None) items"

lemma known_items_typed: "known_items d items \<Longrightarrow> items_typed d items"
  using counter_hash by (fastforce simp: known_items_def items_typed_def list_all_iff avail_def)

lemma items_typed_member: "items_typed d items \<Longrightarrow> p \<in> set items \<Longrightarrow> hash_of d (item_key (fst p)) \<noteq> None"
  by (cases p) (auto simp: items_typed_def list_all_iff)

definition decided :: "rtext option \<Rightarrow> bool" where
  "decided st \<longleftrightarrow> st = Some (Text ''aborted'') \<or> st = Some (Text ''committed'')"

context redis_server begin

lemma status_hget:
  "stock_2pc_open d s \<Longrightarrow> rc (HGET (stock_status_key s) ''status'') d = (Inr (bulk (stock_status d s)), d)"
  by (simp add: stock_2pc_open_def hget_field stock_status_def)

lemma reserve_loop:
  assumes "valid_items items" "in_stock d items" "stock_2pc_open d s" "0 < ttl"
  shows "\<exists>d'. for_each items (reserve_item rc s ttl) d = (Inr (), d') \<and> stock_2pc_open d' s \<and>
    charged s items d d' \<and> stock_status d' s = stock_status d s"
proof -
  have "\<exists>d'. for_each items (reserve_item rc s ttl) d = (Inr (), d') \<and> stock_2pc_open d' s \<and>
      chain (reserve_step s) items d d'"
  proof (rule for_each_chain [where ready = "\<lambda>p d. \<exists>v. avail d (fst p) = Some v \<and> in64 (v - snd p)"])
    fix p assume p: "p \<in> set items"
    then obtain v where "avail d (fst p) = Some v" "snd p \<le> v"
      using assms(2) by (auto simp: in_stock_def list_all_iff split: option.splits)
    moreover have "in64 v" using calculation(1) unfolding avail_def by (rule counter_in64)
    ultimately show "\<exists>v. avail d (fst p) = Some v \<and> in64 (v - snd p)"
      using valid_items_member [OF assms(1) p] by (auto intro: in64_diff)
  next
    fix p q d d1 assume "fst p \<noteq> fst q" "reserve_step s p d d1" "\<exists>v. avail d (fst q) = Some v \<and> in64 (v - snd q)"
    then show "\<exists>v. avail d1 (fst q) = Some v \<and> in64 (v - snd q)" by (simp add: reserve_step_keeps)
  qed (use assms valid_items_distinct in \<open>(blast dest: reserve_one reserve_step_keeps)+\<close>)
  with reserve_chain [OF assms(1)] show ?thesis by blast
qed

lemma redo_loop:
  assumes "valid_items items" "known_items d items" "no_overflow (\<lambda>j. - qty items j) d" "stock_2pc_open d s"
  shows "\<exists>d'. for_each items (redo_item rc s) d = (Inr (), d') \<and> stock_2pc_open d' s \<and>
    charged s items d d' \<and> stock_status d' s = stock_status d s"
proof -
  have "\<exists>d'. for_each items (redo_item rc s) d = (Inr (), d') \<and> stock_2pc_open d' s \<and>
      chain (reserve_step s) items d d'"
  proof (rule for_each_chain [where ready = "\<lambda>p d. \<exists>v. avail d (fst p) = Some v \<and> in64 (v - snd p)"])
    fix p assume p: "p \<in> set items"
    then obtain v where v: "avail d (fst p) = Some v"
      using assms(2) by (auto simp: known_items_def list_all_iff)
    with assms(3) qty_member [OF valid_items_distinct [OF assms(1)] p]
    show "\<exists>v. avail d (fst p) = Some v \<and> in64 (v - snd p)"
      by (auto simp: no_overflow_def dest!: spec [of _ "fst p"])
  next
    fix p q d d1 assume "fst p \<noteq> fst q" "reserve_step s p d d1" "\<exists>v. avail d (fst q) = Some v \<and> in64 (v - snd q)"
    then show "\<exists>v. avail d1 (fst q) = Some v \<and> in64 (v - snd q)" by (simp add: reserve_step_keeps)
  qed (use assms valid_items_distinct in \<open>(blast dest: redo_one reserve_step_keeps)+\<close>)
  with reserve_chain [OF assms(1)] show ?thesis by blast
qed

lemma release_loop:
  assumes "valid_items items" "known_items d items" "no_overflow (qty items) d" "recorded d s items"
  shows "\<exists>d'. for_each items (release_item rc s) d = (Inr (), d') \<and> stock_shift (qty items) d d' \<and>
    other_sagas_kept s d d' \<and> entries d' (stock_status_key s) = entries d (stock_status_key s)"
proof -
  note dist = valid_items_distinct [OF assms(1)]
  have "\<exists>d'. for_each items (release_item rc s) d = (Inr (), d') \<and> True \<and> chain (release_step s snd) items d d'"
  proof (rule for_each_chain [where ready = "\<lambda>p d. (\<exists>v. avail d (fst p) = Some v \<and> in64 (v + snd p)) \<and>
        stock_amount d s (fst p) = Some (snd p)"])
    fix p assume p: "p \<in> set items"
    then obtain v where v: "avail d (fst p) = Some v"
      using assms(2) by (auto simp: known_items_def list_all_iff)
    with assms(3,4) qty_member [OF dist p] p
    show "(\<exists>v. avail d (fst p) = Some v \<and> in64 (v + snd p)) \<and> stock_amount d s (fst p) = Some (snd p)"
      by (auto simp: no_overflow_def recorded_def list_all_iff dest!: spec [of _ "fst p"])
  next
    fix p q d d1 assume "fst p \<noteq> fst q" "release_step s snd p d d1"
      "(\<exists>v. avail d (fst q) = Some v \<and> in64 (v + snd q)) \<and> stock_amount d s (fst q) = Some (snd q)"
    then show "(\<exists>v. avail d1 (fst q) = Some v \<and> in64 (v + snd q)) \<and> stock_amount d1 s (fst q) = Some (snd q)"
      by (simp add: release_step_keeps)
  qed (use dist release_one in blast)+
  with release_chain [OF dist, of s snd] show ?thesis by (auto simp only: qty_cases)
qed

lemma release_nothing_loop:
  assumes "distinct (map fst items)" "stock_2pc_open d s" "unrecorded d s items"
  shows "\<exists>d'. for_each items (release_item rc s) d = (Inr (), d') \<and> stock_shift (\<lambda>_. 0) d d' \<and>
    other_sagas_kept s d d' \<and> entries d' (stock_status_key s) = entries d (stock_status_key s)"
proof -
  have "\<exists>d'. for_each items (release_item rc s) d = (Inr (), d') \<and> stock_2pc_open d' s \<and>
      chain (release_step s (\<lambda>_. 0)) items d d'"
  proof (rule for_each_chain [where ready = "\<lambda>p d. field d (stock_status_key s) (amount_field (fst p)) = None"])
    fix p assume "p \<in> set items"
    with assms(3) show "field d (stock_status_key s) (amount_field (fst p)) = None"
      by (auto simp: unrecorded_def list_all_iff)
  next
    fix p :: "string \<times> int" and d assume "stock_2pc_open d s" "field d (stock_status_key s) (amount_field (fst p)) = None"
    then show "\<exists>d1. release_item rc s p d = (Inr (), d1) \<and> stock_2pc_open d1 s \<and> release_step s (\<lambda>_. 0) p d d1"
      using release_nothing [of d s p] release_step_keeps(1) by blast
  qed (use assms in \<open>simp_all add: release_step_keeps\<close>)
  with release_chain [OF assms(1), of s "\<lambda>_. 0"] show ?thesis by (auto simp only: qty_cases)
qed

lemma unlock_loop:
  assumes "distinct (map fst items)"
  shows "\<exists>d'. for_each items (unlock_item rc s) d = (Inr (), d') \<and> stock_shift (\<lambda>_. 0) d d' \<and>
    other_sagas_kept s d d' \<and> entries d' (stock_status_key s) = entries d (stock_status_key s)"
proof -
  have "\<exists>d'. for_each items (unlock_item rc s) d = (Inr (), d') \<and> True \<and>
      chain (release_step s (\<lambda>_. 0)) items d d'"
    by (rule for_each_chain [where ready = "\<lambda>_ _. True"]) (use assms unlock_one in auto)
  with release_chain [OF assms, of s "\<lambda>_. 0"] show ?thesis by (auto simp only: qty_cases)
qed

lemma deduct_loop:
  assumes "valid_items items" "in_stock d items" "hash_of d (stock_amounts_key s) = Some []"
  shows "\<exists>d'. for_each items (deduct_item rc s) d = (Inr (), d') \<and> stock_shift (\<lambda>j. - qty items j) d d' \<and>
    other_sagas_kept s d d' \<and> entries d' (stock_status_key s) = entries d (stock_status_key s) \<and>
    hash_of d' (stock_amounts_key s) = Some (amount_texts items)"
proof -
  have "\<exists>d'. for_each items (deduct_item rc s) d = (Inr (), d') \<and> hash_of d' (stock_amounts_key s) \<noteq> None \<and>
      chain (deduct_step s) items d d'"
  proof (rule for_each_chain [where ready = "\<lambda>p d. \<exists>v. avail d (fst p) = Some v \<and> in64 (v - snd p)"])
    fix p assume p: "p \<in> set items"
    then obtain v where "avail d (fst p) = Some v" "snd p \<le> v"
      using assms(2) by (auto simp: in_stock_def list_all_iff split: option.splits)
    moreover have "in64 v" using calculation(1) unfolding avail_def by (rule counter_in64)
    ultimately show "\<exists>v. avail d (fst p) = Some v \<and> in64 (v - snd p)"
      using valid_items_member [OF assms(1) p] by (auto intro: in64_diff)
  next
    fix p q d d1 assume "fst p \<noteq> fst q" "deduct_step s p d d1" "\<exists>v. avail d (fst q) = Some v \<and> in64 (v - snd q)"
    then show "\<exists>v. avail d1 (fst q) = Some v \<and> in64 (v - snd q)" by (simp add: deduct_step_keeps)
  qed (use assms valid_items_distinct in \<open>(blast dest: deduct_one deduct_step_keeps)+\<close>)
  with deduct_chain [OF assms(1) _ assms(3)] show ?thesis by blast
qed

lemma prepare_spec:
  assumes "valid_items items" "items_typed d items" "stock_2pc_open d s" "0 < ttl" "in64 ttl"
  shows "\<exists>r d'. stock_2pc_prepare rc (stock_2pc_keys s items) (s # show_int ttl # item_args items) d = (Inr r, d') \<and>
    (if stock_status d s = Some (Text ''prepared'') then r = 1 \<and> d' = d
     else if decided (stock_status d s) \<or> \<not> in_stock d items then r = 0 \<and> d' = d
     else r = 1 \<and> charged s items d d' \<and> stock_status d' s = Some (Text ''prepared'') \<and> stock_2pc_open d' s)"
proof (cases "stock_status d s = Some (Text ''prepared'') \<or> decided (stock_status d s) \<or> \<not> in_stock d items")
  case True
  have "check_each items (check_item rc) d = (Inr (in_stock d items), d)"
    using assms(2) by (intro check_items) (rule items_typed_member)
  with True assms show ?thesis
    by (auto simp: stock_2pc_prepare_items status_hget bindE_Inr ret_def decided_def)
next
  case False
  have chk: "check_each items (check_item rc) d = (Inr True, d)"
    using False check_items [OF items_typed_member [OF assms(2)]] by simp
  obtain d1 where d1: "for_each items (reserve_item rc s ttl) d = (Inr (), d1)" "stock_2pc_open d1 s"
      "charged s items d d1"
    using reserve_loop [of items d s ttl] False assms by blast
  have "stock_2pc_prepare rc (stock_2pc_keys s items) (s # show_int ttl # item_args items) d
      = (Inr 1, mark_2pc s ''prepared'' d1)"
    using False assms chk d1
    by (simp add: stock_2pc_prepare_items status_hget bindE_Inr decided_def finish_2pc)
  moreover have "charged s items d (mark_2pc s ''prepared'' d1)"
    using d1 mark_2pc_views [of d1 s "''prepared''"] stock_shift_trans [of _ d d1 "\<lambda>_. 0" "mark_2pc s ''prepared'' d1"]
    by (auto simp: charged_def recorded_def stock_amount_def counter_def intro: other_sagas_trans)
  ultimately show ?thesis
    using False mark_2pc_views [OF d1(2), of "''prepared''"] by auto
qed

lemma commit_spec:
  assumes "valid_items items" "stock_2pc_open d s" "in64 (int (length items))"
    and lost: "stock_status d s \<noteq> Some (Text ''prepared'') \<Longrightarrow> known_items d items \<and> no_overflow (\<lambda>j. - qty items j) d"
  shows "\<exists>d'. stock_2pc_commit rc (stock_2pc_keys s items) (s # show_int (int (length items)) # item_args items) d
      = (Inr 1, d') \<and>
    (if stock_status d s = Some (Text ''committed'') then d' = d
     else stock_status d' s = Some (Text ''committed'') \<and> stock_2pc_open d' s \<and> other_sagas_kept s d d' \<and>
       (if stock_status d s = Some (Text ''prepared'')
        then stock_shift (\<lambda>_. 0) d d' \<and> (\<forall>i. stock_amount d' s i = stock_amount d s i)
        else charged s items d d'))"
proof (cases "stock_status d s = Some (Text ''committed'')")
  case True
  with assms show ?thesis
    by (simp add: stock_2pc_commit_items status_hget bindE_Inr ret_def)
next
  case False
  define lost' where "lost' \<longleftrightarrow> stock_status d s \<noteq> Some (Text ''prepared'')"
  obtain d1 where d1: "(if lost' then for_each items (redo_item rc s) else ret ()) d = (Inr (), d1)"
      "stock_2pc_open d1 s" "if lost' then charged s items d d1 else d1 = d"
  proof (cases lost')
    case True
    with lost obtain e where "for_each items (redo_item rc s) d = (Inr (), e)" "stock_2pc_open e s"
        "charged s items d e"
      using redo_loop [OF assms(1) _ _ assms(2)] unfolding lost'_def by blast
    with True that show ?thesis by simp
  qed (use assms(2) that in \<open>simp add: ret_def\<close>)
  obtain d2 where d2: "for_each items (unlock_item rc s) d1 = (Inr (), d2)" "stock_shift (\<lambda>_. 0) d1 d2"
      "other_sagas_kept s d1 d2" "entries d2 (stock_status_key s) = entries d1 (stock_status_key s)"
    using unlock_loop [OF valid_items_distinct [OF assms(1)], of s d1] by blast
  have open2: "stock_2pc_open d2 s" using d1(2) d2(4) by (simp add: stock_2pc_open_def hash_of_def)
  define d3 where "d3 = mark_2pc s ''committed'' d2"
  note m = mark_2pc_views [OF open2, of "''committed''", folded d3_def]
  have run: "stock_2pc_commit rc (stock_2pc_keys s items) (s # show_int (int (length items)) # item_args items) d
      = (Inr 1, d3)"
    using False assms d1 d2 open2
    by (simp add: stock_2pc_commit_items status_hget bindE_Inr lost'_def finish_2pc d3_def cong: if_cong)
  have amounts: "stock_amount d3 s i = stock_amount d1 s i" for i
    using d2(4) m(3) by (simp add: stock_amount_def counter_def field_def)
  have shift: "stock_shift (\<lambda>_. 0) d1 d3" using stock_shift_trans [OF d2(2) m(4)] by simp
  have other: "other_sagas_kept s d1 d3" using d2(3) m(5) by (rule other_sagas_trans)
  show ?thesis
  proof (cases lost')
    case True
    with d1(3) have c: "charged s items d d1" by simp
    then have "charged s items d d3"
      using stock_shift_trans [OF _ shift, of "\<lambda>j. - qty items j" d] other amounts
      by (auto simp: charged_def recorded_def intro: other_sagas_trans)
    with True False run m(1,2) show ?thesis by (auto simp: lost'_def charged_def)
  next
    case False': False
    with d1(3) have "d1 = d" by simp
    with False' False run m(1,2) shift other amounts show ?thesis by (auto simp: lost'_def)
  qed
qed

lemma abort_spec:
  assumes "valid_items items" "stock_2pc_open d s" "in64 (int (length items))"
    and rec: "recorded d s items \<and> known_items d items \<and> no_overflow (qty items) d \<or> unrecorded d s items"
  shows "\<exists>d'. stock_2pc_abort rc (stock_2pc_keys s items) (s # show_int (int (length items)) # map fst items) d
      = (Inr 1, d') \<and>
    (if stock_status d s = Some (Text ''aborted'') then d' = d
     else stock_status d' s = Some (Text ''aborted'') \<and> stock_2pc_open d' s \<and> other_sagas_kept s d d' \<and>
       (\<forall>i. stock_amount d' s i = stock_amount d s i) \<and>
       stock_shift (if recorded d s items then qty items else (\<lambda>_. 0)) d d')"
proof (cases "stock_status d s = Some (Text ''aborted'')")
  case True
  with assms show ?thesis
    by (simp add: stock_2pc_abort_items status_hget bindE_Inr ret_def)
next
  case False
  obtain d1 where d1: "for_each items (release_item rc s) d = (Inr (), d1)" "other_sagas_kept s d d1"
      "stock_shift (if recorded d s items then qty items else (\<lambda>_. 0)) d d1"
      "entries d1 (stock_status_key s) = entries d (stock_status_key s)"
  proof (cases "recorded d s items")
    case True
    show ?thesis
    proof (cases "unrecorded d s items")
      case True': True
      with True have "items = []"
        by (cases items) (auto simp: recorded_def unrecorded_def stock_amount_def counter_def)
      then show ?thesis using that [of d] stock_shift_refl [of d]
        by (simp add: ret_def other_sagas_refl qty_Nil)
    next
      case False
      with rec have "known_items d items" "no_overflow (qty items) d" by simp_all
      from release_loop [OF assms(1) this True] that True show ?thesis by auto
    qed
  next
    case False
    with rec have "unrecorded d s items" by simp
    from release_nothing_loop [OF valid_items_distinct [OF assms(1)] assms(2) this] that False
    show ?thesis by auto
  qed
  have open1: "stock_2pc_open d1 s" using assms(2) d1(4) by (simp add: stock_2pc_open_def hash_of_def)
  note m = mark_2pc_views [OF open1, of "''aborted''"]
  have "stock_2pc_abort rc (stock_2pc_keys s items) (s # show_int (int (length items)) # map fst items) d
      = (Inr 1, mark_2pc s ''aborted'' d1)"
    using False assms(2,3) d1(1) open1
    by (simp add: stock_2pc_abort_items status_hget bindE_Inr finish_2pc)
  moreover have "stock_amount (mark_2pc s ''aborted'' d1) s i = stock_amount d s i" for i
    using m(3) d1(4) by (simp add: stock_amount_def counter_def field_def)
  moreover have "stock_shift (if recorded d s items then qty items else (\<lambda>_. 0)) d (mark_2pc s ''aborted'' d1)"
    using stock_shift_trans [OF d1(3) m(4)] by simp
  ultimately show ?thesis
    using False m(1,2,5) other_sagas_trans [OF d1(2)] by auto
qed

end

subsection \<open>The Saga scripts\<close>

definition stock_saga_status :: "keyspace \<Rightarrow> string \<Rightarrow> rtext option option" where
  "stock_saga_status d s = text_of d (stock_status_key s)"

lemma restore_amounts_flat:
  assumes "list_all (\<lambda>p. in64 (snd p)) items"
  shows "restore_amounts rc (flat (amount_texts items)) =
    for_each items (\<lambda>p. act rc (HINCRBY (item_key (fst p)) ''available_stock'' (snd p)))"
  using assms by (induction items) (auto simp: flat_def amount_texts_def)

context redis_server begin

lemma restore_loop:
  assumes "valid_items items" "known_items d items" "no_overflow (qty items) d"
  shows "\<exists>d'. for_each items (\<lambda>p. act rc (HINCRBY (item_key (fst p)) ''available_stock'' (snd p))) d = (Inr (), d') \<and>
    stock_shift (qty items) d d' \<and> other_sagas_kept s d d' \<and>
    entries d' (stock_status_key s) = entries d (stock_status_key s)"
proof -
  note dist = valid_items_distinct [OF assms(1)]
  have "\<exists>d'. for_each items (\<lambda>p. act rc (HINCRBY (item_key (fst p)) ''available_stock'' (snd p))) d = (Inr (), d') \<and>
      True \<and> chain (release_step s snd) items d d'"
  proof (rule for_each_chain [where ready = "\<lambda>p d. \<exists>v. avail d (fst p) = Some v \<and> in64 (v + snd p)"])
    fix p assume p: "p \<in> set items"
    then obtain v where v: "avail d (fst p) = Some v"
      using assms(2) by (auto simp: known_items_def list_all_iff)
    with assms(3) qty_member [OF dist p] p show "\<exists>v. avail d (fst p) = Some v \<and> in64 (v + snd p)"
      by (auto simp: no_overflow_def dest!: spec [of _ "fst p"])
  next
    fix p :: "string \<times> int" and d assume "\<exists>v. avail d (fst p) = Some v \<and> in64 (v + snd p)"
    then obtain v where v: "avail d (fst p) = Some v" "in64 (v + snd p)" by blast
    define d1 where "d1 = put_fields (item_key (fst p)) [(''available_stock'', Text (show_int (v + snd p)))] d"
    have "act rc (HINCRBY (item_key (fst p)) ''available_stock'' (snd p)) d = (Inr (), d1)"
      unfolding d1_def using v by (intro hincrby_act) (simp_all add: avail_def)
    moreover have "item_moved (fst p) (snd p) d d1" unfolding d1_def using v by (rule item_moved_put)
    ultimately show "\<exists>d1. act rc (HINCRBY (item_key (fst p)) ''available_stock'' (snd p)) d = (Inr (), d1) \<and>
        True \<and> release_step s snd p d d1"
      by (auto simp: release_step_def other_sagas_kept_def d1_def entries_put_fields)
  next
    fix p q :: "string \<times> int" and d d1 assume "fst p \<noteq> fst q" "release_step s snd p d d1"
      "\<exists>v. avail d (fst q) = Some v \<and> in64 (v + snd q)"
    then show "\<exists>v. avail d1 (fst q) = Some v \<and> in64 (v + snd q)" by (simp add: release_step_keeps)
  qed (use dist in simp_all)
  with release_chain [OF dist, of s snd] show ?thesis by (auto simp only: qty_cases)
qed

lemma saga_execute_spec:
  assumes "valid_items items" "items_typed d items" "stock_saga_status d s = Some st"
    and "st \<noteq> Some (Text ''executed'') \<Longrightarrow> hash_of d (stock_amounts_key s) = Some []"
  shows "\<exists>r d'. stock_saga_execute rc (stock_saga_keys s items) (s # item_args items) d = (Inr r, d') \<and>
    (if st = Some (Text ''executed'') then r = 1 \<and> d' = d
     else if st = Some (Text ''compensated'') \<or> \<not> in_stock d items then r = 0 \<and> d' = d
     else r = 1 \<and> stock_shift (\<lambda>j. - qty items j) d d' \<and> other_sagas_kept s d d' \<and>
       stock_saga_status d' s = Some (Some (Text ''executed'')) \<and>
       hash_of d' (stock_amounts_key s) = Some (amount_texts items))"
proof -
  have g: "rc (GET (stock_status_key s)) d = (Inr (bulk st), d)"
    using assms(3) by (simp add: get stock_saga_status_def)
  have chk: "check_each items (check_item rc) d = (Inr (in_stock d items), d)"
    using assms(2) by (intro check_items) (rule items_typed_member)
  show ?thesis
  proof (cases "st = Some (Text ''executed'') \<or> st = Some (Text ''compensated'') \<or> \<not> in_stock d items")
    case True
    with g chk assms(1) show ?thesis by (auto simp: stock_saga_execute_items bindE_Inr ret_def)
  next
    case False
    with assms obtain d1 where d1: "for_each items (deduct_item rc s) d = (Inr (), d1)"
        "stock_shift (\<lambda>j. - qty items j) d d1" "other_sagas_kept s d d1"
        "hash_of d1 (stock_amounts_key s) = Some (amount_texts items)"
      using deduct_loop [of items d s] by blast
    define d2 where "d2 = set_ttl (stock_status_key s) (Some 86400) (put (stock_status_key s) (RStr (Text ''executed'')) d1)"
    obtain d3 where d3: "act rc (EXPIRE (stock_amounts_key s) 86400) d2 = (Inr (), d3)" "entries d3 = entries d2"
      using expire_any [of 86400] by fastforce
    have "stock_saga_execute rc (stock_saga_keys s items) (s # item_args items) d = (Inr 1, d3)"
      using False g chk d1(1) d3(1) assms(1)
      by (simp add: stock_saga_execute_items bindE_Inr setex_act d2_def ret_def)
    moreover have "stock_shift (\<lambda>_. 0) d1 d3" "other_sagas_kept s d1 d3"
      "stock_saga_status d3 s = Some (Some (Text ''executed''))"
      "hash_of d3 (stock_amounts_key s) = hash_of d1 (stock_amounts_key s)"
      using d3(2) by (simp_all add: d2_def stock_shift_def other_sagas_kept_def avail_def option.map_ident
          stock_saga_status_def counter_def field_def text_of_def hash_of_def)
    ultimately show ?thesis
      using False d1 stock_shift_trans [OF d1(2), of "\<lambda>_. 0" d3] other_sagas_trans [OF d1(3)] by auto
  qed
qed

lemma saga_compensate_spec:
  assumes "stock_saga_status d s = Some st" "in64 (int (length items))"
    and am: "st \<noteq> Some (Text ''compensated'') \<Longrightarrow> hash_of d (stock_amounts_key s) = Some (amount_texts held) \<and>
      valid_items held \<and> known_items d held \<and> no_overflow (qty held) d"
  shows "\<exists>d'. stock_saga_compensate rc (stock_saga_keys s items) [s, show_int (int (length items))] d = (Inr 1, d') \<and>
    (if st = Some (Text ''compensated'') then d' = d
     else stock_shift (qty held) d d' \<and> other_sagas_kept s d d' \<and>
       stock_saga_status d' s = Some (Some (Text ''compensated'')) \<and> hash_of d' (stock_amounts_key s) = Some [])"
proof -
  have g: "rc (GET (stock_status_key s)) d = (Inr (bulk st), d)"
    using assms(1) by (simp add: get stock_saga_status_def)
  show ?thesis
  proof (cases "st = Some (Text ''compensated'')")
    case True
    with g assms(2) show ?thesis by (simp add: stock_saga_compensate_items bindE_Inr ret_def)
  next
    case False
    note am = am [OF False]
    obtain d1 where d1: "for_each held (\<lambda>p. act rc (HINCRBY (item_key (fst p)) ''available_stock'' (snd p))) d = (Inr (), d1)"
        "stock_shift (qty held) d d1" "other_sagas_kept s d d1"
      using restore_loop [of held d s] am by blast
    have restore: "restore_amounts rc (flat (amount_texts held)) =
        for_each held (\<lambda>p. act rc (HINCRBY (item_key (fst p)) ''available_stock'' (snd p)))"
      using am by (intro restore_amounts_flat) (auto simp: list_all_iff valid_items_def)
    define d2 where "d2 = set_ttl (stock_status_key s) (Some 86400)
      (put (stock_status_key s) (RStr (Text ''compensated'')) (remove (stock_amounts_key s) d1))"
    have "stock_saga_compensate rc (stock_saga_keys s items) [s, show_int (int (length items))] d = (Inr 1, d2)"
      using False g am d1(1) restore assms(2)
      by (simp add: stock_saga_compensate_items bindE_Inr hgetall del_act setex_act d2_def ret_def)
    moreover have "stock_shift (\<lambda>_. 0) d1 d2" "other_sagas_kept s d1 d2"
      "stock_saga_status d2 s = Some (Some (Text ''compensated''))"
      "hash_of d2 (stock_amounts_key s) = Some []"
      by (simp_all add: d2_def stock_shift_def other_sagas_kept_def avail_def option.map_ident stock_saga_status_def)
    ultimately show ?thesis
      using False stock_shift_trans [OF d1(2), of "\<lambda>_. 0" d2] other_sagas_trans [OF d1(3)] by auto
  qed
qed

lemma subtract_direct_spec:
  assumes "hash_of d (item_key i) \<noteq> None" "in64 a"
  shows "stock_subtract_direct rc [item_key i] [show_int a] d =
    (case avail d i of
       None \<Rightarrow> (Inl (ErrReply ''ITEM_NOT_FOUND''), d)
     | Some v \<Rightarrow> if v < a then (Inl (ErrReply ''INSUFFICIENT_STOCK''), d)
         else if in64 (v - a) then (Inr (v - a), put_fields (item_key i) [(''available_stock'', Text (show_int (v - a)))] d)
         else (Inl Overflow, d))"
proof -
  have h: "rc (HGET (item_key i) ''available_stock'') d = (Inr (bulk (field d (item_key i) ''available_stock'')), d)"
    using assms(1) by (simp add: hget_field)
  show ?thesis
  proof (cases "avail d i")
    case None
    with h assms(2) show ?thesis
      by (auto simp: stock_subtract_direct_def lua_at_def bindE_Inr throw_def avail_def counter_def split: option.splits)
  next
    case (Some v)
    then have t: "tonumber (bulk (field d (item_key i) ''available_stock'')) = Some v"
      by (auto simp: avail_def counter_def split: option.splits)
    have "rc (HINCRBY (item_key i) ''available_stock'' (- a)) d =
        (if in64 (v - a) then (Inr (Num (v - a)), put_fields (item_key i) [(''available_stock'', Text (show_int (v - a)))] d)
         else (Inl Overflow, d))"
      using Some counter_hash [of d "item_key i" "''available_stock''" v]
      by (auto simp: hincrby avail_def counter_def field_of_hash split: option.splits)
    with Some h t assms(2) show ?thesis
      by (auto simp: stock_subtract_direct_def lua_at_def bindE_def act_def ret_def throw_def)
  qed
qed

end

end
