(* ===== verification/StockService.thy ===== *)
theory StockService
  imports Service StockLaws
begin

text \<open>
  \<open>stock/app.py\<close>: the command handler of the stock service, the functions it dispatches to, and
  the HTTP endpoints. \<open>cl\<close> is the Redis client of the service; the database of the state is the
  stock database.
\<close>

section \<open>Commands\<close>

definition parse_items :: "dict \<Rightarrow> exn + item_list" where
  "parse_items msg = (let items_raw = dict_get msg ''items'' (Str []) in
     if \<not> truthy items_raw then Inr []
     else (case items_raw of
       PStr t \<Rightarrow> (case json_loads t of
           Inl e \<Rightarrow> Inl e
         | Inr v \<Rightarrow> (case py_iter v of
             Inl e \<Rightarrow> Inl e
           | Inr vs \<Rightarrow> map_sum_list (\<lambda>pair. case unpack2 pair of
               Inl e \<Rightarrow> Inl e
             | Inr (item_id, quantity) \<Rightarrow> (case py_format item_id of
                 Inl e \<Rightarrow> Inl e
               | Inr i \<Rightarrow> (case py_int quantity of Inl e \<Rightarrow> Inl e | Inr q \<Rightarrow> Inr (i, q)))) vs))
     | _ \<Rightarrow> Inl (TypeErr ''the JSON object must be str'')))"

definition stock_do_prepare :: "redis_client \<Rightarrow> string \<Rightarrow> item_list \<Rightarrow> int \<Rightarrow> (svc, int) py" where
  "stock_do_prepare cl saga_id items ttl =
     redis_call cl (stock_2pc_prepare (cl_rc cl) (stock_2pc_keys saga_id items)
       ([saga_id, show_int ttl] @ item_args items))"

definition stock_do_commit :: "redis_client \<Rightarrow> string \<Rightarrow> item_list \<Rightarrow> (svc, unit) py" where
  "stock_do_commit cl saga_id items = (let n = int (length items) in
     bindE (redis_call cl (stock_2pc_commit (cl_rc cl) (stock_2pc_keys saga_id items)
       ([saga_id, show_int n] @ item_args items))) (\<lambda>_. ret ()))"

definition stock_do_abort :: "redis_client \<Rightarrow> string \<Rightarrow> item_list \<Rightarrow> (svc, unit) py" where
  "stock_do_abort cl saga_id items = (let n = int (length items) in
     bindE (redis_call cl (stock_2pc_abort (cl_rc cl) (stock_2pc_keys saga_id items)
       ([saga_id, show_int n] @ map fst items))) (\<lambda>_. ret ()))"

definition stock_do_execute :: "redis_client \<Rightarrow> string \<Rightarrow> item_list \<Rightarrow> (svc, int) py" where
  "stock_do_execute cl saga_id items =
     redis_call cl (stock_saga_execute (cl_rc cl) (stock_saga_keys saga_id items)
       ([saga_id] @ item_args items))"

definition stock_do_compensate :: "redis_client \<Rightarrow> string \<Rightarrow> item_list \<Rightarrow> (svc, unit) py" where
  "stock_do_compensate cl saga_id items = (let n = int (length items) in
     bindE (redis_call cl (stock_saga_compensate (cl_rc cl) (stock_saga_keys saga_id items)
       [saga_id, show_int n])) (\<lambda>_. ret ()))"

definition stock_handle_command :: "redis_client \<Rightarrow> dict \<Rightarrow> (svc, string) py" where
  "stock_handle_command cl msg =
    bindE monotonic (\<lambda>cmd_start.
    bindE (lift_sum (text_field msg ''action'' [])) (\<lambda>action.
    bindE (lift_sum (text_field msg ''saga_id'' [])) (\<lambda>saga_id.
    bindE (inject_at (''before_'' @ action)) (\<lambda>_.
    if action = ''prepare'' then
      bindE (lift_sum (parse_items msg)) (\<lambda>items.
      bindE (lift_sum (int_field msg ''ttl'' ''30'')) (\<lambda>ttl.
      bindE (stock_do_prepare cl saga_id items ttl) (\<lambda>result.
      finish_command action cmd_start (if result = 1 then ''prepared'' else ''failed''))))
    else if action = ''commit'' then
      bindE (lift_sum (parse_items msg)) (\<lambda>items.
      bindE (stock_do_commit cl saga_id items) (\<lambda>_. finish_command action cmd_start ''committed''))
    else if action = ''abort'' then
      bindE (lift_sum (parse_items msg)) (\<lambda>items.
      bindE (stock_do_abort cl saga_id items) (\<lambda>_. finish_command action cmd_start ''aborted''))
    else if action = ''execute'' then
      bindE (lift_sum (parse_items msg)) (\<lambda>items.
      bindE (stock_do_execute cl saga_id items) (\<lambda>result.
      finish_command action cmd_start (if result = 1 then ''executed'' else ''failed'')))
    else if action = ''compensate'' then
      bindE (lift_sum (parse_items msg)) (\<lambda>items.
      bindE (stock_do_compensate cl saga_id items) (\<lambda>_. finish_command action cmd_start ''compensated''))
    else ret ''failed''))))"

definition stock_handle_nats :: "redis_client \<Rightarrow> dict \<Rightarrow> (svc, pyval) py" where
  "stock_handle_nats cl msg =
     nats_reply ''insufficient_stock'' (dict_get msg ''saga_id'' (Str [])) (stock_handle_command cl msg)"

definition stock_handle_message :: "('m \<Rightarrow> exn + pyval) \<Rightarrow> (pyval \<Rightarrow> exn + unit) \<Rightarrow> redis_client \<Rightarrow> 'm \<Rightarrow> (svc, pyval) py" where
  "stock_handle_message unpackb get_context cl data = bindE (lift_sum (read_message unpackb get_context data)) (stock_handle_nats cl)"

section \<open>HTTP endpoints\<close>

text \<open>Path parameters are texts; \<open>key\<close> is the fresh UUID.\<close>

definition item_mapping :: "int \<Rightarrow> int \<Rightarrow> (string \<times> rtext) list" where
  "item_mapping stock price = [(''available_stock'', Text (show_int stock)),
     (''reserved_stock'', Text (show_int 0)), (''price'', Text (show_int price))]"

definition create_item :: "redis_client \<Rightarrow> string \<Rightarrow> string \<Rightarrow> (svc, response) py" where
  "create_item cl key price_param =
     bindE (lift_sum (py_int (Str price_param))) (\<lambda>price.
     bindE (or_db_error (redis_call cl (cl_rc cl (HSET (item_key key) (item_mapping 0 price))))) (\<lambda>_.
     ret (JSONResponse (PDict [(''item_id'', Str key)]))))"

definition stock_batch_init :: "redis_client \<Rightarrow> nat \<Rightarrow> string \<Rightarrow> string \<Rightarrow> string \<Rightarrow> (svc, response) py" where
  "stock_batch_init cl chunk_size n_param stock_param price_param =
     bindE (lift_sum (py_int (Str n_param))) (\<lambda>n.
     bindE (lift_sum (py_int (Str stock_param))) (\<lambda>starting_stock.
     bindE (lift_sum (py_int (Str price_param))) (\<lambda>item_price.
     bindE (batch_init cl chunk_size n (\<lambda>i.
         [HSET (item_key (show_nat i)) (item_mapping starting_stock item_price)])) (\<lambda>_.
     ret (JSONResponse (PDict [(''msg'', Str ''Batch init for stock successful'')]))))))"

definition find_item :: "redis_client \<Rightarrow> string \<Rightarrow> (svc, response) py" where
  "find_item cl item_id =
     bindE (read_entry cl (item_key item_id)) (\<lambda>entry.
     if entry = [] then http_error (''Item: '' @ item_id @ '' not found!'')
     else bindE (lift_sum (int_entry entry ''available_stock'')) (\<lambda>available.
       bindE (lift_sum (int_entry entry ''reserved_stock'')) (\<lambda>reserved.
       bindE (lift_sum (int_entry entry ''price'')) (\<lambda>price.
       ret (JSONResponse (PDict [(''stock'', PInt (available + reserved)), (''price'', PInt price)]))))))"

definition stock_updated :: "string \<Rightarrow> int \<Rightarrow> response" where
  "stock_updated item_id new_stock =
     PlainTextResponse (''Item: '' @ item_id @ '' stock updated to: '' @ show_int new_stock)"

definition add_stock :: "redis_client \<Rightarrow> string \<Rightarrow> string \<Rightarrow> (svc, response) py" where
  "add_stock cl item_id amount_param =
     bindE (lift_sum (py_int (Str amount_param))) (\<lambda>amount.
     bindE (try_except (redis_call cl (stock_add_direct (cl_rc cl) [item_key item_id] [show_int amount]))
       (\<lambda>e. case e of
          ResponseErr m \<Rightarrow> Some (http_error (if contains ''ITEM_NOT_FOUND'' m
            then ''Item: '' @ item_id @ '' not found!'' else DB_ERROR_STR))
        | _ \<Rightarrow> if is_redis_error e then Some (http_error DB_ERROR_STR) else None)) (\<lambda>new_stock.
     ret (stock_updated item_id new_stock)))"

definition remove_stock :: "redis_client \<Rightarrow> string \<Rightarrow> string \<Rightarrow> (svc, response) py" where
  "remove_stock cl item_id amount_param =
     bindE (lift_sum (py_int (Str amount_param))) (\<lambda>amount.
     bindE (try_except (redis_call cl (stock_subtract_direct (cl_rc cl) [item_key item_id] [show_int amount]))
       (\<lambda>e. case e of
          ResponseErr m \<Rightarrow> Some (http_error (
            if contains ''ITEM_NOT_FOUND'' m then ''Item: '' @ item_id @ '' not found!''
            else if contains ''INSUFFICIENT_STOCK'' m then ''Item: '' @ item_id @ '' stock cannot get reduced below zero!''
            else DB_ERROR_STR))
        | _ \<Rightarrow> if is_redis_error e then Some (http_error DB_ERROR_STR) else None)) (\<lambda>new_stock.
     ret (stock_updated item_id new_stock)))"

definition stock_health :: "redis_client \<Rightarrow> (svc, response) py" where
  "stock_health cl = ping_health cl"

definition stock_metrics :: "(svc, response) py" where
  "stock_metrics = metrics_endpoint ''stock''"

section \<open>The command a checkout sends\<close>

text \<open>\<open>command_items items\<close> is what \<open>json.dumps\<close> writes for the pairs of a checkout.\<close>

definition command_items :: "item_list \<Rightarrow> pyval" where
  "command_items items = PStr (json_dumps (PList (map (\<lambda>(i, q). PList [Str i, PInt q]) items)))"

lemma unpack2_pair [simp]: "unpack2 (PList [a, b]) = Inr (a, b)"
  by (simp add: unpack2_def)

lemma parse_items_command:
  assumes "dict_get msg ''items'' (Str []) = command_items items"
  shows "parse_items msg = Inr items"
proof -
  have "map_sum_list (\<lambda>pair. case unpack2 pair of
      Inl e \<Rightarrow> Inl e
    | Inr (item_id, quantity) \<Rightarrow> (case py_format item_id of
        Inl e \<Rightarrow> Inl e
      | Inr i \<Rightarrow> (case py_int quantity of Inl e \<Rightarrow> Inl e | Inr q \<Rightarrow> Inr (i, q))))
      (map (\<lambda>(i, q). PList [Str i, PInt q]) items) = Inr items"
    by (induction items) (auto split: prod.splits)
  then show ?thesis by (simp add: parse_items_def assms command_items_def)
qed

lemma parse_items_absent: "map_of msg ''items'' = None \<Longrightarrow> parse_items msg = Inr []"
  by (simp add: parse_items_def dict_get_def)

end
