(* ===== verification/PaymentScripts.thy ===== *)
theory PaymentScripts
  imports Redis
begin

text \<open>
  The Lua scripts of the payment service (\<open>lua/payment_*.lua\<close>). They mirror the stock scripts, for
  one user instead of a list of items.
\<close>

section \<open>Keys of the payment database\<close>

definition user_key :: "string \<Rightarrow> string" where
  "user_key user_id = ''user:'' @ user_id"

definition payment_lock_key :: "string \<Rightarrow> string \<Rightarrow> string" where
  "payment_lock_key saga_id user_id = ''lock:2pc:'' @ saga_id @ '':'' @ user_id"

definition payment_status_key :: "string \<Rightarrow> string" where
  "payment_status_key saga_id = ''saga:'' @ saga_id @ '':payment:status''"

definition payment_amounts_key :: "string \<Rightarrow> string" where
  "payment_amounts_key saga_id = ''saga:'' @ saga_id @ '':payment:amounts''"

lemma payment_keys_inject [simp]:
  "user_key i = user_key j \<longleftrightarrow> i = j"
  "payment_status_key s = payment_status_key s' \<longleftrightarrow> s = s'"
  "payment_amounts_key s = payment_amounts_key s' \<longleftrightarrow> s = s'"
  by (simp_all add: user_key_def payment_status_key_def payment_amounts_key_def)

lemma payment_status_amounts [simp]:
  "payment_status_key s \<noteq> payment_amounts_key s'" "payment_amounts_key s' \<noteq> payment_status_key s"
proof -
  have "rev (payment_status_key s) \<noteq> rev (payment_amounts_key s')"
    by (simp add: payment_status_key_def payment_amounts_key_def)
  then show "payment_status_key s \<noteq> payment_amounts_key s'" "payment_amounts_key s' \<noteq> payment_status_key s"
    by auto
qed

lemma payment_keys_distinct [simp]:
  "user_key i \<noteq> payment_lock_key s j" "payment_lock_key s j \<noteq> user_key i"
  "user_key i \<noteq> payment_status_key s" "payment_status_key s \<noteq> user_key i"
  "user_key i \<noteq> payment_amounts_key s" "payment_amounts_key s \<noteq> user_key i"
  "payment_lock_key s j \<noteq> payment_status_key s'" "payment_status_key s' \<noteq> payment_lock_key s j"
  "payment_lock_key s j \<noteq> payment_amounts_key s'" "payment_amounts_key s' \<noteq> payment_lock_key s j"
  by (simp_all add: user_key_def payment_status_key_def payment_amounts_key_def payment_lock_key_def)

section \<open>The scripts\<close>

definition payment_2pc_prepare :: "redis \<Rightarrow> string list \<Rightarrow> string list \<Rightarrow> int script" where
  "payment_2pc_prepare rc KEYS ARGV =
    bindE (lua_at ARGV 1) (\<lambda>a. bindE (number a) (\<lambda>amount.
    bindE (lua_at ARGV 4) (\<lambda>t. bindE (number t) (\<lambda>lock_ttl.
    bindE (lua_at KEYS 1) (\<lambda>user. bindE (lua_at KEYS 2) (\<lambda>lock. bindE (lua_at KEYS 3) (\<lambda>status_key.
    bindE (rc (HGET status_key ''status'')) (\<lambda>status.
    if status = Bulk (Text ''prepared'') then ret 1
    else if status = Bulk (Text ''aborted'') \<or> status = Bulk (Text ''committed'') then ret 0
    else bindE (rc (HGET user ''available_credit'')) (\<lambda>r.
      case tonumber r of
        None \<Rightarrow> ret 0
      | Some available \<Rightarrow>
          if available < amount then ret 0
          else bindE (act rc (HINCRBY user ''available_credit'' (- amount))) (\<lambda>_.
            bindE (act rc (SETEX lock lock_ttl (Text (show_int amount)))) (\<lambda>_.
            bindE (act rc (HSET status_key [(''amount'', Text (show_int amount))])) (\<lambda>_.
            bindE (act rc (HSET status_key [(''status'', Text ''prepared'')])) (\<lambda>_.
            bindE (act rc (EXPIRE status_key 86400)) (\<lambda>_. ret 1))))))))))))))"

definition payment_2pc_commit :: "redis \<Rightarrow> string list \<Rightarrow> string list \<Rightarrow> int script" where
  "payment_2pc_commit rc KEYS ARGV =
    bindE (lua_at KEYS 1) (\<lambda>user. bindE (lua_at KEYS 2) (\<lambda>lock. bindE (lua_at KEYS 3) (\<lambda>status_key.
    bindE (rc (HGET status_key ''status'')) (\<lambda>status.
    if status = Bulk (Text ''committed'') then ret 1
    else bindE (if status \<noteq> Bulk (Text ''prepared'')
        then bindE (lua_at ARGV 2) (\<lambda>a.
          case counter_text (Text a) of
            Some amount \<Rightarrow>
              if 0 < amount
              then bindE (act rc (HINCRBY user ''available_credit'' (- amount))) (\<lambda>_.
                act rc (HSET status_key [(''amount'', Text (show_int amount))]))
              else ret ()
          | None \<Rightarrow> ret ())
        else ret ()) (\<lambda>_.
      bindE (act rc (DEL lock)) (\<lambda>_.
      bindE (act rc (HSET status_key [(''status'', Text ''committed'')])) (\<lambda>_.
      bindE (act rc (EXPIRE status_key 86400)) (\<lambda>_. ret 1))))))))"

definition payment_2pc_abort :: "redis \<Rightarrow> string list \<Rightarrow> string list \<Rightarrow> int script" where
  "payment_2pc_abort rc KEYS ARGV =
    bindE (lua_at KEYS 1) (\<lambda>user. bindE (lua_at KEYS 2) (\<lambda>lock. bindE (lua_at KEYS 3) (\<lambda>status_key.
    bindE (rc (HGET status_key ''status'')) (\<lambda>status.
    if status = Bulk (Text ''aborted'') then ret 1
    else bindE (rc (HGET status_key ''amount'')) (\<lambda>amount.
      bindE (if amount \<noteq> Nil
        then (case tonumber amount of
            Some a \<Rightarrow> act rc (HINCRBY user ''available_credit'' a)
          | None \<Rightarrow> throw (LuaError ''nil value''))
        else ret ()) (\<lambda>_.
      bindE (act rc (DEL lock)) (\<lambda>_.
      bindE (act rc (HSET status_key [(''status'', Text ''aborted'')])) (\<lambda>_.
      bindE (act rc (EXPIRE status_key 86400)) (\<lambda>_. ret 1)))))))))"

definition payment_saga_execute :: "redis \<Rightarrow> string list \<Rightarrow> string list \<Rightarrow> int script" where
  "payment_saga_execute rc KEYS ARGV =
    bindE (lua_at ARGV 1) (\<lambda>a. bindE (number a) (\<lambda>amount. bindE (lua_at ARGV 3) (\<lambda>user_id.
    bindE (lua_at KEYS 1) (\<lambda>user. bindE (lua_at KEYS 2) (\<lambda>status_key. bindE (lua_at KEYS 3) (\<lambda>amounts_key.
    bindE (rc (GET status_key)) (\<lambda>status.
    if status = Bulk (Text ''executed'') then ret 1
    else if status = Bulk (Text ''compensated'') then ret 0
    else bindE (rc (HGET user ''available_credit'')) (\<lambda>r.
      case tonumber r of
        None \<Rightarrow> ret 0
      | Some available \<Rightarrow>
          if available < amount then ret 0
          else bindE (act rc (HINCRBY user ''available_credit'' (- amount))) (\<lambda>_.
            bindE (act rc (HSET amounts_key [(user_id, Text (show_int amount))])) (\<lambda>_.
            bindE (act rc (EXPIRE amounts_key 86400)) (\<lambda>_.
            bindE (act rc (SETEX status_key 86400 (Text ''executed''))) (\<lambda>_. ret 1))))))))))))"

fun refund_amounts :: "redis \<Rightarrow> string \<Rightarrow> rtext list \<Rightarrow> unit script" where
  "refund_amounts rc user (_ # t # rest) =
     bindE (case counter_text t of
         Some amount \<Rightarrow> act rc (HINCRBY user ''available_credit'' amount)
       | None \<Rightarrow> ret ()) (\<lambda>_. refund_amounts rc user rest)"
| "refund_amounts rc user _ = ret ()"

definition payment_saga_compensate :: "redis \<Rightarrow> string list \<Rightarrow> string list \<Rightarrow> int script" where
  "payment_saga_compensate rc KEYS ARGV =
    bindE (lua_at KEYS 1) (\<lambda>user. bindE (lua_at KEYS 2) (\<lambda>status_key. bindE (lua_at KEYS 3) (\<lambda>amounts_key.
    bindE (rc (GET status_key)) (\<lambda>status.
    if status = Bulk (Text ''compensated'') then ret 1
    else bindE (rc (HGETALL amounts_key)) (\<lambda>all_amounts.
      bindE (refund_amounts rc user (case all_amounts of Arr l \<Rightarrow> l | _ \<Rightarrow> [])) (\<lambda>_.
      bindE (act rc (DEL amounts_key)) (\<lambda>_.
      bindE (act rc (SETEX status_key 86400 (Text ''compensated''))) (\<lambda>_. ret 1))))))))"

definition payment_subtract_direct :: "redis \<Rightarrow> string list \<Rightarrow> string list \<Rightarrow> int script" where
  "payment_subtract_direct rc KEYS ARGV =
    bindE (lua_at KEYS 1) (\<lambda>key. bindE (lua_at ARGV 1) (\<lambda>a. bindE (number a) (\<lambda>amount.
    bindE (rc (HGET key ''available_credit'')) (\<lambda>r.
    case tonumber r of
      None \<Rightarrow> throw (ErrReply ''USER_NOT_FOUND'')
    | Some available \<Rightarrow>
        if available < amount then throw (ErrReply ''INSUFFICIENT_CREDIT'')
        else bindE (act rc (HINCRBY key ''available_credit'' (- amount))) (\<lambda>_. ret (available - amount))))))"

definition payment_add_direct :: "redis \<Rightarrow> string list \<Rightarrow> string list \<Rightarrow> int script" where
  "payment_add_direct rc KEYS ARGV =
    bindE (lua_at KEYS 1) (\<lambda>key. bindE (lua_at ARGV 1) (\<lambda>a. bindE (number a) (\<lambda>amount.
    bindE (rc (EXISTS key)) (\<lambda>exists.
    if exists = Num 0 then throw (ErrReply ''USER_NOT_FOUND'')
    else bindE (rc (HINCRBY key ''available_credit'' amount)) (\<lambda>r.
      case r of Num n \<Rightarrow> ret n | _ \<Rightarrow> throw (LuaError ''unexpected reply''))))))"

section \<open>The arguments the service passes\<close>

definition payment_2pc_keys :: "string \<Rightarrow> string \<Rightarrow> string list" where
  "payment_2pc_keys saga_id user_id =
     [user_key user_id, payment_lock_key saga_id user_id, payment_status_key saga_id]"

definition payment_saga_keys :: "string \<Rightarrow> string \<Rightarrow> string list" where
  "payment_saga_keys saga_id user_id =
     [user_key user_id, payment_status_key saga_id, payment_amounts_key saga_id]"

end
