(* ===== verification/PaymentLaws.thy ===== *)
theory PaymentLaws
  imports PaymentScripts
begin

text \<open>
  What the payment scripts do, over the views of the payment database: a user's available credit,
  the 2PC status and recorded amount of a saga, its Saga status and amounts.
\<close>

section \<open>Views of the payment database\<close>

definition credit :: "keyspace \<Rightarrow> string \<Rightarrow> int option" where
  "credit d u = counter d (user_key u) ''available_credit''"

definition payment_status :: "keyspace \<Rightarrow> string \<Rightarrow> rtext option" where
  "payment_status d s = field d (payment_status_key s) ''status''"

definition payment_amount :: "keyspace \<Rightarrow> string \<Rightarrow> int option" where
  "payment_amount d s = counter d (payment_status_key s) ''amount''"

definition payment_2pc_open :: "keyspace \<Rightarrow> string \<Rightarrow> bool" where
  "payment_2pc_open d s \<longleftrightarrow> hash_of d (payment_status_key s) \<noteq> None"

definition payment_saga_status :: "keyspace \<Rightarrow> string \<Rightarrow> rtext option option" where
  "payment_saga_status d s = text_of d (payment_status_key s)"

definition affordable :: "keyspace \<Rightarrow> string \<Rightarrow> int \<Rightarrow> bool" where
  "affordable d u a \<longleftrightarrow> (case credit d u of None \<Rightarrow> False | Some v \<Rightarrow> a \<le> v)"

text \<open>The credit of \<open>u\<close> moved by \<open>\<delta>\<close>; nothing else of the users changed.\<close>

definition credit_shift :: "string \<Rightarrow> int \<Rightarrow> keyspace \<Rightarrow> keyspace \<Rightarrow> bool" where
  "credit_shift u \<delta> d d' \<longleftrightarrow>
     (\<forall>j. credit d' j = (if j = u then map_option (\<lambda>v. v + \<delta>) (credit d j) else credit d j)) \<and>
     (\<forall>j f. f \<noteq> ''available_credit'' \<longrightarrow> field d' (user_key j) f = field d (user_key j) f)"

definition other_payments_kept :: "string \<Rightarrow> keyspace \<Rightarrow> keyspace \<Rightarrow> bool" where
  "other_payments_kept s d d' \<longleftrightarrow> (\<forall>s'. s' \<noteq> s \<longrightarrow>
     entries d' (payment_status_key s') = entries d (payment_status_key s') \<and>
     entries d' (payment_amounts_key s') = entries d (payment_amounts_key s'))"

definition user_typed :: "keyspace \<Rightarrow> string \<Rightarrow> bool" where
  "user_typed d u \<longleftrightarrow> hash_of d (user_key u) \<noteq> None"

lemma credit_shift_refl: "credit_shift u 0 d d"
  by (simp add: credit_shift_def option.map_ident)

lemma credit_shift_trans:
  "credit_shift u \<delta> d d1 \<Longrightarrow> credit_shift u \<delta>' d1 d2 \<Longrightarrow> credit_shift u (\<delta> + \<delta>') d d2"
  by (simp add: credit_shift_def option.map_comp comp_def add.assoc)

lemma other_payments_refl: "other_payments_kept s d d"
  by (simp add: other_payments_kept_def)

lemma other_payments_trans:
  "other_payments_kept s d d1 \<Longrightarrow> other_payments_kept s d1 d2 \<Longrightarrow> other_payments_kept s d d2"
  by (simp add: other_payments_kept_def)

lemma credit_shift_put:
  assumes "credit d u = Some v" and "in64 (v + \<delta>)"
  shows "credit_shift u \<delta> d (put_fields (user_key u) [(''available_credit'', Text (show_int (v + \<delta>)))] d)"
proof -
  have h: "hash_of d (user_key u) \<noteq> None" using assms(1) by (auto simp: credit_def dest: counter_hash)
  have "counter (put_fields (user_key u) [(''available_credit'', Text (show_int (v + \<delta>)))] d) (user_key j) ''available_credit''
      = (if j = u then Some (v + \<delta>) else counter d (user_key j) ''available_credit'')" for j
    using h assms(2) by (cases "j = u") auto
  moreover have "field (put_fields (user_key u) [(''available_credit'', Text (show_int (v + \<delta>)))] d) (user_key j) f
      = field d (user_key j) f" if "f \<noteq> ''available_credit''" for j f
    using h that by (cases "j = u") auto
  ultimately show ?thesis
    using assms(1) by (simp add: credit_shift_def credit_def)
qed

lemma credit_shift_other:
  assumes "\<And>j. entries d2 (user_key j) = entries d1 (user_key j)"
  shows "credit_shift u \<delta> d d2 = credit_shift u \<delta> d d1"
  using assms by (simp add: credit_shift_def credit_def view_cong [OF assms])

definition settle :: "string \<Rightarrow> string \<Rightarrow> keyspace \<Rightarrow> keyspace" where
  "settle s st d = set_ttl (payment_status_key s) (Some 86400) (put_fields (payment_status_key s) [(''status'', Text st)] d)"

lemma settle_views:
  assumes "payment_2pc_open d s"
  shows "payment_status (settle s st d) s = Some (Text st)" "payment_2pc_open (settle s st d) s"
    "payment_amount (settle s st d) s = payment_amount d s"
    "credit_shift u 0 d (settle s st d)" "other_payments_kept s d (settle s st d)"
proof -
  show "credit_shift u 0 d (settle s st d)"
    by (simp add: settle_def credit_shift_def credit_def option.map_ident)
qed (use assms in \<open>auto simp: settle_def payment_status_def payment_2pc_open_def other_payments_kept_def
      payment_amount_def entries_put_fields\<close>)

definition charge_credit :: "string \<Rightarrow> string \<Rightarrow> int \<Rightarrow> keyspace \<Rightarrow> keyspace \<Rightarrow> bool" where
  "charge_credit s u a d d' \<longleftrightarrow> credit_shift u (- a) d d' \<and> other_payments_kept s d d' \<and>
     payment_amount d' s = Some a"

section \<open>Specifications of the scripts\<close>

context redis_server begin

lemma payment_status_hget:
  "payment_2pc_open d s \<Longrightarrow> rc (HGET (payment_status_key s) ''status'') d = (Inr (bulk (payment_status d s)), d)"
  by (simp add: payment_2pc_open_def hget_field payment_status_def)

lemma credit_hget:
  assumes "user_typed d u"
  shows "\<exists>r. rc (HGET (user_key u) ''available_credit'') d = (Inr r, d) \<and> tonumber r = credit d u"
  using assms hget_field [of d "user_key u" "''available_credit''"]
  by (auto simp: user_typed_def credit_def counter_def split: option.splits)

lemma finish_payment:
  assumes "payment_2pc_open d s"
  shows "act rc (HSET (payment_status_key s) [(''status'', Text st)]) d
      = (Inr (), put_fields (payment_status_key s) [(''status'', Text st)] d)"
    "act rc (EXPIRE (payment_status_key s) 86400) (put_fields (payment_status_key s) [(''status'', Text st)] d)
      = (Inr (), settle s st d)"
  using assms by (simp_all add: payment_2pc_open_def hset_act expire_act settle_def entries_put_fields)

lemma payment_prepare_spec:
  assumes "0 \<le> a" "in64 a" "user_typed d u" "payment_2pc_open d s" "0 < ttl" "in64 ttl"
  shows "\<exists>r d'. payment_2pc_prepare rc (payment_2pc_keys s u) [show_int a, s, u, show_int ttl] d = (Inr r, d') \<and>
    (if payment_status d s = Some (Text ''prepared'') then r = 1 \<and> d' = d
     else if payment_status d s = Some (Text ''aborted'') \<or> payment_status d s = Some (Text ''committed'') \<or>
       \<not> affordable d u a then r = 0 \<and> d' = d
     else r = 1 \<and> charge_credit s u a d d' \<and> payment_status d' s = Some (Text ''prepared'') \<and> payment_2pc_open d' s)"
proof -
  obtain r where r: "rc (HGET (user_key u) ''available_credit'') d = (Inr r, d)" "tonumber r = credit d u"
    using credit_hget assms(3) by blast
  note h = payment_status_hget [OF assms(4)]
  show ?thesis
  proof (cases "payment_status d s = Some (Text ''prepared'') \<or> payment_status d s = Some (Text ''aborted'') \<or>
      payment_status d s = Some (Text ''committed'') \<or> \<not> affordable d u a")
    case True
    with r h assms show ?thesis
      by (auto simp: payment_2pc_prepare_def payment_2pc_keys_def lua_at_def bindE_Inr ret_def affordable_def
          split: option.splits)
  next
    case False
    then obtain v where v: "credit d u = Some v" "a \<le> v" by (auto simp: affordable_def split: option.splits)
    have ok: "in64 (v + - a)" using v assms(1) counter_in64 [of d] unfolding credit_def
      by (auto intro: in64_diff)
    define d1 where "d1 = put_fields (user_key u) [(''available_credit'', Text (show_int (v + - a)))] d"
    define d2 where "d2 = set_ttl (payment_lock_key s u) (Some ttl) (put (payment_lock_key s u) (RStr (Text (show_int a))) d1)"
    define d3 where "d3 = put_fields (payment_status_key s) [(''amount'', Text (show_int a))] d2"
    have open2: "payment_2pc_open d2 s" and open3: "payment_2pc_open d3 s"
      using assms(4) by (simp_all add: payment_2pc_open_def d1_def d2_def d3_def)
    have "act rc (HINCRBY (user_key u) ''available_credit'' (- a)) d = (Inr (), d1)"
      unfolding d1_def using v ok by (intro hincrby_act) (simp_all add: credit_def)
    moreover have "act rc (SETEX (payment_lock_key s u) ttl (Text (show_int a))) d1 = (Inr (), d2)"
      unfolding d2_def by (rule setex_act) (rule assms(5))
    moreover have "act rc (HSET (payment_status_key s) [(''amount'', Text (show_int a))]) d2 = (Inr (), d3)"
      unfolding d3_def using open2 by (intro hset_act) (simp_all add: payment_2pc_open_def)
    ultimately have run: "payment_2pc_prepare rc (payment_2pc_keys s u) [show_int a, s, u, show_int ttl] d
        = (Inr 1, settle s ''prepared'' d3)"
      using False r h v assms(2,6) finish_payment [OF open3, of "''prepared''"]
      by (simp add: payment_2pc_prepare_def payment_2pc_keys_def lua_at_def bindE_Inr ret_def)
    have "credit_shift u (- a) d d1" unfolding d1_def using v ok by (intro credit_shift_put) simp_all
    then have "credit_shift u (- a) d d3"
      by (subst credit_shift_other [of _ d1]) (auto simp: d3_def d2_def entries_put_fields)
    then have "credit_shift u (- a) d (settle s ''prepared'' d3)"
      using credit_shift_trans settle_views(4) [OF open3] by fastforce
    moreover have "other_payments_kept s d (settle s ''prepared'' d3)"
      by (rule other_payments_trans [OF _ settle_views(5) [OF open3]])
        (auto simp: other_payments_kept_def d3_def d2_def d1_def entries_put_fields)
    moreover have "payment_amount d3 s = Some a"
      using open2 assms(2) by (simp add: d3_def payment_amount_def payment_2pc_open_def)
    ultimately show ?thesis
      using run False settle_views(1-3) [OF open3, of "''prepared''"] by (auto simp: charge_credit_def)
  qed
qed

lemma payment_commit_spec:
  assumes "0 < a" "in64 a" "payment_2pc_open d s"
    and lost: "payment_status d s \<noteq> Some (Text ''prepared'') \<Longrightarrow> \<exists>v. credit d u = Some v \<and> in64 (v - a)"
  shows "\<exists>d'. payment_2pc_commit rc (payment_2pc_keys s u) [s, show_int a, u] d = (Inr 1, d') \<and>
    (if payment_status d s = Some (Text ''committed'') then d' = d
     else payment_status d' s = Some (Text ''committed'') \<and> payment_2pc_open d' s \<and> other_payments_kept s d d' \<and>
       (if payment_status d s = Some (Text ''prepared'')
        then credit_shift u 0 d d' \<and> payment_amount d' s = payment_amount d s
        else charge_credit s u a d d'))"
proof (cases "payment_status d s = Some (Text ''committed'')")
  case True
  with assms(3) show ?thesis
    by (simp add: payment_2pc_commit_def payment_2pc_keys_def lua_at_def payment_status_hget bindE_Inr ret_def)
next
  case False
  note h = payment_status_hget [OF assms(3)]
  show ?thesis
  proof (cases "payment_status d s = Some (Text ''prepared'')")
    case True
    define d1 where "d1 = remove (payment_lock_key s u) d"
    have open1: "payment_2pc_open d1 s" using assms(3) by (simp add: d1_def payment_2pc_open_def)
    have run: "payment_2pc_commit rc (payment_2pc_keys s u) [s, show_int a, u] d = (Inr 1, settle s ''committed'' d1)"
      using True h finish_payment [OF open1, of "''committed''"] del_act [of "payment_lock_key s u" d]
      by (simp add: payment_2pc_commit_def payment_2pc_keys_def lua_at_def bindE_def ret_def d1_def)
    have keep: "credit_shift u 0 d d1" "other_payments_kept s d d1" "payment_amount d1 s = payment_amount d s"
      by (simp_all add: d1_def credit_shift_def credit_def option.map_ident other_payments_kept_def payment_amount_def)
    note m = settle_views [where st = "''committed''", OF open1]
    have "credit_shift u 0 d (settle s ''committed'' d1)" "other_payments_kept s d (settle s ''committed'' d1)"
      using credit_shift_trans [OF keep(1) m(4)] other_payments_trans [OF keep(2) m(5)] by simp_all
    with run True m(1-3) keep(3) show ?thesis by simp
  next
    case False': False
    with lost obtain v where v: "credit d u = Some v" "in64 (v + - a)" by auto
    define d1 where "d1 = put_fields (user_key u) [(''available_credit'', Text (show_int (v + - a)))] d"
    define d2 where "d2 = put_fields (payment_status_key s) [(''amount'', Text (show_int a))] d1"
    define d3 where "d3 = remove (payment_lock_key s u) d2"
    have open1: "payment_2pc_open d1 s" and open3: "payment_2pc_open d3 s"
      using assms(3) by (simp_all add: d1_def d2_def d3_def payment_2pc_open_def)
    have a1: "act rc (HINCRBY (user_key u) ''available_credit'' (- a)) d = (Inr (), d1)"
      unfolding d1_def using v by (intro hincrby_act) (simp_all add: credit_def)
    have a2: "act rc (HSET (payment_status_key s) [(''amount'', Text (show_int a))]) d1 = (Inr (), d2)"
      unfolding d2_def using open1 by (intro hset_act) (simp_all add: payment_2pc_open_def)
    have run: "payment_2pc_commit rc (payment_2pc_keys s u) [s, show_int a, u] d = (Inr 1, settle s ''committed'' d3)"
      using False False' h a1 a2 assms(1,2) finish_payment [OF open3, of "''committed''"] del_act [of "payment_lock_key s u" d2]
      by (simp add: payment_2pc_commit_def payment_2pc_keys_def lua_at_def bindE_def ret_def d3_def)
    have "credit_shift u (- a) d d1" unfolding d1_def using v by (intro credit_shift_put) simp_all
    then have "credit_shift u (- a) d d3"
      by (subst credit_shift_other [of _ d1]) (auto simp: d3_def d2_def entries_put_fields)
    then have "credit_shift u (- a) d (settle s ''committed'' d3)"
      using credit_shift_trans settle_views(4) [OF open3] by fastforce
    moreover have "other_payments_kept s d (settle s ''committed'' d3)"
      by (rule other_payments_trans [OF _ settle_views(5) [OF open3]])
        (auto simp: other_payments_kept_def d3_def d2_def d1_def entries_put_fields)
    moreover have "payment_amount d3 s = Some a"
      using open1 assms(2) by (simp add: d3_def d2_def payment_amount_def payment_2pc_open_def)
    ultimately show ?thesis
      using run False False' settle_views(1-3) [OF open3, of "''committed''"] by (auto simp: charge_credit_def)
  qed
qed

lemma payment_abort_spec:
  assumes "payment_2pc_open d s"
    and rec: "(\<exists>a v. payment_amount d s = Some a \<and> credit d u = Some v \<and> in64 (v + a)) \<or>
      field d (payment_status_key s) ''amount'' = None"
  shows "\<exists>d'. payment_2pc_abort rc (payment_2pc_keys s u) [s] d = (Inr 1, d') \<and>
    (if payment_status d s = Some (Text ''aborted'') then d' = d
     else payment_status d' s = Some (Text ''aborted'') \<and> payment_2pc_open d' s \<and> other_payments_kept s d d' \<and>
       payment_amount d' s = payment_amount d s \<and>
       credit_shift u (case payment_amount d s of Some a \<Rightarrow> a | None \<Rightarrow> 0) d d')"
proof (cases "payment_status d s = Some (Text ''aborted'')")
  case True
  with assms(1) show ?thesis
    by (simp add: payment_2pc_abort_def payment_2pc_keys_def lua_at_def payment_status_hget bindE_Inr ret_def)
next
  case False
  note h = payment_status_hget [OF assms(1)]
  define a where "a = (case payment_amount d s of Some a \<Rightarrow> a | None \<Rightarrow> 0)"
  have hg: "rc (HGET (payment_status_key s) ''amount'') d = (Inr (bulk (field d (payment_status_key s) ''amount'')), d)"
    using assms(1) by (simp add: hget_field payment_2pc_open_def)
  obtain d1 where d1: "(if field d (payment_status_key s) ''amount'' \<noteq> None
        then act rc (HINCRBY (user_key u) ''available_credit'' a) else ret ()) d = (Inr (), d1)"
      "credit_shift u a d d1" "other_payments_kept s d d1"
      "entries d1 (payment_status_key s) = entries d (payment_status_key s)"
  proof (cases "field d (payment_status_key s) ''amount'' = None")
    case True
    then have "a = 0" by (simp add: a_def payment_amount_def counter_def)
    with True that [of d] show ?thesis by (simp add: ret_def credit_shift_refl other_payments_refl)
  next
    case False
    with rec obtain v where v: "payment_amount d s = Some a" "credit d u = Some v" "in64 (v + a)"
      by (auto simp: a_def)
    let ?d1 = "put_fields (user_key u) [(''available_credit'', Text (show_int (v + a)))] d"
    have "act rc (HINCRBY (user_key u) ''available_credit'' a) d = (Inr (), ?d1)"
      using v by (intro hincrby_act) (simp_all add: credit_def)
    moreover have "credit_shift u a d ?d1" using v by (intro credit_shift_put)
    ultimately show ?thesis
      using False that [of ?d1] by (simp add: other_payments_kept_def entries_put_fields)
  qed
  define d2 where "d2 = remove (payment_lock_key s u) d1"
  have open2: "payment_2pc_open d2 s" using assms(1) d1(4) by (simp add: d2_def payment_2pc_open_def hash_of_def)
  have amt: "tonumber (bulk (field d (payment_status_key s) ''amount'')) = payment_amount d s"
    by (simp add: payment_amount_def counter_def split: option.splits)
  have some: "payment_amount d s = Some a" if "field d (payment_status_key s) ''amount'' \<noteq> None"
    using rec that by (auto simp: a_def)
  have run: "payment_2pc_abort rc (payment_2pc_keys s u) [s] d = (Inr 1, settle s ''aborted'' d2)"
    using False h hg d1(1) some amt finish_payment [OF open2, of "''aborted''"] del_act [of "payment_lock_key s u" d1]
    by (cases "field d (payment_status_key s) ''amount'' = None")
      (simp_all add: payment_2pc_abort_def payment_2pc_keys_def lua_at_def bindE_def ret_def d2_def)
  have keep: "credit_shift u a d d2" "other_payments_kept s d d2" "payment_amount d2 s = payment_amount d s"
    using d1(2-4) by (simp_all add: d2_def credit_shift_def credit_def other_payments_kept_def payment_amount_def
        counter_def field_def)
  note m = settle_views [where st = "''aborted''", OF open2]
  have "credit_shift u a d (settle s ''aborted'' d2)" "other_payments_kept s d (settle s ''aborted'' d2)"
    using credit_shift_trans [OF keep(1) m(4)] other_payments_trans [OF keep(2) m(5)] by simp_all
  with run False m(1-3) keep(3) show ?thesis by (simp add: a_def)
qed

lemma payment_execute_spec:
  assumes "0 \<le> a" "in64 a" "user_typed d u" "payment_saga_status d s = Some st"
    and "st \<noteq> Some (Text ''executed'') \<Longrightarrow> hash_of d (payment_amounts_key s) = Some []"
  shows "\<exists>r d'. payment_saga_execute rc (payment_saga_keys s u) [show_int a, s, u] d = (Inr r, d') \<and>
    (if st = Some (Text ''executed'') then r = 1 \<and> d' = d
     else if st = Some (Text ''compensated'') \<or> \<not> affordable d u a then r = 0 \<and> d' = d
     else r = 1 \<and> credit_shift u (- a) d d' \<and> other_payments_kept s d d' \<and>
       payment_saga_status d' s = Some (Some (Text ''executed'')) \<and>
       hash_of d' (payment_amounts_key s) = Some [(u, Text (show_int a))])"
proof -
  have g: "rc (GET (payment_status_key s)) d = (Inr (bulk st), d)"
    using assms(4) by (simp add: get payment_saga_status_def)
  obtain r where r: "rc (HGET (user_key u) ''available_credit'') d = (Inr r, d)" "tonumber r = credit d u"
    using credit_hget assms(3) by blast
  show ?thesis
  proof (cases "st = Some (Text ''executed'') \<or> st = Some (Text ''compensated'') \<or> \<not> affordable d u a")
    case True
    with g r assms(2) show ?thesis
      by (auto simp: payment_saga_execute_def payment_saga_keys_def lua_at_def bindE_Inr ret_def affordable_def
          split: option.splits)
  next
    case False
    then obtain v where v: "credit d u = Some v" "a \<le> v" by (auto simp: affordable_def split: option.splits)
    have ok: "in64 (v + - a)" using v assms(1) counter_in64 [of d] unfolding credit_def
      by (auto intro: in64_diff)
    define d1 where "d1 = put_fields (user_key u) [(''available_credit'', Text (show_int (v + - a)))] d"
    define d2 where "d2 = put_fields (payment_amounts_key s) [(u, Text (show_int a))] d1"
    define d3 where "d3 = set_ttl (payment_amounts_key s) (Some 86400) d2"
    define d4 where "d4 = set_ttl (payment_status_key s) (Some 86400) (put (payment_status_key s) (RStr (Text ''executed'')) d3)"
    have empty: "hash_of d (payment_amounts_key s) = Some []" using assms(5) False by blast
    have a1: "act rc (HINCRBY (user_key u) ''available_credit'' (- a)) d = (Inr (), d1)"
      unfolding d1_def using v ok by (intro hincrby_act) (simp_all add: credit_def)
    have a2: "act rc (HSET (payment_amounts_key s) [(u, Text (show_int a))]) d1 = (Inr (), d2)"
      unfolding d2_def using empty by (intro hset_act) (simp_all add: d1_def)
    have a3: "act rc (EXPIRE (payment_amounts_key s) 86400) d2 = (Inr (), d3)"
      unfolding d3_def by (rule expire_act) (simp_all add: d2_def entries_put_fields)
    have a4: "act rc (SETEX (payment_status_key s) 86400 (Text ''executed'')) d3 = (Inr (), d4)"
      unfolding d4_def by (rule setex_act) simp
    have run: "payment_saga_execute rc (payment_saga_keys s u) [show_int a, s, u] d = (Inr 1, d4)"
      using False g r v assms(2) a1 a2 a3 a4
      by (simp add: payment_saga_execute_def payment_saga_keys_def lua_at_def bindE_Inr ret_def)
    have "credit_shift u (- a) d d1" unfolding d1_def using v ok by (intro credit_shift_put) simp_all
    then have "credit_shift u (- a) d d4"
      by (subst credit_shift_other [of _ d1]) (auto simp: d4_def d3_def d2_def entries_put_fields)
    moreover have "other_payments_kept s d d4"
      by (auto simp: other_payments_kept_def d4_def d3_def d2_def d1_def entries_put_fields)
    moreover have "hash_of d4 (payment_amounts_key s) = Some [(u, Text (show_int a))]"
      using empty by (simp add: d4_def d3_def d2_def d1_def)
    moreover have "payment_saga_status d4 s = Some (Some (Text ''executed''))"
      by (simp add: d4_def payment_saga_status_def)
    ultimately show ?thesis using run False by auto
  qed
qed

lemma payment_compensate_spec:
  assumes "payment_saga_status d s = Some st"
    and am: "st \<noteq> Some (Text ''compensated'') \<Longrightarrow>
      hash_of d (payment_amounts_key s) = Some [] \<and> a = 0 \<or>
      hash_of d (payment_amounts_key s) = Some [(u', Text (show_int a))] \<and> in64 a \<and>
        (\<exists>v. credit d u = Some v \<and> in64 (v + a))"
  shows "\<exists>d'. payment_saga_compensate rc (payment_saga_keys s u) [s] d = (Inr 1, d') \<and>
    (if st = Some (Text ''compensated'') then d' = d
     else credit_shift u a d d' \<and> other_payments_kept s d d' \<and>
       payment_saga_status d' s = Some (Some (Text ''compensated'')) \<and> hash_of d' (payment_amounts_key s) = Some [])"
proof -
  have g: "rc (GET (payment_status_key s)) d = (Inr (bulk st), d)"
    using assms(1) by (simp add: get payment_saga_status_def)
  show ?thesis
  proof (cases "st = Some (Text ''compensated'')")
    case True
    with g show ?thesis
      by (simp add: payment_saga_compensate_def payment_saga_keys_def lua_at_def bindE_Inr ret_def)
  next
    case False
    obtain l d1 where l: "rc (HGETALL (payment_amounts_key s)) d = (Inr (Arr l), d)"
        "refund_amounts rc (user_key u) l d = (Inr (), d1)" "credit_shift u a d d1" "other_payments_kept s d d1"
    proof (cases "hash_of d (payment_amounts_key s) = Some [] \<and> a = 0")
      case True
      with that [of "[]" d] show ?thesis
        by (simp add: hgetall flat_def ret_def credit_shift_refl other_payments_refl)
    next
      case False': False
      with am [OF False] obtain v where v: "hash_of d (payment_amounts_key s) = Some [(u', Text (show_int a))]"
          "in64 a" "credit d u = Some v" "in64 (v + a)" by blast
      let ?d1 = "put_fields (user_key u) [(''available_credit'', Text (show_int (v + a)))] d"
      have "act rc (HINCRBY (user_key u) ''available_credit'' a) d = (Inr (), ?d1)"
        using v by (intro hincrby_act) (simp_all add: credit_def)
      moreover have "credit_shift u a d ?d1" using v by (intro credit_shift_put)
      ultimately show ?thesis
        using v that [of "[Text u', Text (show_int a)]" ?d1]
        by (simp add: hgetall flat_def bindE_Inr ret_def other_payments_kept_def entries_put_fields)
    qed
    define d2 where "d2 = set_ttl (payment_status_key s) (Some 86400)
      (put (payment_status_key s) (RStr (Text ''compensated'')) (remove (payment_amounts_key s) d1))"
    have run: "payment_saga_compensate rc (payment_saga_keys s u) [s] d = (Inr 1, d2)"
      using False g l(1,2)
      by (simp add: payment_saga_compensate_def payment_saga_keys_def lua_at_def bindE_Inr del_act setex_act
          d2_def ret_def)
    have "credit_shift u a d d2"
      using l(3) by (subst credit_shift_other [of _ d1]) (simp_all add: d2_def)
    moreover have "other_payments_kept s d d2"
      using l(4) by (simp add: other_payments_kept_def d2_def)
    ultimately show ?thesis using run False by (simp add: d2_def payment_saga_status_def)
  qed
qed

end

end
