(* ===== verification/PaymentService.thy ===== *)
theory PaymentService
  imports Service PaymentLaws
begin

text \<open>
  \<open>payment/app.py\<close>: the command handler of the payment service, the functions it dispatches to,
  and the HTTP endpoints. It mirrors the stock service, for one user instead of a list of items.
\<close>

section \<open>Commands\<close>

definition payment_do_prepare :: "redis_client \<Rightarrow> string \<Rightarrow> string \<Rightarrow> int \<Rightarrow> int \<Rightarrow> (svc, int) py" where
  "payment_do_prepare cl saga_id user_id amount ttl =
     redis_call cl (payment_2pc_prepare (cl_rc cl) (payment_2pc_keys saga_id user_id)
       [show_int amount, saga_id, user_id, show_int ttl])"

definition payment_do_commit :: "redis_client \<Rightarrow> string \<Rightarrow> string \<Rightarrow> int \<Rightarrow> (svc, unit) py" where
  "payment_do_commit cl saga_id user_id amount =
     bindE (redis_call cl (payment_2pc_commit (cl_rc cl) (payment_2pc_keys saga_id user_id)
       [saga_id, show_int amount, user_id])) (\<lambda>_. ret ())"

definition payment_do_abort :: "redis_client \<Rightarrow> string \<Rightarrow> string \<Rightarrow> (svc, unit) py" where
  "payment_do_abort cl saga_id user_id = (if user_id = [] then ret ()
     else bindE (redis_call cl (payment_2pc_abort (cl_rc cl) (payment_2pc_keys saga_id user_id) [saga_id])) (\<lambda>_. ret ()))"

definition payment_do_execute :: "redis_client \<Rightarrow> string \<Rightarrow> string \<Rightarrow> int \<Rightarrow> (svc, int) py" where
  "payment_do_execute cl saga_id user_id amount =
     redis_call cl (payment_saga_execute (cl_rc cl) (payment_saga_keys saga_id user_id)
       [show_int amount, saga_id, user_id])"

definition payment_do_compensate :: "redis_client \<Rightarrow> string \<Rightarrow> string \<Rightarrow> (svc, unit) py" where
  "payment_do_compensate cl saga_id user_id = (if user_id = [] then ret ()
     else bindE (redis_call cl (payment_saga_compensate (cl_rc cl) (payment_saga_keys saga_id user_id) [saga_id]))
       (\<lambda>_. ret ()))"

text \<open>The amount is only converted where it is used: an abort does not look at it.\<close>

definition payment_handle_command :: "redis_client \<Rightarrow> dict \<Rightarrow> (svc, string) py" where
  "payment_handle_command cl msg =
    bindE monotonic (\<lambda>cmd_start.
    bindE (lift_sum (text_field msg ''action'' [])) (\<lambda>action.
    bindE (lift_sum (text_field msg ''saga_id'' [])) (\<lambda>saga_id.
    bindE (lift_sum (text_field msg ''user_id'' [])) (\<lambda>user_id.
    bindE (inject_at (''before_'' @ action)) (\<lambda>_.
    if action = ''prepare'' then
      bindE (lift_sum (int_field msg ''ttl'' ''30'')) (\<lambda>ttl.
      bindE (lift_sum (int_field msg ''amount'' ''0'')) (\<lambda>amount.
      bindE (payment_do_prepare cl saga_id user_id amount ttl) (\<lambda>result.
      finish_command action cmd_start (if result = 1 then ''prepared'' else ''failed''))))
    else if action = ''commit'' then
      bindE (lift_sum (int_field msg ''amount'' ''0'')) (\<lambda>amount.
      bindE (payment_do_commit cl saga_id user_id amount) (\<lambda>_. finish_command action cmd_start ''committed''))
    else if action = ''abort'' then
      bindE (payment_do_abort cl saga_id user_id) (\<lambda>_. finish_command action cmd_start ''aborted'')
    else if action = ''execute'' then
      bindE (lift_sum (int_field msg ''amount'' ''0'')) (\<lambda>amount.
      bindE (payment_do_execute cl saga_id user_id amount) (\<lambda>result.
      finish_command action cmd_start (if result = 1 then ''executed'' else ''failed'')))
    else if action = ''compensate'' then
      bindE (payment_do_compensate cl saga_id user_id) (\<lambda>_. finish_command action cmd_start ''compensated'')
    else ret ''failed'')))))"

definition payment_handle_nats :: "redis_client \<Rightarrow> dict \<Rightarrow> (svc, pyval) py" where
  "payment_handle_nats cl msg =
     nats_reply ''insufficient_credit'' (dict_get msg ''saga_id'' (Str [])) (payment_handle_command cl msg)"

definition payment_handle_message :: "('m \<Rightarrow> exn + pyval) \<Rightarrow> (pyval \<Rightarrow> exn + unit) \<Rightarrow> redis_client \<Rightarrow> 'm \<Rightarrow> (svc, pyval) py" where
  "payment_handle_message unpackb get_context cl data = bindE (lift_sum (read_message unpackb get_context data)) (payment_handle_nats cl)"

section \<open>HTTP endpoints\<close>

definition user_mapping :: "int \<Rightarrow> (string \<times> rtext) list" where
  "user_mapping money = [(''available_credit'', Text (show_int money)), (''held_credit'', Text (show_int 0))]"

definition create_user :: "redis_client \<Rightarrow> string \<Rightarrow> (svc, response) py" where
  "create_user cl key =
     bindE (or_db_error (redis_call cl (cl_rc cl (HSET (user_key key) (user_mapping 0))))) (\<lambda>_.
     ret (JSONResponse (PDict [(''user_id'', Str key)])))"

definition payment_batch_init :: "redis_client \<Rightarrow> nat \<Rightarrow> string \<Rightarrow> string \<Rightarrow> (svc, response) py" where
  "payment_batch_init cl chunk_size n_param money_param =
     bindE (lift_sum (py_int (Str n_param))) (\<lambda>n.
     bindE (lift_sum (py_int (Str money_param))) (\<lambda>starting_money.
     bindE (batch_init cl chunk_size n (\<lambda>i. [HSET (user_key (show_nat i)) (user_mapping starting_money)])) (\<lambda>_.
     ret (JSONResponse (PDict [(''msg'', Str ''Batch init for users successful'')])))))"

definition find_user :: "redis_client \<Rightarrow> string \<Rightarrow> (svc, response) py" where
  "find_user cl user_id =
     bindE (read_entry cl (user_key user_id)) (\<lambda>entry.
     if entry = [] then http_error (''User: '' @ user_id @ '' not found!'')
     else bindE (lift_sum (int_entry entry ''available_credit'')) (\<lambda>available.
       bindE (lift_sum (int_entry entry ''held_credit'')) (\<lambda>held.
       ret (JSONResponse (PDict [(''user_id'', Str user_id), (''credit'', PInt (available + held))])))))"

definition add_credit :: "redis_client \<Rightarrow> string \<Rightarrow> string \<Rightarrow> (svc, response) py" where
  "add_credit cl user_id amount_param =
     bindE (lift_sum (py_int (Str amount_param))) (\<lambda>amount.
     bindE (try_except (redis_call cl (payment_add_direct (cl_rc cl) [user_key user_id] [show_int amount]))
       (\<lambda>e. case e of
          ResponseErr m \<Rightarrow> Some (http_error (if contains ''USER_NOT_FOUND'' m
            then ''User: '' @ user_id @ '' not found!'' else DB_ERROR_STR))
        | _ \<Rightarrow> if is_redis_error e then Some (http_error DB_ERROR_STR) else None)) (\<lambda>_.
     ret (JSONResponse (PDict [(''done'', PBool True)]))))"

definition remove_credit :: "redis_client \<Rightarrow> string \<Rightarrow> string \<Rightarrow> (svc, response) py" where
  "remove_credit cl user_id amount_param =
     bindE (lift_sum (py_int (Str amount_param))) (\<lambda>amount.
     bindE (try_except (redis_call cl (payment_subtract_direct (cl_rc cl) [user_key user_id] [show_int amount]))
       (\<lambda>e. case e of
          ResponseErr m \<Rightarrow> Some (http_error (
            if contains ''USER_NOT_FOUND'' m then ''User: '' @ user_id @ '' not found!''
            else if contains ''INSUFFICIENT_CREDIT'' m then ''User: '' @ user_id @ '' credit cannot get reduced below zero!''
            else DB_ERROR_STR))
        | _ \<Rightarrow> if is_redis_error e then Some (http_error DB_ERROR_STR) else None)) (\<lambda>new_credit.
     ret (PlainTextResponse (''User: '' @ user_id @ '' credit updated to: '' @ show_int new_credit))))"

definition payment_health :: "redis_client \<Rightarrow> (svc, response) py" where
  "payment_health cl = ping_health cl"

definition payment_metrics :: "(svc, response) py" where
  "payment_metrics = metrics_endpoint ''payment''"

end
