(* ===== verification/OrderProperties.thy ===== *)
theory OrderProperties
  imports OrderService SagaRun StockService PaymentService
begin

text \<open>
  What the order service guarantees: the aggregation and the payloads of a checkout, its branches, its
  idempotency, and what a checkout as a whole sends.
\<close>

section \<open>Aggregation\<close>

definition quantity_of :: "string \<Rightarrow> (string \<times> int) list \<Rightarrow> int" where
  "quantity_of i items = sum_list (map snd (filter (\<lambda>p. fst p = i) items))"

lemma aggregate_fold:
  assumes "distinct (map fst acc)"
  shows "let r = fold (\<lambda>(item_id, quantity) d. AList.update item_id (dict_get d item_id 0 + quantity) d) items acc in
    distinct (map fst r) \<and> fst ` set r = fst ` set acc \<union> fst ` set items \<and>
    (\<forall>i. dict_get r i 0 = dict_get acc i 0 + quantity_of i items)"
  using assms
proof (induction items arbitrary: acc)
  case Nil
  then show ?case by (simp add: quantity_of_def)
next
  case (Cons p items)
  obtain i q where p: "p = (i, q)" by (cases p)
  let ?acc = "AList.update i (dict_get acc i 0 + q) acc"
  have "dict_get ?acc j 0 = (if j = i then dict_get acc i 0 + q else dict_get acc j 0)" for j by (simp add: dict_get_def)
  moreover have "quantity_of j (p # items) = (if j = i then q else 0) + quantity_of j items" for j
    by (simp add: quantity_of_def p)
  moreover have "fst ` set ?acc = insert i (fst ` set acc)" by (simp add: dom_update)
  ultimately show ?case
    using Cons.IH [OF distinct_update [OF Cons.prems]] p by (auto simp: Let_def)
qed

text \<open>The items of a checkout name every item of the order once, with the sum of its
  quantities; an empty order gives no items.\<close>

lemma aggregate_sums:
  "distinct (map fst (aggregate items)) \<and> fst ` set (aggregate items) = fst ` set items \<and>
   (\<forall>i. dict_get (aggregate items) i 0 = quantity_of i items) \<and> (aggregate items = [] \<longleftrightarrow> items = [])"
proof -
  note r = aggregate_fold [of "[]" items, simplified, folded aggregate_def, unfolded Let_def]
  then have "aggregate items = [] \<longleftrightarrow> items = []" by (metis image_is_empty set_empty Un_empty_left list.set(1))
  with r show ?thesis by (simp add: dict_get_def)
qed

section \<open>Payloads\<close>

lemma checkout_fields [simp]:
  "dict_get (checkout_context o' u items cost) ''items'' x = PList (map (\<lambda>(i, q). PList [Str i, PInt q]) items)"
  "dict_get (checkout_context o' u items cost) ''total_cost'' x = PInt cost"
  "dict_get (checkout_context o' u items cost) ''user_id'' x = u"
  "dict_get (checkout_context o' u items cost) ''_reservation_ttl'' x = x"
  by (simp_all add: checkout_context_def dict_get_def)

lemma checkout_builders: "\<forall>step\<in>set (td_steps checkout_tx). builder_ok s (checkout_context o' u items cost) step"
  by (simp add: checkout_tx_def builder_ok_def stock_payload_def payment_payload_def Let_def)

text \<open>The message of a step, as the transport sends it.\<close>

definition step_message :: "step_def \<Rightarrow> string \<Rightarrow> string \<Rightarrow> dict \<Rightarrow> exn + dict" where
  "step_message step saga_id action context =
     (case build_payload [(''saga_id'', Str saga_id)] step saga_id action context of
        Inl e \<Rightarrow> Inl e | Inr payload \<Rightarrow> Inr (dict_merge payload [(''action'', Str action)]))"

text \<open>C34 (roundtrip): The services read from the messages of a checkout what the order service put in: the
  stock service the saga, the action, the aggregated items and 300 seconds, the payment service the saga,
  the action, the user, the total and 300 seconds.\<close>

theorem checkout_message_roundtrip:
  "\<exists>sm pm. map (\<lambda>step. step_message step s action (checkout_context o' (Str u) items cost)) (td_steps checkout_tx) = [Inr sm, Inr pm] \<and>
    parse_items sm = Inr items \<and> int_field sm ''ttl'' ''30'' = Inr 300 \<and>
    text_field sm ''action'' [] = Inr action \<and> text_field sm ''saga_id'' [] = Inr s \<and>
    text_field pm ''user_id'' [] = Inr u \<and> int_field pm ''amount'' ''0'' = Inr cost \<and> int_field pm ''ttl'' ''30'' = Inr 300 \<and>
    text_field pm ''action'' [] = Inr action \<and> text_field pm ''saga_id'' [] = Inr s"
proof -
  let ?items = "PList (map (\<lambda>(i, q). PList [Str i, PInt q]) items)"
  let ?sm = "[(''saga_id'', Str s)] @ (if items \<noteq> [] then [(''items'', PStr (json_dumps ?items))] else []) @
     [(''ttl'', Str (show_int 300)), (''action'', Str action)]"
  let ?pm = "[(''saga_id'', Str s), (''user_id'', Str u), (''amount'', Str (show_int cost)), (''ttl'', Str (show_int 300)), (''action'', Str action)]"
  have msgs: "map (\<lambda>step. step_message step s action (checkout_context o' (Str u) items cost)) (td_steps checkout_tx) = [Inr ?sm, Inr ?pm]"
    by (simp add: checkout_tx_def step_message_def build_payload_def stock_payload_def payment_payload_def Let_def)
  have "parse_items ?sm = Inr items"
  proof (cases "items = []")
    case True
    then show ?thesis by (simp add: parse_items_absent)
  next
    case False
    then show ?thesis by (intro parse_items_command) (simp add: dict_get_def command_items_def)
  qed
  then show ?thesis
    by (intro exI [of _ ?sm] exI [of _ ?pm] conjI msgs) (simp_all add: int_field_def text_field_def dict_get_def)
qed

section \<open>A stored order\<close>

text \<open>The order \<open>order_id\<close> as the service writes it, with its total, its items, its user and whether it is paid.\<close>

definition stored_order :: "keyspace \<Rightarrow> string \<Rightarrow> (string \<times> int) list \<Rightarrow> int \<Rightarrow> rtext \<Rightarrow> bool \<Rightarrow> bool" where
  "stored_order d order_id items cost user paid \<longleftrightarrow>
     (\<exists>h. hash_of d (order_key order_id) = Some h \<and> distinct (map fst h) \<and>
       map_of h ''user_id'' = Some user \<and> map_of h ''total_cost'' = Some (Text (show_int cost)) \<and>
       map_of h ''paid'' = Some (Text (if paid then ''true'' else ''false''))) \<and>
     list_of d (items_key order_id) = Some (map (\<lambda>(i, q). Text (i @ '':'' @ show_int q)) items) \<and>
     (\<forall>(i, q) \<in> set items. CHR '':'' \<notin> set i)"

definition claim_free :: "keyspace \<Rightarrow> string \<Rightarrow> bool" where
  "claim_free d order_id \<longleftrightarrow> (case text_of d (idempotency_key order_id) of
     Some None \<Rightarrow> True | Some (Some v) \<Rightarrow> claimable v | None \<Rightarrow> False)"

definition claimed :: "string \<Rightarrow> string \<Rightarrow> keyspace \<Rightarrow> keyspace" where
  "claimed order_id saga_id d = set_ttl (idempotency_key order_id) (Some 300) (put (idempotency_key order_id) (RStr (claim_value saga_id)) d)"

lemma pair_up_flat: "distinct (map fst h) \<Longrightarrow> \<forall>p\<in>set h. fst p \<notin> fst ` set acc \<Longrightarrow>
    pair_up acc (map PStr (flat h)) = Inr (acc @ map (\<lambda>(f, v). (f, PStr v)) h)"
proof (induction h arbitrary: acc)
  case (Cons p h)
  obtain f v where p: "p = (f, v)" by (cases p)
  have "AList.update f (PStr v) acc = acc @ [(f, PStr v)]" using Cons.prems(2) p by (intro update_new) simp
  moreover have "pair_up (acc @ [(f, PStr v)]) (map PStr (flat h)) = Inr ((acc @ [(f, PStr v)]) @ map (\<lambda>(f, v). (f, PStr v)) h)"
    using Cons.prems p by (intro Cons.IH) auto
  ultimately show ?case by (simp add: p flat_def)
qed (simp add: flat_def)

lemma parse_stored_items: "\<forall>(i, q) \<in> set items. CHR '':'' \<notin> set i \<Longrightarrow>
    parse_raw_items (map PStr (map (\<lambda>(i, q). Text (i @ '':'' @ show_int q)) items)) = Inr items"
proof (induction items)
  case (Cons p items)
  obtain i q where p: "p = (i, q)" by (cases p)
  have "split_colon (i @ '':'' @ show_int q) = (i, Some (show_int q))"
    using Cons.prems p split_colon_append [of i "show_int q"] by simp
  with Cons p show ?case by (simp add: parse_raw_items_def split_item_def)
qed (simp add: parse_raw_items_def)

lemma map_of_pstr: "map_of (map (\<lambda>(f, v). (f, PStr v)) h) k = map_option PStr (map_of h k)"
  by (induction h) auto

text \<open>The branches of a checkout, once the claim script has answered.\<close>

definition after_claim :: "'n order_app \<Rightarrow> ('n proc, bool) py list \<Rightarrow> string \<Rightarrow> string \<Rightarrow> (string \<times> int) list \<Rightarrow> int \<Rightarrow> rtext \<Rightarrow>
    bool \<Rightarrow> bool \<Rightarrow> ('n proc, response) py" where
  "after_claim app calls order_id saga_id items cost user paid free =
     (if paid then bindE (if free then bindE (redis_call (app_cl app) (app_rc app (DEL (idempotency_key order_id)))) (\<lambda>_. ret ()) else ret ())
           (\<lambda>_. ret checkout_ok)
      else if items = [] then bindE (if free then bindE (redis_call (app_cl app) (app_rc app (SET (idempotency_key order_id)
             (json_dumps (PDict [(''status'', Str ''failed''), (''error'', Str ''no_items'')])) False (Some 60)))) (\<lambda>_. ret ()) else ret ())
           (\<lambda>_. http_error ''Order has no items'')
      else if free then run_checkout app order_id saga_id (checkout_context order_id (PStr user) (aggregate items) cost)
      else await_existing app calls order_id)"

abbreviation claim_call :: "'n order_app \<Rightarrow> string \<Rightarrow> string \<Rightarrow> ('n proc, claim_reply) py" where
  "claim_call app order_id saga_id \<equiv> redis_call (app_cl app) (order_load_and_claim (app_rc app)
     [order_key order_id, items_key order_id, idempotency_key order_id] (claim_value saga_id) ''300'')"

lemma redis_call_result:
  assumes "redis_call cl sc st = (q, st1)"
  shows "(c_db st1 = c_db st \<or> c_db st1 = snd (sc (c_db st))) \<and> (\<forall>x. q = Inr x \<longrightarrow> sc (c_db st) = (Inr x, c_db st1)) \<and>
    (\<forall>e. q = Inl e \<longrightarrow> is_redis_error e)"
  using assms
  by (auto simp: redis_call_def Let_def split: fate.splits nat.splits sum.splits prod.splits)

lemma stored_claim:
  assumes "redis_server (app_rc app)" "stored_order (c_db st) order_id items cost user paid" "text_of (c_db st) (idempotency_key order_id) \<noteq> None"
  obtains h l where "h \<noteq> []" "distinct (map fst h)" "l = map (\<lambda>(i, q). Text (i @ '':'' @ show_int q)) items"
    "order_load_and_claim (app_rc app) [order_key order_id, items_key order_id, idempotency_key order_id] (claim_value saga_id) ''300'' (c_db st) =
      (Inr \<lparr>found = 1, entry_flat_json = cjson_encode (flat h), items_json = cjson_encode l,
         acquired = (if claim_free (c_db st) order_id then 1 else 0)\<rparr>,
       if claim_free (c_db st) order_id then claimed order_id saga_id (c_db st) else c_db st)"
    "map_of h ''user_id'' = Some user" "map_of h ''total_cost'' = Some (Text (show_int cost))"
    "map_of h ''paid'' = Some (Text (if paid then ''true'' else ''false''))" "\<forall>(i, q) \<in> set items. CHR '':'' \<notin> set i"
proof -
  obtain h where h: "hash_of (c_db st) (order_key order_id) = Some h" "distinct (map fst h)" "map_of h ''user_id'' = Some user"
    "map_of h ''total_cost'' = Some (Text (show_int cost))" "map_of h ''paid'' = Some (Text (if paid then ''true'' else ''false''))"
    using assms(2) by (auto simp: stored_order_def)
  then have "h \<noteq> []" by auto
  moreover obtain t where "text_of (c_db st) (idempotency_key order_id) = Some t" using assms(3) by auto
  ultimately show ?thesis
    using h assms(2) that [OF \<open>h \<noteq> []\<close> h(2) refl _ h(3-5)]
    by (auto simp: redis_server.claim_law [OF assms(1)] stored_order_def claim_free_def claimed_def Let_def split: option.splits)
qed

lemma stored_claim_reply:
  assumes "redis_server (app_rc app)" "stored_order (c_db st) order_id items cost user paid" "text_of (c_db st) (idempotency_key order_id) \<noteq> None"
  shows "\<exists>c. order_load_and_claim (app_rc app) [order_key order_id, items_key order_id, idempotency_key order_id] (claim_value saga_id) ''300'' (c_db st) =
      (Inr c, if claim_free (c_db st) order_id then claimed order_id saga_id (c_db st) else c_db st)"
  by (rule stored_claim [OF assms, of saga_id]) (rule exI)

lemma checkout_stored:
  assumes "redis_server (app_rc app)" "stored_order (c_db st) order_id items cost user paid" "text_of (c_db st) (idempotency_key order_id) \<noteq> None"
    and "claim_call app order_id saga_id st = (q, st1)"
  shows "checkout app calls order_id saga_id st = (case q of Inl e \<Rightarrow> (Inl e, st1)
      | Inr _ \<Rightarrow> after_claim app calls order_id saga_id items cost user paid (claim_free (c_db st) order_id) st1)"
proof -
  obtain h l where s: "h \<noteq> []" "distinct (map fst h)" "l = map (\<lambda>(i, q). Text (i @ '':'' @ show_int q)) items"
    "order_load_and_claim (app_rc app) [order_key order_id, items_key order_id, idempotency_key order_id] (claim_value saga_id) ''300'' (c_db st) =
      (Inr \<lparr>found = 1, entry_flat_json = cjson_encode (flat h), items_json = cjson_encode l,
         acquired = (if claim_free (c_db st) order_id then 1 else 0)\<rparr>,
       if claim_free (c_db st) order_id then claimed order_id saga_id (c_db st) else c_db st)"
    "map_of h ''user_id'' = Some user" "map_of h ''total_cost'' = Some (Text (show_int cost))"
    "map_of h ''paid'' = Some (Text (if paid then ''true'' else ''false''))" "\<forall>(i, q) \<in> set items. CHR '':'' \<notin> set i"
    using stored_claim [OF assms(1-3)] by blast
  have flat: "flat h \<noteq> []" using s(1) by (cases h) (auto simp: flat_def)
  have entry: "json_loads (cjson_encode (flat h)) = Inr (PList (map PStr (flat h)))" using flat by (simp add: cjson_encode_def)
  have parsed: "parse_entry (PList (map PStr (flat h))) = Inr (map (\<lambda>(f, v). (f, PStr v)) h)"
    using pair_up_flat [of h "[]"] s(2) by (simp add: parse_entry_def)
  obtain v where raw: "json_loads (cjson_encode l) = Inr v" "py_iter v = Inr (map PStr l)" by (cases "l = []") (auto simp: cjson_encode_def)
  have items: "parse_raw_items (map PStr l) = Inr items" using parse_stored_items [OF s(8)] s(3) by simp
  have get: "py_item (PDict (map (\<lambda>(f, v). (f, PStr v)) h)) k = Inr (PStr t)" if "map_of h k = Some t" for k t
    using that by (simp add: py_item_def map_of_pstr)
  have agg: "aggregate items = [] \<longleftrightarrow> items = []" using aggregate_fold [of "[]" items] by (auto simp: aggregate_def Let_def)
  show ?thesis
  proof (cases q)
    case (Inl e)
    then show ?thesis using assms(4) by (simp add: checkout_def bindE_Inl)
  next
    case (Inr raw)
    then have "raw = \<lparr>found = 1, entry_flat_json = cjson_encode (flat h), items_json = cjson_encode l,
        acquired = (if claim_free (c_db st) order_id then 1 else 0)\<rparr>"
      using redis_call_result [OF assms(4)] s(4) by simp
    then show ?thesis
      using assms(4) Inr entry parsed raw items get [OF s(5)] get [OF s(6)] get [OF s(7)] agg
      by (simp add: checkout_def bindE_Inr after_claim_def)
  qed
qed

section \<open>Idempotency\<close>

lemma preserves_finally [frame]:
  assumes "preserves view m" "preserves view k"
  shows "preserves view (finally_do m k)"
proof (rule preservesI)
  fix st r st'
  assume run: "finally_do m k st = (r, st')"
  obtain q st1 where m: "m st = (q, st1)" by (cases "m st")
  obtain q2 st2 where k: "k st1 = (q2, st2)" by (cases "k st1")
  have "st' = st1 \<or> st' = st2" using run m k by (auto simp: finally_do_def split: sum.splits exn.splits)
  then show "view st' = view st" using preserves_run [OF assms(1) m] preserves_run [OF assms(2) k] by auto
qed

lemma preserves_read_result [frame]: "off_line view \<Longrightarrow> preserves view (read_result cl k)"
  by (auto simp: read_result_def intro!: frame split: reply.split)

lemma preserves_await_messages [frame]:
  "off_line view \<Longrightarrow> \<forall>c\<in>set calls. preserves view c \<Longrightarrow> preserves view (await_messages cl k calls)"
  by (induction calls) (auto intro!: frame split: option.split)

lemma preserves_wait [frame]:
  "off_line view \<Longrightarrow> \<forall>c\<in>set calls. preserves view c \<Longrightarrow> preserves view (wait_for_result cl calls s)"
  by (auto simp: wait_for_result_def Let_def intro!: frame split: option.split)

lemma preserves_existing [frame]:
  "off_line view \<Longrightarrow> \<forall>c\<in>set calls. preserves view c \<Longrightarrow> preserves view (await_existing app calls o')"
  unfolding await_existing_def http_error_def
  by (auto intro!: frame split: reply.split pyval.split rtext.split simp: Let_def)

text \<open>C20 (safety): A paid order is never charged again: a checkout of it runs no transaction, and unless the
  database fails it answers success, leaves the order as it is and leaves no claim of its own behind.\<close>

theorem paid_order_not_charged:
  assumes "redis_server (app_rc app)" and "stored_order (c_db st) order_id items cost user True"
    and "text_of (c_db st) (idempotency_key order_id) \<noteq> None" and "checkout app calls order_id saga_id st = (r, st')"
  shows "net st' = net st \<and> (r = Inr checkout_ok \<or> (\<exists>e. r = Inl e \<and> is_redis_error e)) \<and>
    (\<forall>k. k \<noteq> idempotency_key order_id \<longrightarrow> entries (c_db st') k = entries (c_db st) k) \<and>
    (r = Inr checkout_ok \<and> claim_free (c_db st) order_id \<longrightarrow> text_of (c_db st') (idempotency_key order_id) = Some None)"
proof -
  obtain q st1 where call: "claim_call app order_id saga_id st = (q, st1)" by (cases "claim_call app order_id saga_id st")
  note e = checkout_stored [OF assms(1-3) call, of calls]
  obtain c where c: "order_load_and_claim (app_rc app) [order_key order_id, items_key order_id, idempotency_key order_id] (claim_value saga_id) ''300'' (c_db st) =
      (Inr c, if claim_free (c_db st) order_id then claimed order_id saga_id (c_db st) else c_db st)"
    using stored_claim_reply [OF assms(1-3)] by blast
  have net1: "net st1 = net st" using preserves_run [OF preserves_connection(1) call, of net] by simp
  have db1: "c_db st1 = c_db st \<or> c_db st1 = (if claim_free (c_db st) order_id then claimed order_id saga_id (c_db st) else c_db st)"
    using redis_call_result [OF call] c by auto
  then have frame1: "entries (c_db st1) k = entries (c_db st) k" if "k \<noteq> idempotency_key order_id" for k
    using that by (auto simp: claimed_def)
  show ?thesis
  proof (cases q)
    case (Inl x)
    then show ?thesis using e assms(4) net1 frame1 redis_call_result [OF call] by (auto simp: checkout_ok_def)
  next
    case (Inr x)
    show ?thesis
    proof (cases "claim_free (c_db st) order_id")
      case False
      then show ?thesis using e assms(4) net1 frame1 Inr by (auto simp: after_claim_def bindE_def ret_def)
    next
      case True
      let ?del = "redis_call (app_cl app) (app_rc app (DEL (idempotency_key order_id)))"
      obtain q2 st2 where del: "?del st1 = (q2, st2)" by (cases "?del st1")
      have r: "r = (case q2 of Inl e \<Rightarrow> Inl e | Inr _ \<Rightarrow> Inr checkout_ok)" "st' = st2"
        using e assms(4) Inr True del by (auto simp: after_claim_def bindE_def ret_def split: sum.splits)
      have "net st2 = net st1" using preserves_run [OF preserves_connection(1) del, of net] by simp
      moreover have "c_db st2 = c_db st1 \<or> c_db st2 = remove (idempotency_key order_id) (c_db st1)"
        "q2 = Inr y \<Longrightarrow> c_db st2 = remove (idempotency_key order_id) (c_db st1)" for y
        using redis_call_result [OF del] by (auto simp: redis_server.del [OF assms(1)])
      ultimately show ?thesis
        using r net1 frame1 redis_call_result [OF del] by (cases q2) (auto simp: checkout_ok_def)
    qed
  qed
qed

text \<open>C19 (safety): Only the holder of the claim charges: while an earlier checkout of the order is under
  way or has succeeded, another one sends no message to the services, whatever it finds or waits for.\<close>

theorem claimed_order_not_charged:
  assumes "redis_server (app_rc app)" and "stored_order (c_db st) order_id items cost user paid"
    and "text_of (c_db st) (idempotency_key order_id) = Some (Some v)" and "\<not> claimable v"
    and "\<forall>c\<in>set calls. preserves net c" and "checkout app calls order_id saga_id st = (r, st')"
  shows "net st' = net st"
proof -
  obtain q st1 where call: "claim_call app order_id saga_id st = (q, st1)" by (cases "claim_call app order_id saga_id st")
  have "text_of (c_db st) (idempotency_key order_id) \<noteq> None" "\<not> claim_free (c_db st) order_id"
    using assms(3,4) by (simp_all add: claim_free_def)
  note e = checkout_stored [OF assms(1,2) this(1) call, of calls] this(2)
  have net1: "net st1 = net st" using preserves_run [OF preserves_connection(1) call, of net] by simp
  have "preserves net (after_claim app calls order_id saga_id items cost user paid False)"
    using assms(5) by (auto simp: after_claim_def http_error_def intro!: frame)
  note p = preserves_run [OF this]
  show ?thesis
  proof (cases q)
    case (Inl x)
    then show ?thesis using e assms(6) net1 by simp
  next
    case (Inr x)
    then have "after_claim app calls order_id saga_id items cost user paid False st1 = (r, st')" using e assms(6) by simp
    then show ?thesis using p net1 by simp
  qed
qed

section \<open>The result of a checkout\<close>

lemma claim_call_online:
  assumes "redis_server (app_rc app)" "stored_order (c_db st) order_id items cost user paid" "claim_free (c_db st) order_id" "online st"
  shows "\<exists>c. claim_call app order_id saga_id st = (Inr c, (after_trip st)\<lparr>c_db := claimed order_id saga_id (c_db st)\<rparr>)"
proof -
  have "text_of (c_db st) (idempotency_key order_id) \<noteq> None" using assms(3) by (auto simp: claim_free_def split: option.splits)
  from stored_claim_reply [OF assms(1,2) this, of saga_id] obtain c where c:
    "order_load_and_claim (app_rc app) [order_key order_id, items_key order_id, idempotency_key order_id] (claim_value saga_id) ''300'' (c_db st) =
      (Inr c, claimed order_id saga_id (c_db st))" using assms(3) by auto
  show ?thesis by (rule exI [of _ c], rule redis_call_online [OF assms(4)], rule c)
qed

text \<open>C8 (functional): On a working database, the checkout of an unpaid order with items and a free claim
  runs the transaction on the aggregated items under its claim. If the transaction succeeds, the order is
  paid, the claim says success for a day and the answer is success; if not, the order stays unpaid, the
  claim says failed for a minute with the reason, and the answer is an error with the reason.\<close>

theorem checkout_result:
  assumes "redis_server (app_rc app)" and "stored_order (c_db st) order_id items cost user False" and "items \<noteq> []"
    and "claim_free (c_db st) order_id" and "online st"
    and "execute (app_cl app) (app_tr app) (app_orch app) ''checkout''
        (checkout_context order_id (PStr user) (aggregate items) cost) saga_id
        ((after_trip st)\<lparr>c_db := claimed order_id saga_id (c_db st)\<rparr>) = (Inr x, st1)"
    and "online st1" and "hash_of (c_db st1) (order_key order_id) = Some h" and "checkout app calls order_id saga_id st = (r, st')"
  shows "if result_get x ''status'' PNone = Str ''success''
    then r = Inr checkout_ok \<and> field (c_db st') (order_key order_id) ''paid'' = Some (Text ''true'') \<and>
      text_of (c_db st') (idempotency_key order_id) = Some (Some (success_value saga_id)) \<and>
      expires (c_db st') (idempotency_key order_id) = Some 86400
    else let err = result_get x ''error'' (Str ''unknown'') in
      r = Inl (HttpErr 400 (''Checkout failed: '' @ app_str app err)) \<and>
      field (c_db st') (order_key order_id) = field (c_db st1) (order_key order_id) \<and>
      text_of (c_db st') (idempotency_key order_id) = Some (Some (failed_value err saga_id)) \<and>
      expires (c_db st') (idempotency_key order_id) = Some 60"
proof -
  obtain c where call: "claim_call app order_id saga_id st = (Inr c, (after_trip st)\<lparr>c_db := claimed order_id saga_id (c_db st)\<rparr>)"
    using claim_call_online [OF assms(1,2,4,5)] by blast
  have "text_of (c_db st) (idempotency_key order_id) \<noteq> None" using assms(4) by (auto simp: claim_free_def split: option.splits)
  note run = checkout_stored [OF assms(1,2) this call, of calls]
  let ?idem = "idempotency_key order_id" and ?err = "result_get x ''error'' (Str ''unknown'')"
  have d: "hash_of (set_ttl ?idem t (put ?idem v (c_db st1))) (order_key order_id) = Some h" for t v using assms(8) by simp
  show ?thesis
  proof (cases "result_get x ''status'' PNone = Str ''success''")
    case True
    let ?cs = "[SET ?idem (success_value saga_id) False (Some 86400), HSET (order_key order_id) [(''paid'', Text ''true'')]]"
    let ?d = "put_fields (order_key order_id) [(''paid'', Text ''true'')] (set_ttl ?idem (Some 86400) (put ?idem (RStr (success_value saga_id)) (c_db st1)))"
    obtain rs where "run_cmds (app_rc app) ?cs (c_db st1) = (map Inr rs, ?d)"
    proof -
      have "app_rc app (SET ?idem (success_value saga_id) False (Some 86400)) (c_db st1) =
          (Inr Status, set_ttl ?idem (Some 86400) (put ?idem (RStr (success_value saga_id)) (c_db st1)))"
        by (rule redis_server.set_ex [OF assms(1)]) simp
      moreover obtain n where "app_rc app (HSET (order_key order_id) [(''paid'', Text ''true'')])
          (set_ttl ?idem (Some 86400) (put ?idem (RStr (success_value saga_id)) (c_db st1))) = (Inr (Num n), ?d)"
        using redis_server.hset [OF assms(1), of "[(''paid'', Text ''true'')]" "order_key order_id"] d by fastforce
      ultimately show thesis using that [of "[Status, Num n]"] by simp
    qed
    moreover have "first_error (map Inr rs) = Inr rs" by (induction rs) simp_all
    ultimately have "pipeline (app_cl app) True ?cs st1 = (Inr rs, (after_trip st1)\<lparr>c_db := ?d\<rparr>)"
      by (rule pipeline_online [OF assms(7)])
    then have "r = Inr checkout_ok" "c_db st' = ?d"
      using run assms(3,4,6,9) True by (simp_all add: after_claim_def run_checkout_def bindE_def ret_def)
    moreover have "text_of ?d ?idem = Some (Some (success_value saga_id))" by simp
    moreover have "field ?d (order_key order_id) ''paid'' = Some (Text ''true'')" using d by simp
    moreover have "expires ?d ?idem = Some 86400" by (simp add: put_fields_def)
    ultimately show ?thesis using True by simp
  next
    case False
    let ?d = "set_ttl ?idem (Some 60) (put ?idem (RStr (failed_value ?err saga_id)) (c_db st1))"
    have "app_rc app (SET ?idem (failed_value ?err saga_id) False (Some 60)) (c_db st1) = (Inr Status, ?d)"
      by (rule redis_server.set_ex [OF assms(1)]) simp
    note set = redis_call_online [where sc = "app_rc app (SET ?idem (failed_value ?err saga_id) False (Some 60))", OF assms(7) this]
    have "r = Inl (HttpErr 400 (''Checkout failed: '' @ app_str app ?err))" "c_db st' = ?d"
      using run assms(3,4,6,9) False set
      by (simp_all add: after_claim_def run_checkout_def bindE_def ret_def http_error_def throw_def Let_def)
    then show ?thesis using False by (simp add: Let_def fun_eq_iff)
  qed
qed

end
