(* ===== verification/Checkout.thy ===== *)
theory Checkout
  imports OrderProperties
begin

text \<open>
  A checkout as a whole: what it sends to the services, in which order, and what its answer means,
  from the claim over the choice of protocol to the executor, for every behaviour of the network, of
  the services and of the order database.
\<close>

section \<open>The log under other keys\<close>

lemma wal_other_key:
  assumes "wal_inv d" "k \<notin> {STREAM_KEY, DLQ_STREAM, ACTIVE_SET}" "\<And>s. k \<noteq> saga_state_key s"
    and "\<And>k'. k' \<noteq> k \<Longrightarrow> entries d' k' = entries d k'"
  shows "wal_inv d'" "wal_map d' = wal_map d"
proof -
  have e: "entries d' (saga_state_key s) = entries d (saga_state_key s)" "entries d' ACTIVE_SET = entries d ACTIVE_SET"
    "entries d' STREAM_KEY = entries d STREAM_KEY" "entries d' DLQ_STREAM = entries d DLQ_STREAM" for s
    using assms(2) assms(3) [of s] assms(4) [of "saga_state_key s"] assms(4) [of ACTIVE_SET] assms(4) [of STREAM_KEY]
      assms(4) [of DLQ_STREAM] by auto
  then have s: "set_of d' ACTIVE_SET = set_of d ACTIVE_SET" by (auto intro: view_cong)
  note c = wal_map_cong [of d' d, OF e(1) s]
  show "wal_map d' = wal_map d" by (rule c)
  have h: "hash_of d' (saga_state_key t) = hash_of d (saga_state_key t)" for t by (rule view_cong, rule e)
  have "stream_of d' STREAM_KEY = stream_of d STREAM_KEY" "stream_of d' DLQ_STREAM = stream_of d DLQ_STREAM"
    by (rule view_cong, rule e)+
  then have "wal_typed d'" using assms(1) e(2) by (simp add: wal_inv_def wal_typed_def h)
  then show "wal_inv d'" using assms(1) c by (simp add: wal_inv_def)
qed

lemma idempotency_other: "idempotency_key o' \<notin> {STREAM_KEY, DLQ_STREAM, ACTIVE_SET}" "idempotency_key o' \<noteq> saga_state_key s"
  by (simp_all add: idempotency_key_def STREAM_KEY_def DLQ_STREAM_def ACTIVE_SET_def saga_state_key_def)

section \<open>What a checkout sends\<close>

text \<open>A legal history of the messages of one transaction, by either protocol.\<close>

definition charge_history :: "dict \<Rightarrow> step_def list \<Rightarrow> obs list \<Rightarrow> bool" where
  "charge_history ctx steps es \<longleftrightarrow> (\<exists>w. tpc_history (tpc_data ctx ''checkout'') steps es w) \<or>
     (\<exists>w. saga_history ctx ''checkout'' steps es w)"

text \<open>Everybody prepared and was told to commit, or everybody executed.\<close>

definition charged :: "dict \<Rightarrow> step_def list \<Rightarrow> obs list \<Rightarrow> bool" where
  "charged ctx steps es \<longleftrightarrow>
     (\<exists>ps qs. es = ps @ qs \<and> commit_history (tpc_data ctx ''checkout'') steps ps qs \<and>
        settled ''committed'' MAX_VERIFIED_RETRIES steps qs) \<or>
     to_all ''execute'' (Some (''EXECUTING'', saga_data ctx ''checkout'')) steps es \<and> list_all (said ''executed'') es"

lemma result_status: "is_status y \<Longrightarrow> result_get y ''status'' PNone = Str ''success'' \<longleftrightarrow> y = status_success"
  by (auto simp: is_status_def result_get_def status_success_def status_failed_def dict_get_def)

lemma executor_history:
  assumes "redis_server (cl_rc cl)" "\<forall>step\<in>set (td_steps tx). builder_ok s ctx step"
    and "wal_inv (c_db st)" "wal_map (c_db st) s = None" "net st = []"
    and "(if p = ''2pc'' then two_pc_execute cl (recording s env) tx s ctx ''checkout''
      else saga_execute cl (recording s env) tx s ctx ''checkout'') st = (q, st')"
  shows "charge_history ctx (td_steps tx) (net st') \<and> (q = Inr status_success \<longrightarrow> charged ctx (td_steps tx) (net st'))"
proof (cases "p = ''2pc''")
  case True
  then have run: "two_pc_execute cl (recording s env) tx s ctx ''checkout'' st = (q, st')" using assms(6) by simp
  from two_pc_run [OF assms(1-5) run] have "charge_history ctx (td_steps tx) (net st')"
    "q = Inr status_success \<longrightarrow> tpc_outcome (tpc_data ctx ''checkout'') (td_steps tx) (net st') status_success"
    by (auto simp: charge_history_def)
  then show ?thesis by (auto simp: tpc_outcome_def tpc_voted_def charged_def status_success_def status_failed_def)
next
  case False
  then have run: "saga_execute cl (recording s env) tx s ctx ''checkout'' st = (q, st')" using assms(6) by simp
  have "charge_history ctx (td_steps tx) (net st')" using saga_run [OF assms(1-5) run] by (auto simp: charge_history_def)
  moreover have "charged ctx (td_steps tx) (net st')" if q: "q = Inr status_success"
    using saga_run_outcome [OF assms(1-5) run [unfolded q]]
    by (auto simp: saga_outcome_def saga_voted_def charged_def status_success_def status_failed_def Let_def)
  ultimately show ?thesis by blast
qed

lemma execute_history:
  assumes "redis_server (cl_rc cl)" "map_of (definitions orch) ''checkout'' = Some tx"
    and "\<forall>step\<in>set (td_steps tx). builder_ok s ctx step"
    and "wal_inv (c_db st)" "wal_map (c_db st) s = None" "net st = []"
    and "execute cl (recording s env) orch ''checkout'' ctx s st = (r, st')"
  shows "charge_history ctx (td_steps tx) (net st') \<and>
    (\<forall>x. r = Inr x \<longrightarrow> result_get x ''status'' PNone = Str ''success'' \<longrightarrow> charged ctx (td_steps tx) (net st'))"
proof -
  have pres: "preserves view (select_protocol orch)" if "off_breakers view" "\<And>st f. view (st\<lparr>collector := f\<rparr>) = view st"
    for view :: "obs list proc \<Rightarrow> 'v"
    using that unfolding select_protocol_def set_protocol_def by (auto intro!: frame preserves_modify simp: Let_def)
  obtain q1 st1 where sel: "select_protocol orch st = (q1, st1)" by (cases "select_protocol orch st")
  have st1: "c_db st1 = c_db st" "net st1 = net st"
    using preserves_run [OF pres [of c_db] sel] preserves_run [OF pres [of net] sel] by (simp_all add: off_breakers_def)
  show ?thesis
  proof (cases q1)
    case (Inl e)
    then have "r = Inl e" "st' = st1" using assms(2,7) sel by (simp_all add: execute_def execute_inner_def bindE_def)
    then show ?thesis using st1 assms(6) by (auto simp: charge_history_def tpc_history_def)
  next
    case (Inr p)
    let ?st2 = "st1\<lparr>collector := (collector st1)\<lparr>current_protocol := p\<rparr>\<rparr>"
    let ?run = "if p = ''2pc'' then two_pc_execute cl (recording s env) tx s ctx ''checkout''
      else saga_execute cl (recording s env) tx s ctx ''checkout''"
    obtain q st3 where run: "?run ?st2 = (q, st3)" by (cases "?run ?st2")
    have h: "charge_history ctx (td_steps tx) (net st3) \<and> (q = Inr status_success \<longrightarrow> charged ctx (td_steps tx) (net st3))"
      by (rule executor_history [OF assms(1,3) _ _ _ run]) (use st1 assms(4-6) in simp_all)
    note e = execute_inner_run [OF sel [unfolded Inr] run]
    show ?thesis
    proof (cases q)
      case (Inl x)
      then have "st' = st3" "r = Inl x" using e assms(2,7) by (simp_all add: execute_def)
      then show ?thesis using h by simp
    next
      case (Inr y)
      have "returns is_status ?run" by (simp add: executors_status)
      from returnsD [OF this run [unfolded Inr]] have y: "is_status y" .
      have r: "st' = finish_run cl s p (c_clock st1) y st3" "r = Inr (result_set (result_set y ''saga_id'' (Str s)) ''protocol'' (Str p))"
        using e assms(2,7) Inr by (simp_all add: execute_def)
      then have "net st' = net st3" by (simp add: finish_run_fields)
      then show ?thesis using h r(2) Inr result_status [OF y] status_fields(3) [OF y] by auto
    qed
  qed
qed

lemma checkout_sent:
  assumes "redis_server (app_rc app)" and "app_tr app = recording saga_id env"
    and "map_of (definitions (app_orch app)) ''checkout'' = Some checkout_tx"
    and "stored_order (c_db st) order_id items cost user paid" and "text_of (c_db st) (idempotency_key order_id) \<noteq> None"
    and "wal_inv (c_db st)" and "wal_map (c_db st) saga_id = None" and "net st = []" and "\<forall>c\<in>set calls. preserves net c"
    and "checkout app calls order_id saga_id st = (r, st')"
  shows "net st' = [] \<or>
    (let ctx = checkout_context order_id (PStr user) (aggregate items) cost; steps = td_steps checkout_tx in
     charge_history ctx steps (net st') \<and> (\<forall>resp. r = Inr resp \<longrightarrow> charged ctx steps (net st')))"
proof -
  obtain q st1 where call: "claim_call app order_id saga_id st = (q, st1)" by (cases "claim_call app order_id saga_id st")
  note e = checkout_stored [OF assms(1,4,5) call, of calls]
  have net1: "net st1 = []" using preserves_run [OF preserves_connection(1) call, of net] assms(8) by simp
  have "c_db st1 = c_db st \<or> c_db st1 = claimed order_id saga_id (c_db st)"
    using redis_call_result [OF call] stored_claim_reply [OF assms(1,4,5), of saga_id] by (auto split: if_splits)
  then have same: "\<And>k. k \<noteq> idempotency_key order_id \<Longrightarrow> entries (c_db st1) k = entries (c_db st) k"
    by (auto simp: claimed_def)
  have wal1: "wal_inv (c_db st1)" "wal_map (c_db st1) saga_id = None"
    using wal_other_key [where d' = "c_db st1", OF assms(6) idempotency_other same] assms(7) by simp_all
  let ?free = "claim_free (c_db st) order_id"
  let ?after = "after_claim app calls order_id saga_id items cost user paid ?free"
  show ?thesis
  proof (cases q)
    case (Inl x)
    then show ?thesis using e assms(10) net1 by simp
  next
    case (Inr c)
    then have run: "?after st1 = (r, st')" using e assms(10) by simp
    show ?thesis
    proof (cases "\<not> paid \<and> items \<noteq> [] \<and> ?free")
      case False
      then have "preserves net ?after" using assms(9) by (auto simp: after_claim_def http_error_def intro!: frame)
      from preserves_run [OF this run] show ?thesis using net1 by simp
    next
      case True
      let ?ctx = "checkout_context order_id (PStr user) (aggregate items) cost"
      let ?exec = "execute (app_cl app) (recording saga_id env) (app_orch app) ''checkout'' ?ctx saga_id"
      obtain q2 st2 where ex: "?exec st1 = (q2, st2)" by (cases "?exec st1")
      have h: "charge_history ?ctx (td_steps checkout_tx) (net st2) \<and>
          (\<forall>x. q2 = Inr x \<longrightarrow> result_get x ''status'' PNone = Str ''success'' \<longrightarrow> charged ?ctx (td_steps checkout_tx) (net st2))"
        by (rule execute_history [OF assms(1,3) checkout_builders wal1 net1 ex])
      show ?thesis
      proof (cases q2)
        case (Inl x)
        then have "r = Inl x" "st' = st2" using run True ex assms(2) by (simp_all add: after_claim_def run_checkout_def bindE_def)
        then show ?thesis using h by (simp add: Let_def)
      next
        case (Inr x)
        let ?rest = "if result_get x ''status'' PNone = Str ''success'' then
            bindE (pipeline (app_cl app) True [SET (idempotency_key order_id) (success_value saga_id) False (Some 86400),
              HSET (order_key order_id) [(''paid'', Text ''true'')]]) (\<lambda>_. ret checkout_ok)
          else let err = result_get x ''error'' (Str ''unknown'') in
            bindE (redis_call (app_cl app) (app_rc app (SET (idempotency_key order_id) (failed_value err saga_id) False (Some 60)))) (\<lambda>_.
            http_error (''Checkout failed: '' @ app_str app err))"
        have rest: "?rest st2 = (r, st')" using run True ex assms(2) Inr by (simp add: after_claim_def run_checkout_def bindE_def)
        have "preserves (net :: obs list proc \<Rightarrow> obs list) ?rest" by (auto simp: http_error_def Let_def intro!: frame)
        from preserves_run [OF this rest] have n: "net st' = net st2" .
        have "\<not> isl r \<longrightarrow> result_get x ''status'' PNone = Str ''success''"
          using rest by (auto simp: bindE_def http_error_def throw_def Let_def split: if_splits prod.splits sum.splits)
        then show ?thesis using h n Inr by (auto simp: Let_def)
      qed
    qed
  qed
qed

text \<open>C4 (safety): A whole checkout, from the claim to the answer. For every behaviour of the network, of the
  services and of the order database, either it sends nothing, or its messages are a legal history of the
  transaction on the aggregated items, the user and the total of the order. If it sent something and answers
  success, every service prepared and was told to commit until it agreed or the retries ran out, or every
  service executed.\<close>

theorem checkout_history:
  assumes "redis_server (app_rc app)" and "app_tr app = recording saga_id env"
    and "map_of (definitions (app_orch app)) ''checkout'' = Some checkout_tx"
    and "stored_order (c_db st) order_id items cost user paid" and "text_of (c_db st) (idempotency_key order_id) \<noteq> None"
    and "wal_inv (c_db st)" and "wal_map (c_db st) saga_id = None" and "net st = []" and "\<forall>c\<in>set calls. preserves net c"
    and "checkout app calls order_id saga_id st = (r, st')"
  shows "net st' = [] \<or>
    (let ctx = checkout_context order_id (PStr user) (aggregate items) cost; steps = td_steps checkout_tx in
     charge_history ctx steps (net st') \<and> (\<forall>resp. r = Inr resp \<longrightarrow> charged ctx steps (net st')))"
  by (rule checkout_sent [OF assms])

section \<open>Results across instances\<close>

abbreviation result_key :: "string \<Rightarrow> string" where
  "result_key saga_id \<equiv> ''saga-result:'' @ saga_id"

lemma publish_online:
  assumes "redis_server (cl_rc cl)" "online st"
  shows "publish_result cl s x st =
    (Inr (), (after_trip st)\<lparr>c_db := set_ttl (result_key s) (Some 60) (put (result_key s) (RStr (json_dumps x)) (c_db st))\<rparr>)"
proof -
  let ?k = "result_key s"
  let ?d = "set_ttl ?k (Some 60) (put ?k (RStr (json_dumps x)) (c_db st))"
  have set: "cl_rc cl (SET ?k (json_dumps x) False (Some 60)) (c_db st) = (Inr Status, ?d)"
    by (rule redis_server.set_ex [OF assms(1)]) simp
  obtain n where pub: "cl_rc cl (PUBLISH (''saga-notify:'' @ s) (Text ''done'')) ?d = (Inr (Num n), ?d)"
    using redis_server.publish [OF assms(1)] by blast
  have "run_cmds (cl_rc cl) [SET ?k (json_dumps x) False (Some 60), PUBLISH (''saga-notify:'' @ s) (Text ''done'')] (c_db st) =
      ([Inr Status, Inr (Num n)], ?d)" using set pub by simp
  from pipeline_online [OF assms(2) this, of "[Status, Num n]" False]
  show ?thesis by (simp add: publish_result_def bindE_def ret_def)
qed

text \<open>A checkout that starts to wait after the result was published finds it by its first read.\<close>

lemma published_result_found:
  assumes "redis_server (cl_rc cl)" and "online st" and "publish_result cl saga_id x st = (Inr (), st1)" and "online st1"
  shows "\<exists>st2. wait_for_result cl calls saga_id st1 = (Inr x, st2) \<and> c_db st2 = c_db st1"
proof -
  let ?k = "result_key saga_id"
  have st1: "c_db st1 = set_ttl ?k (Some 60) (put ?k (RStr (json_dumps x)) (c_db st))"
    using assms(3) publish_online [OF assms(1,2), of saga_id x] by auto
  have "cl_rc cl (GET ?k) (c_db st1) = (Inr (Bulk (json_dumps x)), c_db st1)"
    using redis_server.get [OF assms(1), of ?k "c_db st1"] st1 by (simp add: bulk_def)
  note read = redis_call_online [where sc = "cl_rc cl (GET ?k)", OF assms(4) this]
  have "truthy (PStr (json_dumps x))" by (cases x) (simp_all add: show_int_def)
  then have "read_result cl ?k st1 = (Inr (Some x), (after_trip st1)\<lparr>c_db := c_db st1\<rparr>)"
    using read by (simp add: read_result_def bindE_def ret_def lift_sum_def)
  then show ?thesis by (simp add: wait_for_result_def Let_def bindE_def ret_def)
qed

section \<open>Creating and finding orders\<close>

text \<open>A created order is found as it was created: unpaid, without items, of the given user,
  with total 0.\<close>

lemma created_order_found:
  assumes "redis_server (app_rc app)" and "online st" and "entries (c_db st) (order_key key) = None"
    and "entries (c_db st) (items_key key) = None" and "CHR '':'' \<notin> set key"
  shows "\<exists>st1 st2. create_order app key user_id st = (Inr (JSONResponse (PDict [(''order_id'', Str key)])), st1) \<and>
    find_order app key st1 = (Inr (JSONResponse (PDict [(''order_id'', Str key), (''paid'', PBool False), (''items'', PList []),
      (''user_id'', Str user_id), (''total_cost'', PInt 0)])), st2)"
proof -
  let ?m = "order_mapping user_id 0"
  let ?d = "put_fields (order_key key) ?m (c_db st)"
  have h: "hash_of (c_db st) (order_key key) = Some []" using assms(3) by (simp add: hash_of_def)
  obtain n where "app_rc app (HSET (order_key key) ?m) (c_db st) = (Inr (Num n), ?d)"
    using redis_server.hset [OF assms(1), of ?m] h by (simp add: order_mapping_def)
  note redis_call_online [where sc = "app_rc app (HSET (order_key key) ?m)" and cl = "app_cl app", OF assms(2) this]
  then have create: "create_order app key user_id st = (Inr (JSONResponse (PDict [(''order_id'', Str key)])), (after_trip st)\<lparr>c_db := ?d\<rparr>)"
    by (simp add: create_order_def or_db_error_def try_except_def bindE_def ret_def)
  let ?st1 = "(after_trip st)\<lparr>c_db := ?d\<rparr>"
  have merge: "dict_merge [] ?m = ?m" by (simp add: order_mapping_def)
  have r1: "app_rc app (HGETALL (order_key key)) ?d = (Inr (Arr (flat ?m)), ?d)"
    using h merge by (simp add: redis_server.hgetall [OF assms(1)])
  have "list_of ?d (items_key key) = Some []" using assms(4,5) by (simp add: list_of_def entries_put_fields)
  then have r2: "app_rc app (LRANGE_ALL (items_key key)) ?d = (Inr (Arr []), ?d)"
    by (simp add: redis_server.lrange_all [OF assms(1)])
  have "run_cmds (app_rc app) (order_reads key) (c_db ?st1) = ([Inr (Arr (flat ?m)), Inr (Arr [])], ?d)"
    using r1 r2 by (simp add: order_reads_def)
  from pipeline_online [where cl = "app_cl app", OF _ this, of "[Arr (flat ?m), Arr []]" False]
  have p: "pipeline (app_cl app) False (order_reads key) ?st1 = (Inr [Arr (flat ?m), Arr []], (after_trip ?st1)\<lparr>c_db := ?d\<rparr>)"
    using assms(2) by simp
  have "\<exists>st2. find_order app key ?st1 = (Inr (JSONResponse (PDict [(''order_id'', Str key), (''paid'', PBool False), (''items'', PList []),
      (''user_id'', Str user_id), (''total_cost'', PInt 0)])), st2)"
    using p by (simp add: find_order_def try_except_def bindE_def order_replies_def arr_of_def order_mapping_def
        lift_sum_def entry_text_def int_entry_def ret_def)
  with create show ?thesis by blast
qed

section \<open>Witnesses\<close>

definition shop_app :: "obs list order_app" where
  "shop_app = \<lparr>app_cl = mem_client, app_tr = recording ''s'' obliging, app_orch = new_orchestrator [checkout_tx] ''2pc'',
     app_str = (\<lambda>_. ''reason'')\<rparr>"

text \<open>Order 7: two pieces of item 3, user 1, 10 to pay.\<close>

definition order7 :: "string \<Rightarrow> keyspace" where
  "order7 paid = put (items_key ''7'') (RList [Text (''3:'' @ show_int 2)]) (put (order_key ''7'') (RHash [(''user_id'', Text ''1''),
     (''paid'', Text paid), (''total_cost'', Text (show_int 10))]) empty_keyspace)"

definition shop_proc :: "keyspace \<Rightarrow> obs list proc" where
  "shop_proc d = (fresh_proc [])\<lparr>c_db := d\<rparr>"

lemma order7_stored:
  "stored_order (order7 ''true'') ''7'' [(''3'', 2)] 10 (Text ''1'') True"
  "stored_order (order7 ''false'') ''7'' [(''3'', 2)] 10 (Text ''1'') False"
proof -
  show "stored_order (order7 ''true'') ''7'' [(''3'', 2)] 10 (Text ''1'') True"
    "stored_order (order7 ''false'') ''7'' [(''3'', 2)] 10 (Text ''1'') False"
    by (simp_all add: order7_def stored_order_def list_of_def)
qed

lemma order7_facts:
  "redis_server (app_rc shop_app)" "text_of (order7 paid) (idempotency_key ''7'') = Some None"
  "claim_free (order7 paid) ''7''" "online (shop_proc d)" "net (shop_proc d) = []" "c_db (shop_proc d) = d"
  "app_tr shop_app = recording ''s'' obliging" "map_of (definitions (app_orch shop_app)) ''checkout'' = Some checkout_tx"
  by (simp_all add: shop_app_def mem_client_server order7_def text_of_def claim_free_def shop_proc_def online_def fresh_proc_def
      empty_keyspace_def order_key_def items_key_def idempotency_key_def new_orchestrator_def checkout_tx_def)

lemma order7_wal: "wal_inv (order7 paid)" "wal_map (order7 paid) s = None"
proof -
  have k: "order_key ''7'' \<notin> {STREAM_KEY, DLQ_STREAM, ACTIVE_SET}" "\<And>s. order_key ''7'' \<noteq> saga_state_key s"
    "items_key ''7'' \<notin> {STREAM_KEY, DLQ_STREAM, ACTIVE_SET}" "\<And>s. items_key ''7'' \<noteq> saga_state_key s"
    by (simp_all add: order_key_def items_key_def STREAM_KEY_def DLQ_STREAM_def ACTIVE_SET_def saga_state_key_def)
  have e: "wal_inv empty_keyspace" "wal_map empty_keyspace s = None"
    using fresh_wal [of "[] :: obs list"] by (simp_all add: fresh_proc_def)
  let ?d = "put (order_key ''7'') (RHash [(''user_id'', Text ''1''), (''paid'', Text paid), (''total_cost'', Text (show_int 10))]) empty_keyspace"
  note one = wal_other_key [where d' = ?d, OF e(1) k(1,2)]
  have "wal_inv ?d" "wal_map ?d = wal_map empty_keyspace" by (rule one; simp)+
  note two = wal_other_key [where d' = "order7 paid", OF this(1) k(3,4)] this
  show "wal_inv (order7 paid)" by (rule two) (simp add: order7_def)
  have "wal_map (order7 paid) = wal_map ?d" by (rule two) (simp add: order7_def)
  then show "wal_map (order7 paid) s = None" using two(4) e(2) by simp
qed

theorem paid_order_not_charged_witness:
  "\<exists>r st'. checkout shop_app [] ''7'' ''s'' (shop_proc (order7 ''true'')) = (r, st') \<and> net st' = []"
proof -
  obtain r st' where run: "checkout shop_app [] ''7'' ''s'' (shop_proc (order7 ''true'')) = (r, st')"
    by (cases "checkout shop_app [] ''7'' ''s'' (shop_proc (order7 ''true''))")
  show ?thesis
    using paid_order_not_charged [OF order7_facts(1) _ _ run, of "[(''3'', 2)]" 10 "Text ''1''"] run
    by (auto simp: order7_facts order7_stored)
qed

theorem claimed_order_not_charged_witness:
  "\<exists>r st'. checkout shop_app [] ''7'' ''t'' (shop_proc (claimed ''7'' ''s'' (order7 ''false''))) = (r, st') \<and> net st' = []"
proof -
  let ?st = "shop_proc (claimed ''7'' ''s'' (order7 ''false''))"
  obtain r st' where run: "checkout shop_app [] ''7'' ''t'' ?st = (r, st')" by (cases "checkout shop_app [] ''7'' ''t'' ?st")
  have "hash_of (claimed ''7'' ''s'' d) (order_key ''7'') = hash_of d (order_key ''7'')"
    "list_of (claimed ''7'' ''s'' d) (items_key ''7'') = list_of d (items_key ''7'')" for d
    by (rule view_cong, simp add: claimed_def)+
  then have "stored_order (c_db ?st) ''7'' [(''3'', 2)] 10 (Text ''1'') False"
    using order7_stored(2) by (simp add: order7_facts(6) stored_order_def)
  moreover have "text_of (c_db ?st) (idempotency_key ''7'') = Some (Some (claim_value ''s''))"
    by (simp add: order7_facts(6) claimed_def)
  ultimately show ?thesis
    using claimed_order_not_charged [OF order7_facts(1) _ _ claim_value_busy _ run] run by (auto simp: order7_facts)
qed

theorem checkout_history_witness:
  "\<exists>r st'. checkout shop_app [] ''7'' ''s'' (shop_proc (order7 ''false'')) = (r, st') \<and>
     (net st' = [] \<or> charge_history (checkout_context ''7'' (Str ''1'') (aggregate [(''3'', 2)]) 10) (td_steps checkout_tx) (net st'))"
proof -
  obtain r st' where run: "checkout shop_app [] ''7'' ''s'' (shop_proc (order7 ''false'')) = (r, st')"
    by (cases "checkout shop_app [] ''7'' ''s'' (shop_proc (order7 ''false''))")
  show ?thesis
    using checkout_history [OF order7_facts(1,7,8) _ _ _ _ order7_facts(5) _ run, of "[(''3'', 2)]" 10 "Text ''1''" False] run
    by (auto simp: order7_facts order7_stored order7_wal Let_def)
qed

text \<open>The stock service is down: its breaker refuses, the transaction fails before it sends anything.\<close>

definition down_proc :: "obs list proc" where
  "down_proc = (shop_proc (order7 ''false''))\<lparr>circuit_breakers := [(''stock'', fail_all [0, 0, 0, 0, 0] (new_breaker 5 30))]\<rparr>"

lemma down_execute:
  assumes "online st" "circuit_breakers st = circuit_breakers down_proc" "c_clock st = 0" "wal_inv (c_db st)"
  shows "\<exists>x st1. execute mem_client (recording ''s'' obliging) (app_orch shop_app) ''checkout'' ctx ''s'' st = (Inr x, st1) \<and>
    result_get x ''status'' PNone \<noteq> Str ''success'' \<and> online st1 \<and>
    entries (c_db st1) (order_key o') = entries (c_db st) (order_key o')"
proof -
  let ?st = "st\<lparr>collector := (collector st)\<lparr>current_protocol := ''2pc''\<rparr>\<rparr>" and ?err = "status_failed (Str ''service_stock_unavailable'')"
  have sel: "select_protocol (app_orch shop_app) st = (Inr ''2pc'', st)"
    by (simp add: select_protocol_def ret_def shop_app_def new_orchestrator_def)
  have "check_circuit_breakers (td_steps checkout_tx) ?st = (Inr (Some ''service_stock_unavailable''), ?st)"
    using assms(2,3) by (simp add: breaker_is_open_def bindE_def ret_def down_proc_def fail_all_def record_failure_def new_breaker_def
        is_open_def Let_def set_breaker_def checkout_tx_def)
  moreover have "wal_typed (c_db ?st)" "online ?st" using assms(1,4) by (simp_all add: wal_inv_def online_def)
  then obtain st2 where st2: "wal_log_terminal mem_client ''s'' ''FAILED'' None ?st = (Inr (), st2)" "online st2"
      "wal_frame ''s'' (c_db ?st) (c_db st2)"
    using wal_log_finish [OF mem_client_server, of ?st "''FAILED''" wal_log_terminal "''s''" None] by (auto simp: TERMINAL_STATES_def)
  ultimately have run: "two_pc_execute mem_client (recording ''s'' obliging) checkout_tx ''s'' ctx ''checkout'' ?st = (Inr ?err, st2)"
    by (simp add: two_pc_execute_def bindE_def ret_def)
  let ?x = "result_set (result_set ?err ''saga_id'' (Str ''s'')) ''protocol'' (Str ''2pc'')"
  have "execute mem_client (recording ''s'' obliging) (app_orch shop_app) ''checkout'' ctx ''s'' st =
      (Inr ?x, finish_run mem_client ''s'' ''2pc'' (c_clock st) ?err st2)"
    using execute_inner_run [OF sel, of mem_client "recording ''s'' obliging" checkout_tx "''s''" ctx "''checkout''"] run order7_facts(8)
    by (simp add: execute_def)
  moreover have on: "online (st2\<lparr>collector := f\<rparr>)" for f using st2(2) by (simp add: online_def)
  have "online (finish_run mem_client ''s'' ''2pc'' (c_clock st) ?err st2)"
    "entries (c_db (finish_run mem_client ''s'' ''2pc'' (c_clock st) ?err st2)) (order_key o') = entries (c_db st2) (order_key o')"
    using on by (simp_all add: finish_run_def publish_online [OF mem_client_server on] order_key_def)
  moreover note this
  moreover have "entries (c_db st2) (order_key o') = entries (c_db st) (order_key o')"
    using st2(3) by (simp add: wal_frame_def order_key_def STREAM_KEY_def ACTIVE_SET_def saga_state_key_def)
  moreover have "result_get ?x ''status'' PNone \<noteq> Str ''success''"
    by (simp add: result_get_def result_set_def status_failed_def dict_get_def)
  ultimately show ?thesis by auto
qed

theorem checkout_result_witness:
  "\<exists>st'. checkout shop_app [] ''7'' ''s'' down_proc = (Inl (HttpErr 400 ''Checkout failed: reason''), st') \<and>
     field (c_db st') (order_key ''7'') ''paid'' = Some (Text ''false'')"
proof -
  let ?st = "(after_trip down_proc)\<lparr>c_db := claimed ''7'' ''s'' (c_db down_proc)\<rparr>"
  let ?ctx = "checkout_context ''7'' (Str ''1'') (aggregate [(''3'', 2)]) 10"
  have down: "c_db down_proc = order7 ''false''" "online down_proc" "c_clock down_proc = 0" "c_trips down_proc = []"
    by (simp_all add: down_proc_def shop_proc_def fresh_proc_def online_def)
  have on: "online ?st" "circuit_breakers ?st = circuit_breakers down_proc" "c_clock ?st = 0"
    using down by (simp_all add: after_trip_def next_trip_def online_def)
  have "wal_inv (c_db ?st)"
    using wal_other_key(1) [where d = "order7 ''false''" and d' = "claimed ''7'' ''s'' (order7 ''false'')" and k = "idempotency_key ''7''",
        OF order7_wal(1) idempotency_other] down(1) by (simp add: claimed_def)
  from down_execute [OF on this, of ?ctx "''7''"] obtain x st1 where
    ex: "execute mem_client (recording ''s'' obliging) (app_orch shop_app) ''checkout'' ?ctx ''s'' ?st = (Inr x, st1)"
    and st1: "online st1" "entries (c_db st1) (order_key ''7'') = entries (c_db ?st) (order_key ''7'')"
    and x: "result_get x ''status'' PNone \<noteq> Str ''success''" by blast
  have same: "hash_of (c_db st1) (order_key ''7'') = hash_of (order7 ''false'') (order_key ''7'')"
    "field (c_db st1) (order_key ''7'') = field (order7 ''false'') (order_key ''7'')"
    using st1(2) down(1) by (auto simp: claimed_def fun_eq_iff intro!: view_cong)
  obtain h where h: "hash_of (order7 ''false'') (order_key ''7'') = Some h" "field (order7 ''false'') (order_key ''7'') ''paid'' = Some (Text ''false'')"
    using order7_stored(2) by (auto simp: stored_order_def field_of_hash)
  obtain r st' where run: "checkout shop_app [] ''7'' ''s'' down_proc = (r, st')" by (cases "checkout shop_app [] ''7'' ''s'' down_proc")
  show ?thesis
    using checkout_result [OF order7_facts(1) _ _ _ down(2) _ st1(1) _ run, of "[(''3'', 2)]" 10 "Text ''1''" x h] ex x same h run
    by (simp add: down(1) order7_stored order7_facts Let_def) (simp add: shop_app_def)
qed

end
