(* ===== verification/Participant.thy ===== *)
theory Participant
  imports Complex_Main
begin

text \<open>
  The contract between the orchestrator and a participating service, independent of what the
  service reserves. A participant keeps, per saga, one of four phases; three operations move it.
  The stock and the payment service implement the contract, for 2PC (prepare, commit, abort) and
  for Saga (execute, compensate).
\<close>

section \<open>The abstract participant\<close>

datatype phase = Fresh | Held | Final | Undone

datatype op = Take | Confirm | Undo

text \<open>
  \<open>Take\<close> only works on a fresh saga (idempotent when already held, refused once the saga is
  decided); \<open>Confirm\<close> and \<open>Undo\<close> always succeed.
\<close>

fun next_phase :: "op \<Rightarrow> bool \<Rightarrow> phase \<Rightarrow> phase" where
  "next_phase Take enough p = (if p = Fresh \<and> enough then Held else p)"
| "next_phase Confirm enough p = Final"
| "next_phase Undo enough p = Undone"

fun accepted :: "op \<Rightarrow> bool \<Rightarrow> phase \<Rightarrow> bool" where
  "accepted Take enough p \<longleftrightarrow> p = Held \<or> p = Fresh \<and> enough"
| "accepted Confirm enough p \<longleftrightarrow> True"
| "accepted Undo enough p \<longleftrightarrow> True"

text \<open>The commands of the two protocols on the wire, and the events that confirm them.\<close>

fun action_of :: "bool \<Rightarrow> op \<Rightarrow> string" where
  "action_of True Take = ''prepare''"
| "action_of True Confirm = ''commit''"
| "action_of True Undo = ''abort''"
| "action_of False Take = ''execute''"
| "action_of False Confirm = []"
| "action_of False Undo = ''compensate''"

fun event_of :: "bool \<Rightarrow> op \<Rightarrow> string" where
  "event_of True Take = ''prepared''"
| "event_of True Confirm = ''committed''"
| "event_of True Undo = ''aborted''"
| "event_of False Take = ''executed''"
| "event_of False Confirm = []"
| "event_of False Undo = ''compensated''"

lemma event_of_not_failed [simp]: "event_of two c \<noteq> ''failed''" "''failed'' \<noteq> event_of two c"
  by (cases two; cases c; simp)+

lemma action_of_inject:
  "action_of two c = action_of two c' \<Longrightarrow> (c = Confirm \<longrightarrow> two) \<Longrightarrow> (c' = Confirm \<longrightarrow> two) \<Longrightarrow> c = c'"
  by (cases two; cases c; cases c') simp_all

text \<open>The range of the counters of the databases.\<close>

definition int64_min :: int where "int64_min = - (2 ^ 63)"

definition int64_max :: int where "int64_max = 2 ^ 63 - 1"

text \<open>What a saga in a phase holds of a resource it asks \<open>q\<close> of.\<close>

definition holds :: "phase \<Rightarrow> int \<Rightarrow> int" where
  "holds p q = (if p = Held \<or> p = Final then q else 0)"

lemma holds_simps [simp]: "holds Fresh q = 0" "holds Held q = q" "holds Final q = q" "holds Undone q = 0"
  by (simp_all add: holds_def)

locale participant =
  fixes cmds :: "(op \<times> 's) set"
    and step :: "op \<Rightarrow> 's \<Rightarrow> 'd \<Rightarrow> bool \<times> 'd"
    and sagas :: "'s set"
    and good :: "'d \<Rightarrow> bool"
    and phase :: "'d \<Rightarrow> 's \<Rightarrow> phase"
    and enough :: "'d \<Rightarrow> 's \<Rightarrow> bool"
    and bal :: "'d \<Rightarrow> 'r \<Rightarrow> int"
    and req :: "'s \<Rightarrow> 'r \<Rightarrow> int"
    and lo :: int
    and hi :: int
  assumes finite_sagas: "finite sagas"
    and cmds_sagas: "(c, s) \<in> cmds \<Longrightarrow> s \<in> sagas"
    and req_nonneg: "s \<in> sagas \<Longrightarrow> 0 \<le> req s r"
    and enough_bal: "good d \<Longrightarrow> s \<in> sagas \<Longrightarrow> enough d s \<Longrightarrow> 0 < req s r \<Longrightarrow> req s r \<le> bal d r"
    and step_law: "good d \<Longrightarrow> (c, s) \<in> cmds \<Longrightarrow> step c s d = (ok, d') \<Longrightarrow>
      (\<And>r. lo \<le> bal d r + holds (phase d s) (req s r) - req s r \<and>
             bal d r + holds (phase d s) (req s r) \<le> hi) \<Longrightarrow>
      good d' \<and> (ok \<longleftrightarrow> accepted c (enough d s) (phase d s)) \<and>
      phase d' s = next_phase c (enough d s) (phase d s) \<and>
      (\<forall>s' \<in> sagas. s' \<noteq> s \<longrightarrow> phase d' s' = phase d s') \<and>
      (\<forall>r. bal d' r = bal d r + holds (phase d s) (req s r) - holds (phase d' s) (req s r))"
begin

text \<open>Commands delivered in some order, duplicates and late arrivals included.\<close>

fun run :: "(op \<times> 's) list \<Rightarrow> 'd \<Rightarrow> 'd" where
  "run [] d = d"
| "run ((c, s) # cs) d = run cs (snd (step c s d))"

definition valid :: "(op \<times> 's) list \<Rightarrow> bool" where
  "valid cs \<longleftrightarrow> set cs \<subseteq> cmds"

definition total :: "'d \<Rightarrow> 'r \<Rightarrow> int" where
  "total d r = bal d r + (\<Sum>s \<in> sagas. holds (phase d s) (req s r))"

text \<open>
  \<open>sound d\<close>: the state is well formed and the counters have room for every saga to take its
  request at once, and to get it back.
\<close>

definition sound :: "'d \<Rightarrow> bool" where
  "sound d \<longleftrightarrow> good d \<and> (\<forall>r. lo \<le> total d r - (\<Sum>s \<in> sagas. req s r) \<and> total d r \<le> hi)"

lemma valid_Cons [simp]: "valid ((c, s) # cs) \<longleftrightarrow> (c, s) \<in> cmds \<and> valid cs"
  by (auto simp: valid_def)

lemma valid_Nil [simp]: "valid []"
  by (simp add: valid_def)

lemma holds_bounds: "s \<in> sagas \<Longrightarrow> 0 \<le> holds p (req s r) \<and> holds p (req s r) \<le> req s r"
  using req_nonneg [of s r] by (simp add: holds_def)

lemma sound_room:
  assumes "sound d" "s \<in> sagas"
  shows "lo \<le> bal d r + holds (phase d s) (req s r) - req s r \<and> bal d r + holds (phase d s) (req s r) \<le> hi"
proof -
  let ?others = "\<Sum>s' \<in> sagas - {s}. holds (phase d s') (req s' r)"
  have "0 \<le> ?others" by (rule sum_nonneg) (use holds_bounds in auto)
  moreover have "?others \<le> (\<Sum>s' \<in> sagas - {s}. req s' r)" by (rule sum_mono) (use holds_bounds in auto)
  moreover have "total d r = bal d r + holds (phase d s) (req s r) + ?others"
    using assms(2) by (simp add: total_def sum.remove finite_sagas)
  moreover have "(\<Sum>s' \<in> sagas. req s' r) = req s r + (\<Sum>s' \<in> sagas - {s}. req s' r)"
    using assms(2) by (simp add: sum.remove finite_sagas)
  moreover have "lo \<le> total d r - (\<Sum>s' \<in> sagas. req s' r) \<and> total d r \<le> hi"
    using assms(1) by (simp add: sound_def)
  ultimately show ?thesis by linarith
qed

lemma step_snd:
  assumes "sound d" "(c, s) \<in> cmds"
  shows "good (snd (step c s d))" "phase (snd (step c s d)) s = next_phase c (enough d s) (phase d s)"
    "\<And>s'. s' \<in> sagas \<Longrightarrow> s' \<noteq> s \<Longrightarrow> phase (snd (step c s d)) s' = phase d s'"
    "bal (snd (step c s d)) r = bal d r + holds (phase d s) (req s r)
       - holds (next_phase c (enough d s) (phase d s)) (req s r)"
    "fst (step c s d) \<longleftrightarrow> accepted c (enough d s) (phase d s)"
  using step_law [OF _ assms(2), of d "fst (step c s d)" "snd (step c s d)"]
    sound_room [OF assms(1) cmds_sagas [OF assms(2)]] assms(1)
  by (auto simp: sound_def)

text \<open>Conservation: what the balance loses, the sagas hold.\<close>

lemma step_total:
  assumes "sound d" "(c, s) \<in> cmds"
  shows "total (snd (step c s d)) r = total d r"
proof -
  let ?d' = "snd (step c s d)"
  have s: "s \<in> sagas" using assms(2) by (rule cmds_sagas)
  have "total d' r = bal d' r + holds (phase d' s) (req s r)
      + (\<Sum>s' \<in> sagas - {s}. holds (phase d' s') (req s' r))" for d'
    using s by (simp add: total_def sum.remove finite_sagas)
  moreover have "(\<Sum>s' \<in> sagas - {s}. holds (phase ?d' s') (req s' r)) =
      (\<Sum>s' \<in> sagas - {s}. holds (phase d s') (req s' r))"
    by (rule sum.cong) (use step_snd(3) [OF assms] in auto)
  ultimately show ?thesis
    using step_snd(2,4) [OF assms] by simp
qed

lemma step_sound: "sound d \<Longrightarrow> (c, s) \<in> cmds \<Longrightarrow> sound (snd (step c s d))"
  using step_total [of d c s] step_snd(1) [of d c s] by (simp add: sound_def)

lemma run_append: "run (xs @ ys) d = run ys (run xs d)"
  by (induction xs d rule: run.induct) auto

lemma run_sound: "sound d \<Longrightarrow> valid cs \<Longrightarrow> sound (run cs d)"
  by (induction cs d rule: run.induct) (auto simp: step_sound)

lemma conservation: "sound d \<Longrightarrow> valid cs \<Longrightarrow> total (run cs d) r = total d r"
  by (induction cs d rule: run.induct) (auto simp: step_sound step_total)

text \<open>What the commands on a saga keep of its phase, every run of commands keeps.\<close>

lemma phase_keeps:
  assumes "sound d" "valid cs" "s \<in> sagas" "P (phase d s)"
    and "\<And>c e p. (c, s) \<in> set cs \<Longrightarrow> P p \<Longrightarrow> P (next_phase c e p)"
  shows "P (phase (run cs d) s)"
  using assms
proof (induction cs d rule: run.induct)
  case (2 c s' cs d)
  then have ops: "(c, s') \<in> cmds" by auto
  have "P (phase (snd (step c s' d)) s)"
  proof (cases "s' = s")
    case True
    then show ?thesis using step_snd(2) [OF "2.prems"(1) ops] "2.prems"(4,5) by simp
  qed (use 2 ops step_snd(3) in auto)
  moreover have "valid cs" "sound (snd (step c s' d))" using 2 ops by (auto simp: step_sound)
  ultimately have "P (phase (run cs (snd (step c s' d))) s)"
    using "2.IH" "2.prems"(3,5) by (meson list.set_intros(2))
  then show ?case by simp
qed simp

text \<open>
  The poison pill: once a saga is undone it stays undone whatever late \<open>Take\<close> arrives, as long as
  nobody confirms it; and dually for a confirmed saga.
\<close>

lemma undone_stays:
  assumes "sound d" "valid cs" "s \<in> sagas" "(Confirm, s) \<notin> set cs" "phase d s = Undone"
  shows "phase (run cs d) s = Undone"
proof (rule phase_keeps [where P = "\<lambda>p. p = Undone", OF assms(1-3,5)])
  show "next_phase c e p = Undone" if "(c, s) \<in> set cs" "p = Undone" for c e p
    using that assms(4) by (cases c) auto
qed

lemma final_stays:
  assumes "sound d" "valid cs" "s \<in> sagas" "(Undo, s) \<notin> set cs" "phase d s = Final"
  shows "phase (run cs d) s = Final"
proof (rule phase_keeps [where P = "\<lambda>p. p = Final", OF assms(1-3,5)])
  show "next_phase c e p = Final" if "(c, s) \<in> set cs" "p = Final" for c e p
    using that assms(4) by (cases c) auto
qed

lemma undo_decides:
  assumes "sound d" "valid cs" "(Undo, s) \<in> set cs" "(Confirm, s) \<notin> set cs"
  shows "phase (run cs d) s = Undone"
proof -
  obtain xs ys where cs: "cs = xs @ (Undo, s) # ys" using assms(3) by (meson split_list)
  then have v: "valid xs" "(Undo, s) \<in> cmds" "valid ys" using assms(2) by (auto simp: valid_def)
  have g: "sound (run xs d)" using assms(1) v(1) by (rule run_sound)
  show ?thesis
    using undone_stays [OF step_sound [OF g v(2)] v(3) cmds_sagas [OF v(2)]] step_snd(2) [OF g v(2)] assms(4)
    by (simp add: cs run_append)
qed

lemma confirm_decides:
  assumes "sound d" "valid cs" "(Confirm, s) \<in> set cs" "(Undo, s) \<notin> set cs"
  shows "phase (run cs d) s = Final"
proof -
  obtain xs ys where cs: "cs = xs @ (Confirm, s) # ys" using assms(3) by (meson split_list)
  then have v: "valid xs" "(Confirm, s) \<in> cmds" "valid ys" using assms(2) by (auto simp: valid_def)
  have g: "sound (run xs d)" using assms(1) v(1) by (rule run_sound)
  show ?thesis
    using final_stays [OF step_sound [OF g v(2)] v(3) cmds_sagas [OF v(2)]] step_snd(2) [OF g v(2)] assms(4)
    by (simp add: cs run_append)
qed

text \<open>
  Balances stay non-negative when every confirmation finds its saga held or already confirmed:
  the discipline of a coordinator that only commits after everybody prepared.
\<close>

fun disciplined :: "(op \<times> 's) list \<Rightarrow> 'd \<Rightarrow> bool" where
  "disciplined [] d = True"
| "disciplined ((c, s) # cs) d \<longleftrightarrow> (c = Confirm \<longrightarrow> phase d s = Held \<or> phase d s = Final) \<and>
     disciplined cs (snd (step c s d))"

lemma nonneg:
  "sound d \<Longrightarrow> valid cs \<Longrightarrow> disciplined cs d \<Longrightarrow> 0 \<le> bal d r \<Longrightarrow> 0 \<le> bal (run cs d) r"
proof (induction cs d rule: run.induct)
  case (2 c s cs d)
  then have ops: "(c, s) \<in> cmds" "s \<in> sagas" "good d" by (auto simp: sound_def dest: cmds_sagas)
  have "enough d s \<Longrightarrow> req s r \<le> bal d r"
    using enough_bal [OF ops(3,2), of r] "2.prems"(4) by (cases "0 < req s r") auto
  then have "0 \<le> bal (snd (step c s d)) r"
    using step_snd(4) [OF "2.prems"(1) ops(1), of r] req_nonneg [OF ops(2), of r] "2.prems"(3,4)
    by (cases c; cases "phase d s") (auto split: if_splits)
  with 2 ops show ?case by (auto simp: step_sound)
qed simp

end

end
