(* ===== verification/Deliveries.thy ===== *)
theory Deliveries
  imports Service Participant
begin

text \<open>
  A participant behind a message handler: what any sequence of deliveries does to its database,
  proved once from the contract of \<open>Participant\<close> and the law that a handled message runs the
  operation it asks for at most once.
\<close>

section \<open>Operations of the databases\<close>

definition script_outcome :: "(rerr + int) \<times> keyspace \<Rightarrow> bool \<times> keyspace" where
  "script_outcome r = (fst r = Inr 1, snd r)"

text \<open>The phase of a saga, read from its 2PC status field or from its Saga status key.\<close>

definition phase_2pc :: "rtext option \<Rightarrow> phase" where
  "phase_2pc st = (if st = Some (Text ''prepared'') then Held
     else if st = Some (Text ''committed'') then Final
     else if st = Some (Text ''aborted'') then Undone else Fresh)"

definition phase_saga :: "rtext option option \<Rightarrow> phase" where
  "phase_saga st = (if st = Some (Some (Text ''executed'')) then Held
     else if st = Some (Some (Text ''compensated'')) then Undone else Fresh)"

text \<open>The commands of the protocols: a saga is confirmed only under 2PC.\<close>

definition protocol_cmds :: "(string \<Rightarrow> bool) \<Rightarrow> string set \<Rightarrow> (op \<times> string) set" where
  "protocol_cmds tpc sagas = {(c, s). s \<in> sagas \<and> (c = Confirm \<longrightarrow> tpc s)}"

lemma phase_2pc_simps [simp]:
  "phase_2pc (Some (Text ''prepared'')) = Held" "phase_2pc (Some (Text ''committed'')) = Final"
  "phase_2pc (Some (Text ''aborted'')) = Undone" "phase_2pc None = Fresh"
  by (simp_all add: phase_2pc_def)

lemma phase_2pc_iff:
  "phase_2pc st = Held \<longleftrightarrow> st = Some (Text ''prepared'')"
  "phase_2pc st = Final \<longleftrightarrow> st = Some (Text ''committed'')"
  "phase_2pc st = Undone \<longleftrightarrow> st = Some (Text ''aborted'')"
  by (auto simp: phase_2pc_def)

lemma phase_saga_simps [simp]:
  "phase_saga (Some (Some (Text ''executed''))) = Held"
  "phase_saga (Some (Some (Text ''compensated''))) = Undone"
  by (simp_all add: phase_saga_def)

lemma phase_saga_iff:
  "phase_saga st = Held \<longleftrightarrow> st = Some (Some (Text ''executed''))"
  "phase_saga st = Undone \<longleftrightarrow> st = Some (Some (Text ''compensated''))" "phase_saga st \<noteq> Final"
  by (auto simp: phase_saga_def)

section \<open>Deliveries\<close>

text \<open>
  A delivery is a message with the fate of the round trips it makes and the fault rules in force:
  a process that dies and restarts between two deliveries only changes those. The wire may lose,
  duplicate and reorder messages, so a run is any list of deliveries.
\<close>

type_synonym handler = "dict \<Rightarrow> (svc, pyval) py"
type_synonym delivery = "dict \<times> trip list \<times> injector"

definition deliver :: "handler \<Rightarrow> delivery \<Rightarrow> svc \<Rightarrow> svc" where
  "deliver handler = (\<lambda>(msg, ts, rs) st. snd (handler msg (st\<lparr>c_trips := ts, sv_rules := rs\<rparr>)))"

definition deliveries :: "handler \<Rightarrow> delivery list \<Rightarrow> svc \<Rightarrow> svc" where
  "deliveries handler ds st = fold (deliver handler) ds st"

text \<open>Every commit arrives when its saga is prepared or committed already.\<close>

fun commits_prepared :: "(keyspace \<Rightarrow> string \<Rightarrow> phase) \<Rightarrow> handler \<Rightarrow> delivery list \<Rightarrow> svc \<Rightarrow> bool" where
  "commits_prepared ph handler [] st = True"
| "commits_prepared ph handler ((msg, ts, rs) # ds) st \<longleftrightarrow>
     (text_field msg ''action'' [] = Inr ''commit'' \<longrightarrow> (case text_field msg ''saga_id'' [] of
        Inr s \<Rightarrow> ph (c_db st) s = Held \<or> ph (c_db st) s = Final | Inl _ \<Rightarrow> True)) \<and>
     commits_prepared ph handler ds (deliver handler (msg, ts, rs) st)"

text \<open>\<open>v\<close> is what the handler answered to a delivery of \<open>msg\<close>, on the state it found then.\<close>

definition answered_by :: "handler \<Rightarrow> svc \<Rightarrow> delivery list \<Rightarrow> dict \<Rightarrow> pyval \<Rightarrow> bool" where
  "answered_by handler st ds msg v \<longleftrightarrow> (\<exists>ds1 ts rs ds2. ds = ds1 @ (msg, ts, rs) # ds2 \<and>
     fst (handler msg ((deliveries handler ds1 st)\<lparr>c_trips := ts, sv_rules := rs\<rparr>)) = Inr v)"

text \<open>The phase an acknowledged operation has reached.\<close>

fun reached :: "op \<Rightarrow> phase" where
  "reached Take = Held"
| "reached Confirm = Final"
| "reached Undo = Undone"

locale command_service = participant cmds step sagas good phase enough bal req lo hi
  for cmds :: "(op \<times> string) set" and step :: "op \<Rightarrow> string \<Rightarrow> keyspace \<Rightarrow> bool \<times> keyspace"
    and sagas good phase enough and bal :: "keyspace \<Rightarrow> string \<Rightarrow> int" and req lo hi +
  fixes handler :: handler
    and asks :: "op \<Rightarrow> string \<Rightarrow> dict \<Rightarrow> bool"
    and done_event :: "op \<Rightarrow> string \<Rightarrow> string"
  assumes handle_step: "(c, s) \<in> cmds \<Longrightarrow> asks c s msg \<Longrightarrow> handler msg st = (r, st') \<Longrightarrow>
      (c_db st' = c_db st \<or> c_db st' = snd (step c s (c_db st))) \<and>
      (\<forall>v. r = Inr v \<and> dict_has v ''event'' (done_event c s) \<longrightarrow>
         c_db st' = snd (step c s (c_db st)) \<and> (c = Take \<longrightarrow> fst (step c s (c_db st))))"
    and commit_form: "asks Confirm s msg \<Longrightarrow>
      text_field msg ''action'' [] = Inr ''commit'' \<and> text_field msg ''saga_id'' [] = Inr s"
    and asks_unique: "asks c s msg \<Longrightarrow> asks c' s' msg \<Longrightarrow> c = c' \<and> s = s'"
begin

definition traffic :: "dict \<Rightarrow> bool" where
  "traffic msg \<longleftrightarrow> (\<exists>(c, s) \<in> cmds. asks c s msg)"

lemma deliveries_run:
  assumes "list_all (\<lambda>(msg, _). traffic msg) ds"
  shows "\<exists>cs. valid cs \<and> c_db (deliveries handler ds st) = run cs (c_db st) \<and>
    (\<forall>(c, s) \<in> set cs. \<exists>(msg, _) \<in> set ds. asks c s msg) \<and>
    (commits_prepared phase handler ds st \<longrightarrow> disciplined cs (c_db st))"
  using assms
proof (induction ds arbitrary: st)
  case Nil
  show ?case by (intro exI [of _ "[]"]) (simp add: deliveries_def)
next
  case (Cons x ds)
  obtain msg ts rs where x: "x = (msg, ts, rs)" by (cases x)
  from Cons.prems obtain c s where cs: "(c, s) \<in> cmds" "asks c s msg" by (auto simp: x traffic_def)
  let ?st1 = "deliver handler x st"
  have "c_db ?st1 \<in> {c_db st, snd (step c s (c_db st))}"
    using handle_step [OF cs, of "st\<lparr>c_trips := ts, sv_rules := rs\<rparr>"]
    by (simp add: deliver_def x) (metis prod.collapse)
  moreover obtain ys where "valid ys" "c_db (deliveries handler ds ?st1) = run ys (c_db ?st1)"
    "\<forall>(c, s) \<in> set ys. \<exists>(msg, _) \<in> set ds. asks c s msg"
    "commits_prepared phase handler ds ?st1 \<longrightarrow> disciplined ys (c_db ?st1)"
    using Cons.IH [of ?st1] Cons.prems by auto
  moreover have "c = Confirm \<Longrightarrow> text_field msg ''action'' [] = Inr ''commit'' \<and> text_field msg ''saga_id'' [] = Inr s"
    using cs(2) commit_form by auto
  ultimately show ?case
    using cs by (intro exI [of _ "if c_db ?st1 = c_db st then ys else (c, s) # ys"])
      (auto simp: deliveries_def x)
qed

lemma deliveries_total:
  assumes "sound (c_db st)" "list_all (\<lambda>(msg, _). traffic msg) ds"
  shows "total (c_db (deliveries handler ds st)) i = total (c_db st) i"
  using deliveries_run [OF assms(2), of st] conservation [OF assms(1)] by auto

lemma deliveries_sound:
  assumes "sound (c_db st)" "list_all (\<lambda>(msg, _). traffic msg) ds"
  shows "sound (c_db (deliveries handler ds st))"
  using deliveries_run [OF assms(2), of st] run_sound [OF assms(1)] by auto

lemma deliveries_nonneg:
  assumes "sound (c_db st)" "list_all (\<lambda>(msg, _). traffic msg) ds"
    "commits_prepared phase handler ds st" "0 \<le> bal (c_db st) i"
  shows "0 \<le> bal (c_db (deliveries handler ds st)) i"
proof -
  obtain cs where "valid cs" "c_db (deliveries handler ds st) = run cs (c_db st)" "disciplined cs (c_db st)"
    using deliveries_run [OF assms(2), of st] assms(3) by auto
  with nonneg [OF assms(1)] assms(4) show ?thesis by simp
qed

text \<open>An operation that is acknowledged has happened; and a decision stands.\<close>

lemma acknowledged_step:
  assumes "sound (c_db st)" "(c, s) \<in> cmds" "asks c s msg" "handler msg st = (Inr v, st')"
    "dict_has v ''event'' (done_event c s)"
  shows "sound (c_db st') \<and> phase (c_db st') s = next_phase c (enough (c_db st) s) (phase (c_db st) s)"
proof -
  have "c_db st' = snd (step c s (c_db st))" using handle_step [OF assms(2-4)] assms(5) by simp
  with step_sound [OF assms(1,2)] step_snd(2) [OF assms(1,2)] show ?thesis by simp
qed

lemma acknowledged_balance:
  assumes "sound (c_db st)" "(c, s) \<in> cmds" "asks c s msg" "handler msg st = (Inr v, st')"
    "dict_has v ''event'' (done_event c s)"
  shows "bal (c_db st') r = bal (c_db st) r + holds (phase (c_db st) s) (req s r) - holds (phase (c_db st') s) (req s r)"
proof -
  have "c_db st' = snd (step c s (c_db st))" using handle_step [OF assms(2-4)] assms(5) by simp
  then show ?thesis using step_snd(2,4) [OF assms(1,2)] by simp
qed

lemma acknowledged_reaches:
  assumes "sound (c_db st)" "(c, s) \<in> cmds" "asks c s msg" "handler msg st = (Inr v, st')"
    "dict_has v ''event'' (done_event c s)"
  shows "sound (c_db st') \<and> phase (c_db st') s = reached c"
proof -
  have "c_db st' = snd (step c s (c_db st))" "c = Take \<Longrightarrow> fst (step c s (c_db st))" using handle_step [OF assms(2-4)] assms(5) by auto
  then have "c = Take \<Longrightarrow> accepted Take (enough (c_db st) s) (phase (c_db st) s)" using step_snd(5) [OF assms(1,2)] by simp
  then show ?thesis using acknowledged_step [OF assms] by (cases c) auto
qed

text \<open>What the messages that ask something of a saga keep of its phase, the deliveries keep.\<close>

lemma deliveries_keep:
  assumes "sound (c_db st)" "s \<in> sagas" "list_all (\<lambda>(msg, _). traffic msg) ds" "P (phase (c_db st) s)"
    and "\<And>c e p msg x. (msg, x) \<in> set ds \<Longrightarrow> asks c s msg \<Longrightarrow> P p \<Longrightarrow> P (next_phase c e p)"
  shows "P (phase (c_db (deliveries handler ds st)) s)"
proof -
  obtain cs where cs: "valid cs" "c_db (deliveries handler ds st) = run cs (c_db st)"
    "\<forall>(c, s) \<in> set cs. \<exists>(msg, _) \<in> set ds. asks c s msg"
    using deliveries_run [OF assms(3), of st] by blast
  have "P (next_phase c e p)" if "(c, s) \<in> set cs" "P p" for c e p
    using cs(3) that assms(5) by blast
  then show ?thesis using phase_keeps [where P = P, OF assms(1) cs(1) assms(2,4)] cs(2) by simp
qed

lemma decision_stands:
  assumes "sound (c_db st)" "s \<in> sagas" "list_all (\<lambda>(msg, _). traffic msg \<and> \<not> asks c s msg) ds"
    "phase (c_db st) s = p" "(p, c) = (Undone, Confirm) \<or> (p, c) = (Final, Undo)"
  shows "phase (c_db (deliveries handler ds st)) s = p"
proof -
  have "list_all (\<lambda>(msg, _). traffic msg) ds"
    by (rule list.pred_mono_strong [OF assms(3)]) auto
  from deliveries_run [OF this, of st]
  obtain cs where "valid cs" "c_db (deliveries handler ds st) = run cs (c_db st)"
    and asked: "\<forall>(c, s) \<in> set cs. \<exists>(msg, _) \<in> set ds. asks c s msg"
    by blast
  moreover from asked assms(3) have "(c, s) \<notin> set cs" by (fastforce simp: list_all_iff)
  ultimately show ?thesis
    using undone_stays [OF assms(1), of cs s] final_stays [OF assms(1), of cs s] assms(2,4,5) by auto
qed

text \<open>A saga is final only after a confirmation, undone only after an undo, was delivered.\<close>

lemma decided_by_message:
  assumes "sound (c_db st)" "s \<in> sagas" "list_all (\<lambda>(msg, _). traffic msg) ds" "phase (c_db st) s \<noteq> p"
    and "phase (c_db (deliveries handler ds st)) s = p" "(p, c) = (Final, Confirm) \<or> (p, c) = (Undone, Undo)"
  shows "\<exists>(msg, _) \<in> set ds. asks c s msg"
proof (rule ccontr)
  assume none: "\<not> ?thesis"
  have "phase (c_db (deliveries handler ds st)) s \<noteq> p"
  proof (rule deliveries_keep [where P = "\<lambda>q. q \<noteq> p", OF assms(1-4)])
    fix c' e q msg x
    assume m: "(msg, x) \<in> set ds" "asks c' s msg" "q \<noteq> p"
    then have "c' \<noteq> c" using none by auto
    then show "next_phase c' e q \<noteq> p" using m(3) assms(6) by (cases c') auto
  qed
  then show False using assms(5) by simp
qed

text \<open>What an acknowledged operation reached stands, as long as no message that would change it is delivered.\<close>

lemma answered_keeps:
  assumes "sound (c_db st)" "(c, s) \<in> cmds" "list_all (\<lambda>(msg, _). traffic msg) ds"
    and "answered_by handler st ds msg v" "asks c s msg" "dict_has v ''event'' (done_event c s)" "P (reached c)"
    and keeps: "\<And>c e p msg x. (msg, x) \<in> set ds \<Longrightarrow> asks c s msg \<Longrightarrow> P p \<Longrightarrow> P (next_phase c e p)"
  shows "P (phase (c_db (deliveries handler ds st)) s)"
proof -
  obtain ds1 ts rs ds2 where ds: "ds = ds1 @ (msg, ts, rs) # ds2"
    and v: "fst (handler msg ((deliveries handler ds1 st)\<lparr>c_trips := ts, sv_rules := rs\<rparr>)) = Inr v"
    using assms(4) by (auto simp: answered_by_def)
  let ?st1 = "(deliveries handler ds1 st)\<lparr>c_trips := ts, sv_rules := rs\<rparr>"
  have t: "list_all (\<lambda>(msg, _). traffic msg) ds1" "list_all (\<lambda>(msg, _). traffic msg) ds2"
    using assms(3) by (auto simp: ds)
  obtain st2 where st2: "handler msg ?st1 = (Inr v, st2)" using v by (metis prod.collapse)
  have "sound (c_db ?st1)" using deliveries_sound [OF assms(1) t(1)] by simp
  from acknowledged_reaches [OF this assms(2,5) st2 assms(6)] have h: "sound (c_db st2)" "phase (c_db st2) s = reached c" by auto
  have "P (phase (c_db (deliveries handler ds2 st2)) s)"
  proof (rule deliveries_keep [where P = P, OF h(1) cmds_sagas [OF assms(2)] t(2)])
    fix c e p m x
    assume "(m, x) \<in> set ds2" "asks c s m" "P p"
    then show "P (next_phase c e p)" by (intro keeps [of m x]) (simp_all add: ds)
  qed (simp add: h(2) assms(7))
  moreover have "deliveries handler ds st = deliveries handler ds2 st2"
    using st2 by (simp add: ds deliveries_def deliver_def)
  ultimately show ?thesis by simp
qed

text \<open>
  The messages of one saga come from a set of events \<open>E\<close>, sent as \<open>m e\<close> and asking for \<open>opr e\<close>; every other
  message is of another saga. Then the events decide what the saga can become.
\<close>

definition sourced :: "string \<Rightarrow> 'e set \<Rightarrow> ('e \<Rightarrow> dict) \<Rightarrow> ('e \<Rightarrow> op) \<Rightarrow> delivery list \<Rightarrow> bool" where
  "sourced s E m opr ds \<longleftrightarrow> (\<forall>e\<in>E. (opr e, s) \<in> cmds \<and> asks (opr e) s (m e)) \<and>
     (\<forall>(msg, _)\<in>set ds. (\<exists>(c, s')\<in>cmds. s' \<noteq> s \<and> asks c s' msg) \<or> msg \<in> m ` E)"

lemma sourcedI:
  "(\<And>e. e \<in> E \<Longrightarrow> (opr e, s) \<in> cmds \<and> asks (opr e) s (m e)) \<Longrightarrow>
     (\<And>msg x. (msg, x) \<in> set ds \<Longrightarrow> (\<exists>(c, s')\<in>cmds. s' \<noteq> s \<and> asks c s' msg) \<or> msg \<in> m ` E) \<Longrightarrow> sourced s E m opr ds"
  unfolding sourced_def by blast

lemma sourced_traffic: "sourced s E m opr ds \<Longrightarrow> list_all (\<lambda>(msg, _). traffic msg) ds"
  by (fastforce simp: sourced_def traffic_def list_all_iff)

lemma sourced_asks:
  assumes "sourced s E m opr ds" "(msg, x) \<in> set ds" "asks c s msg"
  shows "c \<in> opr ` E"
proof -
  from assms(1,2) consider (other) c' s' where "s' \<noteq> s" "asks c' s' msg" | (own) e where "e \<in> E" "msg = m e"
    unfolding sourced_def by blast
  then show ?thesis
  proof cases
    case other
    then show ?thesis using asks_unique [OF assms(3)] by blast
  next
    case own
    then have "asks (opr e) s msg" using assms(1) by (simp add: sourced_def)
    from asks_unique [OF assms(3) this] show ?thesis using own(1) by blast
  qed
qed

lemma sourced_undecided:
  assumes "sound (c_db st)" "s \<in> sagas" "phase (c_db st) s \<notin> {Final, Undone}" "sourced s E m opr ds"
  shows "Confirm \<notin> opr ` E \<Longrightarrow> phase (c_db (deliveries handler ds st)) s \<noteq> Final"
    and "Undo \<notin> opr ` E \<Longrightarrow> phase (c_db (deliveries handler ds st)) s \<noteq> Undone"
proof -
  have decided: "c \<in> opr ` E" if "phase (c_db (deliveries handler ds st)) s = p" "(p, c) = (Final, Confirm) \<or> (p, c) = (Undone, Undo)" for p c
  proof -
    have "phase (c_db st) s \<noteq> p" using assms(3) that(2) by auto
    from decided_by_message [OF assms(1,2) sourced_traffic [OF assms(4)] this that] obtain msg x where "(msg, x) \<in> set ds" "asks c s msg"
      by blast
    then show ?thesis by (rule sourced_asks [OF assms(4)])
  qed
  show "phase (c_db (deliveries handler ds st)) s \<noteq> Final" if "Confirm \<notin> opr ` E" using decided that by blast
  show "phase (c_db (deliveries handler ds st)) s \<noteq> Undone" if "Undo \<notin> opr ` E" using decided that by blast
qed

lemma sourced_answered:
  assumes "sound (c_db st)" "sourced s E m opr ds" "e \<in> E" "answered_by handler st ds (m e) v"
    and "dict_has v ''event'' (done_event (opr e) s)"
  shows "opr e = Take \<Longrightarrow> Undo \<notin> opr ` E \<Longrightarrow> phase (c_db (deliveries handler ds st)) s \<in> {Held, Final}"
    and "opr e = Confirm \<Longrightarrow> Undo \<notin> opr ` E \<Longrightarrow> phase (c_db (deliveries handler ds st)) s = Final"
    and "opr e = Undo \<Longrightarrow> Confirm \<notin> opr ` E \<Longrightarrow> phase (c_db (deliveries handler ds st)) s = Undone"
proof -
  have e: "(opr e, s) \<in> cmds" "asks (opr e) s (m e)" using assms(2,3) by (auto simp: sourced_def)
  note keeps = answered_keeps [OF assms(1) e(1) sourced_traffic [OF assms(2)] assms(4) e(2) assms(5)]
  show "phase (c_db (deliveries handler ds st)) s \<in> {Held, Final}" if o: "opr e = Take" "Undo \<notin> opr ` E"
  proof (rule keeps [where P = "\<lambda>p. p \<in> {Held, Final}"])
    show "next_phase c b p \<in> {Held, Final}" if "(msg, x) \<in> set ds" "asks c s msg" "p \<in> {Held, Final}" for c b p msg x
      using sourced_asks [OF assms(2) that(1,2)] o(2) that(3) by (cases c) auto
  qed (simp add: o)
  show "phase (c_db (deliveries handler ds st)) s = Final" if o: "opr e = Confirm" "Undo \<notin> opr ` E"
  proof (rule keeps [where P = "\<lambda>p. p = Final"])
    show "next_phase c b p = Final" if "(msg, x) \<in> set ds" "asks c s msg" "p = Final" for c b p msg x
      using sourced_asks [OF assms(2) that(1,2)] o(2) that(3) by (cases c) auto
  qed (simp add: o)
  show "phase (c_db (deliveries handler ds st)) s = Undone" if o: "opr e = Undo" "Confirm \<notin> opr ` E"
  proof (rule keeps [where P = "\<lambda>p. p = Undone"])
    show "next_phase c b p = Undone" if "(msg, x) \<in> set ds" "asks c s msg" "p = Undone" for c b p msg x
      using sourced_asks [OF assms(2) that(1,2)] o(2) that(3) by (cases c) auto
  qed (simp add: o)
qed

end

section \<open>A command as both services run it\<close>

text \<open>
  The shape of a handled command: the injection point, one script, the outcome. \<open>two\<close> tells 2PC
  from Saga.
\<close>

definition run_command :: "redis_client \<Rightarrow> bool \<Rightarrow> op \<Rightarrow> int script \<Rightarrow> (svc, string) py" where
  "run_command cl two c sc = bindE monotonic (\<lambda>t. bindE (inject_at (''before_'' @ action_of two c)) (\<lambda>_.
     bindE (redis_call cl sc) (\<lambda>n.
     finish_command (action_of two c) t (if c = Take \<longrightarrow> n = 1 then event_of two c else ''failed''))))"

lemma run_command_once:
  "once sc (\<lambda>n ev. ev = (if c = Take \<longrightarrow> n = 1 then event_of two c else ''failed'')) (run_command cl two c sc)"
  unfolding run_command_def
  by (intro once_before once_after [OF once_redis_call]) (auto dest: finish_returns)

text \<open>It runs its script at most once, and an acknowledged command has run it.\<close>

lemma run_command_step:
  assumes "nats_reply refusal sid (run_command cl two c sc) st = (r, st')"
  shows "(c_db st' = c_db st \<or> c_db st' = snd (sc (c_db st))) \<and>
    (\<forall>v. r = Inr v \<and> dict_has v ''event'' (event_of two c) \<longrightarrow>
       c_db st' = snd (sc (c_db st)) \<and> (c = Take \<longrightarrow> fst (sc (c_db st)) = Inr 1))"
proof -
  have o: "ran_once sc (\<lambda>n ev. ev = (if c = Take \<longrightarrow> n = 1 then event_of two c else ''failed'')) (c_db st)
      (run_command cl two c sc st)"
    using run_command_once by (simp add: once_def)
  from assms show ?thesis
    by (cases rule: nats_reply_cases)
      (use o in \<open>auto simp: ran_once_def dict_has_def dict_get_def split: if_splits\<close>)
qed

text \<open>On a working connection and without faults, the reply and the database are determined.\<close>

lemma run_command_online:
  assumes "online st" "sv_rules st = []" "sc (c_db st) = (Inr n, d)"
  shows "\<exists>st'. nats_reply refusal sid (run_command cl two c sc) st =
      (Inr (if c = Take \<longrightarrow> n = 1 then PDict [(''saga_id'', sid), (''event'', Str (event_of two c))]
        else PDict [(''saga_id'', sid), (''event'', Str ''failed''), (''reason'', Str refusal)]), st') \<and> c_db st' = d"
proof -
  let ?st1 = "(after_trip st)\<lparr>c_db := d\<rparr>" and ?o = "if c = Take \<longrightarrow> n = 1 then event_of two c else ''failed''"
  obtain st' where f: "finish_command (action_of two c) (c_clock st) ?o ?st1 = (Inr ?o, st')" "c_db st' = d"
    using finish_none [of ?st1 "action_of two c" "c_clock st" ?o] assms(2) by auto
  have "run_command cl two c sc st = (Inr ?o, st')"
    using assms(2) redis_call_online [of st sc n d cl] assms(1,3) f(1)
    by (simp add: run_command_def bindE_def monotonic_def)
  with f(2) show ?thesis
    by (intro exI [of _ st']) (auto simp: nats_reply_def bindE_def ret_def try_except_def)
qed

end
