(* ===== verification/StockLedger.thy ===== *)
theory StockLedger
  imports StockService Deliveries
begin

text \<open>
  The stock database as a participant: the five scripts, run for a set of sagas of both protocols
  in any order, keep the accounts. \<open>tpc s\<close> says whether saga \<open>s\<close> runs under 2PC, \<open>reqs s\<close> is
  what it asks for.
\<close>

section \<open>The scripts as participant operations\<close>

fun stock_script :: "redis \<Rightarrow> int \<Rightarrow> bool \<Rightarrow> op \<Rightarrow> string \<Rightarrow> item_list \<Rightarrow> int script" where
  "stock_script rc ttl True Take s items =
     stock_2pc_prepare rc (stock_2pc_keys s items) ([s, show_int ttl] @ item_args items)"
| "stock_script rc ttl True Confirm s items =
     stock_2pc_commit rc (stock_2pc_keys s items) ([s, show_int (int (length items))] @ item_args items)"
| "stock_script rc ttl True Undo s items =
     stock_2pc_abort rc (stock_2pc_keys s items) ([s, show_int (int (length items))] @ map fst items)"
| "stock_script rc ttl False Take s items =
     stock_saga_execute rc (stock_saga_keys s items) ([s] @ item_args items)"
| "stock_script rc ttl False Confirm s items = throw (ErrReply ''no such action'')"
| "stock_script rc ttl False Undo s items =
     stock_saga_compensate rc (stock_saga_keys s items) [s, show_int (int (length items))]"

definition stock_step :: "redis \<Rightarrow> int \<Rightarrow> (string \<Rightarrow> bool) \<Rightarrow> (string \<Rightarrow> item_list) \<Rightarrow>
    op \<Rightarrow> string \<Rightarrow> keyspace \<Rightarrow> bool \<times> keyspace" where
  "stock_step rc ttl tpc reqs c s d = script_outcome (stock_script rc ttl (tpc s) c s (reqs s) d)"

definition stock_phase :: "(string \<Rightarrow> bool) \<Rightarrow> keyspace \<Rightarrow> string \<Rightarrow> phase" where
  "stock_phase tpc d s = (if tpc s then phase_2pc (stock_status d s) else phase_saga (stock_saga_status d s))"

definition stock_level :: "keyspace \<Rightarrow> string \<Rightarrow> int" where
  "stock_level d i = (case avail d i of Some v \<Rightarrow> v | None \<Rightarrow> 0)"

text \<open>The records of one saga are consistent with its phase.\<close>

definition stock_record :: "bool \<Rightarrow> keyspace \<Rightarrow> string \<Rightarrow> item_list \<Rightarrow> bool" where
  "stock_record two d s items \<longleftrightarrow> (if two
     then stock_2pc_open d s \<and> (case phase_2pc (stock_status d s) of
         Fresh \<Rightarrow> unrecorded d s items
       | Undone \<Rightarrow> True
       | _ \<Rightarrow> recorded d s items)
     else stock_saga_status d s \<noteq> None \<and> hash_of d (stock_amounts_key s) =
       Some (if phase_saga (stock_saga_status d s) = Held then amount_texts items else []))"

definition stock_good :: "(string \<Rightarrow> bool) \<Rightarrow> (string \<Rightarrow> item_list) \<Rightarrow> string set \<Rightarrow> keyspace \<Rightarrow> bool" where
  "stock_good tpc reqs sagas d \<longleftrightarrow> (\<forall>s \<in> sagas. known_items d (reqs s) \<and> stock_record (tpc s) d s (reqs s))"

section \<open>Each script is an operation of the participant\<close>

lemma stock_level_shift:
  assumes "stock_shift \<delta> d d'" "avail d i \<noteq> None \<or> \<delta> i = 0"
  shows "stock_level d' i = stock_level d i + \<delta> i"
  using assms by (auto simp: stock_shift_def stock_level_def split: option.splits)

lemma known_shift: "stock_shift \<delta> d d' \<Longrightarrow> known_items d' items = known_items d items"
  by (simp add: stock_shift_def known_items_def)

lemma qty_known: "known_items d items \<Longrightarrow> avail d i \<noteq> None \<or> qty items i = 0"
  by (auto simp: known_items_def qty_def list_all_iff split: option.splits dest: map_of_SomeD)

lemma qty_nonneg: "valid_items items \<Longrightarrow> 0 \<le> qty items i"
  by (auto simp: valid_items_def qty_def list_all_iff split: option.splits dest: map_of_SomeD)

lemma in_stock_qty:
  assumes "valid_items items" "in_stock d items" "0 < qty items i"
  shows "qty items i \<le> stock_level d i"
  using assms by (auto simp: in_stock_def qty_def list_all_iff stock_level_def split: option.splits dest: map_of_SomeD)

lemma other_record:
  assumes "other_sagas_kept s d d'" "s' \<noteq> s"
  shows "stock_record two d' s' items = stock_record two d s' items" "stock_phase tpc d' s' = stock_phase tpc d s'"
proof -
  have e: "entries d' (stock_status_key s') = entries d (stock_status_key s')"
    "entries d' (stock_amounts_key s') = entries d (stock_amounts_key s')"
    using assms by (auto simp: other_sagas_kept_def)
  have "recorded d' s' items = recorded d s' items" "unrecorded d' s' items = unrecorded d s' items"
    by (simp_all add: recorded_def unrecorded_def stock_amount_def view_cong [OF e(1)])
  then show "stock_record two d' s' items = stock_record two d s' items" "stock_phase tpc d' s' = stock_phase tpc d s'"
    by (simp_all add: stock_record_def stock_phase_def stock_status_def stock_saga_status_def stock_2pc_open_def
        view_cong [OF e(1)] view_cong [OF e(2)] cong: phase.case_cong)
qed


text \<open>What one operation on saga \<open>s\<close> does, in the terms of the participant.\<close>

definition stock_moves :: "(string \<Rightarrow> bool) \<Rightarrow> op \<Rightarrow> string \<Rightarrow> item_list \<Rightarrow> keyspace \<Rightarrow> bool \<Rightarrow> keyspace \<Rightarrow> bool" where
  "stock_moves tpc c s items d ok d' \<longleftrightarrow>
     (ok \<longleftrightarrow> accepted c (in_stock d items) (stock_phase tpc d s)) \<and>
     stock_phase tpc d' s = next_phase c (in_stock d items) (stock_phase tpc d s) \<and>
     stock_record (tpc s) d' s items \<and> other_sagas_kept s d d' \<and>
     stock_shift (\<lambda>i. holds (stock_phase tpc d s) (qty items i) - holds (stock_phase tpc d' s) (qty items i)) d d'"

definition stock_room :: "(string \<Rightarrow> bool) \<Rightarrow> string \<Rightarrow> item_list \<Rightarrow> keyspace \<Rightarrow> bool" where
  "stock_room tpc s items d \<longleftrightarrow> (\<forall>i. let h = holds (stock_phase tpc d s) (qty items i) in
     int64_min \<le> stock_level d i + h - qty items i \<and> stock_level d i + h \<le> int64_max)"

lemma room_counters:
  assumes "stock_room tpc s items d" "valid_items items"
  shows "stock_phase tpc d s = Fresh \<or> stock_phase tpc d s = Undone \<Longrightarrow> no_overflow (\<lambda>i. - qty items i) d"
    and "stock_phase tpc d s = Held \<or> stock_phase tpc d s = Final \<Longrightarrow> no_overflow (qty items) d"
proof -
  have "- (2 ^ 63) \<le> v + h - qty items i \<and> v + h \<le> 2 ^ 63 - 1 \<and> 0 \<le> qty items i"
    if "avail d i = Some v" "h = holds (stock_phase tpc d s) (qty items i)" for i v h
    using assms(1) that qty_nonneg [OF assms(2), of i] by (auto simp: stock_room_def stock_level_def Let_def int64_min_def int64_max_def dest: spec [of _ i])
  note room = this
  show "stock_phase tpc d s = Fresh \<or> stock_phase tpc d s = Undone \<Longrightarrow> no_overflow (\<lambda>i. - qty items i) d"
    using room by (fastforce simp: no_overflow_def in64_def)
  show "stock_phase tpc d s = Held \<or> stock_phase tpc d s = Final \<Longrightarrow> no_overflow (qty items) d"
    using room by (fastforce simp: no_overflow_def in64_def)
qed

lemma moves_refl:
  "stock_record (tpc s) d s items \<Longrightarrow> next_phase c (in_stock d items) (stock_phase tpc d s) = stock_phase tpc d s \<Longrightarrow>
     ok = accepted c (in_stock d items) (stock_phase tpc d s) \<Longrightarrow> stock_moves tpc c s items d ok d"
  by (simp add: stock_moves_def other_sagas_refl stock_shift_refl)

context redis_server begin

lemma prepare_moves:
  assumes "tpc s" "valid_items items" "known_items d items" "stock_record (tpc s) d s items" "0 < ttl" "in64 ttl"
  shows "case_prod (stock_moves tpc Take s items d) (script_outcome (stock_script rc ttl True Take s items d))"
proof -
  have open2: "stock_2pc_open d s" using assms(1,4) by (simp add: stock_record_def)
  obtain r d' where r: "stock_script rc ttl True Take s items d = (Inr r, d')"
    and spec: "if stock_status d s = Some (Text ''prepared'') then r = 1 \<and> d' = d
     else if decided (stock_status d s) \<or> \<not> in_stock d items then r = 0 \<and> d' = d
     else r = 1 \<and> charged s items d d' \<and> stock_status d' s = Some (Text ''prepared'') \<and> stock_2pc_open d' s"
    using prepare_spec [OF assms(2) known_items_typed [OF assms(3)] open2 assms(5,6)] by auto
  have "stock_moves tpc Take s items d (r = 1) d'"
  proof (cases "phase_2pc (stock_status d s) = Fresh \<and> in_stock d items")
    case False
    then have "d' = d \<and> (r = 1 \<longleftrightarrow> phase_2pc (stock_status d s) = Held)"
      using spec by (auto simp: decided_def phase_2pc_def split: if_splits)
    with False assms(1,4) show ?thesis by (auto simp: stock_phase_def intro!: moves_refl)
  next
    case True
    then have "r = 1 \<and> charged s items d d' \<and> stock_status d' s = Some (Text ''prepared'') \<and> stock_2pc_open d' s"
      using spec by (simp add: decided_def phase_2pc_def split: if_splits)
    with True assms(1) show ?thesis
      by (auto simp: stock_moves_def stock_phase_def stock_record_def charged_def)
  qed
  with r show ?thesis by (simp add: script_outcome_def)
qed

lemma commit_moves:
  assumes "tpc s" "valid_items items" "in64 (int (length items))" "known_items d items"
    "stock_record (tpc s) d s items" "stock_room tpc s items d"
  shows "case_prod (stock_moves tpc Confirm s items d) (script_outcome (stock_script rc ttl True Confirm s items d))"
proof -
  have ph: "stock_phase tpc d s = phase_2pc (stock_status d s)" using assms(1) by (simp add: stock_phase_def)
  have open2: "stock_2pc_open d s" using assms(1,5) by (simp add: stock_record_def)
  consider "stock_status d s = Some (Text ''committed'')" | "stock_status d s = Some (Text ''prepared'')"
    | "phase_2pc (stock_status d s) \<in> {Fresh, Undone}"
    using phase_2pc_iff by (cases "phase_2pc (stock_status d s)") auto
  then obtain d' where d': "stock_script rc ttl True Confirm s items d = (Inr 1, d')"
    and moves: "stock_moves tpc Confirm s items d True d'"
  proof cases
    case 1
    then have "stock_script rc ttl True Confirm s items d = (Inr 1, d)"
      using assms(2,3) open2 by (simp add: stock_2pc_commit_items status_hget bindE_Inr ret_def)
    with moves_refl [of tpc s d items Confirm True] 1 assms(5) ph show ?thesis by (intro that) simp_all
  next
    case 2
    then obtain d' where "stock_script rc ttl True Confirm s items d = (Inr 1, d')"
      "stock_status d' s = Some (Text ''committed'')" "stock_2pc_open d' s" "other_sagas_kept s d d'"
      "stock_shift (\<lambda>_. 0) d d'" "\<forall>i. stock_amount d' s i = stock_amount d s i"
      using commit_spec [OF assms(2) open2 assms(3)] by auto
    with 2 assms(1,5) ph show ?thesis
      by (intro that) (auto simp: stock_moves_def stock_phase_def stock_record_def recorded_def)
  next
    case 3
    then have "stock_status d s \<noteq> Some (Text ''prepared'')" "stock_status d s \<noteq> Some (Text ''committed'')" by auto
    moreover have "no_overflow (\<lambda>i. - qty items i) d" using 3 room_counters(1) [OF assms(6,2)] ph by auto
    ultimately obtain d' where "stock_script rc ttl True Confirm s items d = (Inr 1, d')"
      "stock_status d' s = Some (Text ''committed'')" "stock_2pc_open d' s" "charged s items d d'"
      using commit_spec [OF assms(2) open2 assms(3)] assms(4) by auto
    with 3 assms(1) ph show ?thesis
      by (intro that) (auto simp: stock_moves_def stock_phase_def stock_record_def charged_def)
  qed
  then show ?thesis by (simp add: script_outcome_def)
qed

lemma abort_moves:
  assumes "tpc s" "valid_items items" "in64 (int (length items))" "known_items d items"
    "stock_record (tpc s) d s items" "stock_room tpc s items d"
  shows "case_prod (stock_moves tpc Undo s items d) (script_outcome (stock_script rc ttl True Undo s items d))"
proof -
  have ph: "stock_phase tpc d s = phase_2pc (stock_status d s)" using assms(1) by (simp add: stock_phase_def)
  have open2: "stock_2pc_open d s" using assms(1,5) by (simp add: stock_record_def)
  show ?thesis
  proof (cases "stock_status d s = Some (Text ''aborted'')")
    case True
    then have "stock_script rc ttl True Undo s items d = (Inr 1, d)"
      using assms(3) open2 by (simp add: stock_2pc_abort_items status_hget bindE_Inr ret_def)
    with moves_refl [of tpc s d items Undo True] True assms(5) ph show ?thesis by (simp add: script_outcome_def)
  next
    case False
    then have p: "phase_2pc (stock_status d s) \<noteq> Undone" by (simp add: phase_2pc_iff)
    have rec: "recorded d s items \<and> no_overflow (qty items) d \<or> unrecorded d s items"
      using assms(1,5) p room_counters(2) [OF assms(6,2)] ph
      by (auto simp: stock_record_def split: phase.splits)
    obtain d' where d': "stock_script rc ttl True Undo s items d = (Inr 1, d')"
      "stock_status d' s = Some (Text ''aborted'')" "stock_2pc_open d' s" "other_sagas_kept s d d'"
      "stock_shift (if recorded d s items then qty items else (\<lambda>_. 0)) d d'"
      using abort_spec [OF assms(2) open2 assms(3)] rec assms(4) False
      unfolding stock_script.simps append_Cons append_Nil by (simp only: if_False simp_thms) blast
    have "unrecorded d s items \<Longrightarrow> recorded d s items \<Longrightarrow> items = []"
      by (cases items) (auto simp: recorded_def unrecorded_def stock_amount_def counter_def)
    then have "(if recorded d s items then qty items else (\<lambda>_. 0)) = (\<lambda>i. holds (phase_2pc (stock_status d s)) (qty items i))"
      using assms(1,5) p by (auto simp: stock_record_def qty_Nil fun_eq_iff split: phase.splits)
    with d' assms(1) ph show ?thesis
      by (auto simp: script_outcome_def stock_moves_def stock_phase_def stock_record_def)
  qed
qed

lemma execute_moves:
  assumes "\<not> tpc s" "valid_items items" "known_items d items" "stock_record (tpc s) d s items"
  shows "case_prod (stock_moves tpc Take s items d) (script_outcome (stock_script rc ttl False Take s items d))"
proof -
  have ph: "stock_phase tpc d s = phase_saga (stock_saga_status d s)" using assms(1) by (simp add: stock_phase_def)
  obtain st where st: "stock_saga_status d s = Some st" using assms(1,4) by (auto simp: stock_record_def)
  have amounts: "st \<noteq> Some (Text ''executed'') \<Longrightarrow> hash_of d (stock_amounts_key s) = Some []"
    using assms(1,4) st by (auto simp: stock_record_def phase_saga_iff)
  obtain r d' where r: "stock_script rc ttl False Take s items d = (Inr r, d')"
    and spec: "if st = Some (Text ''executed'') then r = 1 \<and> d' = d
     else if st = Some (Text ''compensated'') \<or> \<not> in_stock d items then r = 0 \<and> d' = d
     else r = 1 \<and> stock_shift (\<lambda>j. - qty items j) d d' \<and> other_sagas_kept s d d' \<and>
       stock_saga_status d' s = Some (Some (Text ''executed'')) \<and>
       hash_of d' (stock_amounts_key s) = Some (amount_texts items)"
    using saga_execute_spec [OF assms(2) known_items_typed [OF assms(3)] st amounts] by auto
  have "stock_moves tpc Take s items d (r = 1) d'"
  proof (cases "phase_saga (Some st) = Fresh \<and> in_stock d items")
    case False
    then have "d' = d \<and> (r = 1 \<longleftrightarrow> phase_saga (Some st) = Held)"
      using spec by (auto simp: phase_saga_def split: if_splits)
    with False assms(4) st ph show ?thesis by (auto intro!: moves_refl)
  next
    case True
    then have "r = 1 \<and> stock_shift (\<lambda>j. - qty items j) d d' \<and> other_sagas_kept s d d' \<and>
       stock_saga_status d' s = Some (Some (Text ''executed'')) \<and>
       hash_of d' (stock_amounts_key s) = Some (amount_texts items)"
      using spec by (simp add: phase_saga_def split: if_splits)
    with True assms(1) st show ?thesis by (auto simp: stock_moves_def stock_phase_def stock_record_def)
  qed
  with r show ?thesis by (simp add: script_outcome_def)
qed

lemma compensate_moves:
  assumes "\<not> tpc s" "valid_items items" "in64 (int (length items))" "known_items d items"
    "stock_record (tpc s) d s items" "stock_room tpc s items d"
  shows "case_prod (stock_moves tpc Undo s items d) (script_outcome (stock_script rc ttl False Undo s items d))"
proof -
  have ph: "stock_phase tpc d s = phase_saga (stock_saga_status d s)" using assms(1) by (simp add: stock_phase_def)
  obtain st where st: "stock_saga_status d s = Some st" using assms(1,5) by (auto simp: stock_record_def)
  let ?held = "if phase_saga (Some st) = Held then items else []"
  have am: "hash_of d (stock_amounts_key s) = Some (amount_texts ?held) \<and> valid_items ?held \<and>
      known_items d ?held \<and> no_overflow (qty ?held) d"
    using assms(1,2,4,5) st ph room_counters(2) [OF assms(6,2)]
    by (auto simp: stock_record_def amount_texts_def valid_items_def known_items_def qty_Nil no_overflow_def avail_def
        dest: counter_in64)
  obtain d' where r: "stock_script rc ttl False Undo s items d = (Inr 1, d')"
    and spec: "if st = Some (Text ''compensated'') then d' = d
     else stock_shift (qty ?held) d d' \<and> other_sagas_kept s d d' \<and>
       stock_saga_status d' s = Some (Some (Text ''compensated'')) \<and> hash_of d' (stock_amounts_key s) = Some []"
    using saga_compensate_spec [OF st assms(3), of ?held] am by auto
  have "stock_moves tpc Undo s items d True d'"
  proof (cases "st = Some (Text ''compensated'')")
    case True
    with spec assms(5) st ph show ?thesis by (auto intro!: moves_refl)
  next
    case False
    have "qty ?held = (\<lambda>i. holds (phase_saga (Some st)) (qty items i))"
      using phase_saga_iff(3) [of "Some st"] by (auto simp: qty_Nil holds_def fun_eq_iff)
    with False spec assms(1) st ph show ?thesis
      by (auto simp: stock_moves_def stock_phase_def stock_record_def simp del: if_split)
  qed
  with r show ?thesis by (simp add: script_outcome_def)
qed

end

section \<open>The stock database implements the participant contract\<close>

locale stock_ledger = redis_server "cl_rc cl" for cl :: redis_client +
  fixes ttl :: int and tpc :: "string \<Rightarrow> bool" and reqs :: "string \<Rightarrow> item_list" and sagas :: "string set"
  assumes finite_sagas: "finite sagas"
    and ttl_pos: "0 < ttl" "in64 ttl"
    and reqs_valid: "s \<in> sagas \<Longrightarrow> valid_items (reqs s) \<and> in64 (int (length (reqs s)))"
begin

lemma step_moves:
  assumes "stock_good tpc reqs sagas d" "(c, s) \<in> protocol_cmds tpc sagas" "stock_room tpc s (reqs s) d"
  shows "case_prod (stock_moves tpc c s (reqs s) d) (stock_step (cl_rc cl) ttl tpc reqs c s d)"
proof -
  have s: "s \<in> sagas" "c = Confirm \<Longrightarrow> tpc s" using assms(2) by (auto simp: protocol_cmds_def)
  then have v: "valid_items (reqs s)" "in64 (int (length (reqs s)))" "known_items d (reqs s)"
    "stock_record (tpc s) d s (reqs s)"
    using reqs_valid assms(1) by (auto simp: stock_good_def)
  show ?thesis
  proof (cases "tpc s")
    case True
    with v assms(3) ttl_pos prepare_moves commit_moves abort_moves show ?thesis
      by (cases c) (auto simp only: stock_step_def)
  next
    case False
    with v assms(3) s(2) execute_moves [of tpc s "reqs s" d ttl] compensate_moves [of tpc s "reqs s" d ttl]
    show ?thesis by (cases c) (simp_all add: stock_step_def)
  qed
qed

end

sublocale stock_ledger \<subseteq> stock: participant "protocol_cmds tpc sagas" "stock_step (cl_rc cl) ttl tpc reqs" sagas
  "stock_good tpc reqs sagas" "stock_phase tpc" "\<lambda>d s. in_stock d (reqs s)" stock_level "\<lambda>s. qty (reqs s)"
  int64_min int64_max
proof
  show "finite sagas" by (rule finite_sagas)
  show "s \<in> sagas" if "(c, s) \<in> protocol_cmds tpc sagas" for c s
    using that by (simp add: protocol_cmds_def)
  show "0 \<le> qty (reqs s) r" if "s \<in> sagas" for s r
    using reqs_valid [OF that] qty_nonneg by blast
  show "qty (reqs s) r \<le> stock_level d r"
    if "s \<in> sagas" "in_stock d (reqs s)" "0 < qty (reqs s) r" for s d r
    using reqs_valid [OF that(1)] that in_stock_qty by blast
next
  fix d c s ok d'
  assume good: "stock_good tpc reqs sagas d" and cmd: "(c, s) \<in> protocol_cmds tpc sagas"
    and step: "stock_step (cl_rc cl) ttl tpc reqs c s d = (ok, d')"
    and room: "\<And>r. int64_min \<le> stock_level d r + holds (stock_phase tpc d s) (qty (reqs s) r) - qty (reqs s) r \<and>
      stock_level d r + holds (stock_phase tpc d s) (qty (reqs s) r) \<le> int64_max"
  have s: "s \<in> sagas" using cmd by (simp add: protocol_cmds_def)
  have m: "stock_moves tpc c s (reqs s) d ok d'"
    using step_moves [OF good cmd] step room by (simp add: stock_room_def Let_def)
  then have kept: "other_sagas_kept s d d'" and shift: "stock_shift (\<lambda>i. holds (stock_phase tpc d s) (qty (reqs s) i)
      - holds (stock_phase tpc d' s) (qty (reqs s) i)) d d'"
    by (auto simp: stock_moves_def)
  have "stock_record (tpc s') d' s' (reqs s')" if "s' \<in> sagas" for s'
    using that good m other_record(1) [OF kept] by (cases "s' = s") (auto simp: stock_good_def stock_moves_def)
  then have "stock_good tpc reqs sagas d'"
    using good known_shift [OF shift] by (simp add: stock_good_def)
  moreover have "stock_level d' r = stock_level d r + holds (stock_phase tpc d s) (qty (reqs s) r)
      - holds (stock_phase tpc d' s) (qty (reqs s) r)" for r
    using stock_level_shift [OF shift, of r] good s qty_known [of d "reqs s" r]
    by (fastforce simp: stock_good_def holds_def)
  ultimately show "stock_good tpc reqs sagas d' \<and> ok = accepted c (in_stock d (reqs s)) (stock_phase tpc d s) \<and>
      stock_phase tpc d' s = next_phase c (in_stock d (reqs s)) (stock_phase tpc d s) \<and>
      (\<forall>s' \<in> sagas. s' \<noteq> s \<longrightarrow> stock_phase tpc d' s' = stock_phase tpc d s') \<and>
      (\<forall>r. stock_level d' r = stock_level d r + holds (stock_phase tpc d s) (qty (reqs s) r)
        - holds (stock_phase tpc d' s) (qty (reqs s) r))"
    using m other_record(2) [OF kept] by (auto simp: stock_moves_def)
qed


section \<open>The command handler performs these operations\<close>

text \<open>A message that asks for operation \<open>c\<close> on saga \<open>s\<close>.\<close>

definition stock_asks :: "bool \<Rightarrow> int \<Rightarrow> op \<Rightarrow> string \<Rightarrow> item_list \<Rightarrow> dict \<Rightarrow> bool" where
  "stock_asks two ttl c s items msg \<longleftrightarrow> text_field msg ''action'' [] = Inr (action_of two c) \<and>
     text_field msg ''saga_id'' [] = Inr s \<and> parse_items msg = Inr items \<and>
     (two \<and> c = Take \<longrightarrow> int_field msg ''ttl'' ''30'' = Inr ttl) \<and> (c = Confirm \<longrightarrow> two)"

lemma stock_handle_normal:
  assumes "stock_asks two ttl c s items msg"
  shows "stock_handle_command cl msg = run_command cl two c (stock_script (cl_rc cl) ttl two c s items)"
  using assms unfolding stock_asks_def
  by (cases two; cases c) (simp_all add: stock_handle_command_def stock_do_prepare_def stock_do_commit_def
      stock_do_abort_def stock_do_execute_def stock_do_compensate_def run_command_def Let_def bindE_assoc cong: if_cong)

text \<open>Every message asks for a command of the protocols.\<close>

definition stock_traffic :: "int \<Rightarrow> (string \<Rightarrow> bool) \<Rightarrow> (string \<Rightarrow> item_list) \<Rightarrow> string set \<Rightarrow> dict \<Rightarrow> bool" where
  "stock_traffic ttl tpc reqs sagas msg \<longleftrightarrow>
     (\<exists>(c, s) \<in> protocol_cmds tpc sagas. stock_asks (tpc s) ttl c s (reqs s) msg)"

definition stock_workload :: "int \<Rightarrow> (string \<Rightarrow> item_list) \<Rightarrow> string set \<Rightarrow> bool" where
  "stock_workload ttl reqs sagas \<longleftrightarrow> finite sagas \<and> 0 < ttl \<and> in64 ttl \<and>
     (\<forall>s \<in> sagas. valid_items (reqs s) \<and> in64 (int (length (reqs s))))"

definition stock_total :: "(string \<Rightarrow> bool) \<Rightarrow> (string \<Rightarrow> item_list) \<Rightarrow> string set \<Rightarrow> keyspace \<Rightarrow> string \<Rightarrow> int" where
  "stock_total tpc reqs sagas d i = stock_level d i + (\<Sum>s \<in> sagas. holds (stock_phase tpc d s) (qty (reqs s) i))"

definition stock_sound :: "(string \<Rightarrow> bool) \<Rightarrow> (string \<Rightarrow> item_list) \<Rightarrow> string set \<Rightarrow> keyspace \<Rightarrow> bool" where
  "stock_sound tpc reqs sagas d \<longleftrightarrow> stock_good tpc reqs sagas d \<and>
     (\<forall>i. int64_min \<le> stock_total tpc reqs sagas d i - (\<Sum>s \<in> sagas. qty (reqs s) i) \<and>
          stock_total tpc reqs sagas d i \<le> int64_max)"

lemma stock_ledgerI: "redis_server (cl_rc cl) \<Longrightarrow> stock_workload ttl reqs sagas \<Longrightarrow> stock_ledger cl ttl reqs sagas"
  by (simp add: stock_ledger_def stock_ledger_axioms_def stock_workload_def)

sublocale stock_ledger \<subseteq> stock: command_service "protocol_cmds tpc sagas" "stock_step (cl_rc cl) ttl tpc reqs" sagas
  "stock_good tpc reqs sagas" "stock_phase tpc" "\<lambda>d s. in_stock d (reqs s)" stock_level "\<lambda>s. qty (reqs s)"
  int64_min int64_max "stock_handle_nats cl" "\<lambda>c s. stock_asks (tpc s) ttl c s (reqs s)" "\<lambda>c s. event_of (tpc s) c"
proof
  fix c s msg st r st'
  assume a: "stock_asks (tpc s) ttl c s (reqs s) msg" and h: "stock_handle_nats cl msg st = (r, st')"
  have "snd (stock_script (cl_rc cl) ttl (tpc s) c s (reqs s) d) = snd (stock_step (cl_rc cl) ttl tpc reqs c s d)"
    "fst (stock_script (cl_rc cl) ttl (tpc s) c s (reqs s) d) = Inr 1 \<longleftrightarrow> fst (stock_step (cl_rc cl) ttl tpc reqs c s d)" for d
    by (simp_all add: stock_step_def script_outcome_def)
  with run_command_step [OF h [unfolded stock_handle_nats_def stock_handle_normal [OF a]]]
  show "(c_db st' = c_db st \<or> c_db st' = snd (stock_step (cl_rc cl) ttl tpc reqs c s (c_db st))) \<and>
      (\<forall>v. r = Inr v \<and> dict_has v ''event'' (event_of (tpc s) c) \<longrightarrow>
        c_db st' = snd (stock_step (cl_rc cl) ttl tpc reqs c s (c_db st)) \<and>
        (c = Take \<longrightarrow> fst (stock_step (cl_rc cl) ttl tpc reqs c s (c_db st))))"
    by auto
next
  fix s msg
  assume "stock_asks (tpc s) ttl Confirm s (reqs s) msg"
  then show "text_field msg ''action'' [] = Inr ''commit'' \<and> text_field msg ''saga_id'' [] = Inr s"
    by (auto simp: stock_asks_def)
next
  fix c s c' s' msg
  assume a: "stock_asks (tpc s) ttl c s (reqs s) msg" "stock_asks (tpc s') ttl c' s' (reqs s') msg"
  then have s: "s = s'" by (simp add: stock_asks_def)
  then have "action_of (tpc s) c = action_of (tpc s) c'" "c = Confirm \<longrightarrow> tpc s" "c' = Confirm \<longrightarrow> tpc s"
    using a by (simp_all add: stock_asks_def)
  then show "c = c' \<and> s = s'" using s action_of_inject by blast
qed

context stock_ledger begin

lemma total_stock: "stock.total = stock_total tpc reqs sagas"
  by (simp add: stock.total_def stock_total_def fun_eq_iff)

lemma sound_stock: "stock.sound = stock_sound tpc reqs sagas"
  by (simp add: stock.sound_def stock_sound_def total_stock fun_eq_iff)

lemma traffic_stock: "stock.traffic = stock_traffic ttl tpc reqs sagas"
  by (simp add: stock.traffic_def stock_traffic_def fun_eq_iff)

lemmas stock_views = total_stock sound_stock traffic_stock

lemmas deliveries_total = stock.deliveries_total [unfolded stock_views]
lemmas deliveries_sound = stock.deliveries_sound [unfolded stock_views]
lemmas deliveries_nonneg = stock.deliveries_nonneg [unfolded stock_views]
lemmas acknowledged_step = stock.acknowledged_step [unfolded stock_views]
lemmas acknowledged_balance = stock.acknowledged_balance [unfolded stock_views]
lemmas deliveries_keep = stock.deliveries_keep [unfolded stock_views]
lemmas decided_by_message = stock.decided_by_message [unfolded stock_views]
lemmas sourced_undecided = stock.sourced_undecided [unfolded stock_views]
lemmas sourced_answered = stock.sourced_answered [unfolded stock_views]
lemmas sourcedI = stock.sourcedI
lemmas sourced_traffic = stock.sourced_traffic [unfolded stock_views]
lemmas asks_unique = stock.asks_unique
lemmas decision_stands = stock.decision_stands [unfolded stock_views]
lemmas step_snd = stock.step_snd [unfolded stock_views]
lemmas sound_room = stock.sound_room [unfolded stock_views]

text \<open>On a sound database no script fails; only a take can be refused.\<close>

lemma script_returns:
  assumes "stock_sound tpc reqs sagas d" "(c, s) \<in> protocol_cmds tpc sagas"
  shows "\<exists>n d'. stock_script (cl_rc cl) ttl (tpc s) c s (reqs s) d = (Inr n, d') \<and> (n = 1 \<or> c = Take)"
proof -
  have "s \<in> sagas" "c = Confirm \<Longrightarrow> tpc s" using assms(2) by (auto simp: protocol_cmds_def)
  then have v: "valid_items (reqs s)" "known_items d (reqs s)" "stock_record (tpc s) d s (reqs s)"
    using reqs_valid assms(1) by (auto simp: stock_sound_def stock_good_def)
  have "accepted c e p" if "c \<noteq> Take" for e p using that by (cases c) auto
  then have "c \<noteq> Take \<Longrightarrow> fst (stock_step (cl_rc cl) ttl tpc reqs c s d)"
    using step_snd(5) [of d c s] assms by simp
  then have other: "c \<noteq> Take \<Longrightarrow> fst (stock_script (cl_rc cl) ttl (tpc s) c s (reqs s) d) = Inr 1"
    by (simp add: stock_step_def script_outcome_def)
  have "\<exists>n d'. stock_script (cl_rc cl) ttl (tpc s) Take s (reqs s) d = (Inr n, d')"
  proof (cases "tpc s")
    case True
    then have "stock_2pc_open d s" using v(3) by (simp add: stock_record_def)
    then show ?thesis using prepare_spec [OF v(1) known_items_typed [OF v(2)] _ ttl_pos] True by fastforce
  next
    case False
    then obtain st where "stock_saga_status d s = Some st" using v(3) by (auto simp: stock_record_def)
    then show ?thesis
      using saga_execute_spec [OF v(1) known_items_typed [OF v(2)]] v(3) False
      by (fastforce simp: stock_record_def phase_saga_iff)
  qed
  with other show ?thesis by (cases "c = Take") (simp, metis prod.collapse)
qed

text \<open>On a working connection and without faults, the reply and the database are determined.\<close>

lemma handle_online:
  assumes "stock_sound tpc reqs sagas (c_db st)" "(c, s) \<in> protocol_cmds tpc sagas"
    "stock_asks (tpc s) ttl c s (reqs s) msg" "online st" "sv_rules st = []"
  shows "\<exists>st'. c_db st' = snd (stock_step (cl_rc cl) ttl tpc reqs c s (c_db st)) \<and>
    stock_handle_nats cl msg st = (Inr (if accepted c (in_stock (c_db st) (reqs s)) (stock_phase tpc (c_db st) s)
      then PDict [(''saga_id'', dict_get msg ''saga_id'' (Str [])), (''event'', Str (event_of (tpc s) c))]
      else PDict [(''saga_id'', dict_get msg ''saga_id'' (Str [])), (''event'', Str ''failed''),
        (''reason'', Str ''insufficient_stock'')]), st')"
proof -
  let ?sc = "stock_script (cl_rc cl) ttl (tpc s) c s (reqs s)" and ?d = "c_db st"
  obtain n d where n: "?sc ?d = (Inr n, d)" "n = 1 \<or> c = Take"
    using script_returns [OF assms(1,2)] by auto
  have ok: "(c = Take \<longrightarrow> n = 1) \<longleftrightarrow> accepted c (in_stock ?d (reqs s)) (stock_phase tpc ?d s)"
    using step_snd(5) [OF assms(1,2)] n by (auto simp: stock_step_def script_outcome_def)
  have "d = snd (stock_step (cl_rc cl) ttl tpc reqs c s ?d)" using n by (simp add: stock_step_def script_outcome_def)
  with run_command_online [where sc = ?sc, OF assms(4,5) n(1), of "''insufficient_stock''" "dict_get msg ''saga_id'' (Str [])" cl "tpc s" c]
  show ?thesis
    by (auto simp: stock_handle_nats_def stock_handle_normal [OF assms(3)] ok)
qed

lemma handle_online_effect:
  assumes "stock_sound tpc reqs sagas (c_db st)" "(c, s) \<in> protocol_cmds tpc sagas"
    "stock_asks (tpc s) ttl c s (reqs s) msg" "online st" "sv_rules st = []"
  shows "\<exists>v st'. stock_handle_nats cl msg st = (Inr v, st') \<and>
    (if accepted c (in_stock (c_db st) (reqs s)) (stock_phase tpc (c_db st) s)
     then dict_has v ''event'' (event_of (tpc s) c)
     else dict_has v ''event'' ''failed'' \<and> dict_has v ''reason'' ''insufficient_stock'') \<and>
    stock_phase tpc (c_db st') s =
      next_phase c (in_stock (c_db st) (reqs s)) (stock_phase tpc (c_db st) s) \<and>
    (\<forall>i. stock_level (c_db st') i = stock_level (c_db st) i
       + holds (stock_phase tpc (c_db st) s) (qty (reqs s) i)
       - holds (stock_phase tpc (c_db st') s) (qty (reqs s) i))"
proof -
  obtain st' where st': "c_db st' = snd (stock_step (cl_rc cl) ttl tpc reqs c s (c_db st))"
    "stock_handle_nats cl msg st = (Inr (if accepted c (in_stock (c_db st) (reqs s)) (stock_phase tpc (c_db st) s)
      then PDict [(''saga_id'', dict_get msg ''saga_id'' (Str [])), (''event'', Str (event_of (tpc s) c))]
      else PDict [(''saga_id'', dict_get msg ''saga_id'' (Str [])), (''event'', Str ''failed''),
        (''reason'', Str ''insufficient_stock'')]), st')"
    using handle_online [OF assms] by blast
  show ?thesis
    by (intro exI conjI, rule st'(2))
      (use st'(1) step_snd(2,4) [of "c_db st" c s] assms(1,2) in \<open>auto simp: dict_has_def dict_get_def\<close>)
qed

end

section \<open>A database without records\<close>

lemma stock_sound_fresh:
  assumes "\<And>s. s \<in> sagas \<Longrightarrow> entries d (stock_status_key s) = None \<and> entries d (stock_amounts_key s) = None"
    and "\<And>s. s \<in> sagas \<Longrightarrow> known_items d (reqs s)"
    and "\<And>i. int64_min \<le> stock_level d i - (\<Sum>s \<in> sagas. qty (reqs s) i) \<and> stock_level d i \<le> int64_max"
  shows "stock_sound tpc reqs sagas d" "s \<in> sagas \<Longrightarrow> stock_phase tpc d s = Fresh"
proof -
  have v: "stock_status d s = None" "stock_saga_status d s = Some None" "hash_of d (stock_status_key s) = Some []"
    "hash_of d (stock_amounts_key s) = Some []" "field d (stock_status_key s) f = None" if "s \<in> sagas" for s f
    using assms(1) [OF that] by (simp_all add: stock_status_def field_def stock_saga_status_def text_of_def hash_of_def)
  then have f: "stock_phase tpc d s = Fresh" if "s \<in> sagas" for s
    using that by (simp add: stock_phase_def phase_saga_def)
  have "stock_record (tpc s) d s (reqs s)" if "s \<in> sagas" for s
    using v [OF that] by (auto simp: stock_record_def stock_2pc_open_def unrecorded_def list_all_iff phase_saga_def)
  with f assms(2,3) show "stock_sound tpc reqs sagas d"
    by (simp add: stock_sound_def stock_good_def stock_total_def)
  show "stock_phase tpc d s = Fresh" if "s \<in> sagas" by (rule f [OF that])
qed

text \<open>The message a checkout sends: \<open>saga_id\<close>, the stock payload, the action.\<close>

definition stock_message :: "bool \<Rightarrow> int \<Rightarrow> op \<Rightarrow> string \<Rightarrow> item_list \<Rightarrow> dict" where
  "stock_message two ttl c s items = [(''saga_id'', Str s)] @
     (if items = [] then [] else [(''items'', command_items items)]) @
     [(''ttl'', Str (show_int ttl)), (''action'', Str (action_of two c))]"

lemma stock_message_asks: "c = Confirm \<longrightarrow> two \<Longrightarrow> stock_asks two ttl c s items (stock_message two ttl c s items)"
proof -
  have "parse_items (stock_message two ttl c s items) = Inr items"
  proof (cases "items = []")
    case True
    then show ?thesis by (simp add: parse_items_absent stock_message_def)
  next
    case False
    then show ?thesis by (intro parse_items_command) (simp add: stock_message_def dict_get_def)
  qed
  then show "c = Confirm \<longrightarrow> two \<Longrightarrow> ?thesis"
    by (simp add: stock_asks_def stock_message_def text_field_def int_field_def dict_get_def)
qed

end
