(* ===== verification/PaymentLedger.thy ===== *)
theory PaymentLedger
  imports PaymentService Deliveries
begin

text \<open>
  The payment database as a participant: the same contract as the stock database, for the credit
  of users. \<open>reqs s\<close> is the user saga \<open>s\<close> charges and the amount.
\<close>

section \<open>The scripts as participant operations\<close>

fun payment_script :: "redis \<Rightarrow> int \<Rightarrow> bool \<Rightarrow> op \<Rightarrow> string \<Rightarrow> string \<times> int \<Rightarrow> int script" where
  "payment_script rc ttl True Take s (u, a) =
     payment_2pc_prepare rc (payment_2pc_keys s u) [show_int a, s, u, show_int ttl]"
| "payment_script rc ttl True Confirm s (u, a) =
     payment_2pc_commit rc (payment_2pc_keys s u) [s, show_int a, u]"
| "payment_script rc ttl True Undo s (u, a) =
     payment_2pc_abort rc (payment_2pc_keys s u) [s]"
| "payment_script rc ttl False Take s (u, a) =
     payment_saga_execute rc (payment_saga_keys s u) [show_int a, s, u]"
| "payment_script rc ttl False Confirm s (u, a) = throw (ErrReply ''no such action'')"
| "payment_script rc ttl False Undo s (u, a) =
     payment_saga_compensate rc (payment_saga_keys s u) [s]"

definition payment_step :: "redis \<Rightarrow> int \<Rightarrow> (string \<Rightarrow> bool) \<Rightarrow> (string \<Rightarrow> string \<times> int) \<Rightarrow>
    op \<Rightarrow> string \<Rightarrow> keyspace \<Rightarrow> bool \<times> keyspace" where
  "payment_step rc ttl tpc reqs c s d = script_outcome (payment_script rc ttl (tpc s) c s (reqs s) d)"

definition payment_phase :: "(string \<Rightarrow> bool) \<Rightarrow> keyspace \<Rightarrow> string \<Rightarrow> phase" where
  "payment_phase tpc d s =
     (if tpc s then phase_2pc (payment_status d s) else phase_saga (payment_saga_status d s))"

definition credit_level :: "keyspace \<Rightarrow> string \<Rightarrow> int" where
  "credit_level d u = (case credit d u of Some v \<Rightarrow> v | None \<Rightarrow> 0)"

definition charge_of :: "string \<times> int \<Rightarrow> string \<Rightarrow> int" where
  "charge_of r u = (if u = fst r then snd r else 0)"

definition payment_record :: "bool \<Rightarrow> keyspace \<Rightarrow> string \<Rightarrow> string \<times> int \<Rightarrow> bool" where
  "payment_record two d s r \<longleftrightarrow> (if two
     then payment_2pc_open d s \<and> (case phase_2pc (payment_status d s) of
         Fresh \<Rightarrow> field d (payment_status_key s) ''amount'' = None
       | Undone \<Rightarrow> True
       | _ \<Rightarrow> payment_amount d s = Some (snd r))
     else payment_saga_status d s \<noteq> None \<and> hash_of d (payment_amounts_key s) =
       Some (if phase_saga (payment_saga_status d s) = Held then [(fst r, Text (show_int (snd r)))] else []))"

definition payment_good :: "(string \<Rightarrow> bool) \<Rightarrow> (string \<Rightarrow> string \<times> int) \<Rightarrow> string set \<Rightarrow> keyspace \<Rightarrow> bool" where
  "payment_good tpc reqs sagas d \<longleftrightarrow>
     (\<forall>s \<in> sagas. credit d (fst (reqs s)) \<noteq> None \<and> payment_record (tpc s) d s (reqs s))"

definition payment_moves :: "(string \<Rightarrow> bool) \<Rightarrow> op \<Rightarrow> string \<Rightarrow> string \<times> int \<Rightarrow> keyspace \<Rightarrow> bool \<Rightarrow> keyspace \<Rightarrow> bool" where
  "payment_moves tpc c s r d ok d' \<longleftrightarrow>
     (ok \<longleftrightarrow> accepted c (affordable d (fst r) (snd r)) (payment_phase tpc d s)) \<and>
     payment_phase tpc d' s = next_phase c (affordable d (fst r) (snd r)) (payment_phase tpc d s) \<and>
     payment_record (tpc s) d' s r \<and> other_payments_kept s d d' \<and>
     credit_shift (fst r) (holds (payment_phase tpc d s) (snd r) - holds (payment_phase tpc d' s) (snd r)) d d'"

definition payment_room :: "(string \<Rightarrow> bool) \<Rightarrow> string \<Rightarrow> string \<times> int \<Rightarrow> keyspace \<Rightarrow> bool" where
  "payment_room tpc s r d \<longleftrightarrow> (\<forall>u. let h = holds (payment_phase tpc d s) (charge_of r u) in
     int64_min \<le> credit_level d u + h - charge_of r u \<and> credit_level d u + h \<le> int64_max)"

definition payment_workload :: "int \<Rightarrow> (string \<Rightarrow> string \<times> int) \<Rightarrow> string set \<Rightarrow> bool" where
  "payment_workload ttl reqs sagas \<longleftrightarrow> finite sagas \<and> 0 < ttl \<and> in64 ttl \<and>
     (\<forall>s \<in> sagas. fst (reqs s) \<noteq> [] \<and> 0 < snd (reqs s) \<and> in64 (snd (reqs s)))"

section \<open>Each script is an operation of the participant\<close>

lemma other_payment_record:
  assumes "other_payments_kept s d d'" "s' \<noteq> s"
  shows "payment_record two d' s' r = payment_record two d s' r" "payment_phase tpc d' s' = payment_phase tpc d s'"
proof -
  have e: "entries d' (payment_status_key s') = entries d (payment_status_key s')"
    "entries d' (payment_amounts_key s') = entries d (payment_amounts_key s')"
    using assms by (auto simp: other_payments_kept_def)
  show "payment_record two d' s' r = payment_record two d s' r" "payment_phase tpc d' s' = payment_phase tpc d s'"
    by (simp_all add: payment_record_def payment_phase_def payment_status_def payment_saga_status_def
        payment_2pc_open_def payment_amount_def view_cong [OF e(1)] view_cong [OF e(2)] cong: phase.case_cong)
qed

lemma payment_counters:
  assumes "payment_room tpc s r d" "0 < snd r" "credit d (fst r) = Some v"
  shows "payment_phase tpc d s = Fresh \<or> payment_phase tpc d s = Undone \<Longrightarrow> in64 (v - snd r)"
    and "payment_phase tpc d s = Held \<or> payment_phase tpc d s = Final \<Longrightarrow> in64 (v + snd r)"
proof -
  let ?h = "holds (payment_phase tpc d s) (snd r)"
  have b: "- (2 ^ 63) \<le> v + ?h - snd r \<and> v + ?h \<le> 2 ^ 63 - 1"
    using assms(1,3) by (auto simp: payment_room_def credit_level_def charge_of_def int64_min_def int64_max_def Let_def
        dest!: spec [of _ "fst r"])
  show "payment_phase tpc d s = Fresh \<or> payment_phase tpc d s = Undone \<Longrightarrow> in64 (v - snd r)"
    using b assms(2) by (auto simp: in64_def)
  show "payment_phase tpc d s = Held \<or> payment_phase tpc d s = Final \<Longrightarrow> in64 (v + snd r)"
    using b assms(2) by (auto simp: in64_def)
qed

lemma payment_moves_refl:
  "payment_record (tpc s) d s r \<Longrightarrow>
     next_phase c (affordable d (fst r) (snd r)) (payment_phase tpc d s) = payment_phase tpc d s \<Longrightarrow>
     ok = accepted c (affordable d (fst r) (snd r)) (payment_phase tpc d s) \<Longrightarrow> payment_moves tpc c s r d ok d"
  by (simp add: payment_moves_def other_payments_refl credit_shift_refl)

context redis_server begin

lemma payment_prepare_moves:
  assumes "tpc s" "0 < a" "in64 a" "credit d u \<noteq> None" "payment_record (tpc s) d s (u, a)" "0 < ttl" "in64 ttl"
  shows "case_prod (payment_moves tpc Take s (u, a) d) (script_outcome (payment_script rc ttl True Take s (u, a) d))"
proof -
  have ph: "payment_phase tpc d s = phase_2pc (payment_status d s)" using assms(1) by (simp add: payment_phase_def)
  have open2: "payment_2pc_open d s" using assms(1,5) by (simp add: payment_record_def)
  have typed: "user_typed d u" using assms(4) by (auto simp: user_typed_def credit_def dest: counter_hash)
  obtain r d' where r: "payment_script rc ttl True Take s (u, a) d = (Inr r, d')"
    and spec: "if payment_status d s = Some (Text ''prepared'') then r = 1 \<and> d' = d
     else if payment_status d s = Some (Text ''aborted'') \<or> payment_status d s = Some (Text ''committed'') \<or>
       \<not> affordable d u a then r = 0 \<and> d' = d
     else r = 1 \<and> charge_credit s u a d d' \<and> payment_status d' s = Some (Text ''prepared'') \<and> payment_2pc_open d' s"
    using payment_prepare_spec [OF _ assms(3) typed open2 assms(6,7)] assms(2) by auto
  have "payment_moves tpc Take s (u, a) d (r = 1) d'"
  proof (cases "phase_2pc (payment_status d s) = Fresh \<and> affordable d u a")
    case False
    then have "d' = d \<and> (r = 1 \<longleftrightarrow> phase_2pc (payment_status d s) = Held)"
      using spec by (auto simp: phase_2pc_def split: if_splits)
    with False assms(5) ph show ?thesis by (auto intro!: payment_moves_refl)
  next
    case True
    then have "r = 1 \<and> charge_credit s u a d d' \<and> payment_status d' s = Some (Text ''prepared'') \<and> payment_2pc_open d' s"
      using spec by (simp add: phase_2pc_def split: if_splits)
    with True assms(1) show ?thesis
      by (auto simp: payment_moves_def payment_phase_def payment_record_def charge_credit_def)
  qed
  with r show ?thesis by (simp add: script_outcome_def)
qed

lemma payment_commit_moves:
  assumes "tpc s" "0 < a" "in64 a" "credit d u \<noteq> None" "payment_record (tpc s) d s (u, a)"
    "payment_room tpc s (u, a) d"
  shows "case_prod (payment_moves tpc Confirm s (u, a) d) (script_outcome (payment_script rc ttl True Confirm s (u, a) d))"
proof -
  have ph: "payment_phase tpc d s = phase_2pc (payment_status d s)" using assms(1) by (simp add: payment_phase_def)
  have open2: "payment_2pc_open d s" using assms(1,5) by (simp add: payment_record_def)
  obtain v where v: "credit d u = Some v" using assms(4) by auto
  consider "payment_status d s = Some (Text ''committed'')" | "payment_status d s = Some (Text ''prepared'')"
    | "phase_2pc (payment_status d s) \<in> {Fresh, Undone}"
    using phase_2pc_iff by (cases "phase_2pc (payment_status d s)") auto
  then obtain d' where d': "payment_script rc ttl True Confirm s (u, a) d = (Inr 1, d')"
    and moves: "payment_moves tpc Confirm s (u, a) d True d'"
  proof cases
    case 1
    then have "payment_script rc ttl True Confirm s (u, a) d = (Inr 1, d)"
      using open2 by (simp add: payment_2pc_commit_def payment_2pc_keys_def lua_at_def payment_status_hget bindE_Inr ret_def)
    with payment_moves_refl [of tpc s d "(u, a)" Confirm True] 1 assms(5) ph show ?thesis by (intro that) simp_all
  next
    case 2
    then obtain d' where "payment_script rc ttl True Confirm s (u, a) d = (Inr 1, d')"
      "payment_status d' s = Some (Text ''committed'')" "payment_2pc_open d' s" "other_payments_kept s d d'"
      "credit_shift u 0 d d'" "payment_amount d' s = payment_amount d s"
      using payment_commit_spec [OF assms(2,3) open2] by auto
    with 2 assms(1,5) ph show ?thesis
      by (intro that) (auto simp: payment_moves_def payment_phase_def payment_record_def)
  next
    case 3
    then have "payment_status d s \<noteq> Some (Text ''prepared'')" "payment_status d s \<noteq> Some (Text ''committed'')" by auto
    moreover have "in64 (v - a)" using 3 payment_counters(1) [OF assms(6), of v] assms(2) v ph by auto
    ultimately obtain d' where "payment_script rc ttl True Confirm s (u, a) d = (Inr 1, d')"
      "payment_status d' s = Some (Text ''committed'')" "payment_2pc_open d' s" "charge_credit s u a d d'"
      using payment_commit_spec [OF assms(2,3) open2] v by auto
    with 3 assms(1) ph show ?thesis
      by (intro that) (auto simp: payment_moves_def payment_phase_def payment_record_def charge_credit_def)
  qed
  then show ?thesis by (simp add: script_outcome_def)
qed

lemma payment_abort_moves:
  assumes "tpc s" "0 < a" "credit d u \<noteq> None" "payment_record (tpc s) d s (u, a)" "payment_room tpc s (u, a) d"
  shows "case_prod (payment_moves tpc Undo s (u, a) d) (script_outcome (payment_script rc ttl True Undo s (u, a) d))"
proof -
  have ph: "payment_phase tpc d s = phase_2pc (payment_status d s)" using assms(1) by (simp add: payment_phase_def)
  have open2: "payment_2pc_open d s" using assms(1,4) by (simp add: payment_record_def)
  obtain v where v: "credit d u = Some v" using assms(3) by auto
  show ?thesis
  proof (cases "payment_status d s = Some (Text ''aborted'')")
    case True
    then have "payment_script rc ttl True Undo s (u, a) d = (Inr 1, d)"
      using open2 by (simp add: payment_2pc_abort_def payment_2pc_keys_def lua_at_def payment_status_hget bindE_Inr ret_def)
    with payment_moves_refl [of tpc s d "(u, a)" Undo True] True assms(4) ph show ?thesis
      by (simp add: script_outcome_def)
  next
    case False
    then have p: "phase_2pc (payment_status d s) \<noteq> Undone" by (simp add: phase_2pc_iff)
    have "phase_2pc (payment_status d s) = Fresh \<and> field d (payment_status_key s) ''amount'' = None \<or>
        payment_amount d s = Some a \<and> in64 (v + a) \<and> phase_2pc (payment_status d s) \<in> {Held, Final}"
      using assms(1,2,4) p payment_counters(2) [OF assms(5), of v] v ph
      by (auto simp: payment_record_def split: phase.splits)
    note rec = this
    then have "(\<exists>a v. payment_amount d s = Some a \<and> credit d u = Some v \<and> in64 (v + a)) \<or>
        field d (payment_status_key s) ''amount'' = None" using v by auto
    from payment_abort_spec [OF open2 this] False
    obtain d' where d': "payment_script rc ttl True Undo s (u, a) d = (Inr 1, d')"
      "payment_status d' s = Some (Text ''aborted'')" "payment_2pc_open d' s" "other_payments_kept s d d'"
      "credit_shift u (case payment_amount d s of Some a \<Rightarrow> a | None \<Rightarrow> 0) d d'" by auto
    have "(case payment_amount d s of Some a \<Rightarrow> a | None \<Rightarrow> 0) = holds (phase_2pc (payment_status d s)) a"
      using rec by (auto simp: payment_amount_def counter_def)
    with d' assms(1) ph show ?thesis
      by (simp add: script_outcome_def payment_moves_def payment_phase_def payment_record_def)
  qed
qed

lemma payment_execute_moves:
  assumes "\<not> tpc s" "0 < a" "in64 a" "credit d u \<noteq> None" "payment_record (tpc s) d s (u, a)"
  shows "case_prod (payment_moves tpc Take s (u, a) d) (script_outcome (payment_script rc ttl False Take s (u, a) d))"
proof -
  have ph: "payment_phase tpc d s = phase_saga (payment_saga_status d s)" using assms(1) by (simp add: payment_phase_def)
  obtain st where st: "payment_saga_status d s = Some st" using assms(1,5) by (auto simp: payment_record_def)
  have typed: "user_typed d u" using assms(4) by (auto simp: user_typed_def credit_def dest: counter_hash)
  have amounts: "st \<noteq> Some (Text ''executed'') \<Longrightarrow> hash_of d (payment_amounts_key s) = Some []"
    using assms(1,5) st by (auto simp: payment_record_def phase_saga_iff)
  obtain r d' where r: "payment_script rc ttl False Take s (u, a) d = (Inr r, d')"
    and spec: "if st = Some (Text ''executed'') then r = 1 \<and> d' = d
     else if st = Some (Text ''compensated'') \<or> \<not> affordable d u a then r = 0 \<and> d' = d
     else r = 1 \<and> credit_shift u (- a) d d' \<and> other_payments_kept s d d' \<and>
       payment_saga_status d' s = Some (Some (Text ''executed'')) \<and>
       hash_of d' (payment_amounts_key s) = Some [(u, Text (show_int a))]"
    using payment_execute_spec [OF _ assms(3) typed st amounts] assms(2) by auto
  have "payment_moves tpc Take s (u, a) d (r = 1) d'"
  proof (cases "phase_saga (Some st) = Fresh \<and> affordable d u a")
    case False
    then have "d' = d \<and> (r = 1 \<longleftrightarrow> phase_saga (Some st) = Held)"
      using spec by (auto simp: phase_saga_def split: if_splits)
    with False assms(5) st ph show ?thesis by (auto intro!: payment_moves_refl)
  next
    case True
    then have "r = 1 \<and> credit_shift u (- a) d d' \<and> other_payments_kept s d d' \<and>
       payment_saga_status d' s = Some (Some (Text ''executed'')) \<and>
       hash_of d' (payment_amounts_key s) = Some [(u, Text (show_int a))]"
      using spec by (simp add: phase_saga_def split: if_splits)
    with True assms(1) st show ?thesis by (auto simp: payment_moves_def payment_phase_def payment_record_def)
  qed
  with r show ?thesis by (simp add: script_outcome_def)
qed

lemma payment_compensate_moves:
  assumes "\<not> tpc s" "0 < a" "in64 a" "credit d u \<noteq> None" "payment_record (tpc s) d s (u, a)"
    "payment_room tpc s (u, a) d"
  shows "case_prod (payment_moves tpc Undo s (u, a) d) (script_outcome (payment_script rc ttl False Undo s (u, a) d))"
proof -
  have ph: "payment_phase tpc d s = phase_saga (payment_saga_status d s)" using assms(1) by (simp add: payment_phase_def)
  obtain st where st: "payment_saga_status d s = Some st" using assms(1,5) by (auto simp: payment_record_def)
  obtain v where v: "credit d u = Some v" using assms(4) by auto
  let ?held = "phase_saga (Some st) = Held" and ?a = "holds (phase_saga (Some st)) a"
  have held: "?a = (if ?held then a else 0)" using phase_saga_iff(3) [of "Some st"] by (auto simp: holds_def)
  have am: "hash_of d (payment_amounts_key s) = Some [] \<and> ?a = 0 \<or>
      hash_of d (payment_amounts_key s) = Some [(u, Text (show_int ?a))] \<and> in64 ?a \<and>
        (\<exists>v. credit d u = Some v \<and> in64 (v + ?a))"
    using assms(1,2,3,5) st v ph payment_counters(2) [OF assms(6), of v] held by (auto simp: payment_record_def)
  from payment_compensate_spec [OF st am]
  obtain d' where r: "payment_script rc ttl False Undo s (u, a) d = (Inr 1, d')"
    and spec: "if st = Some (Text ''compensated'') then d' = d
     else credit_shift u ?a d d' \<and> other_payments_kept s d d' \<and>
       payment_saga_status d' s = Some (Some (Text ''compensated'')) \<and> hash_of d' (payment_amounts_key s) = Some []"
    by auto
  have "payment_moves tpc Undo s (u, a) d True d'"
  proof (cases "st = Some (Text ''compensated'')")
    case True
    with spec assms(5) st ph show ?thesis by (auto intro!: payment_moves_refl)
  next
    case False
    with spec assms(1) st ph show ?thesis
      by (auto simp: payment_moves_def payment_phase_def payment_record_def)
  qed
  with r show ?thesis by (simp add: script_outcome_def)
qed

end

section \<open>The payment database implements the participant contract\<close>

locale payment_ledger = redis_server "cl_rc cl" for cl :: redis_client +
  fixes ttl :: int and tpc :: "string \<Rightarrow> bool" and reqs :: "string \<Rightarrow> string \<times> int" and sagas :: "string set"
  assumes workload: "payment_workload ttl reqs sagas"
begin

lemma step_moves:
  assumes "payment_good tpc reqs sagas d" "(c, s) \<in> protocol_cmds tpc sagas" "payment_room tpc s (reqs s) d"
  shows "case_prod (payment_moves tpc c s (reqs s) d) (payment_step (cl_rc cl) ttl tpc reqs c s d)"
proof -
  obtain u a where r: "reqs s = (u, a)" by (cases "reqs s")
  have s: "s \<in> sagas" "c = Confirm \<Longrightarrow> tpc s" using assms(2) by (auto simp: protocol_cmds_def)
  have v: "0 < a" "in64 a" "0 < ttl" "in64 ttl" "credit d u \<noteq> None" "payment_record (tpc s) d s (u, a)"
    using workload assms(1) s(1) r by (fastforce simp: payment_workload_def payment_good_def)+
  note room = assms(3) [unfolded r]
  show ?thesis
  proof (cases "tpc s")
    case True
    show ?thesis
      using payment_prepare_moves [where tpc = tpc and s = s, OF True v(1,2,5,6,3,4)] payment_commit_moves [where tpc = tpc and s = s, OF True v(1,2,5,6) room, of ttl]
        payment_abort_moves [where tpc = tpc and s = s, OF True v(1,5,6) room, of ttl] True
      by (cases c) (simp_all only: payment_step_def r)
  next
    case False
    then show ?thesis
      using payment_execute_moves [where tpc = tpc and s = s, OF False v(1,2,5,6), of ttl] payment_compensate_moves [where tpc = tpc and s = s, OF False v(1,2,5,6) room, of ttl] s(2)
      by (cases c) (simp_all add: payment_step_def r)
  qed
qed

end

sublocale payment_ledger \<subseteq> payment: participant "protocol_cmds tpc sagas" "payment_step (cl_rc cl) ttl tpc reqs" sagas
  "payment_good tpc reqs sagas" "payment_phase tpc" "\<lambda>d s. affordable d (fst (reqs s)) (snd (reqs s))" credit_level
  "\<lambda>s. charge_of (reqs s)" int64_min int64_max
proof
  show "finite sagas" using workload by (simp add: payment_workload_def)
  show "s \<in> sagas" if "(c, s) \<in> protocol_cmds tpc sagas" for c s
    using that by (simp add: protocol_cmds_def)
  show "0 \<le> charge_of (reqs s) r" if "s \<in> sagas" for s r
    using workload that by (fastforce simp: payment_workload_def charge_of_def)
  show "charge_of (reqs s) r \<le> credit_level d r"
    if "affordable d (fst (reqs s)) (snd (reqs s))" "0 < charge_of (reqs s) r" for s d r
    using that by (auto simp: affordable_def charge_of_def credit_level_def split: option.splits if_splits)
next
  fix d c s ok d'
  assume good: "payment_good tpc reqs sagas d" and cmd: "(c, s) \<in> protocol_cmds tpc sagas"
    and step: "payment_step (cl_rc cl) ttl tpc reqs c s d = (ok, d')"
    and room: "\<And>r. int64_min \<le> credit_level d r + holds (payment_phase tpc d s) (charge_of (reqs s) r) - charge_of (reqs s) r \<and>
      credit_level d r + holds (payment_phase tpc d s) (charge_of (reqs s) r) \<le> int64_max"
  have s: "s \<in> sagas" using cmd by (simp add: protocol_cmds_def)
  have m: "payment_moves tpc c s (reqs s) d ok d'"
    using step_moves [OF good cmd] step room by (simp add: payment_room_def Let_def)
  then have kept: "other_payments_kept s d d'" and shift: "credit_shift (fst (reqs s))
      (holds (payment_phase tpc d s) (snd (reqs s)) - holds (payment_phase tpc d' s) (snd (reqs s))) d d'"
    by (auto simp: payment_moves_def)
  have known: "credit d' u = None \<longleftrightarrow> credit d u = None" for u
    using shift by (auto simp: credit_shift_def split: if_splits)
  have "payment_record (tpc s') d' s' (reqs s')" if "s' \<in> sagas" for s'
    using that good m other_payment_record(1) [OF kept]
    by (cases "s' = s") (auto simp: payment_good_def payment_moves_def)
  then have "payment_good tpc reqs sagas d'"
    using good known by (simp add: payment_good_def)
  moreover have "credit_level d' r = credit_level d r + holds (payment_phase tpc d s) (charge_of (reqs s) r)
      - holds (payment_phase tpc d' s) (charge_of (reqs s) r)" for r
    using shift good s by (auto simp: credit_shift_def credit_level_def charge_of_def payment_good_def holds_def)
  ultimately show "payment_good tpc reqs sagas d' \<and>
      ok = accepted c (affordable d (fst (reqs s)) (snd (reqs s))) (payment_phase tpc d s) \<and>
      payment_phase tpc d' s = next_phase c (affordable d (fst (reqs s)) (snd (reqs s))) (payment_phase tpc d s) \<and>
      (\<forall>s' \<in> sagas. s' \<noteq> s \<longrightarrow> payment_phase tpc d' s' = payment_phase tpc d s') \<and>
      (\<forall>r. credit_level d' r = credit_level d r + holds (payment_phase tpc d s) (charge_of (reqs s) r)
        - holds (payment_phase tpc d' s) (charge_of (reqs s) r))"
    using m other_payment_record(2) [OF kept] by (auto simp: payment_moves_def)
qed

section \<open>The command handler performs these operations\<close>

definition payment_asks :: "bool \<Rightarrow> int \<Rightarrow> op \<Rightarrow> string \<Rightarrow> string \<times> int \<Rightarrow> dict \<Rightarrow> bool" where
  "payment_asks two ttl c s r msg \<longleftrightarrow> text_field msg ''action'' [] = Inr (action_of two c) \<and>
     text_field msg ''saga_id'' [] = Inr s \<and> text_field msg ''user_id'' [] = Inr (fst r) \<and> fst r \<noteq> [] \<and>
     (c \<noteq> Undo \<longrightarrow> int_field msg ''amount'' ''0'' = Inr (snd r)) \<and>
     (two \<and> c = Take \<longrightarrow> int_field msg ''ttl'' ''30'' = Inr ttl) \<and> (c = Confirm \<longrightarrow> two)"

lemma payment_handle_normal:
  assumes "payment_asks two ttl c s r msg"
  shows "payment_handle_command cl msg = run_command cl two c (payment_script (cl_rc cl) ttl two c s r)"
proof (cases r)
  case (Pair u a)
  show ?thesis
    using assms unfolding payment_asks_def Pair
    by (cases two; cases c) (simp_all add: payment_handle_command_def payment_do_prepare_def payment_do_commit_def
        payment_do_abort_def payment_do_execute_def payment_do_compensate_def run_command_def bindE_assoc cong: if_cong)
qed

definition payment_traffic :: "int \<Rightarrow> (string \<Rightarrow> bool) \<Rightarrow> (string \<Rightarrow> string \<times> int) \<Rightarrow> string set \<Rightarrow> dict \<Rightarrow> bool" where
  "payment_traffic ttl tpc reqs sagas msg \<longleftrightarrow>
     (\<exists>(c, s) \<in> protocol_cmds tpc sagas. payment_asks (tpc s) ttl c s (reqs s) msg)"

definition payment_total :: "(string \<Rightarrow> bool) \<Rightarrow> (string \<Rightarrow> string \<times> int) \<Rightarrow> string set \<Rightarrow> keyspace \<Rightarrow> string \<Rightarrow> int" where
  "payment_total tpc reqs sagas d u =
     credit_level d u + (\<Sum>s \<in> sagas. holds (payment_phase tpc d s) (charge_of (reqs s) u))"

definition payment_sound :: "(string \<Rightarrow> bool) \<Rightarrow> (string \<Rightarrow> string \<times> int) \<Rightarrow> string set \<Rightarrow> keyspace \<Rightarrow> bool" where
  "payment_sound tpc reqs sagas d \<longleftrightarrow> payment_good tpc reqs sagas d \<and>
     (\<forall>u. int64_min \<le> payment_total tpc reqs sagas d u - (\<Sum>s \<in> sagas. charge_of (reqs s) u) \<and>
          payment_total tpc reqs sagas d u \<le> int64_max)"

lemma payment_ledgerI: "redis_server (cl_rc cl) \<Longrightarrow> payment_workload ttl reqs sagas \<Longrightarrow> payment_ledger cl ttl reqs sagas"
  by (simp add: payment_ledger_def payment_ledger_axioms_def)

sublocale payment_ledger \<subseteq> payment: command_service "protocol_cmds tpc sagas" "payment_step (cl_rc cl) ttl tpc reqs" sagas
  "payment_good tpc reqs sagas" "payment_phase tpc" "\<lambda>d s. affordable d (fst (reqs s)) (snd (reqs s))" credit_level
  "\<lambda>s. charge_of (reqs s)" int64_min int64_max "payment_handle_nats cl"
  "\<lambda>c s. payment_asks (tpc s) ttl c s (reqs s)" "\<lambda>c s. event_of (tpc s) c"
proof
  fix c s msg st r st'
  assume a: "payment_asks (tpc s) ttl c s (reqs s) msg" and h: "payment_handle_nats cl msg st = (r, st')"
  have "snd (payment_script (cl_rc cl) ttl (tpc s) c s (reqs s) d) = snd (payment_step (cl_rc cl) ttl tpc reqs c s d)"
    "fst (payment_script (cl_rc cl) ttl (tpc s) c s (reqs s) d) = Inr 1 \<longleftrightarrow> fst (payment_step (cl_rc cl) ttl tpc reqs c s d)" for d
    by (simp_all add: payment_step_def script_outcome_def)
  with run_command_step [OF h [unfolded payment_handle_nats_def payment_handle_normal [OF a]]]
  show "(c_db st' = c_db st \<or> c_db st' = snd (payment_step (cl_rc cl) ttl tpc reqs c s (c_db st))) \<and>
      (\<forall>v. r = Inr v \<and> dict_has v ''event'' (event_of (tpc s) c) \<longrightarrow>
        c_db st' = snd (payment_step (cl_rc cl) ttl tpc reqs c s (c_db st)) \<and>
        (c = Take \<longrightarrow> fst (payment_step (cl_rc cl) ttl tpc reqs c s (c_db st))))"
    by auto
next
  fix s msg
  assume "payment_asks (tpc s) ttl Confirm s (reqs s) msg"
  then show "text_field msg ''action'' [] = Inr ''commit'' \<and> text_field msg ''saga_id'' [] = Inr s"
    by (auto simp: payment_asks_def)
next
  fix c s c' s' msg
  assume a: "payment_asks (tpc s) ttl c s (reqs s) msg" "payment_asks (tpc s') ttl c' s' (reqs s') msg"
  then have s: "s = s'" by (simp add: payment_asks_def)
  then have "action_of (tpc s) c = action_of (tpc s) c'" "c = Confirm \<longrightarrow> tpc s" "c' = Confirm \<longrightarrow> tpc s"
    using a by (simp_all add: payment_asks_def)
  then show "c = c' \<and> s = s'" using s action_of_inject by blast
qed

context payment_ledger begin

lemma total_payment: "payment.total = payment_total tpc reqs sagas"
  by (simp add: payment.total_def payment_total_def fun_eq_iff)

lemma sound_payment: "payment.sound = payment_sound tpc reqs sagas"
  by (simp add: payment.sound_def payment_sound_def total_payment fun_eq_iff)

lemma traffic_payment: "payment.traffic = payment_traffic ttl tpc reqs sagas"
  by (simp add: payment.traffic_def payment_traffic_def fun_eq_iff)

lemmas payment_views = total_payment sound_payment traffic_payment

lemmas deliveries_total = payment.deliveries_total [unfolded payment_views]
lemmas deliveries_sound = payment.deliveries_sound [unfolded payment_views]
lemmas deliveries_nonneg = payment.deliveries_nonneg [unfolded payment_views]
lemmas acknowledged_step = payment.acknowledged_step [unfolded payment_views]
lemmas deliveries_keep = payment.deliveries_keep [unfolded payment_views]
lemmas decided_by_message = payment.decided_by_message [unfolded payment_views]
lemmas sourced_undecided = payment.sourced_undecided [unfolded payment_views]
lemmas sourced_answered = payment.sourced_answered [unfolded payment_views]
lemmas sourcedI = payment.sourcedI
lemmas sourced_traffic = payment.sourced_traffic [unfolded payment_views]
lemmas asks_unique = payment.asks_unique
lemmas decision_stands = payment.decision_stands [unfolded payment_views]
lemmas step_snd = payment.step_snd [unfolded payment_views]

text \<open>On a sound database no script fails; only a take can be refused.\<close>

lemma script_returns:
  assumes "payment_sound tpc reqs sagas d" "(c, s) \<in> protocol_cmds tpc sagas"
  shows "\<exists>n d'. payment_script (cl_rc cl) ttl (tpc s) c s (reqs s) d = (Inr n, d') \<and> (n = 1 \<or> c = Take)"
proof -
  obtain u a where r: "reqs s = (u, a)" by (cases "reqs s")
  have s: "s \<in> sagas" "c = Confirm \<Longrightarrow> tpc s" using assms(2) by (auto simp: protocol_cmds_def)
  have v: "0 \<le> a" "in64 a" "0 < ttl" "in64 ttl" "user_typed d u" "payment_record (tpc s) d s (u, a)"
    using workload assms(1) s(1) r
    by (fastforce simp: payment_workload_def payment_sound_def payment_good_def user_typed_def credit_def
        dest: counter_hash)+
  have "accepted c e p" if "c \<noteq> Take" for e p using that by (cases c) auto
  then have "c \<noteq> Take \<Longrightarrow> fst (payment_step (cl_rc cl) ttl tpc reqs c s d)"
    using step_snd(5) [of d c s] assms by simp
  then have other: "c \<noteq> Take \<Longrightarrow> fst (payment_script (cl_rc cl) ttl (tpc s) c s (reqs s) d) = Inr 1"
    by (simp add: payment_step_def script_outcome_def)
  have "\<exists>n d'. payment_script (cl_rc cl) ttl (tpc s) Take s (reqs s) d = (Inr n, d')"
  proof (cases "tpc s")
    case True
    then have "payment_2pc_open d s" using v(6) by (simp add: payment_record_def)
    then show ?thesis using payment_prepare_spec [OF v(1,2,5) _ v(3,4)] True r by fastforce
  next
    case False
    then obtain st where "payment_saga_status d s = Some st" using v(6) by (auto simp: payment_record_def)
    then show ?thesis
      using payment_execute_spec [OF v(1,2,5)] v(6) False r
      by (fastforce simp: payment_record_def phase_saga_iff)
  qed
  with other show ?thesis by (cases "c = Take") (simp, metis prod.collapse)
qed

lemma handle_online:
  assumes "payment_sound tpc reqs sagas (c_db st)" "(c, s) \<in> protocol_cmds tpc sagas"
    "payment_asks (tpc s) ttl c s (reqs s) msg" "online st" "sv_rules st = []"
  shows "\<exists>st'. c_db st' = snd (payment_step (cl_rc cl) ttl tpc reqs c s (c_db st)) \<and>
    payment_handle_nats cl msg st =
      (Inr (if accepted c (affordable (c_db st) (fst (reqs s)) (snd (reqs s))) (payment_phase tpc (c_db st) s)
      then PDict [(''saga_id'', dict_get msg ''saga_id'' (Str [])), (''event'', Str (event_of (tpc s) c))]
      else PDict [(''saga_id'', dict_get msg ''saga_id'' (Str [])), (''event'', Str ''failed''),
        (''reason'', Str ''insufficient_credit'')]), st')"
proof -
  let ?sc = "payment_script (cl_rc cl) ttl (tpc s) c s (reqs s)" and ?d = "c_db st"
  obtain n d where n: "?sc ?d = (Inr n, d)" "n = 1 \<or> c = Take"
    using script_returns [OF assms(1,2)] by auto
  have ok: "(c = Take \<longrightarrow> n = 1) \<longleftrightarrow>
      accepted c (affordable ?d (fst (reqs s)) (snd (reqs s))) (payment_phase tpc ?d s)"
    using step_snd(5) [OF assms(1,2)] n by (auto simp: payment_step_def script_outcome_def)
  have "d = snd (payment_step (cl_rc cl) ttl tpc reqs c s ?d)" using n by (simp add: payment_step_def script_outcome_def)
  with run_command_online [where sc = ?sc, OF assms(4,5) n(1), of "''insufficient_credit''"
      "dict_get msg ''saga_id'' (Str [])" cl "tpc s" c]
  show ?thesis
    by (auto simp: payment_handle_nats_def payment_handle_normal [OF assms(3)] ok)
qed

lemma handle_online_effect:
  assumes "payment_sound tpc reqs sagas (c_db st)" "(c, s) \<in> protocol_cmds tpc sagas"
    "payment_asks (tpc s) ttl c s (reqs s) msg" "online st" "sv_rules st = []"
  shows "\<exists>v st'. payment_handle_nats cl msg st = (Inr v, st') \<and>
    (if accepted c (affordable (c_db st) (fst (reqs s)) (snd (reqs s))) (payment_phase tpc (c_db st) s)
     then dict_has v ''event'' (event_of (tpc s) c)
     else dict_has v ''event'' ''failed'' \<and> dict_has v ''reason'' ''insufficient_credit'') \<and>
    payment_phase tpc (c_db st') s = next_phase c (affordable (c_db st) (fst (reqs s)) (snd (reqs s)))
      (payment_phase tpc (c_db st) s) \<and>
    (\<forall>u. credit_level (c_db st') u = credit_level (c_db st) u
       + holds (payment_phase tpc (c_db st) s) (charge_of (reqs s) u)
       - holds (payment_phase tpc (c_db st') s) (charge_of (reqs s) u))"
proof -
  obtain st' where st': "c_db st' = snd (payment_step (cl_rc cl) ttl tpc reqs c s (c_db st))"
    "payment_handle_nats cl msg st =
      (Inr (if accepted c (affordable (c_db st) (fst (reqs s)) (snd (reqs s))) (payment_phase tpc (c_db st) s)
      then PDict [(''saga_id'', dict_get msg ''saga_id'' (Str [])), (''event'', Str (event_of (tpc s) c))]
      else PDict [(''saga_id'', dict_get msg ''saga_id'' (Str [])), (''event'', Str ''failed''),
        (''reason'', Str ''insufficient_credit'')]), st')"
    using handle_online [OF assms] by blast
  show ?thesis
    by (intro exI conjI, rule st'(2))
      (use st'(1) step_snd(2,4) [of "c_db st" c s] assms(1,2) in \<open>auto simp: dict_has_def dict_get_def\<close>)
qed

end

section \<open>A database without records\<close>

lemma payment_sound_fresh:
  assumes "\<And>s. s \<in> sagas \<Longrightarrow> entries d (payment_status_key s) = None \<and> entries d (payment_amounts_key s) = None"
    and "\<And>s. s \<in> sagas \<Longrightarrow> credit d (fst (reqs s)) \<noteq> None"
    and "\<And>u. int64_min \<le> credit_level d u - (\<Sum>s \<in> sagas. charge_of (reqs s) u) \<and> credit_level d u \<le> int64_max"
  shows "payment_sound tpc reqs sagas d" "s \<in> sagas \<Longrightarrow> payment_phase tpc d s = Fresh"
proof -
  have v: "payment_status d s = None" "payment_saga_status d s = Some None" "hash_of d (payment_status_key s) = Some []"
    "hash_of d (payment_amounts_key s) = Some []" "field d (payment_status_key s) f = None" if "s \<in> sagas" for s f
    using assms(1) [OF that] by (simp_all add: payment_status_def field_def payment_saga_status_def text_of_def hash_of_def)
  then have f: "payment_phase tpc d s = Fresh" if "s \<in> sagas" for s
    using that by (simp add: payment_phase_def phase_saga_def)
  have "payment_record (tpc s) d s (reqs s)" if "s \<in> sagas" for s
    using v [OF that] by (auto simp: payment_record_def payment_2pc_open_def phase_saga_def)
  with f assms(2,3) show "payment_sound tpc reqs sagas d"
    by (simp add: payment_sound_def payment_good_def payment_total_def)
  show "payment_phase tpc d s = Fresh" if "s \<in> sagas" by (rule f [OF that])
qed

text \<open>The message a checkout sends: \<open>saga_id\<close>, the payment payload, the action.\<close>

definition payment_message :: "bool \<Rightarrow> int \<Rightarrow> op \<Rightarrow> string \<Rightarrow> string \<times> int \<Rightarrow> dict" where
  "payment_message two ttl c s r = [(''saga_id'', Str s), (''user_id'', Str (fst r)),
     (''amount'', Str (show_int (snd r))), (''ttl'', Str (show_int ttl)), (''action'', Str (action_of two c))]"

lemma payment_message_asks:
  "c = Confirm \<longrightarrow> two \<Longrightarrow> fst r \<noteq> [] \<Longrightarrow> payment_asks two ttl c s r (payment_message two ttl c s r)"
  by (simp add: payment_asks_def payment_message_def text_field_def int_field_def dict_get_def)

end
