(* ===== verification/EndToEnd.thy ===== *)
theory EndToEnd
  imports CrashRecovery Traces Checkout StockLedger PaymentLedger
begin

text \<open>
  The whole system: the orchestrator of a checkout, a network that may lose, duplicate, delay and reorder
  messages, and the stock and the payment service behind it.
\<close>

section \<open>The messages of a checkout, as the services read them\<close>

definition wire :: "obs \<Rightarrow> dict" where
  "wire e = dict_merge (ob_payload e) [(''action'', Str (ob_action e))]"

text \<open>A context that the payload builders read these items, this user and this amount from.\<close>

definition reads_order :: "dict \<Rightarrow> (string \<times> int) list \<Rightarrow> string \<Rightarrow> int \<Rightarrow> bool" where
  "reads_order ctx items u cost \<longleftrightarrow> dict_get ctx ''items'' (PList []) = PList (map (\<lambda>(i, q). PList [Str i, PInt q]) items) \<and>
     dict_get ctx ''user_id'' (Str []) = Str u \<and> dict_get ctx ''total_cost'' (PInt 0) = PInt cost \<and>
     dict_get ctx ''_reservation_ttl'' (PInt 300) = PInt 300"

lemma checkout_reads:
  "reads_order (checkout_context o' (Str u) items cost) items u cost"
  "reads_order (tpc_data (checkout_context o' (Str u) items cost) name) items u cost"
  by (simp_all add: reads_order_def checkout_context_def tpc_data_def dict_get_def)

lemma checkout_steps: "map service (td_steps checkout_tx) = [''stock'', ''payment'']"
  by (simp add: checkout_tx_def)

lemma wire_stock:
  assumes "made_by s ctx (td_steps checkout_tx) (action_of two c) e" "reads_order ctx items u cost" "ob_service e = ''stock''"
    and "c = Confirm \<longrightarrow> two"
  shows "stock_asks two 300 c s items (wire e)"
proof -
  let ?a = "action_of two c" and ?items = "PList (map (\<lambda>(i, q). PList [Str i, PInt q]) items)"
  let ?i = "if items \<noteq> [] then [(''items'', PStr (json_dumps ?items))] else []"
  have "ob_payload e = [(''saga_id'', Str s)] @ ?i @ [(''ttl'', Str (show_int 300))] \<or>
      ob_payload e = [(''saga_id'', Str s), (''action'', Str ?a)] @ ?i @ [(''ttl'', Str (show_int 300))]"
    using assms(1-3) by (auto simp: made_by_def checkout_tx_def build_payload_def stock_payload_def reads_order_def Let_def)
  moreover have "ob_action e = ?a" using assms(1) by (simp add: made_by_def)
  ultimately have w: "wire e = [(''saga_id'', Str s)] @ ?i @ [(''ttl'', Str (show_int 300)), (''action'', Str ?a)] \<or>
      wire e = [(''saga_id'', Str s), (''action'', Str ?a)] @ ?i @ [(''ttl'', Str (show_int 300))]"
    by (auto simp: wire_def)
  have "parse_items (wire e) = Inr items"
  proof (cases "items = []")
    case True
    then show ?thesis using w by (auto simp: parse_items_absent)
  next
    case False
    then show ?thesis using w by (intro parse_items_command) (auto simp: dict_get_def command_items_def)
  qed
  then show ?thesis using w assms(4) by (auto simp: stock_asks_def text_field_def int_field_def dict_get_def)
qed

lemma wire_payment:
  assumes "made_by s ctx (td_steps checkout_tx) (action_of two c) e" "reads_order ctx items u cost" "ob_service e = ''payment''"
    and "c = Confirm \<longrightarrow> two" "u \<noteq> []"
  shows "payment_asks two 300 c s (u, cost) (wire e)"
proof -
  let ?a = "action_of two c"
  let ?rest = "[(''user_id'', Str u), (''amount'', Str (show_int cost)), (''ttl'', Str (show_int 300))]"
  have "ob_payload e = [(''saga_id'', Str s)] @ ?rest \<or> ob_payload e = [(''saga_id'', Str s), (''action'', Str ?a)] @ ?rest"
    using assms(1-3) by (auto simp: made_by_def checkout_tx_def build_payload_def payment_payload_def reads_order_def)
  moreover have "ob_action e = ?a" using assms(1) by (simp add: made_by_def)
  ultimately have "wire e = [(''saga_id'', Str s)] @ ?rest @ [(''action'', Str ?a)] \<or>
      wire e = [(''saga_id'', Str s), (''action'', Str ?a)] @ ?rest"
    by (auto simp: wire_def)
  then show ?thesis using assms(4,5) by (auto simp: payment_asks_def text_field_def int_field_def dict_get_def)
qed

section \<open>Who makes the messages of a saga, recoveries included\<close>

abbreviation checkout_actions :: "string set" where
  "checkout_actions \<equiv> {''prepare'', ''commit'', ''abort''}"

lemma making_mono: "ctxs \<subseteq> ctxs' \<Longrightarrow> making env s ctxs steps as h e \<Longrightarrow> making env s ctxs' steps as h e"
  by (auto simp: making_def)

lemma sends_recover_saga:
  assumes "tx_def_of defs (PDict D) = Inr (Some tx)" "lstep \<in> {''PREPARING'', ''COMMITTING'', ''ABORTING''}"
  shows "sends (making env s {D} (td_steps tx) checkout_actions) (recover_saga cl (recording s env) defs s lstep (PDict D))"
  using assms(2) sends_abort_commit [OF assms(1), of checkout_actions env s cl] by (auto simp: recover_saga_def)

lemma recoveries_made:
  assumes "recoveries cl env defs s d n d' n'" "redis_server (cl_rc cl)" "tx_def_of defs (PDict D) = Inr (Some tx)"
    and "\<forall>step\<in>set (td_steps tx). builder_ok s D step" "wal_inv d" "CrashRecovery.decided D (td_steps tx) n (wal_map d s)"
    and "grows (making env s {ctx, D} (td_steps tx) checkout_actions) [] n"
  shows "grows (making env s {ctx, D} (td_steps tx) checkout_actions) [] n'"
  using assms
proof (induction rule: recoveries.induct)
  case (again d n d' n' st lstep x r st')
  let ?R = "making env s {ctx, D} (td_steps tx) checkout_actions"
  have "CrashRecovery.decided D (td_steps tx) n' (wal_map d' s)"
    using recoveries_decided [OF again.hyps(1) again.prems(1-5)] by simp
  then have x: "x = D" "lstep \<in> {''PREPARING'', ''COMMITTING'', ''ABORTING''}"
    using again.hyps(4) by (auto simp: CrashRecovery.decided_def)
  have "grows (making env s {D} (td_steps tx) checkout_actions) (net st) (net st')"
    using sends_run [OF sends_recover_saga [OF again.prems(2) x(2)]] again.hyps(5) x(1) by blast
  then have "grows ?R n' (net st')" unfolding again.hyps(3) by (rule grows_mono) (auto intro: making_mono [rotated])
  then show ?case using grows_trans again.IH [OF again.prems] by blast
qed simp

text \<open>A two-phase-commit run of a checkout that was cut short or not, and any number of recoveries.\<close>

definition tpc_checkout :: "redis_client \<Rightarrow> env \<Rightarrow> definitions \<Rightarrow> string \<Rightarrow> string \<Rightarrow> (string \<times> int) list \<Rightarrow> string \<Rightarrow> int \<Rightarrow> obs list \<Rightarrow> bool" where
  "tpc_checkout cl env defs s o' items u cost es \<longleftrightarrow> (\<exists>st r st1 d.
     wal_inv (c_db st) \<and> wal_map (c_db st) s = None \<and> net st = [] \<and>
     two_pc_execute cl (recording s env) checkout_tx s (checkout_context o' (Str u) items cost) ''checkout'' st = (r, st1) \<and>
     recoveries cl env defs s (c_db st1) (net st1) d es)"

lemma checkout_data_builders:
  "\<forall>step\<in>set (td_steps checkout_tx). builder_ok s (tpc_data (checkout_context o' u items cost) name) step"
  by (simp add: checkout_tx_def builder_ok_def stock_payload_def payment_payload_def Let_def checkout_context_def tpc_data_def dict_get_def)

lemma tpc_checkout_history:
  assumes "tpc_checkout cl env defs s o' items u cost es" "redis_server (cl_rc cl)" "map_of defs ''checkout'' = Some checkout_tx"
  defines "ctx \<equiv> checkout_context o' (Str u) items cost"
  shows "\<exists>w. CrashRecovery.decided (tpc_data ctx ''checkout'') (td_steps checkout_tx) es w"
    "e \<in> set es \<Longrightarrow> \<exists>c'\<in>{ctx, tpc_data ctx ''checkout''}. \<exists>a\<in>checkout_actions. made_by s c' (td_steps checkout_tx) a e"
proof -
  let ?D = "tpc_data ctx ''checkout''" and ?ss = "td_steps checkout_tx"
  obtain st r st1 d where st: "wal_inv (c_db st)" "wal_map (c_db st) s = None" "net st = []"
    and run: "two_pc_execute cl (recording s env) checkout_tx s ctx ''checkout'' st = (r, st1)"
    and rec: "recoveries cl env defs s (c_db st1) (net st1) d es"
    using assms(1) unfolding tpc_checkout_def ctx_def by blast
  have ok: "\<forall>step\<in>set ?ss. builder_ok s ctx step" "\<forall>step\<in>set ?ss. builder_ok s ?D step"
    unfolding ctx_def by (rule checkout_builders, rule checkout_data_builders)
  have d1: "wal_inv (c_db st1) \<and> CrashRecovery.decided ?D ?ss (net st1) (wal_map (c_db st1) s)"
    using two_pc_run [OF assms(2) ok(1) st run] history_decided by fastforce
  then show "\<exists>w. CrashRecovery.decided ?D ?ss es w"
    using recoveries_decided [OF rec assms(2) tx_def_of_tpc [OF assms(3)] ok(2)] by blast
  have "grows (making env s {ctx} ?ss checkout_actions) [] (net st1)"
    using sends_run [OF sends_two_pc run, of checkout_actions] st(3) by simp
  then have g: "grows (making env s {ctx, ?D} ?ss checkout_actions) [] (net st1)"
    by (rule grows_mono) (auto intro: making_mono [rotated])
  from recoveries_made [OF rec assms(2) tx_def_of_tpc [OF assms(3)] ok(2) _ _ g] d1
  have "grows (making env s {ctx, ?D} ?ss checkout_actions) [] es" by blast
  then show "\<exists>c'\<in>{ctx, ?D}. \<exists>a\<in>checkout_actions. made_by s c' ?ss a e" if "e \<in> set es"
    using grows_member [OF _ that] unfolding making_def by blast
qed

section \<open>The services behind the network\<close>

text \<open>
  What reaches a service: messages of this saga, each any number of times and in any order, and traffic of other
  sagas. An answer other than a failure that the orchestrator saw is one the service gave; replies may get lost.
\<close>

definition served :: "handler \<Rightarrow> (dict \<Rightarrow> bool) \<Rightarrow> svc \<Rightarrow> delivery list \<Rightarrow> string \<Rightarrow> obs list \<Rightarrow> bool" where
  "served handler other st ds sv es \<longleftrightarrow>
     (\<forall>(msg, _)\<in>set ds. other msg \<or> (\<exists>e\<in>set es. ob_service e = sv \<and> msg = wire e)) \<and>
     (\<forall>e\<in>set es. ob_service e = sv \<longrightarrow> (\<forall>v. ob_reply e = Inr v \<and> \<not> dict_has v ''event'' ''failed'' \<longrightarrow>
        answered_by handler st ds (wire e) v))"

definition stock_site :: "redis_client \<Rightarrow> (string \<Rightarrow> bool) \<Rightarrow> (string \<Rightarrow> item_list) \<Rightarrow> string set \<Rightarrow> string \<Rightarrow> svc \<Rightarrow> delivery list \<Rightarrow>
    obs list \<Rightarrow> bool" where
  "stock_site cl tpc reqs sagas s st ds es \<longleftrightarrow> redis_server (cl_rc cl) \<and> stock_workload 300 reqs sagas \<and> s \<in> sagas \<and>
     stock_sound tpc reqs sagas (c_db st) \<and> stock_phase tpc (c_db st) s = Fresh \<and>
     served (stock_handle_nats cl) (stock_traffic 300 tpc reqs (sagas - {s})) st ds ''stock'' es"

definition payment_site :: "redis_client \<Rightarrow> (string \<Rightarrow> bool) \<Rightarrow> (string \<Rightarrow> string \<times> int) \<Rightarrow> string set \<Rightarrow> string \<Rightarrow> svc \<Rightarrow> delivery list \<Rightarrow>
    obs list \<Rightarrow> bool" where
  "payment_site cl tpc reqs sagas s st ds es \<longleftrightarrow> redis_server (cl_rc cl) \<and> payment_workload 300 reqs sagas \<and> s \<in> sagas \<and>
     payment_sound tpc reqs sagas (c_db st) \<and> payment_phase tpc (c_db st) s = Fresh \<and>
     served (payment_handle_nats cl) (payment_traffic 300 tpc reqs (sagas - {s})) st ds ''payment'' es"

text \<open>A message of the checkout of this order, of either protocol, and what it asks.\<close>

definition order_message :: "bool \<Rightarrow> string \<Rightarrow> (string \<times> int) list \<Rightarrow> string \<Rightarrow> int \<Rightarrow> obs \<Rightarrow> bool" where
  "order_message two s items u cost e \<longleftrightarrow> (\<exists>ctx c. reads_order ctx items u cost \<and> (c = Confirm \<longrightarrow> two) \<and>
     made_by s ctx (td_steps checkout_tx) (action_of two c) e)"

definition asked_op :: "bool \<Rightarrow> obs \<Rightarrow> op" where
  "asked_op two e = (if does (action_of two Take) e then Take else if does (action_of two Undo) e then Undo else Confirm)"

lemma other_cmds: "protocol_cmds tpc (sagas - {s}) = {(c, s') \<in> protocol_cmds tpc sagas. s' \<noteq> s}"
  by (auto simp: protocol_cmds_def)

lemma asked_action: "(c = Confirm \<longrightarrow> two) \<Longrightarrow> ob_action e = action_of two c \<Longrightarrow> asked_op two e = c"
  by (cases two; cases c) (auto simp: asked_op_def does_def)

lemma asked_op_iff:
  assumes "order_message two s items u cost e" "c = Confirm \<longrightarrow> two"
  shows "c = asked_op two e \<longleftrightarrow> does (action_of two c) e"
proof -
  obtain c' where c': "c' = Confirm \<longrightarrow> two" "ob_action e = action_of two c'"
    using assms(1) by (auto simp: order_message_def made_by_def)
  show ?thesis using asked_action [OF c'] action_of_inject [OF _ c'(1) assms(2)] c'(2) by (auto simp: does_def)
qed

abbreviation to_service :: "string \<Rightarrow> obs list \<Rightarrow> obs set" where
  "to_service sv es \<equiv> {e \<in> set es. ob_service e = sv}"

lemma asks_stock:
  assumes "order_message (tpc s) s (reqs s) u cost e" "ob_service e = ''stock''" "s \<in> sagas"
  shows "(asked_op (tpc s) e, s) \<in> protocol_cmds tpc sagas" "stock_asks (tpc s) 300 (asked_op (tpc s) e) s (reqs s) (wire e)"
proof -
  obtain ctx c where c: "reads_order ctx (reqs s) u cost" "c = Confirm \<longrightarrow> tpc s" "made_by s ctx (td_steps checkout_tx) (action_of (tpc s) c) e"
    using assms(1) unfolding order_message_def by blast
  then have "asked_op (tpc s) e = c" by (intro asked_action) (auto simp: made_by_def)
  then show "(asked_op (tpc s) e, s) \<in> protocol_cmds tpc sagas" "stock_asks (tpc s) 300 (asked_op (tpc s) e) s (reqs s) (wire e)"
    using wire_stock [OF c(3,1) assms(2) c(2)] c(2) assms(3) by (simp_all add: protocol_cmds_def)
qed

lemma asks_payment:
  assumes "order_message (tpc s) s items (fst (reqs s)) (snd (reqs s)) e" "ob_service e = ''payment''" "s \<in> sagas" "fst (reqs s) \<noteq> []"
  shows "(asked_op (tpc s) e, s) \<in> protocol_cmds tpc sagas" "payment_asks (tpc s) 300 (asked_op (tpc s) e) s (reqs s) (wire e)"
proof -
  obtain ctx c where c: "reads_order ctx items (fst (reqs s)) (snd (reqs s))" "c = Confirm \<longrightarrow> tpc s"
      "made_by s ctx (td_steps checkout_tx) (action_of (tpc s) c) e"
    using assms(1) unfolding order_message_def by blast
  then have "asked_op (tpc s) e = c" by (intro asked_action) (auto simp: made_by_def)
  then show "(asked_op (tpc s) e, s) \<in> protocol_cmds tpc sagas" "payment_asks (tpc s) 300 (asked_op (tpc s) e) s (reqs s) (wire e)"
    using wire_payment [OF c(3,1) assms(2) c(2) assms(4)] c(2) assms(3) by (simp_all add: protocol_cmds_def)
qed

lemma stock_site_sourced:
  assumes "stock_site cl tpc reqs sagas s st ds es" "\<And>e. e \<in> set es \<Longrightarrow> order_message (tpc s) s (reqs s) u cost e"
  shows "command_service.sourced (protocol_cmds tpc sagas) (\<lambda>c s. stock_asks (tpc s) 300 c s (reqs s)) s
    (to_service ''stock'' es) wire (asked_op (tpc s)) ds"
proof -
  have w: "redis_server (cl_rc cl)" "stock_workload 300 reqs sagas" and s: "s \<in> sagas" using assms(1) by (auto simp: stock_site_def)
  have "(asked_op (tpc s) e, s) \<in> protocol_cmds tpc sagas \<and> stock_asks (tpc s) 300 (asked_op (tpc s) e) s (reqs s) (wire e)"
    if "e \<in> to_service ''stock'' es" for e
    using asks_stock [of tpc s reqs u cost e sagas] assms(2) [of e] s that by simp
  moreover have "(\<exists>(c, s')\<in>protocol_cmds tpc sagas. s' \<noteq> s \<and> stock_asks (tpc s') 300 c s' (reqs s') msg) \<or> msg \<in> wire ` to_service ''stock'' es"
    if "(msg, x) \<in> set ds" for msg x
  proof -
    have "stock_traffic 300 tpc reqs (sagas - {s}) msg \<or> (\<exists>e\<in>set es. ob_service e = ''stock'' \<and> msg = wire e)"
      using assms(1) that unfolding stock_site_def served_def by blast
    then show ?thesis unfolding stock_traffic_def other_cmds by blast
  qed
  ultimately show ?thesis by (rule stock_ledger.sourcedI [OF stock_ledgerI [OF w]])
qed

lemma payment_site_sourced:
  assumes "payment_site cl tpc reqs sagas s st ds es" "\<And>e. e \<in> set es \<Longrightarrow> order_message (tpc s) s items (fst (reqs s)) (snd (reqs s)) e"
    and "fst (reqs s) \<noteq> []"
  shows "command_service.sourced (protocol_cmds tpc sagas) (\<lambda>c s. payment_asks (tpc s) 300 c s (reqs s)) s
    (to_service ''payment'' es) wire (asked_op (tpc s)) ds"
proof -
  have w: "redis_server (cl_rc cl)" "payment_workload 300 reqs sagas" and s: "s \<in> sagas" using assms(1) by (auto simp: payment_site_def)
  have "(asked_op (tpc s) e, s) \<in> protocol_cmds tpc sagas \<and> payment_asks (tpc s) 300 (asked_op (tpc s) e) s (reqs s) (wire e)"
    if "e \<in> to_service ''payment'' es" for e
    using asks_payment [of tpc s items reqs e sagas] assms(2) [of e] s assms(3) that by simp
  moreover have "(\<exists>(c, s')\<in>protocol_cmds tpc sagas. s' \<noteq> s \<and> payment_asks (tpc s') 300 c s' (reqs s') msg) \<or> msg \<in> wire ` to_service ''payment'' es"
    if "(msg, x) \<in> set ds" for msg x
  proof -
    have "payment_traffic 300 tpc reqs (sagas - {s}) msg \<or> (\<exists>e\<in>set es. ob_service e = ''payment'' \<and> msg = wire e)"
      using assms(1) that unfolding payment_site_def served_def by blast
    then show ?thesis unfolding payment_traffic_def other_cmds by blast
  qed
  ultimately show ?thesis by (rule payment_ledger.sourcedI [OF payment_ledgerI [OF w]])
qed

text \<open>
  What the messages of the history make of a service's phase: only a confirmation makes it final, only an undo
  undoes it, and what it acknowledged it keeps unless the opposite is asked.
\<close>

definition asked_for :: "bool \<Rightarrow> op \<Rightarrow> obs list \<Rightarrow> bool" where
  "asked_for two c es \<longleftrightarrow> (\<exists>e\<in>set es. does (action_of two c) e)"

definition settles :: "bool \<Rightarrow> string \<Rightarrow> obs list \<Rightarrow> phase \<Rightarrow> bool" where
  "settles two sv es p \<longleftrightarrow> (p = Final \<longrightarrow> two \<and> asked_for two Confirm es) \<and> (p = Undone \<longrightarrow> asked_for two Undo es) \<and>
     (\<forall>e\<in>set es. ob_service e = sv \<longrightarrow>
        (does (action_of two Take) e \<and> said (event_of two Take) e \<and> \<not> asked_for two Undo es \<longrightarrow> p \<in> {Held, Final}) \<and>
        (two \<and> does (action_of two Confirm) e \<and> said (event_of two Confirm) e \<and> \<not> asked_for two Undo es \<longrightarrow> p = Final) \<and>
        (does (action_of two Undo) e \<and> said (event_of two Undo) e \<and> \<not> (two \<and> asked_for two Confirm es) \<longrightarrow> p = Undone))"

context command_service
begin

lemma sourced_settles:
  assumes "sound (c_db st)" "s \<in> sagas" "phase (c_db st) s = Fresh" "sourced s (to_service sv es) wire (asked_op two) ds"
    and "served handler other st ds sv es" "\<And>e. e \<in> set es \<Longrightarrow> order_message two s items u cost e"
    and "\<And>c. done_event c s = event_of two c"
  shows "settles two sv es (phase (c_db (deliveries handler ds st)) s)"
proof -
  let ?p = "phase (c_db (deliveries handler ds st)) s"
  have op: "c \<notin> asked_op two ` to_service sv es" if "c = Confirm \<longrightarrow> two" "\<not> asked_for two c es" for c
    using asked_op_iff [OF assms(6) that(1)] that(2) unfolding asked_for_def by blast
  have conf: "Confirm \<notin> asked_op two ` to_service sv es" if "\<not> (two \<and> asked_for two Confirm es)"
  proof (cases two)
    case False
    have "Confirm \<noteq> asked_op two e" if "e \<in> set es" for e
      using assms(6) [OF that] False asked_action [of _ two e] unfolding order_message_def made_by_def by metis
    then show ?thesis by blast
  qed (use op that in blast)
  have answered: "answered_by handler st ds (wire e) v" "dict_has v ''event'' (done_event (asked_op two e) s)" "asked_op two e = c"
    if e: "e \<in> to_service sv es" "c = Confirm \<longrightarrow> two" "does (action_of two c) e" and v: "ob_reply e = Inr v" "dict_has v ''event'' (event_of two c)" for e c v
  proof -
    show c: "asked_op two e = c" using asked_action [OF e(2)] e(3) by (simp add: does_def)
    have "\<not> dict_has v ''event'' ''failed''" using v(2) event_of_not_failed [of two c] by (cases v) (auto simp: dict_has_def)
    then show "answered_by handler st ds (wire e) v" using assms(5) e(1) v(1) unfolding served_def by blast
    show "dict_has v ''event'' (done_event (asked_op two e) s)" using c v(2) assms(7) by simp
  qed
  note decided = sourced_undecided [OF assms(1,2) _ assms(4)]
  show ?thesis
    unfolding settles_def
  proof (intro conjI ballI impI)
    have "two \<and> asked_for two Confirm es" if "?p = Final"
    proof (rule ccontr)
      assume "\<not> ?thesis"
      from decided(1) [OF _ conf [OF this]] show False using that assms(3) by simp
    qed
    then show two "asked_for two Confirm es" if "?p = Final" using that by blast+
    show "asked_for two Undo es" if "?p = Undone" using decided(2) op [of Undo] that assms(3) by auto
  next
    fix e
    assume e: "e \<in> set es" "ob_service e = sv"
    show "?p \<in> {Held, Final}" if t: "does (action_of two Take) e \<and> said (event_of two Take) e \<and> \<not> asked_for two Undo es"
    proof -
      obtain v where "ob_reply e = Inr v" "dict_has v ''event'' (event_of two Take)" using t by (auto simp: said_def split: sum.splits)
      note a = answered [of e Take v, OF _ _ _ this]
      show ?thesis using sourced_answered(1) [OF assms(1,4) _ a(1,2)] a(3) e t op [of Undo] by simp
    qed
    show "?p = Final" if t: "two \<and> does (action_of two Confirm) e \<and> said (event_of two Confirm) e \<and> \<not> asked_for two Undo es"
    proof -
      obtain v where "ob_reply e = Inr v" "dict_has v ''event'' (event_of two Confirm)" using t by (auto simp: said_def split: sum.splits)
      note a = answered [of e Confirm v, OF _ _ _ this]
      show ?thesis using sourced_answered(2) [OF assms(1,4) _ a(1,2)] a(3) e t op [of Undo] by auto
    qed
    show "?p = Undone" if t: "does (action_of two Undo) e \<and> said (event_of two Undo) e \<and> \<not> (two \<and> asked_for two Confirm es)"
    proof -
      obtain v where "ob_reply e = Inr v" "dict_has v ''event'' (event_of two Undo)" using t by (auto simp: said_def split: sum.splits)
      note a = answered [of e Undo v, OF _ _ _ this]
      show ?thesis using sourced_answered(3) [OF assms(1,4) _ a(1,2)] a(3) e t conf by simp
    qed
  qed
qed

end

context stock_ledger
begin

lemmas sourced_settles = stock.sourced_settles [unfolded stock_views]

end

context payment_ledger
begin

lemmas sourced_settles = payment.sourced_settles [unfolded payment_views]

end

lemma stock_site_settles:
  assumes "stock_site cl tpc reqs sagas s st ds es" "\<And>e. e \<in> set es \<Longrightarrow> order_message (tpc s) s (reqs s) u cost e"
  shows "settles (tpc s) ''stock'' es (stock_phase tpc (c_db (deliveries (stock_handle_nats cl) ds st)) s)"
proof -
  have w: "redis_server (cl_rc cl)" "stock_workload 300 reqs sagas" and st: "s \<in> sagas" "stock_sound tpc reqs sagas (c_db st)"
    "stock_phase tpc (c_db st) s = Fresh" "served (stock_handle_nats cl) (stock_traffic 300 tpc reqs (sagas - {s})) st ds ''stock'' es"
    using assms(1) by (auto simp: stock_site_def)
  show ?thesis
    by (rule stock_ledger.sourced_settles [OF stock_ledgerI [OF w] st(2,1,3) stock_site_sourced [OF assms] st(4) assms(2)]) simp_all
qed

lemma payment_site_settles:
  assumes "payment_site cl tpc reqs sagas s st ds es" "\<And>e. e \<in> set es \<Longrightarrow> order_message (tpc s) s items (fst (reqs s)) (snd (reqs s)) e"
    and "fst (reqs s) \<noteq> []"
  shows "settles (tpc s) ''payment'' es (payment_phase tpc (c_db (deliveries (payment_handle_nats cl) ds st)) s)"
proof -
  have w: "redis_server (cl_rc cl)" "payment_workload 300 reqs sagas" and st: "s \<in> sagas" "payment_sound tpc reqs sagas (c_db st)"
    "payment_phase tpc (c_db st) s = Fresh" "served (payment_handle_nats cl) (payment_traffic 300 tpc reqs (sagas - {s})) st ds ''payment'' es"
    using assms(1) by (auto simp: payment_site_def)
  show ?thesis
    by (rule payment_ledger.sourced_settles [OF payment_ledgerI [OF w] st(2,1,3) payment_site_sourced [OF assms] st(4) assms(2)]) simp_all
qed

section \<open>Agreement\<close>

lemma tpc_checkout_messages:
  assumes "tpc_checkout cl env defs s o' items u cost es" "redis_server (cl_rc cl)" "map_of defs ''checkout'' = Some checkout_tx" "e \<in> set es"
  shows "order_message True s items u cost e"
proof -
  obtain c' a where c': "c' \<in> {checkout_context o' (Str u) items cost, tpc_data (checkout_context o' (Str u) items cost) ''checkout''}"
    and a: "a \<in> checkout_actions" and e: "made_by s c' (td_steps checkout_tx) a e"
    using tpc_checkout_history(2) [OF assms] by blast
  from a obtain c where "a = action_of True c" using action_of.simps(1-3) by (elim insertE) (metis, metis, metis, simp)
  moreover have "reads_order c' items u cost" using c' checkout_reads by blast
  ultimately show ?thesis using e unfolding order_message_def by blast
qed

text \<open>Prepares, then commits after every service prepared, or aborts.\<close>

lemma decided_votes:
  assumes "CrashRecovery.decided D steps es w"
  shows "asked_for True Undo es \<longrightarrow> \<not> asked_for True Confirm es"
    and "asked_for True Confirm es \<Longrightarrow> step \<in> set steps \<Longrightarrow>
      \<exists>e\<in>set es. ob_service e = service step \<and> does ''prepare'' e \<and> said ''prepared'' e"
proof -
  have p: "list_all (does ''prepare'') ps" if "to_some ''prepare'' w' steps ps" for w' ps
    using that by (auto simp: to_some_def dest: sent_does)
  show "asked_for True Undo es \<longrightarrow> \<not> asked_for True Confirm es"
    using assms
  proof (cases rule: decidedE)
    case (abort ps qs)
    then show ?thesis using p [OF abort(2)] by (fastforce simp: asked_for_def list_all_iff does_def)
  next
    case (commit ps qs)
    then show ?thesis using p [OF to_all_some [OF commit(2)]] by (fastforce simp: asked_for_def list_all_iff does_def)
  qed
  show "\<exists>e\<in>set es. ob_service e = service step \<and> does ''prepare'' e \<and> said ''prepared'' e"
    if asked: "asked_for True Confirm es" "step \<in> set steps"
    using assms
  proof (cases rule: decidedE)
    case (abort ps qs)
    then show ?thesis using asked(1) p [OF abort(2)] by (fastforce simp: asked_for_def list_all_iff does_def)
  next
    case (commit ps qs)
    then have "map ob_service ps = map service steps" by (simp add: to_all_def)
    then obtain e where "e \<in> set ps" "ob_service e = service step" using asked(2) by (metis (no_types, lifting) image_eqI imageE list.set_map)
    then show ?thesis using commit(1,3) p [OF to_all_some [OF commit(2)]] by (auto simp: list_all_iff)
  qed
qed

text \<open>C3 (safety): Agreement of the services. A two-phase-commit checkout may be cut short anywhere and be
  finished by any number of recoveries, themselves cut short; its messages may be lost, duplicated, delayed
  and reordered, between those of other sagas; replies may be lost, too. Whatever has been delivered, if one
  service has committed the saga, the other has committed it as well or still holds what it prepared; so never
  has one service committed what the other undid.\<close>

theorem services_agree:
  assumes "redis_server (cl_rc cl)" "map_of defs ''checkout'' = Some checkout_tx" "tpc_checkout cl env defs s o' items u cost es"
    and "tpc s" "stocks s = items" "charges s = (u, cost)" "u \<noteq> []"
    and "stock_site scl tpc stocks sagas s st1 ds1 es" "payment_site pcl tpc charges sagas s st2 ds2 es"
  shows "let p = stock_phase tpc (c_db (deliveries (stock_handle_nats scl) ds1 st1)) s;
      q = payment_phase tpc (c_db (deliveries (payment_handle_nats pcl) ds2 st2)) s in
    (p = Final \<or> q = Final \<longrightarrow> {p, q} \<subseteq> {Held, Final}) \<and> (p = Undone \<or> q = Undone \<longrightarrow> Final \<notin> {p, q})"
proof -
  let ?p = "stock_phase tpc (c_db (deliveries (stock_handle_nats scl) ds1 st1)) s"
  let ?q = "payment_phase tpc (c_db (deliveries (payment_handle_nats pcl) ds2 st2)) s"
  note m = tpc_checkout_messages [OF assms(3,1,2)]
  have "settles True ''stock'' es ?p" using stock_site_settles [OF assms(8), of u cost] m assms(4,5) by simp
  moreover have "settles True ''payment'' es ?q" using payment_site_settles [OF assms(9), of items] m assms(4,6,7) by simp
  moreover obtain w D where d: "CrashRecovery.decided D (td_steps checkout_tx) es w" using tpc_checkout_history(1) [OF assms(3,1,2)] by blast
  have steps: "\<exists>step\<in>set (td_steps checkout_tx). service step = ''stock''" "\<exists>step\<in>set (td_steps checkout_tx). service step = ''payment''"
    by (simp_all add: checkout_tx_def)
  have "asked_for True Undo es \<longrightarrow> \<not> asked_for True Confirm es"
    "asked_for True Confirm es \<longrightarrow> (\<exists>e\<in>set es. ob_service e = ''stock'' \<and> does ''prepare'' e \<and> said ''prepared'' e)"
    "asked_for True Confirm es \<longrightarrow> (\<exists>e\<in>set es. ob_service e = ''payment'' \<and> does ''prepare'' e \<and> said ''prepared'' e)"
    using decided_votes [OF d] steps by metis+
  moreover note this
  ultimately show ?thesis unfolding settles_def Let_def by (auto; blast)
qed

section \<open>What a whole checkout sends\<close>

lemma verdict_result: "saga_verdict p acc st = (Inr acc', st') \<Longrightarrow> set (fst acc') \<subseteq> set (fst acc) \<union> {fst p}"
  by (cases p; cases acc) (auto simp: saga_verdict_def bindE_def lift_sum_def ret_def throw_def split: sum.splits if_splits prod.splits)

lemma verdicts_result:
  "fold_each saga_verdict ps acc st = (Inr acc', st') \<Longrightarrow> set (fst acc') \<subseteq> set (fst acc) \<union> fst ` set ps"
proof (induction ps arbitrary: acc st)
  case (Cons p ps)
  obtain q st1 where q: "saga_verdict p acc st = (q, st1)" by (cases "saga_verdict p acc st")
  with Cons.prems obtain acc1 where acc1: "q = Inr acc1" "fold_each saga_verdict ps acc1 st1 = (Inr acc', st')"
    by (cases q) (auto simp: bindE_def)
  show ?case using Cons.IH [OF acc1(2)] verdict_result [OF q [unfolded acc1(1)]] by auto
qed (simp add: ret_def)

lemma broadcast_result: "broadcast tr action s steps ctx st = (Inr votes, st') \<Longrightarrow> fst ` set votes \<subseteq> set steps"
  by (auto simp: broadcast_def bindE_def ret_def split: sum.splits prod.splits dest: set_zip_leftD)

lemma sends_saga:
  assumes "{''execute'', ''compensate''} \<subseteq> actions"
  shows "sends (making env s {ctx} (td_steps tx) actions) (saga_execute cl (recording s env) tx s ctx name)"
proof -
  let ?R = "making env s {ctx} (td_steps tx) actions"
  have conclude: "sends ?R (saga_conclude cl (recording s env) s ctx steps reason ok)" if "set steps \<subseteq> set (td_steps tx)" for steps reason ok
    using that assms unfolding saga_conclude_def by (intro sends_if sends_bind sends_connection sends_pure sends_for_each sends_verified) auto
  have rest: "sends ?R (bindE (fold_each saga_verdict votes ([], Str [], True)) (\<lambda>(completed, reason, ok).
      saga_conclude cl (recording s env) s ctx completed reason ok))" if "fst ` set votes \<subseteq> set (td_steps tx)" for votes
  proof (rule sends_bind_result)
    fix st acc st'
    assume "fold_each saga_verdict votes ([], Str [], True) st = (Inr acc, st')"
    from verdicts_result [OF this] have "set (fst acc) \<subseteq> set (td_steps tx)" using that by auto
    then show "sends ?R (case acc of (completed, reason, ok) \<Rightarrow> saga_conclude cl (recording s env) s ctx completed reason ok)"
      by (cases acc) (auto intro: conclude)
  qed (intro trace)
  have "sends ?R (bindE (broadcast (recording s env) ''execute'' s (td_steps tx) ctx) (\<lambda>step_results.
      bindE (fold_each saga_verdict step_results ([], Str [], True)) (\<lambda>(completed, reason, ok).
      saga_conclude cl (recording s env) s ctx completed reason ok)))"
    by (rule sends_bind_result [OF sends_broadcast]) (use assms in \<open>auto intro!: rest dest: broadcast_result\<close>)
  then show ?thesis unfolding saga_execute_eq saga_vote_def by (auto intro!: trace split: option.split)
qed

abbreviation protocol_actions :: "string set" where
  "protocol_actions \<equiv> checkout_actions \<union> {''execute'', ''compensate''}"

lemma sends_execute:
  assumes "map_of (definitions orch) name = Some tx"
  shows "sends (making env s {ctx} (td_steps tx) protocol_actions) (execute cl (recording s env) orch name ctx s)"
proof -
  let ?R = "making env s {ctx} (td_steps tx) protocol_actions"
  have p: "preserves net (select_protocol orch)" "preserves net (set_protocol p)" for p
    unfolding select_protocol_def set_protocol_def by (auto intro!: frame preserves_modify simp: off_breakers_def Let_def)
  have "sends ?R (select_protocol orch)" "sends ?R (set_protocol p)" "sends ?R (modify (\<lambda>st. st\<lparr>collector := f st\<rparr>))"
    "sends ?R (attempt (publish_result cl s r))" for p f r
    using off_line_views by (auto intro!: sends_quiet p preserves_modify preserves_attempt preserves_publish)
  then show ?thesis
    using assms sends_two_pc [of protocol_actions] sends_saga [of protocol_actions]
    by (auto simp: execute_def execute_inner_def Let_def intro!: trace)
qed

lemma sends_checkout:
  assumes "redis_server (app_rc app)" "app_tr app = recording s env" "map_of (definitions (app_orch app)) ''checkout'' = Some tx"
    and "stored_order (c_db st) o' items cost user paid" "text_of (c_db st) (idempotency_key o') \<noteq> None" "\<forall>c\<in>set calls. preserves net c"
    and "checkout app calls o' s st = (r, st')"
  shows "grows (making env s {checkout_context o' (PStr user) (aggregate items) cost} (td_steps tx) protocol_actions) (net st) (net st')"
proof -
  let ?ctx = "checkout_context o' (PStr user) (aggregate items) cost"
  let ?R = "making env s {?ctx} (td_steps tx) protocol_actions"
  have quiet: "sends ?R (await_existing app calls o')" using assms(6) by (intro sends_quiet preserves_existing) simp_all
  have "sends ?R (run_checkout app o' s ?ctx)"
    unfolding run_checkout_def Let_def http_error_def assms(2)
    by (intro sends_bind sends_execute [where name = "''checkout''", OF assms(3)] sends_if sends_connection sends_pure)
  then have after: "sends ?R (after_claim app calls o' s items cost user paid free)" for free
    using quiet unfolding after_claim_def http_error_def by (intro sends_bind sends_if sends_connection sends_pure)
  obtain q st1 where call: "claim_call app o' s st = (q, st1)" by (cases "claim_call app o' s st")
  have 1: "net st1 = net st" using preserves_run [OF preserves_connection(1) call, of net] by simp
  note e = checkout_stored [OF assms(1,4,5) call, of calls]
  show ?thesis
  proof (cases q)
    case (Inl x)
    then have "st' = st1" using e assms(7) by simp
    then show ?thesis using 1 by (simp add: grows.same)
  next
    case (Inr c)
    then have "after_claim app calls o' s items cost user paid (claim_free (c_db st) o') st1 = (r, st')" using e assms(7) by simp
    from sends_run [OF after this] show ?thesis using 1 by simp
  qed
qed

section \<open>A checkout that succeeds charges what it should\<close>

text \<open>What the services have for everybody else: on the shelf or the account, or held for other sagas.\<close>

definition stock_besides :: "(string \<Rightarrow> bool) \<Rightarrow> (string \<Rightarrow> item_list) \<Rightarrow> string set \<Rightarrow> keyspace \<Rightarrow> string \<Rightarrow> int" where
  "stock_besides tpc reqs others d i = stock_level d i + (\<Sum>s' \<in> others. holds (stock_phase tpc d s') (qty (reqs s') i))"

definition credit_besides :: "(string \<Rightarrow> bool) \<Rightarrow> (string \<Rightarrow> string \<times> int) \<Rightarrow> string set \<Rightarrow> keyspace \<Rightarrow> string \<Rightarrow> int" where
  "credit_besides tpc reqs others d u = credit_level d u + (\<Sum>s' \<in> others. holds (payment_phase tpc d s') (charge_of (reqs s') u))"

lemma stock_site_besides:
  assumes "stock_site cl tpc reqs sagas s st ds es" "\<And>e. e \<in> set es \<Longrightarrow> order_message (tpc s) s (reqs s) u cost e"
  defines "d' \<equiv> c_db (deliveries (stock_handle_nats cl) ds st)"
  shows "stock_besides tpc reqs (sagas - {s}) d' i =
    stock_besides tpc reqs (sagas - {s}) (c_db st) i - holds (stock_phase tpc d' s) (qty (reqs s) i)"
proof -
  have w: "redis_server (cl_rc cl)" "stock_workload 300 reqs sagas" and st: "s \<in> sagas" "stock_sound tpc reqs sagas (c_db st)"
    "stock_phase tpc (c_db st) s = Fresh" and fin: "finite sagas"
    using assms(1) by (auto simp: stock_site_def stock_workload_def)
  note l = stock_ledgerI [OF w]
  have "stock_total tpc reqs sagas d' i = stock_total tpc reqs sagas (c_db st) i"
    unfolding d'_def by (rule stock_ledger.deliveries_total [OF l st(2)], rule stock_ledger.sourced_traffic [OF l stock_site_sourced [OF assms(1,2)]])
  then show ?thesis using st fin by (simp add: stock_total_def stock_besides_def sum.remove)
qed

lemma payment_site_besides:
  assumes "payment_site cl tpc reqs sagas s st ds es" "\<And>e. e \<in> set es \<Longrightarrow> order_message (tpc s) s items (fst (reqs s)) (snd (reqs s)) e"
    and "fst (reqs s) \<noteq> []"
  defines "d' \<equiv> c_db (deliveries (payment_handle_nats cl) ds st)"
  shows "credit_besides tpc reqs (sagas - {s}) d' v =
    credit_besides tpc reqs (sagas - {s}) (c_db st) v - holds (payment_phase tpc d' s) (charge_of (reqs s) v)"
proof -
  have w: "redis_server (cl_rc cl)" "payment_workload 300 reqs sagas" and st: "s \<in> sagas" "payment_sound tpc reqs sagas (c_db st)"
    "payment_phase tpc (c_db st) s = Fresh" and fin: "finite sagas"
    using assms(1) by (auto simp: payment_site_def payment_workload_def)
  note l = payment_ledgerI [OF w]
  have "payment_total tpc reqs sagas d' v = payment_total tpc reqs sagas (c_db st) v"
    unfolding d'_def by (rule payment_ledger.deliveries_total [OF l st(2)], rule payment_ledger.sourced_traffic [OF l payment_site_sourced [OF assms(1-3)]])
  then show ?thesis using st fin by (simp add: payment_total_def credit_besides_def sum.remove)
qed

text \<open>In a history that charged, every service was asked and answered, and nothing was taken back.\<close>

lemma everyone_asked:
  assumes "map ob_service ps = map service (td_steps checkout_tx)" "list_all (does a) ps" "list_all (said ev) ps" "set ps \<subseteq> set es"
    and "sv \<in> {''stock'', ''payment''}"
  shows "\<exists>e\<in>set es. ob_service e = sv \<and> does a e \<and> said ev e"
proof -
  have "sv \<in> ob_service ` set ps" using assms(1,5) checkout_steps by (metis list.set(1) list.set(2) list.set_map)
  then show ?thesis using assms(2-4) by (auto simp: list_all_iff)
qed

lemma charged_asks:
  assumes "Checkout.charged ctx (td_steps checkout_tx) es" "two \<longleftrightarrow> (\<exists>e\<in>set es. does ''prepare'' e)"
  shows "(\<forall>e\<in>set es. ob_action e = action_of two Take \<or> two \<and> ob_action e = action_of two Confirm) \<and>
    (\<forall>sv\<in>{''stock'', ''payment''}. \<exists>e\<in>set es. ob_service e = sv \<and> does (action_of two Take) e \<and> said (event_of two Take) e)"
proof -
  consider (tpc) ps qs where "es = ps @ qs" "commit_history (tpc_data ctx ''checkout'') (td_steps checkout_tx) ps qs"
    | (saga) "to_all ''execute'' (Some (''EXECUTING'', saga_data ctx ''checkout'')) (td_steps checkout_tx) es" "list_all (said ''executed'') es"
    using assms(1) unfolding Checkout.charged_def by blast
  then show ?thesis
  proof cases
    case tpc
    then have ps: "map ob_service ps = map service (td_steps checkout_tx)" "list_all (does ''prepare'') ps" "list_all (said ''prepared'') ps"
      and qs: "list_all (does ''commit'') qs"
      unfolding commit_history_def to_all_def using sent_does by blast+
    then have "\<exists>e\<in>set ps. does ''prepare'' e" using everyone_asked [OF ps, of es "''stock''"] tpc(1) checkout_steps by (cases ps) auto
    then have two unfolding assms(2) tpc(1) by auto
    moreover have "\<forall>e\<in>set es. ob_action e = ''prepare'' \<or> ob_action e = ''commit''"
      using ps(2) qs by (auto simp: tpc(1) list_all_iff does_def)
    ultimately show ?thesis using everyone_asked [OF ps, of es] tpc(1) by simp
  next
    case saga
    then have x: "map ob_service es = map service (td_steps checkout_tx)" "list_all (does ''execute'') es"
      unfolding to_all_def using sent_does by blast+
    then have "\<not> two" unfolding assms(2) by (auto simp: list_all_iff does_def)
    then show ?thesis using everyone_asked [OF x saga(2) order_refl] x(2) by (simp add: list_all_iff does_def)
  qed
qed

text \<open>C2 (functional): A checkout charges exactly what the order says. When a checkout has sent something and answers
  success, by either protocol, then whatever the network has delivered so far, each service holds or has
  committed the saga: of every item, what is left for others is less by exactly the ordered quantity, and
  the user's credit is less by exactly the total; nothing else has changed.\<close>

theorem checkout_charges_exactly:
  assumes "redis_server (app_rc app)" "app_tr app = recording s env" "map_of (definitions (app_orch app)) ''checkout'' = Some checkout_tx"
    and "stored_order (c_db st) o' items cost (Text u) paid" "text_of (c_db st) (idempotency_key o') \<noteq> None" "wal_inv (c_db st)"
    and "wal_map (c_db st) s = None" "net st = []" "\<forall>c\<in>set calls. preserves net c"
    and "checkout app calls o' s st = (Inr resp, st')" "net st' \<noteq> []"
    and "tpc s \<longleftrightarrow> (\<exists>e\<in>set (net st'). does ''prepare'' e)" "stocks s = aggregate items" "charges s = (u, cost)" "u \<noteq> []"
    and "stock_site scl tpc stocks sagas s st1 ds1 (net st')" "payment_site pcl tpc charges sagas s st2 ds2 (net st')"
  shows "let d1 = c_db (deliveries (stock_handle_nats scl) ds1 st1); d2 = c_db (deliveries (payment_handle_nats pcl) ds2 st2) in
    stock_phase tpc d1 s \<in> {Held, Final} \<and> payment_phase tpc d2 s \<in> {Held, Final} \<and>
    (\<forall>i. stock_besides tpc stocks (sagas - {s}) d1 i = stock_besides tpc stocks (sagas - {s}) (c_db st1) i - qty (aggregate items) i) \<and>
    (\<forall>v. credit_besides tpc charges (sagas - {s}) d2 v =
       credit_besides tpc charges (sagas - {s}) (c_db st2) v - (if v = u then cost else 0))"
proof -
  let ?es = "net st'" and ?ctx = "checkout_context o' (PStr (Text u)) (aggregate items) cost"
  have "Checkout.charged ?ctx (td_steps checkout_tx) ?es"
    using checkout_sent [OF assms(1-10)] assms(11) by (simp add: Let_def)
  note asks = charged_asks [OF this assms(12)]
  have msg: "order_message (tpc s) s (aggregate items) u cost e" if e: "e \<in> set ?es" for e
  proof -
    have "grows (making env s {?ctx} (td_steps checkout_tx) protocol_actions) [] ?es"
      using sends_checkout [OF assms(1-5,9,10)] assms(8) by simp
    from grows_member [OF this e] obtain a where a: "made_by s ?ctx (td_steps checkout_tx) a e" by (auto simp: making_def)
    then have "ob_action e = a" by (simp add: made_by_def)
    then obtain c where "c = Confirm \<longrightarrow> tpc s" "a = action_of (tpc s) c" using asks e by blast
    then show ?thesis using a checkout_reads(1) unfolding order_message_def by blast
  qed
  let ?p = "stock_phase tpc (c_db (deliveries (stock_handle_nats scl) ds1 st1)) s"
  let ?q = "payment_phase tpc (c_db (deliveries (payment_handle_nats pcl) ds2 st2)) s"
  have "action_of two Undo \<noteq> action_of two Take" "action_of two Undo \<noteq> action_of two Confirm" for two by (cases two; simp)+
  then have "\<not> asked_for (tpc s) Undo ?es" using asks unfolding asked_for_def does_def by metis
  then have "?p \<in> {Held, Final}" "?q \<in> {Held, Final}"
    using stock_site_settles [OF assms(16), of u cost] payment_site_settles [OF assms(17), of "aggregate items"] msg assms(13-15) asks
    unfolding settles_def by auto
  moreover have "holds ?p x = x" "holds ?q x = x" for x using calculation by auto
  ultimately show ?thesis
    using stock_site_besides [OF assms(16), of u cost] payment_site_besides [OF assms(17), of "aggregate items"] msg assms(13-15)
    by (simp add: Let_def charge_of_def)
qed

end
