(* ===== verification/Footprint.thy ===== *)
theory Footprint
  imports Checkout
begin

text \<open>
  Which keys of the order database a checkout may touch: those of its own order and of its own saga, and the
  log's; every other key holds afterwards what it held before, wherever the checkout stops.
\<close>

section \<open>Commands and scripts that leave a key alone\<close>

fun spares :: "string \<Rightarrow> cmd \<Rightarrow> bool" where
  "spares k (HSET k' fs) \<longleftrightarrow> k' \<noteq> k \<and> fs \<noteq> []"
| "spares k (DEL k') \<longleftrightarrow> k' \<noteq> k"
| "spares k (SET k' v nx ex) \<longleftrightarrow> k' \<noteq> k \<and> \<not> nx \<and> (case ex of None \<Rightarrow> True | Some t \<Rightarrow> 0 < t)"
| "spares k (SADD k' m) \<longleftrightarrow> k' \<noteq> k"
| "spares k (SREM k' m) \<longleftrightarrow> k' \<noteq> k"
| "spares k (XADD k' fs n) \<longleftrightarrow> k' \<noteq> k"
| "spares k (HGETALL k') \<longleftrightarrow> True"
| "spares k (LRANGE_ALL k') \<longleftrightarrow> True"
| "spares k (GET k') \<longleftrightarrow> True"
| "spares k (PUBLISH c v) \<longleftrightarrow> True"
| "spares k c \<longleftrightarrow> False"

abbreviation db_at :: "string \<Rightarrow> 'n proc \<Rightarrow> rval option" where
  "db_at k \<equiv> \<lambda>st. entries (c_db st) k"

context redis_server
begin

lemma spares_entries:
  assumes "spares k c"
  shows "entries (snd (rc c d)) k = entries d k"
proof (cases c)
  case (SET k' v nx ex)
  then show ?thesis using assms by (cases ex) (auto simp: set_plain set_ex)
next
  case (XADD k' fs n)
  show ?thesis
  proof (cases "stream_of d k'")
    case None
    then show ?thesis by (simp add: XADD xadd_wrong)
  next
    case (Some l)
    from xadd [OF this, of n fs] show ?thesis using assms XADD by auto
  qed
next
  case (PUBLISH ch v)
  then show ?thesis using publish [of ch v d] by auto
qed (use assms in \<open>auto simp: hset del sadd srem hgetall lrange_all get entries_put_fields split: option.splits\<close>)

lemma preserves_command: "spares k c \<Longrightarrow> preserves (\<lambda>d. entries d k) (rc c)"
  by (simp add: preserves_def spares_entries)

lemma spares_commands: "list_all (spares k) cs \<Longrightarrow> entries (snd (run_cmds rc cs d)) k = entries d k"
  by (induction cs arbitrary: d) (auto simp: spares_entries split: prod.split dest: spares_entries [of k _ d] simp: prod.case_eq_if)

lemma preserves_claim:
  assumes "k \<noteq> idempotency_key o'"
  shows "preserves (\<lambda>d. entries d k) (order_load_and_claim rc [order_key o', items_key o', idempotency_key o'] v ''300'')"
proof -
  have n: "number ''300'' = ret 300"
    by (simp add: number_def counter_text_def parse_int_def parse_nat_def digit_value_def in64_def)
  show ?thesis
    unfolding order_load_and_claim_def n act_def lua_at_def
    using assms by (auto intro!: frame preserves_command split: reply.split)
qed

end

lemma spares_call:
  "preserves (\<lambda>d. entries d k) sc \<Longrightarrow> preserves (db_at k) (redis_call cl sc)"
  by (auto simp: preserves_def redis_call_def Let_def after_trip_def split: fate.splits nat.splits sum.splits prod.splits)
    (metis snd_conv)+

lemma spares_pipeline:
  assumes "redis_server (cl_rc cl)" "list_all (spares k) cs"
  shows "preserves (db_at k) (pipeline cl tx cs)"
proof -
  have "list_all (spares k) (take n cs)" for n using assms(2) by (auto simp: list_all_iff dest: in_set_takeD)
  then show ?thesis
    using redis_server.spares_commands [OF assms] redis_server.spares_commands [OF assms(1)]
    by (auto simp: preserves_def pipeline_def Let_def after_trip_def split: fate.splits prod.splits) (metis snd_conv)
qed

section \<open>The log, the executors and the checkout\<close>

definition saga_keys :: "string \<Rightarrow> string set" where
  "saga_keys s = {STREAM_KEY, ACTIVE_SET, DLQ_STREAM, saga_state_key s, ''saga-result:'' @ s}"

definition checkout_keys :: "string \<Rightarrow> string \<Rightarrow> string set" where
  "checkout_keys o' s = saga_keys s \<union> {order_key o', idempotency_key o'}"

lemma db_at_off [simp]: "off_breakers (db_at k)" "quiet (db_at k) (recording s env)"
  by (auto simp: off_breakers_def quiet_def preserves_def recording_def split: prod.split)

lemma spares_time: "preserves (db_at k) wall_time" "preserves (db_at k) monotonic" "preserves (db_at k) (async_sleep d)"
  "preserves (db_at k) get_state" "(\<And>st. c_db (f st) = c_db st) \<Longrightarrow> preserves (db_at k) (modify f)"
  by (simp_all add: preserves_def wall_time_def monotonic_def async_sleep_def get_state_def modify_def)

lemma spares_logging:
  assumes "redis_server (cl_rc cl)" "k \<notin> saga_keys s"
  shows "logging (db_at k :: 'n proc \<Rightarrow> rval option) cl s" "preserves (db_at k :: 'n proc \<Rightarrow> rval option) (publish_result cl s x)"
proof -
  let ?V = "db_at k :: 'n proc \<Rightarrow> rval option"
  have log: "preserves ?V (pipeline cl True (XADD STREAM_KEY entry MAX_LEN #
       (if step \<in> set TERMINAL_STATES then [SREM ACTIVE_SET s, DEL (saga_state_key s)]
        else [SADD ACTIVE_SET s, HSET (saga_state_key s) entry])))" if "entry \<noteq> []" for entry step
    by (rule spares_pipeline [OF assms(1)]) (use assms(2) that in \<open>auto simp: saga_keys_def\<close>)
  have l: "preserves ?V (wal_log cl s step data)" for step data
    unfolding wal_log_def Let_def by (intro preserves_bind preserves_pure spares_time(1) log wal_entry_nonempty)
  have "preserves ?V (pipeline cl False [XADD STREAM_KEY entry MAX_LEN, SREM ACTIVE_SET s, DEL (saga_state_key s)])" for entry
    by (rule spares_pipeline [OF assms(1)]) (use assms(2) in \<open>auto simp: saga_keys_def\<close>)
  then have t: "preserves ?V (wal_log_terminal cl s step data)" for step data
    by (auto simp: wal_log_terminal_def Let_def intro!: frame_rules spares_time)
  have "preserves ?V (redis_call cl (cl_rc cl (XADD DLQ_STREAM fs n)))" for fs n
    by (rule spares_call, rule redis_server.preserves_command [OF assms(1)]) (use assms(2) in \<open>auto simp: saga_keys_def\<close>)
  then have "preserves ?V (write_to_dlq cl s action name reason n ctx)" for action name reason n ctx
    by (auto simp: write_to_dlq_def intro!: frame_rules spares_time split: if_splits)
  with l t show "logging ?V cl s" by (simp add: logging_def spares_time)
  have "preserves ?V (pipeline cl False [SET (''saga-result:'' @ s) (json_dumps x) False (Some 60), PUBLISH (''saga-notify:'' @ s) (Text ''done'')])"
    by (rule spares_pipeline [OF assms(1)]) (use assms(2) in \<open>auto simp: saga_keys_def\<close>)
  then show "preserves ?V (publish_result cl s x)" by (auto simp: publish_result_def intro!: frame_rules)
qed

lemma spares_execute:
  assumes "redis_server (cl_rc cl)" "k \<notin> saga_keys s"
  shows "preserves (db_at k) (execute cl (recording s env) orch name ctx s)"
proof -
  let ?V = "db_at k :: obs list proc \<Rightarrow> rval option"
  have "preserves ?V (any_breaker_open svs)" for svs
    by (induction svs) (auto intro!: frame_rules)
  then have sel: "preserves ?V (select_protocol orch)" "preserves ?V (set_protocol p)" for p
    unfolding select_protocol_def set_protocol_def by (auto intro!: frame_rules spares_time simp: Let_def)
  note ex = preserves_executors [OF spares_logging(1) [OF assms] db_at_off]
  have pub: "preserves ?V (attempt (publish_result cl s r))" for r by (intro preserves_attempt spares_logging(2) [OF assms])
  show ?thesis
    unfolding execute_def execute_inner_def Let_def using sel ex pub
    by (auto intro!: frame_rules spares_time split: option.split)
qed

lemma spares_wait:
  assumes "redis_server (cl_rc cl)" "\<forall>c\<in>set calls. preserves (db_at k :: 'n proc \<Rightarrow> rval option) c"
  shows "preserves (db_at k) (wait_for_result cl calls s)"
proof -
  let ?V = "db_at k :: 'n proc \<Rightarrow> rval option"
  have r: "preserves ?V (read_result cl key)" for key
    by (auto simp: read_result_def intro!: frame_rules spares_call redis_server.preserves_command [OF assms(1)] split: reply.split)
  have "preserves ?V (await_messages cl key calls)" for key
    using assms(2) by (induction calls) (auto intro!: frame_rules r split: option.split)
  moreover have "preserves ?V (redis_call cl (ret ()))" by (intro spares_call preserves_pure)
  ultimately show ?thesis
    by (auto simp: wait_for_result_def Let_def intro!: frame_rules preserves_finally r split: option.split)
qed



end
