(* ===== verification/PerfectNetwork.thy ===== *)
theory PerfectNetwork
  imports EndToEnd Footprint
begin

text \<open>
  The system on a network that delivers every message once, in time and in order, to services whose
  databases answer: what a checkout then does is determined, and it does what the shop wants.
\<close>

section \<open>A network that delivers\<close>

text \<open>The messages so far that reached a service, each once, in order, on a working database and without faults.\<close>

definition arrived :: "string \<Rightarrow> obs list \<Rightarrow> delivery list" where
  "arrived sv es = map (\<lambda>e. (wire e, [], [])) (filter (\<lambda>e. ob_service e = sv) es)"

text \<open>The reply to the next message; a handler that raises does not reply.\<close>

definition on_time :: "handler \<Rightarrow> svc \<Rightarrow> delivery list \<Rightarrow> dict \<Rightarrow> exn + pyval" where
  "on_time handler st ds msg = (case fst (handler msg ((deliveries handler ds st)\<lparr>c_trips := [], sv_rules := []\<rparr>)) of
     Inr v \<Rightarrow> Inr v | Inl _ \<Rightarrow> Inl (TimeoutErr []))"

definition perfect :: "redis_client \<Rightarrow> svc \<Rightarrow> redis_client \<Rightarrow> svc \<Rightarrow> env" where
  "perfect scl st1 pcl st2 h sv a p = (let msg = dict_merge p [(''action'', Str a)] in
     (if sv = ''stock'' then on_time (stock_handle_nats scl) st1 (arrived ''stock'' h) msg
      else if sv = ''payment'' then on_time (payment_handle_nats pcl) st2 (arrived ''payment'' h) msg
      else Inl (TimeoutErr []), 1))"

lemma perfect_lives: "env_lives (perfect scl st1 pcl st2)"
  by (auto simp: env_lives_def perfect_def on_time_def Let_def split: sum.splits)

text \<open>Every reply in a history is the service's reply on the messages that came before.\<close>

definition in_time :: "string \<Rightarrow> handler \<Rightarrow> svc \<Rightarrow> obs list \<Rightarrow> bool" where
  "in_time sv handler st es \<longleftrightarrow> (\<forall>h e t. es = h @ e # t \<and> ob_service e = sv \<longrightarrow>
     ob_reply e = on_time handler st (arrived sv h) (wire e))"

lemma perfect_in_time:
  assumes "grows (making (perfect scl st1 pcl st2) s ctxs steps as) [] es"
  shows "in_time ''stock'' (stock_handle_nats scl) st1 es" "in_time ''payment'' (payment_handle_nats pcl) st2 es"
proof -
  have "reply_of (perfect scl st1 pcl st2) h e" if "es = h @ e # t" for h e t
    using grows_nth [OF assms, of "length h"] that by (simp add: making_def)
  note r = this
  show "in_time ''stock'' (stock_handle_nats scl) st1 es"
    unfolding in_time_def
  proof (intro allI impI)
    fix h e t
    assume e: "es = h @ e # t \<and> ob_service e = ''stock''"
    then show "ob_reply e = on_time (stock_handle_nats scl) st1 (arrived ''stock'' h) (wire e)"
      using r [of h e t] by (simp add: reply_of_def perfect_def wire_def Let_def)
  qed
  show "in_time ''payment'' (payment_handle_nats pcl) st2 es"
    unfolding in_time_def
  proof (intro allI impI)
    fix h e t
    assume e: "es = h @ e # t \<and> ob_service e = ''payment''"
    then show "ob_reply e = on_time (payment_handle_nats pcl) st2 (arrived ''payment'' h) (wire e)"
      using r [of h e t] by (simp add: reply_of_def perfect_def wire_def Let_def)
  qed
qed

lemma in_time_served:
  assumes "in_time sv handler st es"
  shows "served handler other st (arrived sv es) sv es"
proof -
  have "answered_by handler st (arrived sv es) (wire e) v" if e: "e \<in> set es" "ob_service e = sv" "ob_reply e = Inr v" for e v
  proof -
    obtain h t where es: "es = h @ e # t" using e(1) by (meson split_list)
    have "arrived sv es = arrived sv h @ (wire e, [], []) # arrived sv t" using e(2) by (simp add: arrived_def es)
    moreover have "ob_reply e = on_time handler st (arrived sv h) (wire e)" using assms es e(2) unfolding in_time_def by blast
    then have "on_time handler st (arrived sv h) (wire e) = Inr v" using e(3) by simp
    then have "fst (handler (wire e) ((deliveries handler (arrived sv h) st)\<lparr>c_trips := [], sv_rules := []\<rparr>)) = Inr v"
      by (simp add: on_time_def split: sum.splits)
    ultimately show ?thesis unfolding answered_by_def by blast
  qed
  moreover have "\<forall>(msg, _)\<in>set (arrived sv es). \<exists>e\<in>set es. ob_service e = sv \<and> msg = wire e" by (auto simp: arrived_def)
  ultimately show ?thesis unfolding served_def by blast
qed

section \<open>What the services reply\<close>

definition replies :: "bool \<Rightarrow> op \<Rightarrow> bool \<Rightarrow> string \<Rightarrow> obs \<Rightarrow> bool" where
  "replies two c ok why e \<longleftrightarrow> (\<exists>v. ob_reply e = Inr v \<and> (if ok then dict_has v ''event'' (event_of two c)
     else dict_has v ''event'' ''failed'' \<and> dict_has v ''reason'' why))"

lemma replies_said: "replies two c ok why e \<Longrightarrow> said (event_of two c) e \<longleftrightarrow> ok"
  by (cases "ob_reply e") (auto simp: replies_def said_def dict_has_def split: if_splits pyval.splits)

lemma replies_vote:
  assumes "replies two c ok why e"
  shows "dict_has (vote_of e) ''event'' ''failed'' \<longleftrightarrow> \<not> ok"
    "\<not> ok \<Longrightarrow> \<exists>d. vote_of e = PDict d \<and> map_of d ''reason'' = Some (Str why)"
proof -
  obtain v where v: "vote_of e = v" "ob_reply e = Inr v" and h: "if ok then dict_has v ''event'' (event_of two c)
      else dict_has v ''event'' ''failed'' \<and> dict_has v ''reason'' why"
    using assms by (auto simp: replies_def vote_of_def step_result_def)
  show "dict_has (vote_of e) ''event'' ''failed'' \<longleftrightarrow> \<not> ok"
    using h event_of_not_failed [of two c] by (cases v) (auto simp: v(1) dict_has_def split: if_splits)
  show "\<exists>d. vote_of e = PDict d \<and> map_of d ''reason'' = Some (Str why)" if "\<not> ok"
    using h that by (auto simp: v(1) dict_has_def dict_get_def split: pyval.splits option.splits)
qed

lemma arrived_traffic:
  "(\<And>e. e \<in> set h \<Longrightarrow> ob_service e = sv \<Longrightarrow> P (wire e)) \<Longrightarrow> list_all (\<lambda>(msg, _). P msg) (arrived sv h)"
  by (auto simp: arrived_def list_all_iff)

lemma stock_replies:
  assumes "redis_server (cl_rc cl)" "stock_workload 300 stocks sagas" "s \<in> sagas" "stock_sound tpc stocks sagas (c_db st)"
    and "in_time ''stock'' (stock_handle_nats cl) st (h @ e # t)" "ob_service e = ''stock''"
    and "\<And>e'. e' \<in> set (h @ [e]) \<Longrightarrow> order_message (tpc s) s (stocks s) u cost e'"
  defines "d \<equiv> c_db (deliveries (stock_handle_nats cl) (arrived ''stock'' h) st)"
  shows "replies (tpc s) (asked_op (tpc s) e) (accepted (asked_op (tpc s) e) (in_stock d (stocks s)) (stock_phase tpc d s))
    ''insufficient_stock'' e"
proof -
  note l = stock_ledgerI [OF assms(1,2)]
  let ?st = "(deliveries (stock_handle_nats cl) (arrived ''stock'' h) st)\<lparr>c_trips := [], sv_rules := []\<rparr>"
  note asks = asks_stock [of tpc s stocks u cost _ sagas, OF _ _ assms(3)]
  have "list_all (\<lambda>(msg, _). stock_traffic 300 tpc stocks sagas msg) (arrived ''stock'' h)"
    by (rule arrived_traffic) (use asks [OF assms(7)] in \<open>auto simp: stock_traffic_def\<close>)
  then have d: "stock_sound tpc stocks sagas (c_db ?st)" using stock_ledger.deliveries_sound [OF l assms(4)] by simp
  have e: "order_message (tpc s) s (stocks s) u cost e" using assms(7) by simp
  have on: "online ?st" "sv_rules ?st = []" by (simp_all add: online_def)
  have r: "ob_reply e = on_time (stock_handle_nats cl) st (arrived ''stock'' h) (wire e)" using assms(5,6) by (auto simp: in_time_def)
  show ?thesis
    using stock_ledger.handle_online_effect [OF l d asks(1,2) [OF e assms(6)] on] r
    by (auto simp: replies_def on_time_def d_def)
qed

lemma payment_replies:
  assumes "redis_server (cl_rc cl)" "payment_workload 300 charges sagas" "s \<in> sagas" "payment_sound tpc charges sagas (c_db st)"
    and "in_time ''payment'' (payment_handle_nats cl) st (h @ e # t)" "ob_service e = ''payment''"
    and "\<And>e'. e' \<in> set (h @ [e]) \<Longrightarrow> order_message (tpc s) s items (fst (charges s)) (snd (charges s)) e'" "fst (charges s) \<noteq> []"
  defines "d \<equiv> c_db (deliveries (payment_handle_nats cl) (arrived ''payment'' h) st)"
  shows "replies (tpc s) (asked_op (tpc s) e) (accepted (asked_op (tpc s) e) (affordable d (fst (charges s)) (snd (charges s)))
    (payment_phase tpc d s)) ''insufficient_credit'' e"
proof -
  note l = payment_ledgerI [OF assms(1,2)]
  let ?st = "(deliveries (payment_handle_nats cl) (arrived ''payment'' h) st)\<lparr>c_trips := [], sv_rules := []\<rparr>"
  note asks = asks_payment [of tpc s items charges _ sagas, OF _ _ assms(3,8)]
  have "list_all (\<lambda>(msg, _). payment_traffic 300 tpc charges sagas msg) (arrived ''payment'' h)"
    by (rule arrived_traffic) (use asks [OF assms(7)] in \<open>auto simp: payment_traffic_def\<close>)
  then have d: "payment_sound tpc charges sagas (c_db ?st)" using payment_ledger.deliveries_sound [OF l assms(4)] by simp
  have e: "order_message (tpc s) s items (fst (charges s)) (snd (charges s)) e" using assms(7) by simp
  have on: "online ?st" "sv_rules ?st = []" by (simp_all add: online_def)
  have r: "ob_reply e = on_time (payment_handle_nats cl) st (arrived ''payment'' h) (wire e)" using assms(5,6) by (auto simp: in_time_def)
  show ?thesis
    using payment_ledger.handle_online_effect [OF l d asks(1,2) [OF e assms(6)] on] r
    by (auto simp: replies_def on_time_def d_def)
qed

section \<open>Services that are ready, and what a checkout makes of them\<close>

text \<open>
  The order's items, user and amount can be asked for, the services' records are sound, and they have not heard
  of the saga, in either protocol.
\<close>

definition ready_stock :: "redis_client \<Rightarrow> item_list \<Rightarrow> string \<Rightarrow> svc \<Rightarrow> bool" where
  "ready_stock cl items s st \<longleftrightarrow> redis_server (cl_rc cl) \<and> stock_workload 300 (\<lambda>_. items) {s} \<and>
     (\<forall>two. stock_sound (\<lambda>_. two) (\<lambda>_. items) {s} (c_db st) \<and> stock_phase (\<lambda>_. two) (c_db st) s = Fresh)"

definition ready_payment :: "redis_client \<Rightarrow> string \<Rightarrow> int \<Rightarrow> string \<Rightarrow> svc \<Rightarrow> bool" where
  "ready_payment cl u cost s st \<longleftrightarrow> redis_server (cl_rc cl) \<and> payment_workload 300 (\<lambda>_. (u, cost)) {s} \<and> u \<noteq> [] \<and>
     (\<forall>two. payment_sound (\<lambda>_. two) (\<lambda>_. (u, cost)) {s} (c_db st) \<and> payment_phase (\<lambda>_. two) (c_db st) s = Fresh)"

text \<open>
  Where a checkout leaves a service: a success is committed, or executed for good under saga; a failure is undone,
  and under saga a service that refused has nothing to undo.
\<close>

definition closes :: "bool \<Rightarrow> bool \<Rightarrow> phase \<Rightarrow> bool" where
  "closes two ok p \<longleftrightarrow> (if ok then p = (if two then Final else Held) else p = Undone \<or> \<not> two \<and> p = Fresh)"

definition sold :: "bool \<Rightarrow> item_list \<Rightarrow> string \<Rightarrow> int \<Rightarrow> string \<Rightarrow> bool \<Rightarrow> svc \<Rightarrow> svc \<Rightarrow> svc \<Rightarrow> svc \<Rightarrow> bool" where
  "sold two items u cost s ok st1 st1' st2 st2' \<longleftrightarrow>
     closes two ok (stock_phase (\<lambda>_. two) (c_db st1') s) \<and> closes two ok (payment_phase (\<lambda>_. two) (c_db st2') s) \<and>
     (\<forall>i. stock_level (c_db st1') i = stock_level (c_db st1) i - (if ok then qty items i else 0)) \<and>
     (\<forall>v. credit_level (c_db st2') v = credit_level (c_db st2) v - (if ok \<and> v = u then cost else 0))"

lemma closes_holds: "closes two ok p \<Longrightarrow> holds p n = (if ok then n else 0)"
  by (auto simp: closes_def split: if_splits)

lemma settled_answers:
  assumes "settled ev MAX_VERIFIED_RETRIES steps qs" "step \<in> set steps" "\<And>e. e \<in> set qs \<Longrightarrow> ob_service e = service step \<Longrightarrow> said ev e"
  shows "\<exists>e\<in>set qs. ob_service e = service step \<and> said ev e"
proof -
  have "acknowledged ev (service step) qs \<or> MAX_VERIFIED_RETRIES \<le> asked (service step) qs" using assms(1,2) by (simp add: settled_def)
  then show ?thesis
  proof
    assume "MAX_VERIFIED_RETRIES \<le> asked (service step) qs"
    then have "filter (\<lambda>e. ob_service e = service step) qs \<noteq> []" by (auto simp: asked_def MAX_VERIFIED_RETRIES_def)
    then obtain e where "e \<in> set qs" "ob_service e = service step" by (auto simp: filter_empty_conv)
    then show ?thesis using assms(3) by blast
  qed (auto simp: acknowledged_def)
qed

lemma ready_sites:
  assumes "ready_stock scl items s st1" "ready_payment pcl u cost s st2"
    and "in_time ''stock'' (stock_handle_nats scl) st1 es" "in_time ''payment'' (payment_handle_nats pcl) st2 es"
  shows "stock_site scl (\<lambda>_. two) (\<lambda>_. items) {s} s st1 (arrived ''stock'' es) es"
    "payment_site pcl (\<lambda>_. two) (\<lambda>_. (u, cost)) {s} s st2 (arrived ''payment'' es) es"
  using assms in_time_served [OF assms(3)] in_time_served [OF assms(4)]
  by (simp_all add: stock_site_def payment_site_def ready_stock_def ready_payment_def)

text \<open>A service replies to a decision with success; to the prepare, it depends.\<close>

lemma decision_replies:
  assumes "ready_stock scl items s st1" "ready_payment pcl u cost s st2"
    and "\<And>e. e \<in> set es \<Longrightarrow> order_message two s items u cost e"
    and "in_time ''stock'' (stock_handle_nats scl) st1 es" "in_time ''payment'' (payment_handle_nats pcl) st2 es"
    and "e \<in> set es" "ob_service e \<in> {''stock'', ''payment''}" "does (action_of two c) e" "c \<noteq> Take" "c = Confirm \<longrightarrow> two"
  shows "said (event_of two c) e"
proof -
  obtain h t where es: "es = h @ e # t" using assms(6) by (meson split_list)
  have c: "asked_op two e = c" using asked_op_iff [OF assms(3) [OF assms(6)] assms(10)] assms(8) by simp
  have acc: "accepted c b p" for b p using assms(9) by (cases c) auto
  have msg: "order_message two s items u cost e'" if "e' \<in> set (h @ [e])" for e' using assms(3) that es by auto
  show ?thesis
  proof (cases "ob_service e = ''stock''")
    case True
    have "replies two (asked_op two e) (accepted (asked_op two e) (in_stock d items) (stock_phase (\<lambda>_. two) d s)) ''insufficient_stock'' e"
      if "d = c_db (deliveries (stock_handle_nats scl) (arrived ''stock'' h) st1)" for d
      using stock_replies [where tpc = "\<lambda>_. two" and stocks = "\<lambda>_. items" and sagas = "{s}" and u = u and cost = cost,
          OF _ _ _ _ assms(4) [unfolded es] True msg] assms(1) that by (simp add: ready_stock_def)
    then show ?thesis using replies_said c acc by simp
  next
    case False
    then have p: "ob_service e = ''payment''" using assms(7) by simp
    have "replies two (asked_op two e) (accepted (asked_op two e) (affordable d u cost) (payment_phase (\<lambda>_. two) d s)) ''insufficient_credit'' e"
      if "d = c_db (deliveries (payment_handle_nats pcl) (arrived ''payment'' h) st2)" for d
      using payment_replies [where tpc = "\<lambda>_. two" and charges = "\<lambda>_. (u, cost)" and sagas = "{s}" and items = items,
          OF _ _ _ _ assms(5) [unfolded es] p] msg assms(2) that by (simp add: ready_payment_def)
    then show ?thesis using replies_said c acc by simp
  qed
qed

lemma first_replies:
  assumes "ready_stock scl items s st1" "ready_payment pcl u cost s st2"
    and "\<And>e. e \<in> set (e0 # e1 # t) \<Longrightarrow> order_message two s items u cost e"
    and "in_time ''stock'' (stock_handle_nats scl) st1 (e0 # e1 # t)" "in_time ''payment'' (payment_handle_nats pcl) st2 (e0 # e1 # t)"
    and "ob_service e0 = ''stock''" "ob_service e1 = ''payment''" "does (action_of two Take) e0" "does (action_of two Take) e1"
  shows "replies two Take (in_stock (c_db st1) items) ''insufficient_stock'' e0"
    "replies two Take (affordable (c_db st2) u cost) ''insufficient_credit'' e1"
proof -
  have c: "asked_op two e0 = Take" "asked_op two e1 = Take" using assms(8,9) by (simp_all add: asked_op_def)
  have none: "arrived sv [] = []" "arrived ''payment'' [e0] = []" for sv using assms(6) by (simp_all add: arrived_def)
  show "replies two Take (in_stock (c_db st1) items) ''insufficient_stock'' e0"
    using stock_replies [where tpc = "\<lambda>_. two" and stocks = "\<lambda>_. items" and sagas = "{s}" and u = u and cost = cost and h = "[]"
          and cl = scl and s = s and st = st1 and t = "e1 # t",
        OF _ _ _ _ _ assms(6)] assms(1,3,4) by (simp add: ready_stock_def c none deliveries_def)
  show "replies two Take (affordable (c_db st2) u cost) ''insufficient_credit'' e1"
    using payment_replies [where tpc = "\<lambda>_. two" and charges = "\<lambda>_. (u, cost)" and sagas = "{s}" and items = items and h = "[e0]"
          and cl = pcl and s = s and st = st2 and t = t,
        OF _ _ _ _ _ assms(7)] assms(2,3,5) by (auto simp: ready_payment_def c none deliveries_def)
qed

text \<open>What stock and credit are left follows from the phases.\<close>

lemma sold_sites:
  assumes "stock_site scl (\<lambda>_. two) (\<lambda>_. items) {s} s st1 ds1 es" "payment_site pcl (\<lambda>_. two) (\<lambda>_. (u, cost)) {s} s st2 ds2 es"
    and "\<And>e. e \<in> set es \<Longrightarrow> order_message two s items u cost e" "u \<noteq> []"
  defines "st1' \<equiv> deliveries (stock_handle_nats scl) ds1 st1" and "st2' \<equiv> deliveries (payment_handle_nats pcl) ds2 st2"
  assumes "closes two ok (stock_phase (\<lambda>_. two) (c_db st1') s)" "closes two ok (payment_phase (\<lambda>_. two) (c_db st2') s)"
  shows "sold two items u cost s ok st1 st1' st2 st2'"
proof -
  have "stock_level (c_db st1') i = stock_level (c_db st1) i - (if ok then qty items i else 0)" for i
    using stock_site_besides [OF assms(1), of u cost i] assms(3,7) closes_holds [OF assms(7)]
    by (simp add: stock_besides_def st1'_def)
  moreover have "credit_level (c_db st2') v = credit_level (c_db st2) v - (if ok \<and> v = u then cost else 0)" for v
    using payment_site_besides [OF assms(2), of items v] assms(3,4,8) closes_holds [OF assms(8)]
    by (auto simp: credit_besides_def charge_of_def st2'_def)
  ultimately show ?thesis using assms(7,8) by (simp add: sold_def)
qed

section \<open>Two-phase commit on it\<close>

lemma abort_reason_two:
  assumes "length steps = 2" "replies True Take ok0 why0 e0" "replies True Take ok1 why1 e1" "\<not> (ok0 \<and> ok1)"
  shows "abort_reason (zip steps (map vote_of [e0, e1])) = Str (if ok0 then why1 else why0)"
proof -
  obtain a b where "steps = [a, b]" using assms(1) by (auto simp: length_Suc_conv numeral_2_eq_2)
  moreover have "dict_has (vote_of e0) ''event'' ''failed'' \<longleftrightarrow> \<not> ok0" "dict_has (vote_of e1) ''event'' ''failed'' \<longleftrightarrow> \<not> ok1"
    using replies_vote(1) [OF assms(2)] replies_vote(1) [OF assms(3)] by simp_all
  ultimately show ?thesis using replies_vote(2) [OF assms(2)] replies_vote(2) [OF assms(3)] assms(4) by (auto simp: dict_get_def)
qed

lemma voted_on_time:
  assumes "tpc_voted D (td_steps checkout_tx) es x" "ready_stock scl items s st1" "ready_payment pcl u cost s st2"
    and "\<And>e. e \<in> set es \<Longrightarrow> order_message True s items u cost e"
    and "in_time ''stock'' (stock_handle_nats scl) st1 es" "in_time ''payment'' (payment_handle_nats pcl) st2 es"
  defines "ok1 \<equiv> in_stock (c_db st1) items" and "ok2 \<equiv> affordable (c_db st2) u cost"
  shows "x = (if ok1 \<and> ok2 then status_success else status_failed (Str (if ok1 then ''insufficient_credit'' else ''insufficient_stock''))) \<and>
    sold True items u cost s (ok1 \<and> ok2) st1 (deliveries (stock_handle_nats scl) (arrived ''stock'' es) st1)
      st2 (deliveries (payment_handle_nats pcl) (arrived ''payment'' es) st2)"
proof -
  let ?steps = "td_steps checkout_tx"
  let ?p = "stock_phase (\<lambda>_. True) (c_db (deliveries (stock_handle_nats scl) (arrived ''stock'' es) st1)) s"
  let ?q = "payment_phase (\<lambda>_. True) (c_db (deliveries (payment_handle_nats pcl) (arrived ''payment'' es) st2)) s"
  obtain ps qs c where es: "es = ps @ qs" and prep: "to_all ''prepare'' (Some (''PREPARING'', D)) ?steps ps"
    and all: "c = Confirm \<and> list_all (said ''prepared'') ps \<and> x = status_success \<or>
      c = Undo \<and> \<not> list_all (said ''prepared'') ps \<and> x = status_failed (abort_reason (zip ?steps (map vote_of ps)))"
    and qs: "list_all (does (action_of True c)) qs" "settled (event_of True c) MAX_VERIFIED_RETRIES ?steps qs"
  proof -
    from assms(1) consider ps qs where "es = ps @ qs" "commit_history D ?steps ps qs" "x = status_success"
        "settled ''committed'' MAX_VERIFIED_RETRIES ?steps qs"
      | ps qs where "es = ps @ qs" "abort_history D ?steps ps qs" "x = status_failed (abort_reason (zip ?steps (map vote_of ps)))"
        "settled ''aborted'' MAX_VERIFIED_RETRIES ?steps qs"
      unfolding tpc_voted_def by blast
    then show thesis
    proof cases
      case 1
      then show thesis using that [of _ _ Confirm] sent_does [of "''commit''"] by (auto simp: commit_history_def)
    next
      case 2
      then show thesis using that [of _ _ Undo] sent_does [of "''abort''"] by (auto simp: abort_history_def)
    qed
  qed
  have two: "length ?steps = 2" "map service ?steps = [''stock'', ''payment'']" by (simp_all add: checkout_tx_def)
  then have "length ps = 2" using to_all_length [OF prep] by simp
  then obtain e0 e1 where ps: "ps = [e0, e1]" by (auto simp: length_Suc_conv numeral_2_eq_2)
  have e01: "ob_service e0 = ''stock''" "ob_service e1 = ''payment''" "does ''prepare'' e0" "does ''prepare'' e1"
    using prep two(2) by (auto simp: to_all_def ps sent_def does_def)
  note r = first_replies [where two = True, OF assms(2,3) assms(4-6) [unfolded es ps append_Cons append_Nil] e01(1,2), simplified, OF e01(3,4), folded ok1_def ok2_def]
  have vote: "list_all (said ''prepared'') ps \<longleftrightarrow> ok1 \<and> ok2" using replies_said [OF r(1)] replies_said [OF r(2)] by (simp add: ps)
  have x: "x = (if ok1 \<and> ok2 then status_success else status_failed (Str (if ok1 then ''insufficient_credit'' else ''insufficient_stock'')))"
    and c: "c = (if ok1 \<and> ok2 then Confirm else Undo)"
    using all vote abort_reason_two [OF two(1) r] by (auto simp: ps)
  note sites = ready_sites [OF assms(2,3,5,6), of True]
  have set1: "settles True ''stock'' es ?p" using stock_site_settles [OF sites(1), of u cost] assms(4) by simp
  have set2: "settles True ''payment'' es ?q" using payment_site_settles [OF sites(2), of items] assms(3,4) by (simp add: ready_payment_def)
  have other: "\<not> asked_for True c' es" if "c' \<noteq> Take" "c' \<noteq> c" for c'
  proof -
    have "action_of True c' \<noteq> ''prepare''" using that(1) by (cases c') auto
    moreover have "action_of True c' \<noteq> action_of True c" using action_of_inject that(2) by blast
    ultimately show ?thesis using qs(1) e01 by (auto simp: asked_for_def es ps does_def list_all_iff)
  qed
  have c2: "c \<noteq> Take" using c by simp
  have dec: "\<exists>e\<in>set es. ob_service e = sv \<and> does (action_of True c) e \<and> said (event_of True c) e" if sv: "sv \<in> {''stock'', ''payment''}" for sv
  proof -
    have "sv \<in> set (map service ?steps)" unfolding two(2) using sv by simp
    then obtain step where step: "step \<in> set ?steps" "service step = sv" by auto
    have "said (event_of True c) e" if "e \<in> set qs" "ob_service e = service step" for e
      using decision_replies [where two = True, OF assms(2-6), of e c] that qs(1) c2 sv step(2) by (auto simp: es list_all_iff)
    from settled_answers [OF qs(2) step(1) this] show ?thesis using qs(1) step(2) by (auto simp: es list_all_iff)
  qed
  have settle: "p = (if ok1 \<and> ok2 then Final else Undone)" if se: "settles True sv es p" "sv \<in> {''stock'', ''payment''}" for p sv
  proof -
    obtain e where e: "e \<in> set es" "ob_service e = sv" "does (action_of True c) e" "said (event_of True c) e" using dec [OF se(2)] by blast
    show ?thesis
    proof (cases "ok1 \<and> ok2")
      case True
      then have "c = Confirm" "\<not> asked_for True Undo es" using c other [of Undo] by auto
      then have "p = Final" using se(1) e unfolding settles_def by blast
      then show ?thesis using True by simp
    next
      case False
      then have "c = Undo" "\<not> asked_for True Confirm es" using c other [of Confirm] by auto
      then have "p = Undone" using se(1) e unfolding settles_def by blast
      then show ?thesis using False by simp
    qed
  qed
  have p: "?p = (if ok1 \<and> ok2 then Final else Undone)" by (rule settle [OF set1]) simp
  have q: "?q = (if ok1 \<and> ok2 then Final else Undone)" by (rule settle [OF set2]) simp
  have "closes True (ok1 \<and> ok2) ?p" "closes True (ok1 \<and> ok2) ?q" using p q by (simp_all add: closes_def)
  then show ?thesis using x sold_sites [OF sites assms(4)] assms(3) by (simp add: ready_payment_def)
qed

section \<open>The saga protocol on it\<close>

lemma undone_sent: "undone w ss ys \<Longrightarrow> set (map ob_service ys) \<subseteq> service ` set ss \<and> list_all (does ''compensate'') ys"
proof (induction ss arbitrary: ys)
  case (Cons step ss)
  then obtain b ys' where ys: "ys = b @ ys'" and b: "undo_block w step b" and "undone w ss ys'" by auto
  then have "set (map ob_service ys') \<subseteq> service ` set ss \<and> list_all (does ''compensate'') ys'" using Cons.IH by blast
  then show ?case using b sent_does unfolding ys undo_block_def by auto
qed simp

lemma undone_block: "undone w ss ys \<Longrightarrow> step \<in> set ss \<Longrightarrow> \<exists>b. set b \<subseteq> set ys \<and> undo_block w step b"
proof (induction ss arbitrary: ys)
  case (Cons step' ss)
  then obtain b ys' where ys: "ys = b @ ys'" "undo_block w step' b" "undone w ss ys'" by auto
  show ?case
  proof (cases "step = step'")
    case True
    then show ?thesis using ys by auto
  next
    case False
    then obtain b' where "set b' \<subseteq> set ys'" "undo_block w step b'" using Cons.IH [OF ys(3)] Cons.prems(2) by auto
    then show ?thesis using ys(1) by auto
  qed
qed simp

lemma replies_maybe: "replies False Take ok why e \<Longrightarrow> why \<noteq> ''timeout'' \<Longrightarrow> maybe_done e \<longleftrightarrow> ok"
  using replies_said [of False Take ok why e]
  by (auto simp: maybe_done_def timed_out_def replies_def vote_of_def step_result_def dict_has_def split: pyval.splits)

lemma worst_two:
  assumes "replies False Take ok0 ''insufficient_stock'' e0" "replies False Take ok1 ''insufficient_credit'' e1" "\<not> (ok0 \<and> ok1)"
  shows "worst (Str []) [e0, e1] = Inr (Str (if ok0 then ''insufficient_credit'' else ''insufficient_stock''))"
proof -
  have s: "saga_reason (vote_of e) = Str why" if "replies False Take ok why e" "\<not> ok" for e ok why
    using replies_vote(2) [OF that] by (auto simp: saga_reason_def dict_get_def)
  show ?thesis
    using assms(3) replies_said [OF assms(1)] replies_said [OF assms(2)] s [OF assms(1)] s [OF assms(2)]
    by (auto simp: choose_failure_reason_def reason_priority_def FAILURE_REASON_PRIORITY_def dict_get_def)
qed

text \<open>The first message to a service; one that refused and was asked nothing else has heard of nothing.\<close>

lemma first_stock:
  assumes "ready_stock cl items s st" "order_message two s items u cost e" "ob_service e = ''stock''" "does (action_of two Take) e"
  shows "\<exists>v st'. stock_handle_nats cl (wire e) (st\<lparr>c_trips := [], sv_rules := []\<rparr>) = (Inr v, st') \<and>
    (in_stock (c_db st) items \<longrightarrow> dict_has v ''event'' (event_of two Take)) \<and>
    stock_phase (\<lambda>_. two) (c_db st') s = (if in_stock (c_db st) items then Held else Fresh)"
proof -
  have w: "redis_server (cl_rc cl)" "stock_workload 300 (\<lambda>_. items) {s}" "stock_sound (\<lambda>_. two) (\<lambda>_. items) {s} (c_db st)"
    "stock_phase (\<lambda>_. two) (c_db st) s = Fresh" using assms(1) by (auto simp: ready_stock_def)
  let ?st = "st\<lparr>c_trips := [], sv_rules := []\<rparr>"
  have c: "asked_op two e = Take" using assms(4) by (simp add: asked_op_def)
  have on: "online ?st" "sv_rules ?st = []" "stock_sound (\<lambda>_. two) (\<lambda>_. items) {s} (c_db ?st)" using w(3) by (simp_all add: online_def)
  note asks = asks_stock [where tpc = "\<lambda>_. two" and reqs = "\<lambda>_. items" and sagas = "{s}", OF assms(2,3), simplified]
  show ?thesis
    using stock_ledger.handle_online_effect [OF stock_ledgerI [OF w(1,2)] on(3) asks on(1,2)] w(4)
    by (auto simp: c split: if_splits)
qed

lemma refused_stock:
  assumes "ready_stock cl items s st" "order_message two s items u cost e" "ob_service e = ''stock''" "does (action_of two Take) e"
    and "\<not> in_stock (c_db st) items"
  shows "stock_phase (\<lambda>_. two) (c_db (deliveries (stock_handle_nats cl) [(wire e, [], [])] st)) s = Fresh"
  using first_stock [OF assms(1-4)] assms(5) by (auto simp: deliveries_def deliver_def)

lemma refused_payment:
  assumes "ready_payment cl u cost s st" "order_message two s items u cost e" "ob_service e = ''payment''" "does (action_of two Take) e"
    and "\<not> affordable (c_db st) u cost"
  shows "payment_phase (\<lambda>_. two) (c_db (deliveries (payment_handle_nats cl) [(wire e, [], [])] st)) s = Fresh"
proof -
  have w: "redis_server (cl_rc cl)" "payment_workload 300 (\<lambda>_. (u, cost)) {s}" "payment_sound (\<lambda>_. two) (\<lambda>_. (u, cost)) {s} (c_db st)"
    "payment_phase (\<lambda>_. two) (c_db st) s = Fresh" "u \<noteq> []" using assms(1) by (auto simp: ready_payment_def)
  let ?st = "st\<lparr>c_trips := [], sv_rules := []\<rparr>"
  have c: "asked_op two e = Take" using assms(4) by (simp add: asked_op_def)
  have on: "online ?st" "sv_rules ?st = []" "payment_sound (\<lambda>_. two) (\<lambda>_. (u, cost)) {s} (c_db ?st)" using w(3) by (simp_all add: online_def)
  note asks = asks_payment [where tpc = "\<lambda>_. two" and reqs = "\<lambda>_. (u, cost)" and sagas = "{s}" and items = items and s = s and e = e]
  have asks: "(asked_op two e, s) \<in> protocol_cmds (\<lambda>_. two) {s}" "payment_asks two 300 (asked_op two e) s (u, cost) (wire e)"
    using asks assms(2,3) w(5) by simp_all
  show ?thesis
    using payment_ledger.handle_online_effect [OF payment_ledgerI [OF w(1,2)] on(3) asks on(1,2)] w(4) assms(5)
    by (auto simp: deliveries_def deliver_def c)
qed

text \<open>A step that is compensated is undone; a service that is not compensated gets its execute and nothing else.\<close>

lemma compensated_on_time:
  assumes "undone w ss ys" "step \<in> set ss" "service step \<in> {''stock'', ''payment''}" "settles False (service step) es p" "set ys \<subseteq> set es"
    and "ready_stock scl items s st1" "ready_payment pcl u cost s st2"
    and "\<And>e. e \<in> set es \<Longrightarrow> order_message False s items u cost e"
    and "in_time ''stock'' (stock_handle_nats scl) st1 es" "in_time ''payment'' (payment_handle_nats pcl) st2 es"
  shows "p = Undone"
proof -
  obtain b where b: "set b \<subseteq> set ys" "undo_block w step b" using undone_block [OF assms(1,2)] by blast
  have d: "does ''compensate'' e" "ob_service e = service step" "e \<in> set es" if "e \<in> set b" for e
    using b that sent_does assms(5) unfolding undo_block_def by (auto simp: list_all_iff)
  have "said ''compensated'' e" if "e \<in> set b" for e
    using decision_replies [where two = False and c = Undo, OF assms(6-10) d(3) [OF that]] d [OF that] assms(3) by simp
  moreover have "settled ''compensated'' MAX_VERIFIED_RETRIES [step] b" using b(2) by (simp add: undo_block_def)
  ultimately obtain e where "e \<in> set b" "said ''compensated'' e" using settled_answers [of "''compensated''" "[step]" b step] by auto
  then show ?thesis using assms(4) d [of e] unfolding settles_def by simp
qed

lemma arrived_only:
  assumes "undone w (rev (to_undo steps xs)) ys" "ob_service e \<notin> service ` set (to_undo steps xs)"
    and "filter (\<lambda>e'. ob_service e' = ob_service e) xs = [e]"
  shows "arrived (ob_service e) (xs @ ys) = [(wire e, [], [])]"
proof -
  have "set (map ob_service ys) \<subseteq> service ` set (to_undo steps xs)" using undone_sent [OF assms(1)] by simp
  then have "\<forall>e'\<in>set ys. ob_service e' \<noteq> ob_service e" using assms(2) by (metis image_eqI list.set_map subsetD)
  then have "filter (\<lambda>e'. ob_service e' = ob_service e) ys = []" by (simp add: filter_empty_conv)
  then show ?thesis using assms(3) by (simp add: arrived_def)
qed

text \<open>The two executes of a checkout, and what follows them.\<close>

lemma saga_shape:
  assumes "saga_voted ctx name (td_steps checkout_tx) es x"
  obtains e0 e1 ys where "es = [e0, e1] @ ys" "ob_service e0 = ''stock''" "ob_service e1 = ''payment''" "does ''execute'' e0" "does ''execute'' e1"
    "(if said ''executed'' e0 \<and> said ''executed'' e1 then ys = [] \<and> x = status_success
      else undone (undo_log ctx (td_steps checkout_tx) [e0, e1]) (rev (to_undo (td_steps checkout_tx) [e0, e1])) ys \<and>
        (\<exists>reason. worst (Str []) [e0, e1] = Inr reason \<and> x = status_failed reason))"
proof -
  let ?steps = "td_steps checkout_tx"
  obtain X xs ys where es: "es = xs @ ys" and exec: "to_all ''execute'' X ?steps xs"
    and all: "if list_all (said ''executed'') xs then ys = [] \<and> x = status_success
      else undone (undo_log ctx ?steps xs) (rev (to_undo ?steps xs)) ys \<and> (\<exists>reason. worst (Str []) xs = Inr reason \<and> x = status_failed reason)"
    using assms unfolding saga_voted_def Let_def by (metis append_Nil2)
  have "length xs = 2" using to_all_length [OF exec] by (simp add: checkout_tx_def)
  then obtain e0 e1 where xs: "xs = [e0, e1]" by (auto simp: length_Suc_conv numeral_2_eq_2)
  have "ob_service e0 = ''stock''" "ob_service e1 = ''payment''" "does ''execute'' e0" "does ''execute'' e1"
    using exec checkout_steps by (auto simp: to_all_def xs sent_def does_def)
  from that [OF es [unfolded xs] this] show thesis using all unfolding xs by simp
qed

lemma saga_voted_on_time:
  assumes "saga_voted ctx name (td_steps checkout_tx) es x" "ready_stock scl items s st1" "ready_payment pcl u cost s st2"
    and msg: "\<And>e. e \<in> set es \<Longrightarrow> order_message False s items u cost e"
    and "in_time ''stock'' (stock_handle_nats scl) st1 es" "in_time ''payment'' (payment_handle_nats pcl) st2 es"
  defines "ok1 \<equiv> in_stock (c_db st1) items" and "ok2 \<equiv> affordable (c_db st2) u cost"
  shows "x = (if ok1 \<and> ok2 then status_success else status_failed (Str (if ok1 then ''insufficient_credit'' else ''insufficient_stock''))) \<and>
    sold False items u cost s (ok1 \<and> ok2) st1 (deliveries (stock_handle_nats scl) (arrived ''stock'' es) st1)
      st2 (deliveries (payment_handle_nats pcl) (arrived ''payment'' es) st2)"
proof -
  let ?steps = "td_steps checkout_tx"
  let ?p = "stock_phase (\<lambda>_. False) (c_db (deliveries (stock_handle_nats scl) (arrived ''stock'' es) st1)) s"
  let ?q = "payment_phase (\<lambda>_. False) (c_db (deliveries (payment_handle_nats pcl) (arrived ''payment'' es) st2)) s"
  obtain e0 e1 ys where es: "es = [e0, e1] @ ys" and e01: "ob_service e0 = ''stock''" "ob_service e1 = ''payment''" "does ''execute'' e0" "does ''execute'' e1"
    and all: "if said ''executed'' e0 \<and> said ''executed'' e1 then ys = [] \<and> x = status_success
      else undone (undo_log ctx ?steps [e0, e1]) (rev (to_undo ?steps [e0, e1])) ys \<and>
        (\<exists>reason. worst (Str []) [e0, e1] = Inr reason \<and> x = status_failed reason)"
    by (rule saga_shape [OF assms(1)])
  note r = first_replies [where two = False, OF assms(2,3) assms(4-6) [unfolded es append_Cons append_Nil] e01(1,2), simplified,
      OF e01(3,4), folded ok1_def ok2_def]
  have said: "said ''executed'' e0 \<longleftrightarrow> ok1" "said ''executed'' e1 \<longleftrightarrow> ok2" using replies_said [OF r(1)] replies_said [OF r(2)] by simp_all
  have undo: "undone (undo_log ctx ?steps [e0, e1]) (rev (to_undo ?steps [e0, e1])) ys" if "\<not> (ok1 \<and> ok2)" using all that said by auto
  have x: "x = (if ok1 \<and> ok2 then status_success else status_failed (Str (if ok1 then ''insufficient_credit'' else ''insufficient_stock'')))"
    using all said worst_two [OF r] by auto
  obtain s0 s1 where steps: "?steps = [s0, s1]" "service s0 = ''stock''" "service s1 = ''payment''" by (auto simp: checkout_tx_def)
  have to_undo: "to_undo ?steps [e0, e1] = (if ok1 then [s0] else []) @ (if ok2 then [s1] else [])"
    using replies_maybe [OF r(1)] replies_maybe [OF r(2)] by (simp add: to_undo_def steps(1))
  note sites = ready_sites [OF assms(2,3,5,6), of False]
  have set1: "settles False ''stock'' es ?p" using stock_site_settles [OF sites(1), of u cost] assms(4) by simp
  have set2: "settles False ''payment'' es ?q" using payment_site_settles [OF sites(2), of items] assms(3,4) by (simp add: ready_payment_def)
  have held: "p = Held" if "settles False (ob_service e) es p" "ok1 \<and> ok2" "e \<in> {e0, e1}" for p e
  proof -
    have ys: "ys = []" using all said that(2) by auto
    have "\<not> asked_for False Undo es" using e01(3,4) by (auto simp: asked_for_def es ys does_def)
    then have "p \<in> {Held, Final}" using that said e01 unfolding settles_def by (auto simp: es)
    then show ?thesis using that(1) by (auto simp: settles_def)
  qed
  have gone: "p = Undone" if "settles False (service step) es p" "\<not> (ok1 \<and> ok2)" "step \<in> set (to_undo ?steps [e0, e1])" for p step
    by (rule compensated_on_time [OF undo [OF that(2)] _ _ that(1) _ assms(2-6)]) (use that(3) steps(2,3) in \<open>auto simp: to_undo es split: if_splits\<close>)
  have alone: "arrived ''stock'' es = [(wire e0, [], [])]" if "\<not> ok1"
    using arrived_only [of "undo_log ctx ?steps [e0, e1]" ?steps "[e0, e1]" ys e0] undo that e01(1,2) steps(3) by (auto simp: es to_undo)
  have alone': "arrived ''payment'' es = [(wire e1, [], [])]" if "\<not> ok2"
    using arrived_only [of "undo_log ctx ?steps [e0, e1]" ?steps "[e0, e1]" ys e1] undo that e01(1,2) steps(2) by (auto simp: es to_undo)
  have "closes False (ok1 \<and> ok2) ?p"
  proof (cases ok1)
    case True
    then show ?thesis using held [of e0 ?p] gone [of s0 ?p] set1 e01(1) steps(2) by (auto simp: closes_def to_undo)
  next
    case False
    then have "?p = Fresh" using refused_stock [OF assms(2) msg [of e0] e01(1)] alone e01(1,3) by (simp add: ok1_def es)
    then show ?thesis using False by (simp add: closes_def)
  qed
  moreover have "closes False (ok1 \<and> ok2) ?q"
  proof (cases ok2)
    case True
    then show ?thesis using held [of e1 ?q] gone [of s1 ?q] set2 e01(2) steps(3) by (auto simp: closes_def to_undo)
  next
    case False
    then have "?q = Fresh" using refused_payment [OF assms(3) msg [of e1] e01(2)] alone' e01(2,4) by (simp add: ok2_def es)
    then show ?thesis using False by (simp add: closes_def)
  qed
  ultimately show ?thesis using x sold_sites [OF sites assms(4)] assms(3) by (simp add: ready_payment_def)
qed

end
