(* ===== verification/CheckoutOnTime.thy ===== *)
theory CheckoutOnTime
  imports PerfectNetwork
begin

text \<open>
  A whole checkout on a network that delivers, under any protocol: what it answers, what it does to the order, to
  the stock and to the credit.
\<close>

section \<open>The orchestrator on it\<close>

definition all_closed :: "'n proc \<Rightarrow> bool" where
  "all_closed st \<longleftrightarrow> (\<forall>sv b. map_of (circuit_breakers st) sv = Some b \<longrightarrow> breaker_state b = Closed)"

lemma check_closed: "all_closed st \<Longrightarrow> check_circuit_breakers steps st = (Inr None, st)"
proof (induction steps)
  case (Cons step steps)
  have "breaker_is_open (service step) st = (Inr False, st)"
    using Cons.prems by (auto simp: all_closed_def breaker_is_open_def is_open_def set_breaker_def update_same split: option.splits)
  with Cons show ?case by (simp add: bindE_def)
qed (simp add: ret_def)

text \<open>A run that the network served in time.\<close>

definition on_time_run :: "bool \<Rightarrow> redis_client \<Rightarrow> svc \<Rightarrow> redis_client \<Rightarrow> svc \<Rightarrow> obs list \<Rightarrow> bool" where
  "on_time_run two scl st1 pcl st2 es \<longleftrightarrow> (\<exists>e\<in>set es. does (action_of two Take) e) \<and>
     in_time ''stock'' (stock_handle_nats scl) st1 es \<and> in_time ''payment'' (payment_handle_nats pcl) st2 es"

lemma voted_prepares:
  assumes "tpc_voted D steps es x" "steps \<noteq> []"
  shows "\<exists>e\<in>set es. does ''prepare'' e"
proof -
  obtain ps qs w where "es = ps @ qs" "to_all ''prepare'' w steps ps"
    using assms(1) unfolding tpc_voted_def commit_history_def abort_history_def by blast
  moreover from this(2) have "ps \<noteq> []" "list_all (does ''prepare'') ps" using assms(2) sent_does by (auto simp: to_all_def)
  ultimately show ?thesis by (cases ps) auto
qed

text \<open>What a run in time answers, and what it leaves.\<close>

definition in_time_result :: "bool \<Rightarrow> redis_client \<Rightarrow> svc \<Rightarrow> redis_client \<Rightarrow> svc \<Rightarrow> item_list \<Rightarrow> string \<Rightarrow> int \<Rightarrow> string \<Rightarrow> exn + pyval \<Rightarrow>
    obs list proc \<Rightarrow> bool" where
  "in_time_result two scl st1 pcl st2 items u cost s r st' \<longleftrightarrow>
     (let ok1 = in_stock (c_db st1) items; ok2 = affordable (c_db st2) u cost in
      r = Inr (if ok1 \<and> ok2 then status_success else status_failed (Str (if ok1 then ''insufficient_credit'' else ''insufficient_stock''))) \<and>
      online st' \<and> on_time_run two scl st1 pcl st2 (net st') \<and>
      sold two items u cost s (ok1 \<and> ok2) st1 (deliveries (stock_handle_nats scl) (arrived ''stock'' (net st')) st1)
        st2 (deliveries (payment_handle_nats pcl) (arrived ''payment'' (net st')) st2))"

lemma two_pc_on_time:
  assumes "redis_server (cl_rc cl)" "wal_inv (c_db st)" "wal_map (c_db st) s = None" "net st = []" "online st" "all_closed st"
    and "ready_stock scl items s st1" "ready_payment pcl u cost s st2"
    and run: "two_pc_execute cl (recording s (perfect scl st1 pcl st2)) checkout_tx s (checkout_context o' (Str u) items cost) ''checkout'' st = (r, st')"
  shows "in_time_result True scl st1 pcl st2 items u cost s r st'"
proof -
  let ?env = "perfect scl st1 pcl st2" and ?ctx = "checkout_context o' (Str u) items cost" and ?w = "wal_map (c_db st)"
  let ?D = "tpc_data ?ctx ''checkout''" and ?ss = "td_steps checkout_tx"
  have vote: "two_pc_vote cl (recording s ?env) checkout_tx s ?ctx ''checkout'' st = (r, st')"
    using run check_closed [OF assms(6), of ?ss] by (simp add: two_pc_execute_eq bindE_def)
  have t: "triple (wal_at True ?w []) (two_pc_vote cl (recording s ?env) checkout_tx s ?ctx ''checkout'')
      (tpc_done True ?w s ?D ?ss) (\<lambda>_. tpc_cut True ?w s ?D ?ss)"
    by (rule triple_two_pc_vote) (use assms(1,3) checkout_builders perfect_lives in auto)
  have w: "wal_at True ?w [] st" using assms(2,4,5) by (simp add: wal_at_def)
  obtain x where x: "r = Inr x" using triple_raise_D [OF t w] vote by (cases r) (auto simp: tpc_cut_def)
  have d: "tpc_voted ?D ?ss (net st') x" "online st'" using triple_ret_D [OF t w] vote x by (auto simp: tpc_done_def wal_at_def)
  have g: "grows (making ?env s {?ctx} ?ss checkout_actions) [] (net st')"
    using sends_run [OF sends_two_pc run, of checkout_actions] assms(4) by simp
  have msg: "order_message True s items u cost e" if e: "e \<in> set (net st')" for e
  proof -
    obtain a where a: "a \<in> checkout_actions" "made_by s ?ctx ?ss a e" using grows_member [OF g e] by (auto simp: making_def)
    from a(1) obtain c where "a = action_of True c" using action_of.simps(1-3) by (elim insertE) (metis, metis, metis, simp)
    then show ?thesis using a(2) checkout_reads(1) unfolding order_message_def by blast
  qed
  have "on_time_run True scl st1 pcl st2 (net st')"
    using perfect_in_time [OF g] voted_prepares [OF d(1)] by (simp add: on_time_run_def checkout_tx_def)
  then show ?thesis using voted_on_time [OF d(1) assms(7,8) msg perfect_in_time [OF g]] d(2) x by (simp add: in_time_result_def Let_def)
qed

lemma nats_reply_ranked: "nats_reply refusal sid m st = (Inr v, st') \<Longrightarrow> hashable (saga_reason v)"
  by (erule nats_reply_cases) (auto simp: hashable_def saga_reason_def dict_get_def reason_priority_def)

lemma on_time_ranked:
  assumes "on_time handler st ds msg = Inr v" "\<And>msg st v st'. handler msg st = (Inr v, st') \<Longrightarrow> hashable (saga_reason v)"
  shows "hashable (saga_reason v)"
proof -
  let ?run = "handler msg ((deliveries handler ds st)\<lparr>c_trips := [], sv_rules := []\<rparr>)"
  have "fst ?run = Inr v" using assms(1) by (simp add: on_time_def split: sum.splits)
  then have "?run = (Inr v, snd ?run)" by (metis prod.collapse)
  then show ?thesis by (rule assms(2))
qed

lemma perfect_ranked: "env_ranked (perfect scl st1 pcl st2)"
proof -
  have "hashable (saga_reason v)" if "fst (perfect scl st1 pcl st2 h sv a p) = Inr v" for h sv a p v
  proof -
    have "(\<exists>ds msg. on_time (stock_handle_nats scl) st1 ds msg = Inr v) \<or> (\<exists>ds msg. on_time (payment_handle_nats pcl) st2 ds msg = Inr v)"
      using that by (auto simp: perfect_def Let_def split: if_splits)
    then show ?thesis
      by (elim disjE exE on_time_ranked) (auto simp: stock_handle_nats_def payment_handle_nats_def intro: nats_reply_ranked)
  qed
  then show ?thesis unfolding env_ranked_def by blast
qed

lemma saga_messages:
  assumes "saga_execute cl (recording s env) checkout_tx s (checkout_context o' (Str u) items cost) ''checkout'' st = (r, st')" "net st = []"
    and "e \<in> set (net st')"
  shows "order_message False s items u cost e"
proof -
  let ?ctx = "checkout_context o' (Str u) items cost"
  have "grows (making env s {?ctx} (td_steps checkout_tx) {''execute'', ''compensate''}) [] (net st')"
    using sends_run [OF sends_saga assms(1), of "{''execute'', ''compensate''}"] assms(2) by simp
  from grows_member [OF this assms(3)] obtain a where a: "a \<in> {''execute'', ''compensate''}" "made_by s ?ctx (td_steps checkout_tx) a e"
    by (auto simp: making_def)
  from a(1) have "\<exists>c. c \<noteq> Confirm \<and> a = action_of False c" using action_of.simps(4,6) op.distinct(1,3,5) by (elim insertE) (metis, metis, simp)
  then show ?thesis using a(2) checkout_reads(1) unfolding order_message_def by blast
qed

lemma saga_on_time:
  assumes "redis_server (cl_rc cl)" "wal_inv (c_db st)" "wal_map (c_db st) s = None" "net st = []" "online st" "all_closed st"
    and "ready_stock scl items s st1" "ready_payment pcl u cost s st2"
    and run: "saga_execute cl (recording s (perfect scl st1 pcl st2)) checkout_tx s (checkout_context o' (Str u) items cost) ''checkout'' st = (r, st')"
  shows "in_time_result False scl st1 pcl st2 items u cost s r st'"
proof -
  let ?env = "perfect scl st1 pcl st2" and ?ctx = "checkout_context o' (Str u) items cost" and ?w = "wal_map (c_db st)"
  let ?ss = "td_steps checkout_tx" and ?as = "{''execute'', ''compensate''}"
  have vote: "saga_vote cl (recording s ?env) checkout_tx s ?ctx ''checkout'' st = (r, st')"
    using run check_closed [OF assms(6), of ?ss] by (simp add: saga_execute_eq bindE_def)
  have t: "triple (wal_at True ?w []) (saga_vote cl (recording s ?env) checkout_tx s ?ctx ''checkout'')
      (saga_done True ?w s ?ctx ''checkout'' ?ss) (\<lambda>_. saga_cut True ?w s ?ctx ''checkout'' ?ss)"
    by (rule triple_saga_vote) (use assms(1,3) checkout_builders perfect_lives perfect_ranked in auto)
  have w: "wal_at True ?w [] st" using assms(2,4,5) by (simp add: wal_at_def)
  obtain x where x: "r = Inr x" using triple_raise_D [OF t w] vote by (cases r) (auto simp: saga_cut_def)
  have d: "saga_voted ?ctx ''checkout'' ?ss (net st') x" "online st'" using triple_ret_D [OF t w] vote x by (auto simp: saga_done_def wal_at_def)
  have g: "grows (making ?env s {?ctx} ?ss ?as) [] (net st')" using sends_run [OF sends_saga run, of ?as] assms(4) by simp
  have msg: "order_message False s items u cost e" if e: "e \<in> set (net st')" for e
    by (rule saga_messages [OF run assms(4) e])
  obtain e0 es' where "net st' = e0 # es'" "does ''execute'' e0" using saga_shape [OF d(1)] by (metis append_Cons)
  then have "on_time_run False scl st1 pcl st2 (net st')" using perfect_in_time [OF g] by (auto simp: on_time_run_def)
  then show ?thesis using saga_voted_on_time [OF d(1) assms(7,8) msg perfect_in_time [OF g]] d(2) x by (simp add: in_time_result_def Let_def)
qed

text \<open>While every breaker is closed, choosing the protocol changes the metrics at most.\<close>

lemma select_closed:
  assumes "all_closed st" "select_protocol orch st = (q, st1)"
  shows "\<exists>p f. q = Inr p \<and> st1 = st\<lparr>collector := f\<rparr> \<and> (protocol_mode orch \<noteq> ''auto'' \<longrightarrow> p = protocol_mode orch)"
proof -
  have same: "\<exists>f. t = t\<lparr>collector := f\<rparr>" for t :: "'a proc" by (rule exI [of _ "collector t"]) simp
  have "any_breaker_open svs st = (Inr False, st)" for svs using any_open_closed assms(1) unfolding all_closed_def by blast
  then show ?thesis
    using assms(2) same by (auto simp: select_protocol_def bindE_def get_state_def set_protocol_def modify_def ret_def Let_def split: if_splits)
qed

section \<open>A whole checkout on it\<close>

lemma run_checkout_net:
  assumes "execute (app_cl app) (app_tr app) (app_orch app) ''checkout'' ctx s st = (q, st2)" "run_checkout app o' s ctx st = (r, st')"
  shows "net st' = net (st2 :: obs list proc)"
proof (cases q)
  case (Inl x)
  then show ?thesis using assms by (simp add: run_checkout_def bindE_def)
next
  case (Inr x)
  let ?rest = "if result_get x ''status'' PNone = Str ''success'' then
      bindE (pipeline (app_cl app) True [SET (idempotency_key o') (success_value s) False (Some 86400),
        HSET (order_key o') [(''paid'', Text ''true'')]]) (\<lambda>_. ret checkout_ok)
    else let err = result_get x ''error'' (Str ''unknown'') in
      bindE (redis_call (app_cl app) (app_rc app (SET (idempotency_key o') (failed_value err s) False (Some 60)))) (\<lambda>_.
      http_error (''Checkout failed: '' @ app_str app err))"
  have rest: "?rest st2 = (r, st')" using assms Inr by (simp add: run_checkout_def bindE_def)
  have "preserves (net :: obs list proc \<Rightarrow> obs list) ?rest" by (auto simp: http_error_def Let_def intro!: frame)
  from preserves_run [OF this rest] show ?thesis .
qed

text \<open>What \<open>execute\<close> adds to it: the saga id, the protocol, the metrics and the published result.\<close>

lemma result_kept: "k \<noteq> k' \<Longrightarrow> result_get (result_set z k' v) k dflt = result_get z k dflt"
  by (cases z) (simp_all add: result_get_def result_set_def dict_get_def)

lemma execute_on_time:
  assumes "redis_server (cl_rc cl)" "map_of (definitions orch) ''checkout'' = Some checkout_tx"
    and "wal_inv (c_db st)" "wal_map (c_db st) s = None" "net st = []" "online st" "all_closed st"
    and "ready_stock scl items s st1" "ready_payment pcl u cost s st2"
    and run: "execute cl (recording s (perfect scl st1 pcl st2)) orch ''checkout'' (checkout_context o' (Str u) items cost) s st = (q, st')"
  shows "\<exists>x y two st3. q = Inr x \<and> online st' \<and> net st' = net st3 \<and>
    (protocol_mode orch \<noteq> ''auto'' \<longrightarrow> two = (protocol_mode orch = ''2pc'')) \<and>
    result_get x ''status'' PNone = result_get y ''status'' PNone \<and> result_get x ''error'' (Str ''unknown'') = result_get y ''error'' (Str ''unknown'') \<and>
    in_time_result two scl st1 pcl st2 items u cost s (Inr y) st3"
proof -
  let ?tr = "recording s (perfect scl st1 pcl st2)" and ?ctx = "checkout_context o' (Str u) items cost"
  obtain q1 st1' where sel0: "select_protocol orch st = (q1, st1')" by (cases "select_protocol orch st")
  from select_closed [OF assms(7) sel0] obtain p f where sel: "select_protocol orch st = (Inr p, st\<lparr>collector := f\<rparr>)"
    and p: "protocol_mode orch \<noteq> ''auto'' \<longrightarrow> p = protocol_mode orch" using sel0 by blast
  let ?st2 = "(st\<lparr>collector := f\<rparr>)\<lparr>collector := (collector (st\<lparr>collector := f\<rparr>))\<lparr>current_protocol := p\<rparr>\<rparr>"
  let ?run = "if p = ''2pc'' then two_pc_execute cl ?tr checkout_tx s ?ctx ''checkout'' else saga_execute cl ?tr checkout_tx s ?ctx ''checkout''"
  obtain r st3 where r: "?run ?st2 = (r, st3)" by (cases "?run ?st2")
  have st2: "wal_inv (c_db ?st2)" "wal_map (c_db ?st2) s = None" "net ?st2 = []" "online ?st2" "all_closed ?st2"
    using assms(3-7) by (simp_all add: online_def all_closed_def)
  have i: "in_time_result (p = ''2pc'') scl st1 pcl st2 items u cost s r st3"
  proof (cases "p = ''2pc''")
    case True
    then have "two_pc_execute cl ?tr checkout_tx s ?ctx ''checkout'' ?st2 = (r, st3)" using r by simp
    from two_pc_on_time [OF assms(1) st2 assms(8,9) this] show ?thesis using True by simp
  next
    case False
    then have "saga_execute cl ?tr checkout_tx s ?ctx ''checkout'' ?st2 = (r, st3)" using r by simp
    from saga_on_time [OF assms(1) st2 assms(8,9) this] show ?thesis using False by simp
  qed
  let ?ok1 = "in_stock (c_db st1) items" and ?ok2 = "affordable (c_db st2) u cost"
  define z where "z = (if ?ok1 \<and> ?ok2 then status_success
    else status_failed (Str (if ?ok1 then ''insufficient_credit'' else ''insufficient_stock'')))"
  have z: "r = Inr z" "online st3" using i unfolding in_time_result_def Let_def z_def by blast+
  let ?x = "result_set (result_set z ''saga_id'' (Str s)) ''protocol'' (Str p)"
  have fin: "q = Inr ?x" "st' = finish_run cl s p (c_clock (st\<lparr>collector := f\<rparr>)) z st3"
    using run execute_inner_run [OF sel r] z(1) assms(2) by (simp_all add: execute_def)
  have on: "online (st3\<lparr>collector := f\<rparr>)" for f using z(2) by (simp add: online_def)
  have "online st'" unfolding fin(2) using on by (simp add: finish_run_def publish_online [OF assms(1) on])
  moreover have "net st' = net st3" using fin(2) by (simp add: finish_run_fields)
  moreover have "result_get ?x ''status'' PNone = result_get z ''status'' PNone"
    "result_get ?x ''error'' (Str ''unknown'') = result_get z ''error'' (Str ''unknown'')"
    by (simp_all add: result_kept)
  ultimately show ?thesis using fin(1) p i z(1) by blast
qed

lemma checkout_run_on_time:
  assumes "redis_server (app_rc app)" "app_tr app = recording s (perfect scl st1 pcl st2)"
    and "map_of (definitions (app_orch app)) ''checkout'' = Some checkout_tx"
    and "stored_order (c_db st) o' items cost (Text u) False" "items \<noteq> []" "claim_free (c_db st) o'"
    and "wal_inv (c_db st)" "wal_map (c_db st) s = None" "net st = []" "online st" "all_closed st"
    and "ready_stock scl (aggregate items) s st1" "ready_payment pcl u cost s st2" "checkout app calls o' s st = (r, st')"
  shows "\<exists>two. (protocol_mode (app_orch app) \<noteq> ''auto'' \<longrightarrow> two = (protocol_mode (app_orch app) = ''2pc'')) \<and>
    (let ok1 = in_stock (c_db st1) (aggregate items); ok2 = affordable (c_db st2) u cost in
    (if ok1 \<and> ok2 then r = Inr checkout_ok \<and> field (c_db st') (order_key o') ''paid'' = Some (Text ''true'')
     else r = Inl (HttpErr 400 (''Checkout failed: '' @ app_str app (Str (if ok1 then ''insufficient_credit'' else ''insufficient_stock'')))) \<and>
       field (c_db st') (order_key o') ''paid'' = Some (Text ''false'')) \<and>
    sold two (aggregate items) u cost s (ok1 \<and> ok2) st1 (deliveries (stock_handle_nats scl) (arrived ''stock'' (net st')) st1)
      st2 (deliveries (payment_handle_nats pcl) (arrived ''payment'' (net st')) st2) \<and> on_time_run two scl st1 pcl st2 (net st'))"
proof -
  let ?ctx = "checkout_context o' (PStr (Text u)) (aggregate items) cost" and ?st0 = "(after_trip st)\<lparr>c_db := claimed o' s (c_db st)\<rparr>"
  let ?ok1 = "in_stock (c_db st1) (aggregate items)" and ?ok2 = "affordable (c_db st2) u cost"
  have other: "entries (claimed o' s (c_db st)) k = entries (c_db st) k" if "k \<noteq> idempotency_key o'" for k
    using that by (simp add: claimed_def)
  have st0: "wal_inv (c_db ?st0)" "wal_map (c_db ?st0) s = None" "net ?st0 = []" "online ?st0" "all_closed ?st0"
    using assms(8-11) wal_other_key [OF assms(7) idempotency_other other, of o']
    by (cases "c_trips st"; simp add: after_trip_def online_def all_closed_def)+
  obtain q st3 where ex: "execute (app_cl app) (app_tr app) (app_orch app) ''checkout'' ?ctx s ?st0 = (q, st3)"
    by (cases "execute (app_cl app) (app_tr app) (app_orch app) ''checkout'' ?ctx s ?st0")
  obtain x y two st4 where x: "q = Inr x" "online st3" "net st3 = net st4" "result_get x ''status'' PNone = result_get y ''status'' PNone"
      "result_get x ''error'' (Str ''unknown'') = result_get y ''error'' (Str ''unknown'')"
    and two: "protocol_mode (app_orch app) \<noteq> ''auto'' \<longrightarrow> two = (protocol_mode (app_orch app) = ''2pc'')"
    and y: "in_time_result two scl st1 pcl st2 (aggregate items) u cost s (Inr y) st4"
    using execute_on_time [OF assms(1,3) st0 assms(12,13) ex [unfolded assms(2)]] by blast
  have status: "result_get x ''status'' PNone = (if ?ok1 \<and> ?ok2 then Str ''success'' else Str ''failed'')"
    "\<not> (?ok1 \<and> ?ok2) \<Longrightarrow> result_get x ''error'' (Str ''unknown'') = Str (if ?ok1 then ''insufficient_credit'' else ''insufficient_stock'')"
    using y unfolding x(4,5) by (auto simp: in_time_result_def Let_def result_get_def status_success_def status_failed_def dict_get_def split: if_splits)
  have k: "order_key o' \<notin> saga_keys s"
    by (simp add: saga_keys_def order_key_def STREAM_KEY_def ACTIVE_SET_def DLQ_STREAM_def saga_state_key_def)
  have same: "entries (c_db st3) (order_key o') = entries (c_db st) (order_key o')"
    using preserves_run [OF spares_execute [OF assms(1) k] ex [unfolded assms(2)]] other [of "order_key o'"] by simp
  obtain h where h: "hash_of (c_db st) (order_key o') = Some h" "map_of h ''paid'' = Some (Text ''false'')"
    using assms(4) by (auto simp: stored_order_def)
  have h3: "hash_of (c_db st3) (order_key o') = Some h" using view_cong(1) [OF same] h(1) by simp
  note result = checkout_result [OF assms(1,4-6,10) ex [unfolded x(1)] x(2) h3 assms(14)]
  have "text_of (c_db st) (idempotency_key o') \<noteq> None" using assms(6) by (auto simp: claim_free_def split: option.splits)
  moreover obtain c where "claim_call app o' s st = (Inr c, ?st0)" using claim_call_online [OF assms(1,4,6,10)] by blast
  ultimately have "run_checkout app o' s ?ctx ?st0 = (r, st')"
    using checkout_stored [OF assms(1,4)] assms(5,6,14) by (simp add: after_claim_def)
  from run_checkout_net [OF ex this] have "net st' = net st4" using x(3) by simp
  moreover have "field (c_db st3) (order_key o') ''paid'' = Some (Text ''false'')" using h3 h(2) by (simp add: field_of_hash)
  ultimately show ?thesis
    using result status two y by (intro exI [of _ two]) (auto simp: in_time_result_def Let_def split: if_splits)
qed

text \<open>C1 (functional): On a network that delivers, a checkout does exactly what the shop wants, and the same under
  either protocol. If the stock covers every item and the user's credit covers the total, it answers success,
  the order is marked paid, every ordered item is less by the ordered quantity and the credit by the total;
  under two-phase commit both services have committed. Otherwise it answers 400 with the service's reason
  (stock before credit), the order stays unpaid, no service holds anything, and no stock and no credit has
  moved.\<close>

theorem checkout_on_time:
  assumes "redis_server (app_rc app)" "app_tr app = recording s (perfect scl st1 pcl st2)"
    and "map_of (definitions (app_orch app)) ''checkout'' = Some checkout_tx"
    and "stored_order (c_db st) o' items cost (Text u) False" "items \<noteq> []" "claim_free (c_db st) o'"
    and "wal_inv (c_db st)" "wal_map (c_db st) s = None" "net st = []" "online st" "all_closed st"
    and "ready_stock scl (aggregate items) s st1" "ready_payment pcl u cost s st2" "checkout app calls o' s st = (r, st')"
  shows "\<exists>two. (protocol_mode (app_orch app) \<noteq> ''auto'' \<longrightarrow> two = (protocol_mode (app_orch app) = ''2pc'')) \<and>
    (let ok1 = in_stock (c_db st1) (aggregate items); ok2 = affordable (c_db st2) u cost in
    (if ok1 \<and> ok2 then r = Inr checkout_ok \<and> field (c_db st') (order_key o') ''paid'' = Some (Text ''true'')
     else r = Inl (HttpErr 400 (''Checkout failed: '' @ app_str app (Str (if ok1 then ''insufficient_credit'' else ''insufficient_stock'')))) \<and>
       field (c_db st') (order_key o') ''paid'' = Some (Text ''false'')) \<and>
    sold two (aggregate items) u cost s (ok1 \<and> ok2) st1 (deliveries (stock_handle_nats scl) (arrived ''stock'' (net st')) st1)
      st2 (deliveries (payment_handle_nats pcl) (arrived ''payment'' (net st')) st2))"
  using checkout_run_on_time [OF assms] unfolding Let_def by blast

section \<open>Witnesses\<close>

text \<open>Ten pieces of item 3 on the shelf, and user 1 with a credit of \<open>c\<close>.\<close>

definition service_on :: "keyspace \<Rightarrow> svc" where
  "service_on d = \<lparr>c_db = d, c_replica = None, c_trips = [], c_clock = 0, sv_rules = [], action_counts = [], action_latency = []\<rparr>"

definition shelf :: svc where
  "shelf = service_on (put (item_key ''3'') (RHash [(''available_stock'', Text (show_int 10))]) empty_keyspace)"

definition purse :: "int \<Rightarrow> svc" where
  "purse c = service_on (put (user_key ''1'') (RHash [(''available_credit'', Text (show_int c))]) empty_keyspace)"

definition shop_network :: "int \<Rightarrow> env" where
  "shop_network c = perfect mem_client shelf mem_client (purse c)"

definition market :: "string \<Rightarrow> int \<Rightarrow> obs list order_app" where
  "market mode c = shop_app\<lparr>app_tr := recording ''s'' (shop_network c), app_orch := (app_orch shop_app)\<lparr>protocol_mode := mode\<rparr>\<rparr>"

lemma shelf_facts:
  "avail (c_db shelf) i = (if i = ''3'' then Some 10 else None)" "stock_level (c_db shelf) i = (if i = ''3'' then 10 else 0)"
  by (auto simp: shelf_def service_on_def stock_level_def avail_def counter_def field_def empty_keyspace_def in64_def)

lemma purse_facts:
  assumes "0 \<le> c" "c < 1000"
  shows "credit (c_db (purse c)) v = (if v = ''1'' then Some c else None)" "credit_level (c_db (purse c)) v = (if v = ''1'' then c else 0)"
  using assms by (auto simp: purse_def service_on_def credit_level_def credit_def counter_def field_def empty_keyspace_def in64_def)

lemma market_ready:
  assumes "0 \<le> c" "c < 1000"
  shows "ready_stock mem_client [(''3'', 2)] ''s'' shelf" "ready_payment mem_client ''1'' 10 ''s'' (purse c)"
proof -
  have e: "entries (c_db shelf) (stock_status_key s) = None" "entries (c_db shelf) (stock_amounts_key s) = None"
    "entries (c_db (purse c)) (payment_status_key s) = None" "entries (c_db (purse c)) (payment_amounts_key s) = None" for s
    by (simp_all add: shelf_def purse_def service_on_def empty_keyspace_def)
  have w: "stock_workload 300 (\<lambda>_. [(''3'', 2)]) {''s''}" "payment_workload 300 (\<lambda>_. (''1'', 10)) {''s''}"
    by (simp_all add: stock_workload_def payment_workload_def valid_items_def in64_def)
  have "stock_sound (\<lambda>_. two) (\<lambda>_. [(''3'', 2)]) {''s''} (c_db shelf)" "stock_phase (\<lambda>_. two) (c_db shelf) ''s'' = Fresh" for two
    by (rule stock_sound_fresh [where sagas = "{''s''}" and reqs = "\<lambda>_. [(''3'', 2)]"];
      simp add: e known_items_def shelf_facts qty_def int64_min_def int64_max_def)+
  then show "ready_stock mem_client [(''3'', 2)] ''s'' shelf" using w mem_client_server by (simp add: ready_stock_def)
  have "payment_sound (\<lambda>_. two) (\<lambda>_. (''1'', 10)) {''s''} (c_db (purse c))" "payment_phase (\<lambda>_. two) (c_db (purse c)) ''s'' = Fresh" for two
    by (rule payment_sound_fresh [where sagas = "{''s''}" and reqs = "\<lambda>_. (''1'', 10)"];
      use assms in \<open>simp add: e purse_facts [OF assms] charge_of_def int64_min_def int64_max_def\<close>)+
  then show "ready_payment mem_client ''1'' 10 ''s'' (purse c)" using w mem_client_server by (simp add: ready_payment_def)
qed

lemma market_facts:
  "redis_server (app_rc (market mode c))" "app_tr (market mode c) = recording ''s'' (perfect mem_client shelf mem_client (purse c))"
  "map_of (definitions (app_orch (market mode c))) ''checkout'' = Some checkout_tx" "protocol_mode (app_orch (market mode c)) = mode"
  "app_str (market mode c) v = ''reason''" "all_closed (shop_proc d)" "aggregate [(''3'', 2)] = [(''3'', 2)]"
  "in_stock (c_db shelf) [(''3'', 2)]" "0 \<le> c \<Longrightarrow> c < 1000 \<Longrightarrow> affordable (c_db (purse c)) ''1'' 10 \<longleftrightarrow> 10 \<le> c"
  using order7_facts(1,8)
  by (simp_all add: market_def shop_app_def shop_network_def all_closed_def shop_proc_def fresh_proc_def aggregate_def dict_get_def
      new_orchestrator_def in_stock_def shelf_facts affordable_def purse_facts)

definition sale :: "bool \<Rightarrow> int \<Rightarrow> bool \<Rightarrow> obs list \<Rightarrow> bool" where
  "sale two c ok es \<longleftrightarrow> sold two [(''3'', 2)] ''1'' 10 ''s'' ok shelf (deliveries (stock_handle_nats mem_client) (arrived ''stock'' es) shelf)
     (purse c) (deliveries (payment_handle_nats mem_client) (arrived ''payment'' es) (purse c))"

text \<open>With a credit of 100 the order is sold, with a credit of 5 it is not, under either protocol.\<close>

theorem checkout_on_time_witness:
  "(\<exists>st'. checkout (market ''2pc'' 100) [] ''7'' ''s'' (shop_proc (order7 ''false'')) = (Inr checkout_ok, st') \<and> sale True 100 True (net st')) \<and>
   (\<exists>st'. checkout (market ''saga'' 100) [] ''7'' ''s'' (shop_proc (order7 ''false'')) = (Inr checkout_ok, st') \<and> sale False 100 True (net st')) \<and>
   (\<exists>st'. checkout (market ''saga'' 5) [] ''7'' ''s'' (shop_proc (order7 ''false'')) = (Inl (HttpErr 400 ''Checkout failed: reason''), st') \<and>
      sale False 5 False (net st'))"
proof -
  have run: "\<exists>st'. checkout (market mode c) [] ''7'' ''s'' (shop_proc (order7 ''false'')) =
      (if 10 \<le> c then Inr checkout_ok else Inl (HttpErr 400 ''Checkout failed: reason''), st') \<and> sale (mode = ''2pc'') c (10 \<le> c) (net st')"
    if c: "0 \<le> c" "c < 1000" "mode \<noteq> ''auto''" for mode c
  proof -
    obtain r st' where run: "checkout (market mode c) [] ''7'' ''s'' (shop_proc (order7 ''false'')) = (r, st')"
      by (cases "checkout (market mode c) [] ''7'' ''s'' (shop_proc (order7 ''false''))")
    show ?thesis
      using checkout_on_time [OF market_facts(1-3) _ _ _ _ _ order7_facts(5,4) market_facts(6) _ _ run, of "[(''3'', 2)]" 10 "''1''"]
        market_ready [OF c(1,2)] market_facts(9) [OF c(1,2)] run c(3)
      by (auto simp: sale_def order7_facts order7_stored order7_wal market_facts Let_def split: if_splits)
  qed
  show ?thesis using run [of 100 "''2pc''"] run [of 100 "''saga''"] run [of 5 "''saga''"] by simp
qed

theorem services_agree_witness:
  "\<exists>es. tpc_checkout mem_client (shop_network 100) [(''checkout'', checkout_tx)] ''s'' ''7'' [(''3'', 2)] ''1'' 10 es \<and>
     (let p = stock_phase (\<lambda>_. True) (c_db (deliveries (stock_handle_nats mem_client) (arrived ''stock'' es) shelf)) ''s'';
        q = payment_phase (\<lambda>_. True) (c_db (deliveries (payment_handle_nats mem_client) (arrived ''payment'' es) (purse 100))) ''s'' in
      p = Final \<and> q \<in> {Held, Final})"
proof -
  let ?ctx = "checkout_context ''7'' (Str ''1'') [(''3'', 2)] 10"
  obtain r st' where run: "two_pc_execute mem_client (recording ''s'' (shop_network 100)) checkout_tx ''s'' ?ctx ''checkout'' (fresh_proc []) = (r, st')"
    by (metis surj_pair)
  have closed: "all_closed (fresh_proc [])" by (simp add: all_closed_def fresh_proc_def)
  note ready = market_ready [of 100, simplified]
  note run2 = two_pc_on_time [OF mem_client_server fresh_wal(1) fresh_wal(2) fresh_proc_log(4) fresh_proc_log(1) closed ready run [unfolded shop_network_def]]
  have sold: "sale True 100 True (net st')" "on_time_run True mem_client shelf mem_client (purse 100) (net st')"
    using run2 market_facts(8) market_facts(9) [of 100] by (simp_all add: sale_def in_time_result_def Let_def)
  have tpc: "tpc_checkout mem_client (shop_network 100) [(''checkout'', checkout_tx)] ''s'' ''7'' [(''3'', 2)] ''1'' 10 (net st')"
    unfolding tpc_checkout_def
    by (intro exI [of _ "fresh_proc []"] exI [of _ r] exI [of _ st'] exI [of _ "c_db st'"] conjI fresh_wal fresh_proc_log(4) run recoveries.none)
  have sites: "stock_site mem_client (\<lambda>_. True) (\<lambda>_. [(''3'', 2)]) {''s''} ''s'' shelf (arrived ''stock'' (net st')) (net st')"
    "payment_site mem_client (\<lambda>_. True) (\<lambda>_. (''1'', 10)) {''s''} ''s'' (purse 100) (arrived ''payment'' (net st')) (net st')"
    using ready_sites [OF ready, where two = True] sold(2) by (simp_all add: on_time_run_def)
  have def: "map_of [(''checkout'', checkout_tx)] ''checkout'' = Some checkout_tx" by simp
  have p: "stock_phase (\<lambda>_. True) (c_db (deliveries (stock_handle_nats mem_client) (arrived ''stock'' (net st')) shelf)) ''s'' = Final"
    using sold(1) by (simp add: sale_def sold_def closes_def)
  note agree = services_agree [where tpc = "\<lambda>_. True" and stocks = "\<lambda>_. [(''3'', 2)]" and charges = "\<lambda>_. (''1'', 10)",
      OF mem_client_server def tpc TrueI refl refl _ sites]
  have "''1'' \<noteq> []" by simp
  from agree [OF this] have "payment_phase (\<lambda>_. True) (c_db (deliveries (payment_handle_nats mem_client) (arrived ''payment'' (net st')) (purse 100))) ''s''
      \<in> {Held, Final}"
    using p unfolding Let_def by blast
  then show ?thesis using tpc p unfolding Let_def by blast
qed

theorem checkout_charges_exactly_witness:
  "\<exists>st'. checkout (market ''2pc'' 100) [] ''7'' ''s'' (shop_proc (order7 ''false'')) = (Inr checkout_ok, st') \<and>
     stock_level (c_db (deliveries (stock_handle_nats mem_client) (arrived ''stock'' (net st')) shelf)) ''3'' = 8 \<and>
     credit_level (c_db (deliveries (payment_handle_nats mem_client) (arrived ''payment'' (net st')) (purse 100))) ''1'' = 90"
proof -
  obtain r st' where run: "checkout (market ''2pc'' 100) [] ''7'' ''s'' (shop_proc (order7 ''false'')) = (r, st')"
    by (cases "checkout (market ''2pc'' 100) [] ''7'' ''s'' (shop_proc (order7 ''false''))")
  note ready = market_ready [of 100, simplified]
  have r: "r = Inr checkout_ok" "on_time_run True mem_client shelf mem_client (purse 100) (net st')"
    using checkout_run_on_time [OF market_facts(1-3) _ _ _ _ _ order7_facts(5,4) market_facts(6) _ _ run, of "[(''3'', 2)]" 10 "''1''"]
      ready market_facts(9) [of 100]
    by (auto simp: order7_facts order7_stored order7_wal market_facts Let_def)
  have sites: "stock_site mem_client (\<lambda>_. True) (\<lambda>_. [(''3'', 2)]) {''s''} ''s'' shelf (arrived ''stock'' (net st')) (net st')"
    "payment_site mem_client (\<lambda>_. True) (\<lambda>_. (''1'', 10)) {''s''} ''s'' (purse 100) (arrived ''payment'' (net st')) (net st')"
    using ready_sites [OF ready, where two = True] r(2) by (simp_all add: on_time_run_def)
  have "\<exists>e\<in>set (net st'). does ''prepare'' e" "net st' \<noteq> []" using r(2) by (auto simp: on_time_run_def)
  then show ?thesis
    using checkout_charges_exactly [where items = "[(''3'', 2)]" and paid = False and cost = 10 and u = "''1''",
        OF market_facts(1-3) _ _ _ _ order7_facts(5) _ run [unfolded r(1)] _ _ _ _ _ sites] run r(1)
    by (simp add: order7_facts order7_stored order7_wal market_facts Let_def stock_besides_def credit_besides_def shelf_facts purse_facts qty_def)
qed

end
