(* ===== verification/FailedSaga.thy ===== *)
theory FailedSaga
  imports CheckoutOnTime
begin

text \<open>
  A checkout under the saga protocol that failed, seen from the stock service: what it has acknowledged to give
  back it has given back, but a step whose answer was lost in a way other than a timeout is never compensated.
\<close>

section \<open>Who is asked to compensate\<close>

text \<open>A step of the checkout that gave another answer than executed or timeout is sent nothing but its execute.\<close>

lemma not_compensated:
  assumes "saga_outcome ctx ''checkout'' (td_steps checkout_tx) es x" "e \<in> set es" "does ''execute'' e" "\<not> maybe_done e"
  shows "\<forall>e'\<in>set es. ob_service e' = ob_service e \<longrightarrow> does ''execute'' e'" "x \<noteq> status_success"
proof -
  let ?steps = "td_steps checkout_tx"
  have "\<not> list_all (said ''executed'') es" using assms(2,4) by (auto simp: list_all_iff maybe_done_def)
  then obtain xs ys w reason where es: "es = xs @ ys" and xs: "to_all ''execute'' w ?steps xs"
    and ys: "undone (undo_log ctx ?steps xs) (rev (to_undo ?steps xs)) ys" and x: "x = status_failed reason"
    using assms(1,2) unfolding saga_outcome_def saga_voted_def Let_def by auto
  show "x \<noteq> status_success" by (simp add: x)
  have y: "list_all (does ''compensate'') ys" using undone_sent [OF ys] by simp
  then have e: "e \<in> set xs" using assms(2,3) es by (auto simp: list_all_iff does_def)
  obtain e0 e1 where two: "xs = [e0, e1]" "ob_service e0 = ''stock''" "ob_service e1 = ''payment''"
    using xs to_all_length [OF xs] by (auto simp: checkout_tx_def to_all_def length_Suc_conv numeral_2_eq_2)
  have "ob_service e \<notin> service ` set (to_undo ?steps xs)"
    using e assms(4) by (auto simp: two to_undo_def checkout_tx_def)
  then have "ob_service e \<notin> set (map ob_service ys)" using undone_sent [OF ys] by auto
  moreover have "list_all (does ''execute'') xs" using xs sent_does by (auto simp: to_all_def)
  ultimately show "\<forall>e'\<in>set es. ob_service e' = ob_service e \<longrightarrow> does ''execute'' e'"
    unfolding es list_all_iff by (metis UnE image_eqI list.set_map set_append)
qed

text \<open>C18 (error): What a failed saga leaves at the stock service, whatever the network delivered. If the service
  acknowledged the compensation, the reservation is undone and stays so. But if the answer to its execute was a
  failure other than a timeout, for instance a connection that broke after sending, the executor never sends
  it a compensation, answers a failure and closes its log entry, so that no recovery will either; if the
  service did execute the message, the stock stays taken.\<close>

theorem failed_saga_stock:
  assumes "redis_server (cl_rc cl)" "wal_inv (c_db st)" "wal_map (c_db st) s = None" "net st = []"
    and "saga_execute cl (recording s env) checkout_tx s (checkout_context o' (Str u) items cost) ''checkout'' st = (Inr x, st')"
    and "\<not> tpc s" "stocks s = items" "stock_site scl tpc stocks sagas s st1 ds (net st')"
    and "e \<in> set (net st')" "ob_service e = ''stock''" "does ''execute'' e"
  defines "p \<equiv> stock_phase tpc (c_db (deliveries (stock_handle_nats scl) ds st1)) s"
  shows "((\<exists>f\<in>set (net st'). ob_service f = ''stock'' \<and> does ''compensate'' f \<and> said ''compensated'' f) \<longrightarrow> p = Undone) \<and>
    (\<not> maybe_done e \<longrightarrow> (\<forall>f\<in>set (net st'). ob_service f = ''stock'' \<longrightarrow> does ''execute'' f) \<and> x \<noteq> status_success \<and>
       wal_map (c_db st') s = None \<and>
       ((\<exists>v. answered_by (stock_handle_nats scl) st1 ds (wire e) v \<and> dict_has v ''event'' ''executed'') \<longrightarrow> p = Held))"
proof (intro conjI impI)
  let ?es = "net st'"
  have msg: "order_message (tpc s) s (stocks s) u cost e'" if "e' \<in> set ?es" for e'
    using saga_messages [OF assms(5,4) that] assms(6,7) by simp
  have set: "settles (tpc s) ''stock'' ?es p" unfolding p_def by (rule stock_site_settles [OF assms(8) msg])
  show "p = Undone" if "\<exists>f\<in>set ?es. ob_service f = ''stock'' \<and> does ''compensate'' f \<and> said ''compensated'' f"
    using set that assms(6) unfolding settles_def by auto
next
  assume lost: "\<not> maybe_done e"
  have out: "saga_outcome (checkout_context o' (Str u) items cost) ''checkout'' (td_steps checkout_tx) (net st') x"
    by (rule saga_run_outcome(1) [OF assms(1) checkout_builders assms(2-5)])
  show only: "\<forall>f\<in>set (net st'). ob_service f = ''stock'' \<longrightarrow> does ''execute'' f" and "x \<noteq> status_success"
    using not_compensated [OF out assms(9,11) lost] assms(10) by simp_all
  show "wal_map (c_db st') s = None" by (rule saga_run_outcome(2) [OF assms(1) checkout_builders assms(2-5)])
  assume "\<exists>v. answered_by (stock_handle_nats scl) st1 ds (wire e) v \<and> dict_has v ''event'' ''executed''"
  then obtain v where v: "answered_by (stock_handle_nats scl) st1 ds (wire e) v" "dict_has v ''event'' ''executed''" by blast
  have msg: "order_message (tpc s) s (stocks s) u cost e'" if "e' \<in> set (net st')" for e'
    using saga_messages [OF assms(5,4) that] assms(6,7) by simp
  have w: "redis_server (cl_rc scl)" "stock_workload 300 stocks sagas" "stock_sound tpc stocks sagas (c_db st1)"
    using assms(8) by (auto simp: stock_site_def)
  have take: "asked_op (tpc s) f = Take" if "does ''execute'' f" for f using that assms(6) by (simp add: asked_op_def)
  have "Undo \<notin> asked_op (tpc s) ` to_service ''stock'' (net st')" using only take by force
  then have "p \<in> {Held, Final}"
    unfolding p_def
    using stock_ledger.sourced_answered(1) [OF stock_ledgerI [OF w(1,2)] w(3) stock_site_sourced [OF assms(8) msg], of e v]
      v assms(6,9-11) take [OF assms(11)] by simp
  moreover have "p \<noteq> Final" using assms(6) by (simp add: p_def stock_phase_def phase_saga_iff)
  ultimately show "p = Held" by simp
qed

section \<open>Witness\<close>

text \<open>The stock service takes the items, but the connection breaks before its answer; the payment service refuses.\<close>

definition lossy :: env where
  "lossy h sv a p = (Inr (PDict [(''event'', Str ''failed''),
     (''reason'', Str (if sv = ''stock'' then ''connection closed'' else ''insufficient_credit''))]), 1)"

lemma lossy_env: "env_lives lossy" "env_ranked lossy"
  by (auto simp: env_lives_def env_ranked_def lossy_def hashable_def saga_reason_def dict_get_def reason_priority_def)

lemma lossy_served: "served handler other st (arrived sv es) sv es" if "\<forall>e\<in>set es. \<exists>h. reply_of lossy h e"
  using that by (fastforce simp: served_def arrived_def reply_of_def lossy_def dict_has_def dict_get_def)

theorem failed_saga_stock_witness:
  "\<exists>x st' e. saga_execute mem_client (recording ''s'' lossy) checkout_tx ''s'' (checkout_context ''7'' (Str ''1'') [(''3'', 2)] 10) ''checkout''
       (fresh_proc []) = (Inr x, st') \<and>
     e \<in> set (net st') \<and> ob_service e = ''stock'' \<and> does ''execute'' e \<and> x \<noteq> status_success \<and>
     stock_phase (\<lambda>_. False) (c_db (deliveries (stock_handle_nats mem_client) (arrived ''stock'' (net st')) shelf)) ''s'' = Held"
proof -
  let ?ctx = "checkout_context ''7'' (Str ''1'') [(''3'', 2)] 10" and ?ss = "td_steps checkout_tx" and ?st = "fresh_proc [] :: obs list proc"
  let ?as = "{''execute'', ''compensate''}" and ?w = "wal_map (c_db (fresh_proc [] :: obs list proc))"
  obtain r st' where run: "saga_execute mem_client (recording ''s'' lossy) checkout_tx ''s'' ?ctx ''checkout'' ?st = (r, st')"
    by (metis surj_pair)
  have closed: "all_closed ?st" by (simp add: all_closed_def fresh_proc_def)
  have vote: "saga_vote mem_client (recording ''s'' lossy) checkout_tx ''s'' ?ctx ''checkout'' ?st = (r, st')"
    using run check_closed [OF closed, of ?ss] by (simp add: saga_execute_eq bindE_def)
  have t: "triple (wal_at True ?w []) (saga_vote mem_client (recording ''s'' lossy) checkout_tx ''s'' ?ctx ''checkout'')
      (saga_done True ?w ''s'' ?ctx ''checkout'' ?ss) (\<lambda>_. saga_cut True ?w ''s'' ?ctx ''checkout'' ?ss)"
    by (rule triple_saga_vote) (use mem_client_server checkout_builders lossy_env fresh_wal in auto)
  have w: "wal_at True ?w [] ?st" using fresh_wal fresh_proc_log by (simp add: wal_at_def)
  obtain x where x: "r = Inr x" using triple_raise_D [OF t w] vote by (cases r) (auto simp: saga_cut_def)
  have "saga_voted ?ctx ''checkout'' ?ss (net st') x" using triple_ret_D [OF t w] vote x by (auto simp: saga_done_def wal_at_def)
  then obtain e es' where e: "net st' = e # es'" "ob_service e = ''stock''" "does ''execute'' e" using saga_shape by (metis append_Cons)
  have g: "grows (making lossy ''s'' {?ctx} ?ss ?as) [] (net st')" using sends_run [OF sends_saga run, of ?as] fresh_proc_log(4) by simp
  have replies: "\<forall>e\<in>set (net st'). \<exists>h. reply_of lossy h e" using grows_member [OF g] unfolding making_def by blast
  then obtain h where "reply_of lossy h e" using e(1) by auto
  then have lost: "\<not> maybe_done e" using e(2)
    by (auto simp: reply_of_def lossy_def maybe_done_def timed_out_def said_def vote_of_def step_result_def dict_has_def dict_get_def)
  have msg: "order_message False ''s'' [(''3'', 2)] ''1'' 10 e" using saga_messages [OF run fresh_proc_log(4)] e(1) by simp
  note ready = market_ready(1) [of 100, simplified]
  have site: "stock_site mem_client (\<lambda>_. False) (\<lambda>_. [(''3'', 2)]) {''s''} ''s'' shelf (arrived ''stock'' (net st')) (net st')"
    using ready lossy_served [OF replies] by (simp add: stock_site_def ready_stock_def)
  obtain v where v: "answered_by (stock_handle_nats mem_client) shelf (arrived ''stock'' (net st')) (wire e) v" "dict_has v ''event'' ''executed''"
    using first_stock [OF ready msg e(2)] e market_facts(8)
    by (force simp: answered_by_def arrived_def deliveries_def intro: exI [of _ "[]"])
  have e': "e \<in> set (net st')" using e(1) by simp
  note failed = failed_saga_stock [where stocks = "\<lambda>_. [(''3'', 2)]" and tpc = "\<lambda>_. False",
      OF mem_client_server fresh_wal(1) fresh_wal(2) fresh_proc_log(4) run [unfolded x] _ refl site e' e(2,3)]
  show ?thesis
    using failed lost v run x e' e(2,3) by (intro exI [of _ x] exI [of _ st'] exI [of _ e] conjI) blast+
qed

end
