(* ===== verification/StockProperties.thy ===== *)
theory StockProperties
  imports StockLedger
begin

text \<open>
  The properties of the stock service, over its command handler: what one prepare does, and what
  any sequence of deliveries keeps, whatever the network does to them. The witnesses run two
  sagas, one under each protocol, on the in-memory server.
\<close>

section \<open>A concrete service\<close>

definition shop_client :: redis_client where
  "shop_client = \<lparr>cl_rc = mem_rc, cl_err = (\<lambda>_. [])\<rparr>"

definition shop_tpc :: "string \<Rightarrow> bool" where
  "shop_tpc s = (s = ''s1'')"

definition shop_sagas :: "string set" where
  "shop_sagas = {''s1'', ''s2''}"

definition shop_items :: "string \<Rightarrow> item_list" where
  "shop_items s = [(''a'', 3)]"

definition shop_db :: keyspace where
  "shop_db = put (item_key ''a'') (RHash [(''available_stock'', Text (show_int 10))]) empty_keyspace"

definition shop_svc :: svc where
  "shop_svc = \<lparr>c_db = shop_db, c_replica = None, c_trips = [], c_clock = 0,
     sv_rules = [], action_counts = [], action_latency = []\<rparr>"

definition shop_msg :: "op \<Rightarrow> string \<Rightarrow> dict" where
  "shop_msg c s = stock_message (shop_tpc s) 300 c s (shop_items s)"

lemma shop_workload: "stock_workload 300 shop_items shop_sagas"
  by (simp add: stock_workload_def shop_sagas_def shop_items_def valid_items_def in64_def)

lemma shop_avail: "avail shop_db i = (if i = ''a'' then Some 10 else None)"
  by (auto simp: avail_def counter_def field_def shop_db_def empty_keyspace_def in64_def)

lemma shop_level: "stock_level shop_db i = (if i = ''a'' then 10 else 0)"
  by (simp add: stock_level_def shop_avail)

lemma shop_sound: "stock_sound shop_tpc shop_items shop_sagas (c_db shop_svc)"
proof -
  have "stock_sound shop_tpc shop_items shop_sagas shop_db"
  proof (rule stock_sound_fresh(1))
    show "known_items shop_db (shop_items s)" for s by (simp add: known_items_def shop_items_def shop_avail)
    show "int64_min \<le> stock_level shop_db i - (\<Sum>s \<in> shop_sagas. qty (shop_items s) i) \<and> stock_level shop_db i \<le> int64_max" for i
      by (simp add: shop_level shop_sagas_def shop_items_def qty_def int64_min_def int64_max_def)
  qed (simp add: shop_db_def empty_keyspace_def)
  then show ?thesis by (simp add: shop_svc_def)
qed

lemma shop_svc_db [simp]: "c_db shop_svc = shop_db"
  by (simp add: shop_svc_def)

lemma shop_fresh [simp]: "stock_phase shop_tpc shop_db s = Fresh"
  by (auto simp: stock_phase_def shop_db_def empty_keyspace_def phase_saga_def stock_status_def
      stock_saga_status_def field_def text_of_def)

lemma shop_asks: "(c = Confirm \<longrightarrow> shop_tpc s) \<Longrightarrow> stock_asks (shop_tpc s) 300 c s (shop_items s) (shop_msg c s)"
  using stock_message_asks [of c "shop_tpc s" 300 s "shop_items s"] by (simp add: shop_msg_def)

lemma shop_traffic:
  assumes "s \<in> shop_sagas" "c = Confirm \<longrightarrow> shop_tpc s"
  shows "stock_traffic 300 shop_tpc shop_items shop_sagas (shop_msg c s)"
  unfolding stock_traffic_def
  by (rule bexI [of _ "(c, s)"]) (use assms shop_asks in \<open>auto simp: protocol_cmds_def\<close>)

lemma shop_traffic_ex [simp]:
  "stock_traffic 300 shop_tpc shop_items shop_sagas (shop_msg c ''s1'')"
  "c \<noteq> Confirm \<Longrightarrow> stock_traffic 300 shop_tpc shop_items shop_sagas (shop_msg c ''s2'')"
  by (rule shop_traffic; simp add: shop_sagas_def shop_tpc_def)+

lemma shop_action: "text_field (shop_msg c s) ''action'' [] = Inr (action_of (shop_tpc s) c)"
  by (simp add: text_field_def shop_msg_def stock_message_def dict_get_def)

lemma shop_not_asks:
  "action_of two c' \<noteq> action_of (shop_tpc s) c \<Longrightarrow> \<not> stock_asks two 300 c' s' items (shop_msg c s)"
  unfolding stock_asks_def shop_action by auto

lemma shop_redis: "redis_server (cl_rc shop_client)"
  by (simp add: shop_client_def mem_redis)

interpretation shop: stock_ledger shop_client 300 shop_tpc shop_items shop_sagas
  by (rule stock_ledgerI [OF shop_redis shop_workload])

lemma shop_online:
  assumes "s \<in> shop_sagas" "c = Confirm \<longrightarrow> shop_tpc s" "c \<noteq> Take"
  shows "\<exists>st'. stock_handle_nats shop_client (shop_msg c s) shop_svc =
    (Inr (PDict [(''saga_id'', Str s), (''event'', Str (event_of (shop_tpc s) c))]), st')"
proof -
  have "accepted c e p" for e p using assms(3) by (cases c) auto
  moreover have "dict_get (shop_msg c s) ''saga_id'' (Str []) = Str s"
    by (simp add: shop_msg_def stock_message_def dict_get_def)
  ultimately show ?thesis
    using shop.handle_online [of shop_svc c s "shop_msg c s"] shop_asks [of c s] shop_sound assms
    by (auto simp: shop_client_def online_def shop_svc_def protocol_cmds_def)
qed

section \<open>Properties\<close>

text \<open>C7 (invariant). Whatever protocol messages the stock service receives, each saga with one fixed request - duplicates,
  late and lost commands, broken Redis connections, injected faults, crashes between deliveries - every item's
  available stock plus what the sagas hold of it never changes.\<close>

theorem stock_conservation:
  assumes "redis_server (cl_rc cl)" and "stock_workload ttl reqs sagas"
    and "stock_sound tpc reqs sagas (c_db st)"
    and "list_all (\<lambda>(msg, _). stock_traffic ttl tpc reqs sagas msg) ds"
  shows "stock_total tpc reqs sagas (c_db (deliveries (stock_handle_nats cl) ds st)) i =
    stock_total tpc reqs sagas (c_db st) i"
proof -
  have l: "stock_ledger cl ttl reqs sagas" by (rule stock_ledgerI [OF assms(1,2)])
  show ?thesis by (rule stock_ledger.deliveries_total [OF l assms(3,4)])
qed

theorem stock_conservation_witness:
  "stock_total shop_tpc shop_items shop_sagas (c_db (deliveries (stock_handle_nats shop_client)
      [(shop_msg Take ''s1'', [], []), (shop_msg Take ''s2'', [], []), (shop_msg Undo ''s1'', [], [])] shop_svc)) ''a'' = 10"
proof -
  have "stock_total shop_tpc shop_items shop_sagas (c_db shop_svc) ''a'' = 10"
    by (simp add: stock_total_def shop_level)
  then show ?thesis
    using stock_conservation [OF shop_redis shop_workload shop_sound, of
      "[(shop_msg Take ''s1'', [], []), (shop_msg Take ''s2'', [], []), (shop_msg Undo ''s1'', [], [])]" "''a''"]
    by simp
qed


text \<open>A commit that is acknowledged leaves the saga with its items, whatever its phase was: it takes them again when
  the saga was undone before.\<close>

lemma stock_commit_takes:
  assumes l: "stock_ledger cl ttl reqs sagas" and "stock_sound tpc reqs sagas (c_db st)" "s \<in> sagas" "tpc s"
    and "stock_asks (tpc s) ttl Confirm s (reqs s) msg" "stock_handle_nats cl msg st = (Inr v, st')" "dict_has v ''event'' ''committed''"
  shows "stock_phase tpc (c_db st') s = Final \<and>
    stock_level (c_db st') i = stock_level (c_db st) i + holds (stock_phase tpc (c_db st) s) (qty (reqs s) i) - qty (reqs s) i"
proof -
  have c: "(Confirm, s) \<in> protocol_cmds tpc sagas" using assms(3,4) by (simp add: protocol_cmds_def)
  have e: "dict_has v ''event'' (event_of (tpc s) Confirm)" using assms(4,7) by simp
  have "stock_phase tpc (c_db st') s = Final" using stock_ledger.acknowledged_step [OF l assms(2) c assms(5,6) e] by simp
  then show ?thesis using stock_ledger.acknowledged_balance [OF l assms(2) c assms(5,6) e] by simp
qed

text \<open>C9 (safety). The poison pill, and what defeats it. Once an abort or a compensation is acknowledged, no prepare and
  no execute, late or repeated, takes stock for the saga again: afterwards it is undone, or a commit of that saga has
  arrived and it is committed. The second part is what a commit does then: acknowledged after the abort, it leaves the saga
  committed, and when the saga was undone it deducts every item from the stock once more.\<close>

theorem stock_undo_stands:
  assumes "redis_server (cl_rc cl)" and "stock_workload ttl reqs sagas"
    and "stock_sound tpc reqs sagas (c_db st)" and "s \<in> sagas"
    and "stock_asks (tpc s) ttl Undo s (reqs s) msg" and "stock_handle_nats cl msg st = (Inr v, st')"
    and "dict_has v ''event'' (event_of (tpc s) Undo)"
    and "list_all (\<lambda>(msg, _). stock_traffic ttl tpc reqs sagas msg) ds"
    and later: "st2 = deliveries (stock_handle_nats cl) ds st'"
  shows "(stock_phase tpc (c_db st2) s = Undone \<or> stock_phase tpc (c_db st2) s = Final \<and> tpc s \<and>
       (\<exists>(msg, _)\<in>set ds. stock_asks (tpc s) ttl Confirm s (reqs s) msg)) \<and>
    (\<forall>msg v st3 st4. tpc s \<and> c_db st3 = c_db st2 \<and> stock_asks (tpc s) ttl Confirm s (reqs s) msg \<and>
       stock_handle_nats cl msg st3 = (Inr v, st4) \<and> dict_has v ''event'' ''committed'' \<longrightarrow> stock_phase tpc (c_db st4) s = Final \<and>
       (stock_phase tpc (c_db st2) s = Undone \<longrightarrow> (\<forall>i. stock_level (c_db st4) i = stock_level (c_db st2) i - qty (reqs s) i)))"
proof -
  have l: "stock_ledger cl ttl reqs sagas" by (rule stock_ledgerI [OF assms(1,2)])
  have "(Undo, s) \<in> protocol_cmds tpc sagas" using assms(4) by (simp add: protocol_cmds_def)
  from stock_ledger.acknowledged_step [OF l assms(3) this assms(5-7)]
  have st': "stock_sound tpc reqs sagas (c_db st')" "stock_phase tpc (c_db st') s = Undone" by auto
  let ?committed = "\<exists>(msg, _)\<in>set ds. stock_asks (tpc s) ttl Confirm s (reqs s) msg"
  let ?P = "\<lambda>p. p = Undone \<or> p = Final \<and> ?committed"
  have "?P (next_phase c e p)" if "(msg, x) \<in> set ds" "stock_asks (tpc s) ttl c s (reqs s) msg" "?P p" for c e p msg x
    using that by (cases c) auto
  then have "?P (stock_phase tpc (c_db st2) s)"
    unfolding later using stock_ledger.deliveries_keep [OF l st'(1) assms(4,8), where P = ?P] st'(2) by blast
  moreover have "tpc s" if ?committed using that by (auto simp: stock_asks_def)
  moreover have "stock_sound tpc reqs sagas (c_db st2)" unfolding later by (rule stock_ledger.deliveries_sound [OF l st'(1) assms(8)])
  moreover have "stock_phase tpc (c_db st4) s = Final \<and>
      stock_level (c_db st4) i = stock_level (c_db st2) i + holds (stock_phase tpc (c_db st2) s) (qty (reqs s) i) - qty (reqs s) i"
    if "tpc s" "c_db st3 = c_db st2" "stock_sound tpc reqs sagas (c_db st2)" "stock_asks (tpc s) ttl Confirm s (reqs s) msg"
      "stock_handle_nats cl msg st3 = (Inr v, st4)" "dict_has v ''event'' ''committed''" for msg v st3 st4 i
    using stock_commit_takes [where tpc = tpc and s = s and i = i and reqs = reqs, OF l _ assms(4) that(1,4-6)] that(2,3) by simp
  ultimately show ?thesis by fastforce
qed

text \<open>A commit after the abort is acknowledged on any working connection.\<close>

lemma shop_recommit:
  assumes "stock_sound shop_tpc shop_items shop_sagas (c_db st)" "online st" "sv_rules st = []"
  shows "\<exists>v st'. stock_handle_nats shop_client (shop_msg Confirm ''s1'') st = (Inr v, st') \<and> dict_has v ''event'' ''committed''"
proof -
  have cmd: "(Confirm, ''s1'') \<in> protocol_cmds shop_tpc shop_sagas" by (simp add: protocol_cmds_def shop_sagas_def shop_tpc_def)
  have a: "stock_asks (shop_tpc ''s1'') 300 Confirm ''s1'' (shop_items ''s1'') (shop_msg Confirm ''s1'')"
    by (rule shop_asks) (simp add: shop_tpc_def)
  from shop.handle_online_effect [OF assms(1) cmd a assms(2,3)] show ?thesis by (auto simp: shop_tpc_def)
qed

text \<open>Undone, a late prepare ignored, and the commit that takes the three units again.\<close>

theorem stock_undo_stands_witness:
  "\<exists>st' st2 st3 v st4. stock_handle_nats shop_client (shop_msg Undo ''s1'') shop_svc =
      (Inr (PDict [(''saga_id'', Str ''s1''), (''event'', Str ''aborted'')]), st') \<and>
    st2 = deliveries (stock_handle_nats shop_client) [(shop_msg Take ''s1'', [], []), (shop_msg Take ''s2'', [], [])] st' \<and>
    stock_phase shop_tpc (c_db st2) ''s1'' = Undone \<and> c_db st3 = c_db st2 \<and>
    stock_handle_nats shop_client (shop_msg Confirm ''s1'') st3 = (Inr v, st4) \<and> dict_has v ''event'' ''committed'' \<and>
    stock_level (c_db st4) ''a'' = stock_level (c_db st2) ''a'' - 3"
proof -
  have t: "''s1'' \<in> shop_sagas" "shop_tpc ''s1''" "\<not> shop_tpc ''s2''" by (simp_all add: shop_sagas_def shop_tpc_def)
  let ?ds = "[(shop_msg Take ''s1'', [], []), (shop_msg Take ''s2'', [], [])] :: delivery list"
  have ds: "list_all (\<lambda>(msg, _). stock_traffic 300 shop_tpc shop_items shop_sagas msg) ?ds" by simp
  obtain st' where st': "stock_handle_nats shop_client (shop_msg Undo ''s1'') shop_svc =
      (Inr (PDict [(''saga_id'', Str ''s1''), (''event'', Str ''aborted'')]), st')"
    using shop_online [OF t(1), of Undo] t by auto
  have e: "dict_has (PDict [(''saga_id'', Str ''s1''), (''event'', Str ''aborted'')]) ''event'' (event_of (shop_tpc ''s1'') Undo)"
    by (simp add: t dict_has_def dict_get_def)
  define st2 where "st2 = deliveries (stock_handle_nats shop_client) ?ds st'"
  have u: "stock_asks (shop_tpc ''s1'') 300 Undo ''s1'' (shop_items ''s1'') (shop_msg Undo ''s1'')" by (rule shop_asks) simp
  have k: "stock_asks (shop_tpc ''s1'') 300 Confirm ''s1'' (shop_items ''s1'') (shop_msg Confirm ''s1'')" by (rule shop_asks) (simp add: t)
  note undone = stock_undo_stands [OF shop_redis shop_workload shop_sound t(1) u st' e ds st2_def]
  have p: "stock_phase shop_tpc (c_db st2) ''s1'' = Undone" using undone by (auto simp: t shop_not_asks)
  have "(Undo, ''s1'') \<in> protocol_cmds shop_tpc shop_sagas" using t by (simp add: protocol_cmds_def)
  then have "stock_sound shop_tpc shop_items shop_sagas (c_db st')"
    using shop.acknowledged_step [OF shop_sound _ u st' e] by simp
  then have sound: "stock_sound shop_tpc shop_items shop_sagas (c_db st2)" unfolding st2_def by (rule shop.deliveries_sound) (rule ds)
  let ?st3 = "st2\<lparr>c_trips := [], sv_rules := []\<rparr>"
  obtain v st4 where st4: "stock_handle_nats shop_client (shop_msg Confirm ''s1'') ?st3 = (Inr v, st4)" "dict_has v ''event'' ''committed''"
    using shop_recommit [of ?st3] sound by (auto simp: online_def)
  have "stock_level (c_db st4) ''a'' = stock_level (c_db st2) ''a'' - qty (shop_items ''s1'') ''a''"
    using conjunct2 [OF undone, rule_format, of ?st3 "shop_msg Confirm ''s1''" v st4] t(2) k st4 p by simp
  moreover have "qty (shop_items ''s1'') ''a'' = 3" by (simp add: shop_items_def qty_def)
  ultimately show ?thesis using st' st2_def p st4 by (intro exI [of _ st'] exI [of _ st2] exI [of _ ?st3] exI [of _ v] exI [of _ st4]) simp
qed

text \<open>A commit that is acknowledged stands: however often prepare, commit and other
  sagas' messages arrive afterwards, the saga holds its items once and for all, unless an abort of
  that saga arrives.\<close>

lemma stock_commit_stands:
  assumes "redis_server (cl_rc cl)" and "stock_workload ttl reqs sagas"
    and "stock_sound tpc reqs sagas (c_db st)" and "s \<in> sagas" and "tpc s"
    and "stock_asks (tpc s) ttl Confirm s (reqs s) msg" and "stock_handle_nats cl msg st = (Inr v, st')"
    and "dict_has v ''event'' ''committed''"
    and "list_all (\<lambda>(msg, _). stock_traffic ttl tpc reqs sagas msg \<and> \<not> stock_asks (tpc s) ttl Undo s (reqs s) msg) ds"
  shows "stock_phase tpc (c_db (deliveries (stock_handle_nats cl) ds st')) s = Final"
proof -
  have l: "stock_ledger cl ttl reqs sagas" by (rule stock_ledgerI [OF assms(1,2)])
  have "(Confirm, s) \<in> protocol_cmds tpc sagas" using assms(4,5) by (simp add: protocol_cmds_def)
  from stock_ledger.acknowledged_step [OF l assms(3) this assms(6,7)] assms(5,8)
  have st': "stock_sound tpc reqs sagas (c_db st')" "stock_phase tpc (c_db st') s = Final" by auto
  show ?thesis by (rule stock_ledger.decision_stands [OF l st'(1) assms(4,9) st'(2)]) simp
qed

text \<open>C25 (bounds). No overselling: as long as commits only arrive for sagas that are prepared (or
  committed already), no item's stock becomes negative.\<close>

theorem stock_never_negative:
  assumes "redis_server (cl_rc cl)" and "stock_workload ttl reqs sagas"
    and "stock_sound tpc reqs sagas (c_db st)"
    and "list_all (\<lambda>(msg, _). stock_traffic ttl tpc reqs sagas msg) ds"
    and "commits_prepared (stock_phase tpc) (stock_handle_nats cl) ds st" and "0 \<le> stock_level (c_db st) i"
  shows "0 \<le> stock_level (c_db (deliveries (stock_handle_nats cl) ds st)) i"
  by (rule stock_ledger.deliveries_nonneg [OF stock_ledgerI [OF assms(1,2)] assms(3-6)])

theorem stock_never_negative_witness:
  "0 \<le> stock_level (c_db (deliveries (stock_handle_nats shop_client)
      [(shop_msg Take ''s1'', [], []), (shop_msg Take ''s2'', [], []), (shop_msg Undo ''s1'', [], [])] shop_svc)) ''a''"
  by (rule stock_never_negative [OF shop_redis shop_workload shop_sound])
    (simp_all add: shop_action shop_tpc_def shop_level)

text \<open>C21 (functional). On a working connection and without injected faults the handler's reply and
  its effect are determined by the phase of the saga and by the stock: a prepare or an execute is
  accepted exactly when the saga already holds its items or is fresh and everything is in stock;
  commit, abort and compensate always succeed; every item moves by exactly what the saga takes or
  gives back.\<close>

theorem stock_reply:
  assumes "redis_server (cl_rc cl)" and "stock_workload ttl reqs sagas"
    and "stock_sound tpc reqs sagas (c_db st)" and "(c, s) \<in> protocol_cmds tpc sagas"
    and "stock_asks (tpc s) ttl c s (reqs s) msg" and "online st" and "sv_rules st = []"
  shows "\<exists>v st'. stock_handle_nats cl msg st = (Inr v, st') \<and>
    (if accepted c (in_stock (c_db st) (reqs s)) (stock_phase tpc (c_db st) s)
     then dict_has v ''event'' (event_of (tpc s) c)
     else dict_has v ''event'' ''failed'' \<and> dict_has v ''reason'' ''insufficient_stock'') \<and>
    stock_phase tpc (c_db st') s =
      next_phase c (in_stock (c_db st) (reqs s)) (stock_phase tpc (c_db st) s) \<and>
    (\<forall>i. stock_level (c_db st') i = stock_level (c_db st) i
       + holds (stock_phase tpc (c_db st) s) (qty (reqs s) i)
       - holds (stock_phase tpc (c_db st') s) (qty (reqs s) i))"
  by (rule stock_ledger.handle_online_effect [OF stock_ledgerI [OF assms(1,2)] assms(3-7)])


theorem stock_reply_witness:
  "\<exists>v st'. stock_handle_nats shop_client (shop_msg Take ''s1'') shop_svc = (Inr v, st') \<and>
    dict_has v ''event'' ''prepared'' \<and> stock_level (c_db st') ''a'' = 7"
proof -
  have cmd: "(Take, ''s1'') \<in> protocol_cmds shop_tpc shop_sagas" by (simp add: protocol_cmds_def shop_sagas_def)
  have o: "online shop_svc" "sv_rules shop_svc = []" by (simp_all add: online_def shop_svc_def)
  have i: "in_stock shop_db (shop_items ''s1'')" by (simp add: in_stock_def shop_items_def shop_avail)
  show ?thesis
    using stock_reply [OF shop_redis shop_workload shop_sound cmd shop_asks o] i
    by (fastforce simp: shop_level shop_tpc_def shop_items_def qty_def)
qed

end
