(* ===== verification/PaymentProperties.thy ===== *)
theory PaymentProperties
  imports PaymentLedger
begin

text \<open>
  The properties of the payment service, over its command handler, with a concrete service for
  the witnesses.
\<close>

section \<open>A concrete service\<close>

definition bank_client :: redis_client where
  "bank_client = \<lparr>cl_rc = mem_rc, cl_err = (\<lambda>_. [])\<rparr>"

definition bank_tpc :: "string \<Rightarrow> bool" where
  "bank_tpc s = (s = ''s1'')"

definition bank_sagas :: "string set" where
  "bank_sagas = {''s1'', ''s2''}"

definition bank_charge :: "string \<Rightarrow> string \<times> int" where
  "bank_charge s = (''u'', 30)"

definition bank_db :: keyspace where
  "bank_db = put (user_key ''u'') (RHash [(''available_credit'', Text (show_int 100))]) empty_keyspace"

definition bank_svc :: svc where
  "bank_svc = \<lparr>c_db = bank_db, c_replica = None, c_trips = [], c_clock = 0,
     sv_rules = [], action_counts = [], action_latency = []\<rparr>"

definition bank_msg :: "op \<Rightarrow> string \<Rightarrow> dict" where
  "bank_msg c s = payment_message (bank_tpc s) 300 c s (bank_charge s)"

lemma bank_workload: "payment_workload 300 bank_charge bank_sagas"
  by (simp add: payment_workload_def bank_sagas_def bank_charge_def in64_def)

lemma bank_svc_db [simp]: "c_db bank_svc = bank_db"
  by (simp add: bank_svc_def)

lemma bank_credit: "credit bank_db u = (if u = ''u'' then Some 100 else None)"
  by (auto simp: credit_def counter_def field_def bank_db_def empty_keyspace_def in64_def)

lemma bank_level: "credit_level bank_db u = (if u = ''u'' then 100 else 0)"
  by (simp add: credit_level_def bank_credit)

lemma bank_fresh [simp]: "payment_phase bank_tpc bank_db s = Fresh"
  by (auto simp: payment_phase_def bank_db_def empty_keyspace_def phase_saga_def payment_status_def
      payment_saga_status_def field_def text_of_def user_key_def payment_status_key_def)

lemma bank_sound: "payment_sound bank_tpc bank_charge bank_sagas (c_db bank_svc)"
proof -
  have "payment_sound bank_tpc bank_charge bank_sagas bank_db"
  proof (rule payment_sound_fresh(1))
    show "credit bank_db (fst (bank_charge s)) \<noteq> None" for s by (simp add: bank_charge_def bank_credit)
    show "int64_min \<le> credit_level bank_db u - (\<Sum>s \<in> bank_sagas. charge_of (bank_charge s) u) \<and>
        credit_level bank_db u \<le> int64_max" for u
      by (simp add: bank_level bank_sagas_def bank_charge_def charge_of_def int64_min_def int64_max_def)
  qed (simp add: bank_db_def empty_keyspace_def)
  then show ?thesis by simp
qed

lemma bank_asks:
  "(c = Confirm \<longrightarrow> bank_tpc s) \<Longrightarrow> payment_asks (bank_tpc s) 300 c s (bank_charge s) (bank_msg c s)"
  using payment_message_asks [of c "bank_tpc s" "bank_charge s" 300 s] by (simp add: bank_msg_def bank_charge_def)

lemma bank_traffic:
  assumes "s \<in> bank_sagas" "c = Confirm \<longrightarrow> bank_tpc s"
  shows "payment_traffic 300 bank_tpc bank_charge bank_sagas (bank_msg c s)"
  unfolding payment_traffic_def
  by (rule bexI [of _ "(c, s)"]) (use assms bank_asks in \<open>auto simp: protocol_cmds_def\<close>)

lemma bank_traffic_ex [simp]:
  "payment_traffic 300 bank_tpc bank_charge bank_sagas (bank_msg c ''s1'')"
  "c \<noteq> Confirm \<Longrightarrow> payment_traffic 300 bank_tpc bank_charge bank_sagas (bank_msg c ''s2'')"
  by (rule bank_traffic; simp add: bank_sagas_def bank_tpc_def)+

lemma bank_action: "text_field (bank_msg c s) ''action'' [] = Inr (action_of (bank_tpc s) c)"
  by (simp add: text_field_def bank_msg_def payment_message_def dict_get_def)

lemma bank_not_asks:
  "action_of two c' \<noteq> action_of (bank_tpc s) c \<Longrightarrow> \<not> payment_asks two 300 c' s' r (bank_msg c s)"
  unfolding payment_asks_def bank_action by auto

lemma bank_redis: "redis_server (cl_rc bank_client)"
  by (simp add: bank_client_def mem_redis)

interpretation bank: payment_ledger bank_client 300 bank_tpc bank_charge bank_sagas
  by (rule payment_ledgerI [OF bank_redis bank_workload])

lemma bank_online:
  assumes "s \<in> bank_sagas" "c = Confirm \<longrightarrow> bank_tpc s" "c \<noteq> Take"
  shows "\<exists>st'. payment_handle_nats bank_client (bank_msg c s) bank_svc =
    (Inr (PDict [(''saga_id'', Str s), (''event'', Str (event_of (bank_tpc s) c))]), st')"
proof -
  have "accepted c e p" for e p using assms(3) by (cases c) auto
  moreover have "dict_get (bank_msg c s) ''saga_id'' (Str []) = Str s"
    by (simp add: bank_msg_def payment_message_def dict_get_def)
  ultimately show ?thesis
    using bank.handle_online [of bank_svc c s "bank_msg c s"] bank_asks [of c s] bank_sound assms
    by (auto simp: online_def bank_svc_def protocol_cmds_def)
qed

section \<open>Properties\<close>

text \<open>C10 (invariant). Money is conserved: whatever protocol messages the payment service receives, each saga with one
  fixed user and amount, and whatever the network and the injected faults do, each user's available credit plus what the
  sagas hold of it never changes.\<close>

theorem payment_conservation:
  assumes "redis_server (cl_rc cl)" and "payment_workload ttl reqs sagas"
    and "payment_sound tpc reqs sagas (c_db st)"
    and "list_all (\<lambda>(msg, _). payment_traffic ttl tpc reqs sagas msg) ds"
  shows "payment_total tpc reqs sagas (c_db (deliveries (payment_handle_nats cl) ds st)) u =
    payment_total tpc reqs sagas (c_db st) u"
  by (rule payment_ledger.deliveries_total [OF payment_ledgerI [OF assms(1,2)] assms(3,4)])

theorem payment_conservation_witness:
  "payment_total bank_tpc bank_charge bank_sagas (c_db (deliveries (payment_handle_nats bank_client)
      [(bank_msg Take ''s1'', [], []), (bank_msg Take ''s2'', [], []), (bank_msg Undo ''s1'', [], [])] bank_svc)) ''u'' = 100"
proof -
  have "payment_total bank_tpc bank_charge bank_sagas (c_db bank_svc) ''u'' = 100"
    by (simp add: payment_total_def bank_level)
  then show ?thesis
    using payment_conservation [OF bank_redis bank_workload bank_sound, of
      "[(bank_msg Take ''s1'', [], []), (bank_msg Take ''s2'', [], []), (bank_msg Undo ''s1'', [], [])]" "''u''"]
    by simp
qed

text \<open>The poison pill of the payment service: once an abort or a compensation is
  acknowledged the saga stays undone whatever late charge arrives, unless its commit arrives.\<close>

lemma payment_undo_stands:
  assumes "redis_server (cl_rc cl)" and "payment_workload ttl reqs sagas"
    and "payment_sound tpc reqs sagas (c_db st)" and "s \<in> sagas"
    and "payment_asks (tpc s) ttl Undo s (reqs s) msg" and "payment_handle_nats cl msg st = (Inr v, st')"
    and "dict_has v ''event'' (event_of (tpc s) Undo)"
    and "list_all (\<lambda>(msg, _). payment_traffic ttl tpc reqs sagas msg \<and> \<not> payment_asks (tpc s) ttl Confirm s (reqs s) msg) ds"
  shows "payment_phase tpc (c_db (deliveries (payment_handle_nats cl) ds st')) s = Undone"
proof -
  have l: "payment_ledger cl ttl reqs sagas" by (rule payment_ledgerI [OF assms(1,2)])
  have "(Undo, s) \<in> protocol_cmds tpc sagas" using assms(4) by (simp add: protocol_cmds_def)
  from payment_ledger.acknowledged_step [OF l assms(3) this assms(5-7)]
  have st': "payment_sound tpc reqs sagas (c_db st')" "payment_phase tpc (c_db st') s = Undone" by auto
  show ?thesis by (rule payment_ledger.decision_stands [OF l st'(1) assms(4,8) st'(2)]) simp
qed

text \<open>No credit becomes negative as long as commits only arrive for sagas whose charge
  is prepared (or committed already).\<close>

lemma credit_never_negative:
  assumes "redis_server (cl_rc cl)" and "payment_workload ttl reqs sagas"
    and "payment_sound tpc reqs sagas (c_db st)"
    and "list_all (\<lambda>(msg, _). payment_traffic ttl tpc reqs sagas msg) ds"
    and "commits_prepared (payment_phase tpc) (payment_handle_nats cl) ds st" and "0 \<le> credit_level (c_db st) u"
  shows "0 \<le> credit_level (c_db (deliveries (payment_handle_nats cl) ds st)) u"
  by (rule payment_ledger.deliveries_nonneg [OF payment_ledgerI [OF assms(1,2)] assms(3-6)])

text \<open>On a working connection and without injected faults the reply of the payment
  service and its effect are determined by the phase of the saga and the user's credit; the credit
  moves by exactly what the saga takes or gives back.\<close>

lemma payment_reply:
  assumes "redis_server (cl_rc cl)" and "payment_workload ttl reqs sagas"
    and "payment_sound tpc reqs sagas (c_db st)" and "(c, s) \<in> protocol_cmds tpc sagas"
    and "payment_asks (tpc s) ttl c s (reqs s) msg" and "online st" and "sv_rules st = []"
  shows "\<exists>v st'. payment_handle_nats cl msg st = (Inr v, st') \<and>
    (if accepted c (affordable (c_db st) (fst (reqs s)) (snd (reqs s))) (payment_phase tpc (c_db st) s)
     then dict_has v ''event'' (event_of (tpc s) c)
     else dict_has v ''event'' ''failed'' \<and> dict_has v ''reason'' ''insufficient_credit'') \<and>
    payment_phase tpc (c_db st') s = next_phase c (affordable (c_db st) (fst (reqs s)) (snd (reqs s)))
      (payment_phase tpc (c_db st) s) \<and>
    (\<forall>u. credit_level (c_db st') u = credit_level (c_db st) u
       + holds (payment_phase tpc (c_db st) s) (charge_of (reqs s) u)
       - holds (payment_phase tpc (c_db st') s) (charge_of (reqs s) u))"
  by (rule payment_ledger.handle_online_effect [OF payment_ledgerI [OF assms(1,2)] assms(3-7)])

end
