(* ===== verification/CommandReplies.thy ===== *)
theory CommandReplies
  imports StockProperties PaymentProperties Core
begin

text \<open>
  The type of what the services answer: for every message, well formed or not, on every database and with any
  fault, one of two shapes of dictionary, or no answer at all from a process that dies.
\<close>

definition command_events :: "(string \<times> string) list" where
  "command_events = [(''prepare'', ''prepared''), (''commit'', ''committed''), (''abort'', ''aborted''),
     (''execute'', ''executed''), (''compensate'', ''compensated'')]"

lemma returns_bind_sum: "(\<And>x. v = Inr x \<Longrightarrow> returns good (f x)) \<Longrightarrow> returns good (bindE (lift_sum v) f)"
  by (cases v) (auto simp: returns_def bindE_def lift_sum_def)

lemma returns_finish: "good ev \<Longrightarrow> returns good (finish_command action t ev)"
  unfolding returns_def using finish_returns by blast

lemma returns_if: "(b \<Longrightarrow> returns good m) \<Longrightarrow> (\<not> b \<Longrightarrow> returns good k) \<Longrightarrow> returns good (if b then m else k)"
  by simp

lemmas handler_rules = returns_if returns_bind_sum returns_bind returns_finish returns_cases(1)

definition confirms :: "dict \<Rightarrow> string \<Rightarrow> bool" where
  "confirms msg ev \<longleftrightarrow> ev = ''failed'' \<or> (\<exists>action. text_field msg ''action'' [] = Inr action \<and> (action, ev) \<in> set command_events)"

lemma confirmsI:
  "confirms msg ''failed''" "text_field msg ''action'' [] = Inr action \<Longrightarrow> (action, ev) \<in> set command_events \<Longrightarrow> confirms msg ev"
  by (auto simp: confirms_def)

lemma handlers_event:
  "returns (confirms msg) (stock_handle_command cl msg)" "returns (confirms msg) (payment_handle_command cl msg)"
  unfolding stock_handle_command_def payment_handle_command_def
  by (intro handler_rules; (split if_split)?; auto intro: confirmsI simp: command_events_def)+

lemma handle_nats_replies:
  assumes "handler \<in> {stock_handle_nats cl, payment_handle_nats cl}" "handler msg st = (r, st')"
  shows "(\<exists>e. r = Inl e \<and> \<not> is_exception e) \<or>
    (\<exists>reason. r = Inr (PDict [(''saga_id'', dict_get msg ''saga_id'' (Str [])), (''event'', Str ''failed''), (''reason'', Str reason)])) \<or>
    (\<exists>action ev. text_field msg ''action'' [] = Inr action \<and> (action, ev) \<in> set command_events \<and>
       r = Inr (PDict [(''saga_id'', dict_get msg ''saga_id'' (Str [])), (''event'', Str ev)]))"
proof -
  obtain m refusal where m: "returns (confirms msg) m" and run: "nats_reply refusal (dict_get msg ''saga_id'' (Str [])) m st = (r, st')"
    using assms handlers_event unfolding stock_handle_nats_def payment_handle_nats_def by blast
  from run show ?thesis
  proof (cases rule: nats_reply_cases)
    case (1 ev)
    from returnsD [OF m 1(1)] show ?thesis using 1(2) by (auto simp: confirms_def)
  qed auto
qed

text \<open>A message is read when it unpacks to a dictionary whose trace context can be extracted.\<close>

lemma read_message_iff: "read_message unpackb get_context data = Inr msg \<longleftrightarrow>
    unpackb data = Inr (PDict msg) \<and> extract_trace_context get_context (PDict msg) = Inr ()"
  by (auto simp: read_message_def split: sum.splits pyval.splits)

text \<open>C38 (type): What comes back for any message whatever. A message that unpacks to a dictionary with a trace
  context that can be extracted is answered with its saga id and either the event that confirms its action, and
  no other, or the event failed with a reason; only a dying or cancelled process does not answer it. Any other message
  gets no answer: the handler raises before its \<open>try\<close>, with the error of the unpacking, and has changed nothing.\<close>

theorem command_reply_type:
  assumes "handler \<in> {stock_handle_message unpackb get_context cl, payment_handle_message unpackb get_context cl}"
    and "handler data st = (r, st')"
  shows "(\<exists>e. read_message unpackb get_context data = Inl e \<and> r = Inl e \<and> st' = st \<and>
      \<not> (\<exists>msg. unpackb data = Inr (PDict msg) \<and> extract_trace_context get_context (PDict msg) = Inr ())) \<or>
    (\<exists>msg. unpackb data = Inr (PDict msg) \<and> extract_trace_context get_context (PDict msg) = Inr () \<and>
      ((\<exists>e. r = Inl e \<and> \<not> is_exception e) \<or>
       (\<exists>reason. r = Inr (PDict [(''saga_id'', dict_get msg ''saga_id'' (Str [])), (''event'', Str ''failed''), (''reason'', Str reason)])) \<or>
       (\<exists>action ev. text_field msg ''action'' [] = Inr action \<and> (action, ev) \<in> set command_events \<and>
          r = Inr (PDict [(''saga_id'', dict_get msg ''saga_id'' (Str [])), (''event'', Str ev)]))))"
proof -
  obtain h where h: "h \<in> {stock_handle_nats cl, payment_handle_nats cl}"
    and run: "bindE (lift_sum (read_message unpackb get_context data)) h st = (r, st')"
    using assms unfolding stock_handle_message_def payment_handle_message_def by blast
  show ?thesis
  proof (cases "read_message unpackb get_context data")
    case (Inl e)
    then have "r = Inl e \<and> st' = st" using run by (simp add: bindE_def lift_sum_def)
    moreover have "\<not> (\<exists>msg. unpackb data = Inr (PDict msg) \<and> extract_trace_context get_context (PDict msg) = Inr ())"
      using Inl by (auto simp flip: read_message_iff)
    ultimately show ?thesis using Inl by blast
  next
    case (Inr msg)
    then have "h msg st = (r, st')" using run by simp
    from handle_nats_replies [OF h this] show ?thesis using Inr unfolding read_message_iff by blast
  qed
qed

text \<open>An unknown action is refused; a message that is no dictionary gets no answer.\<close>

theorem command_reply_type_witness:
  "\<exists>r st'. stock_handle_message Inr (\<lambda>_. Inr ()) shop_client (PDict [(''action'', Str ''refund'')]) shop_svc = (r, st') \<and>
     (\<exists>reason. r = Inr (PDict [(''saga_id'', Str []), (''event'', Str ''failed''), (''reason'', Str reason)])) \<and>
     (\<exists>e. stock_handle_message Inr (\<lambda>_. Inr ()) shop_client (Str ''ping'') shop_svc = (Inl e, shop_svc))"
proof -
  let ?h = "stock_handle_message Inr (\<lambda>_. Inr ()) shop_client" and ?msg = "PDict [(''action'', Str ''refund'')]"
  obtain r st' where run: "?h ?msg shop_svc = (r, st')" by (cases "?h ?msg shop_svc")
  obtain r2 st2 where run2: "?h (Str ''ping'') shop_svc = (r2, st2)" by (cases "?h (Str ''ping'') shop_svc")
  have lives: "\<nexists>e. r = Inl e"
    using run
    by (auto simp: stock_handle_message_def read_message_def extract_trace_context_def py_get_def stock_handle_nats_def
        stock_handle_command_def nats_reply_def try_except_def bindE_def monotonic_def lift_sum_def text_field_def dict_get_def
        shop_svc_def ret_def inject_at_def maybe_inject_def)
  have "\<exists>reason. r = Inr (PDict [(''saga_id'', Str []), (''event'', Str ''failed''), (''reason'', Str reason)])"
    using command_reply_type [where handler = ?h and unpackb = Inr and get_context = "\<lambda>_. Inr ()" and cl = shop_client, OF _ run] lives
    by (auto simp: text_field_def dict_get_def command_events_def)
  moreover have "\<exists>e. ?h (Str ''ping'') shop_svc = (Inl e, shop_svc)"
    using command_reply_type [where handler = ?h and unpackb = Inr and get_context = "\<lambda>_. Inr ()" and cl = shop_client, OF _ run2] run2 by auto
  ultimately show ?thesis using run by blast
qed

end
