(* ===== verification/Transport.thy ===== *)
theory Transport
  imports Process
begin

text \<open>
  \<open>common/nats_transport.py\<close>: the request a command becomes on the wire, and the retry policy of
  the orchestrator's transport. The NATS client (inboxes, JetStream publication, the wait for the
  reply) is outside the repository: it is the parameter \<open>exchange\<close>, one publication with its wait.
\<close>

section \<open>One request\<close>

text \<open>\<open>subject.rsplit(".", 1)[-1]\<close>\<close>

definition last_part :: "string \<Rightarrow> string" where
  "last_part s = rev (takeWhile (\<lambda>c. c \<noteq> CHR ''.'') (rev s))"

lemma last_part_append: "CHR ''.'' \<notin> set b \<Longrightarrow> last_part (a @ CHR ''.'' # b) = b"
  by (simp add: last_part_def takeWhile_append)

definition inject_trace_context :: "dict \<Rightarrow> dict \<Rightarrow> dict" where
  "inject_trace_context carrier payload =
     (if carrier \<noteq> [] then dict_merge payload [(''_trace'', PDict carrier)] else payload)"

definition mutating :: "string \<Rightarrow> bool" where
  "mutating action \<longleftrightarrow> action \<in> {''prepare'', ''execute''}"

definition request_headers :: "string \<Rightarrow> string \<Rightarrow> dict \<Rightarrow> exn + (string \<times> string) list" where
  "request_headers inbox subject payload =
     (if mutating (last_part subject) then
        (case py_format (dict_get payload ''saga_id'' (Str [])) of
           Inl e \<Rightarrow> Inl e
         | Inr saga_id \<Rightarrow> Inr [(''Reply-To'', inbox), (''Nats-Msg-Id'', saga_id @ ''-'' @ subject)])
      else Inr [(''Reply-To'', inbox)])"

type_synonym 'n exchange = "string \<Rightarrow> dict \<Rightarrow> (string \<times> string) list \<Rightarrow> rat \<Rightarrow> ('n proc, pyval) py"

definition nats_request :: "'n exchange \<Rightarrow> string \<Rightarrow> dict \<Rightarrow> string \<Rightarrow> dict \<Rightarrow> rat \<Rightarrow> ('n proc, pyval) py" where
  "nats_request exchange inbox carrier subject payload timeout =
     bindE (lift_sum (request_headers inbox subject payload)) (\<lambda>headers.
       exchange subject (inject_trace_context carrier payload) headers timeout)"

text \<open>What a service does with a handled message: \<open>_JsMsgAdapter.respond\<close>.\<close>

datatype nats_op = Publish string pyval | Ack

definition respond :: "(string \<times> string) list \<Rightarrow> pyval \<Rightarrow> nats_op list" where
  "respond headers data = (case map_of headers ''Reply-To'' of
     Some reply_to \<Rightarrow> if reply_to \<noteq> [] then [Publish reply_to data, Ack] else [Ack]
   | None \<Rightarrow> [Ack])"

section \<open>Retries\<close>

definition TRANSIENT_RETRIES :: nat where "TRANSIENT_RETRIES = 6"
definition INITIAL_BACKOFF :: rat where "INITIAL_BACKOFF = 1 / 2"
definition MAX_BACKOFF :: rat where "MAX_BACKOFF = 4"

type_synonym 'n requester = "string \<Rightarrow> dict \<Rightarrow> rat \<Rightarrow> ('n proc, pyval) py"

text \<open>One attempt: an answer for the caller, or a transient error to try again after.\<close>

datatype verdict = Return pyval | Transient string

definition failed_reply :: "string \<Rightarrow> pyval" where
  "failed_reply reason = PDict [(''event'', Str ''failed''), (''reason'', Str reason)]"

definition transient_text :: "string \<Rightarrow> bool" where
  "transient_text err \<longleftrightarrow> contains ''no responders'' (lower err) \<or> contains ''disconnected'' (lower err) \<or>
     contains ''connection'' (lower err)"

definition judge :: "exn \<Rightarrow> verdict option" where
  "judge e = (if is_timeout e then Some (Transient ''timeout'')
     else if is_exception e then Some (if transient_text (exn_text e) then Transient (exn_text e) else Return (failed_reply (exn_text e)))
     else None)"

definition send_attempt :: "('n proc, pyval) py \<Rightarrow> ('n proc, verdict) py" where
  "send_attempt req = try_except (bindE req (\<lambda>v. ret (Return v))) (\<lambda>e. map_option ret (judge e))"

text \<open>The loop, by the number of attempts left.\<close>

fun send_loop :: "nat \<Rightarrow> ('n proc, pyval) py \<Rightarrow> rat \<Rightarrow> string \<Rightarrow> ('n proc, pyval) py" where
  "send_loop 0 req backoff last_error = ret (failed_reply last_error)"
| "send_loop (Suc left) req backoff last_error = bindE (send_attempt req) (\<lambda>r. case r of
     Return v \<Rightarrow> ret v
   | Transient err \<Rightarrow>
       if left \<noteq> 0 then bindE (async_sleep (min backoff MAX_BACKOFF)) (\<lambda>_. send_loop left req (backoff * 2) err)
       else send_loop left req backoff err)"

definition max_retries :: "string \<Rightarrow> nat" where
  "max_retries action = (if mutating action then 1 else TRANSIENT_RETRIES)"

definition subject_of :: "string \<Rightarrow> string \<Rightarrow> string" where
  "subject_of sv action = ''svc.'' @ sv @ ''.'' @ action"

definition send_and_wait :: "'n requester \<Rightarrow> 'n transport" where
  "send_and_wait request sv action payload timeout = send_loop (max_retries action)
     (request (subject_of sv action) (dict_merge payload [(''action'', Str action)]) timeout) INITIAL_BACKOFF []"

section \<open>Properties\<close>

lemma max_retries_pos: "max_retries action = Suc (max_retries action - 1)"
  by (simp add: max_retries_def TRANSIENT_RETRIES_def)

text \<open>A prepare or an execute is requested exactly once: the transport turns a lost one into a failed event.\<close>

lemma mutation_sent_once:
  assumes "mutating action"
  shows "send_and_wait request sv action payload timeout st =
    (case request (subject_of sv action) (dict_merge payload [(''action'', Str action)]) timeout st of
       (Inr v, st') \<Rightarrow> (Inr v, st')
     | (Inl e, st') \<Rightarrow> if is_timeout e then (Inr (failed_reply ''timeout''), st')
         else if is_exception e then (Inr (failed_reply (exn_text e)), st') else (Inl e, st'))"
  using assms
  by (auto simp: send_and_wait_def max_retries_def send_attempt_def judge_def try_except_def bindE_def ret_def
      split: sum.splits prod.splits)

text \<open>A network that plays back a list of outcomes, one per request.\<close>

definition scripted :: "(exn + pyval) list requester" where
  "scripted subject msg timeout = (\<lambda>st. case net st of
     [] \<Rightarrow> (Inl (TimeoutErr []), st)
   | r # rs \<Rightarrow> (r, st\<lparr>net := rs\<rparr>))"

definition transient :: "exn \<Rightarrow> bool" where
  "transient e \<longleftrightarrow> is_timeout e \<or> is_exception e \<and> transient_text (exn_text e)"

definition last_error_of :: "exn \<Rightarrow> string" where
  "last_error_of e = (if is_timeout e then ''timeout'' else exn_text e)"

fun waited :: "nat \<Rightarrow> rat \<Rightarrow> rat" where
  "waited 0 backoff = 0"
| "waited (Suc k) backoff = min backoff MAX_BACKOFF + waited k (backoff * 2)"

lemma judge_transient: "transient e \<Longrightarrow> judge e = Some (Transient (last_error_of e))"
  by (auto simp: transient_def judge_def last_error_of_def)

lemma attempt_fails:
  "transient e \<Longrightarrow> net st = Inl e # rs \<Longrightarrow>
     send_attempt (scripted subject msg timeout) st = (Inr (Transient (last_error_of e)), st\<lparr>net := rs\<rparr>)"
  by (simp add: send_attempt_def scripted_def try_except_def bindE_def ret_def judge_transient)

lemma attempt_answers:
  "net st = Inr v # rs \<Longrightarrow> send_attempt (scripted subject msg timeout) st = (Inr (Return v), st\<lparr>net := rs\<rparr>)"
  by (simp add: send_attempt_def scripted_def try_except_def bindE_def ret_def)

lemma loop_answers:
  assumes "list_all transient es" "length es < left" "0 < backoff" "net st = map Inl es @ Inr v # rest"
  shows "send_loop left (scripted subject msg timeout) backoff err st =
    (Inr v, st\<lparr>net := rest, c_clock := c_clock st + waited (length es) backoff\<rparr>)"
  using assms
proof (induction es arbitrary: left backoff err st)
  case Nil
  then obtain l where "left = Suc l" by (cases left) auto
  then show ?case using Nil.prems attempt_answers [of st v rest] by (simp add: bindE_def ret_def)
next
  case (Cons e es)
  then obtain l where l: "left = Suc l" "l \<noteq> 0" "length es < l" by (cases left) auto
  let ?st = "st\<lparr>net := map Inl es @ Inr v # rest, c_clock := c_clock st + min backoff MAX_BACKOFF\<rparr>"
  have "0 < min backoff MAX_BACKOFF" using Cons.prems(3) by (simp add: MAX_BACKOFF_def)
  then have "send_loop left (scripted subject msg timeout) backoff err st =
      send_loop l (scripted subject msg timeout) (backoff * 2) (last_error_of e) ?st"
    using Cons.prems l attempt_fails [of e st "map Inl es @ Inr v # rest"] by (simp add: bindE_def async_sleep_def)
  also have "\<dots> = (Inr v, ?st\<lparr>net := rest, c_clock := c_clock ?st + waited (length es) (backoff * 2)\<rparr>)"
    using Cons.prems l by (intro Cons.IH) auto
  finally show ?case by (simp add: add.assoc)
qed

lemma loop_exhausted:
  assumes "list_all transient es" "es \<noteq> []" "0 < backoff" "net st = map Inl es @ rest"
  shows "send_loop (length es) (scripted subject msg timeout) backoff err st =
    (Inr (failed_reply (last_error_of (last es))), st\<lparr>net := rest, c_clock := c_clock st + waited (length es - 1) backoff\<rparr>)"
  using assms
proof (induction es arbitrary: backoff err st)
  case (Cons e es)
  show ?case
  proof (cases "es = []")
    case True
    then show ?thesis using Cons.prems attempt_fails [of e st rest] by (simp add: bindE_def ret_def)
  next
    case False
    let ?st = "st\<lparr>net := map Inl es @ rest, c_clock := c_clock st + min backoff MAX_BACKOFF\<rparr>"
    have "0 < min backoff MAX_BACKOFF" using Cons.prems(3) by (simp add: MAX_BACKOFF_def)
    then have "send_loop (length (e # es)) (scripted subject msg timeout) backoff err st =
        send_loop (length es) (scripted subject msg timeout) (backoff * 2) (last_error_of e) ?st"
      using Cons.prems False attempt_fails [of e st "map Inl es @ rest"] by (simp add: bindE_def async_sleep_def)
    also have "\<dots> = (Inr (failed_reply (last_error_of (last es))),
        ?st\<lparr>net := rest, c_clock := c_clock ?st + waited (length es - 1) (backoff * 2)\<rparr>)"
      using Cons.prems False by (intro Cons.IH) auto
    finally show ?thesis using False by (cases es) (simp_all add: add.assoc)
  qed
qed simp

text \<open>C31 (functional): A commit, abort or compensation is retried after transient errors (a timeout,
  no responders, a lost connection): with up to five of them before an answer the caller gets the
  answer, after the exponential backoff and no further request; after six it gets a failed event with
  the last error, having waited 11.5 seconds in all.\<close>

theorem idempotent_action_retried:
  assumes "\<not> mutating action" and "list_all transient es" and "length es \<le> TRANSIENT_RETRIES"
    and "net st = map Inl es @ Inr v # rest"
  shows "send_and_wait scripted sv action payload timeout st =
    (if length es < TRANSIENT_RETRIES
     then (Inr v, st\<lparr>net := rest, c_clock := c_clock st + waited (length es) INITIAL_BACKOFF\<rparr>)
     else (Inr (failed_reply (last_error_of (last es))), st\<lparr>net := Inr v # rest, c_clock := c_clock st + 23 / 2\<rparr>))"
proof (cases "length es < TRANSIENT_RETRIES")
  case True
  then show ?thesis
    using assms loop_answers [of es TRANSIENT_RETRIES INITIAL_BACKOFF st v rest]
    by (simp add: send_and_wait_def max_retries_def INITIAL_BACKOFF_def)
next
  case False
  then have l: "length es = TRANSIENT_RETRIES" using assms(3) by simp
  then have "es \<noteq> []" by (auto simp: TRANSIENT_RETRIES_def)
  moreover have "waited 5 INITIAL_BACKOFF = 23 / 2"
    by (simp add: eval_nat_numeral INITIAL_BACKOFF_def MAX_BACKOFF_def min_def)
  ultimately show ?thesis
    using assms l loop_exhausted [of es INITIAL_BACKOFF st "Inr v # rest"]
    by (simp add: send_and_wait_def max_retries_def INITIAL_BACKOFF_def TRANSIENT_RETRIES_def)
qed

text \<open>On the wire, two sendings of the same prepare or execute of a saga carry the
  same JetStream message id, which depends on saga, service and action only, so that the broker drops
  the second; all other actions carry none, so that they can be repeated.\<close>

lemma message_identity:
  assumes "CHR ''.'' \<notin> set action" and "map_of payload ''saga_id'' = Some (Str s)"
  shows "request_headers inbox (subject_of sv action) payload = Inr ((''Reply-To'', inbox) #
    (if mutating action then [(''Nats-Msg-Id'', s @ ''-'' @ subject_of sv action)] else []))"
proof -
  have "last_part (subject_of sv action) = action"
    using last_part_append [OF assms(1), of "''svc.'' @ sv"] by (simp add: subject_of_def)
  then show ?thesis using assms(2) by (simp add: request_headers_def dict_get_def)
qed

subsection \<open>Witness\<close>

theorem idempotent_action_retried_witness:
  "send_and_wait scripted ''stock'' ''commit'' [] 10 (fresh_proc [Inl (TimeoutErr []), Inl (OtherErr ''nats: no responders''), Inr (PInt 1)]) =
     (Inr (PInt 1), (fresh_proc [])\<lparr>c_clock := 3 / 2\<rparr>)"
  using idempotent_action_retried [of "''commit''" "[TimeoutErr [], OtherErr ''nats: no responders'']"
      "fresh_proc [Inl (TimeoutErr []), Inl (OtherErr ''nats: no responders''), Inr (PInt 1)]" "PInt 1" "[]" "''stock''" "[]" 10]
  by (simp add: mutating_def transient_def transient_text_def lower_def lower_char_def TRANSIENT_RETRIES_def fresh_proc_def
      INITIAL_BACKOFF_def MAX_BACKOFF_def)

end
