(* ===== verification/WalAtomic.thy ===== *)
theory WalAtomic
  imports WalLaws
begin

text \<open>
  The log on a connection that may fail, and with every call the interface allows: also records without data, which
  leave the data of an earlier one in place. The specification is a book: for every saga the step it stands at, if it is
  unfinished, and the data noted for it.
\<close>

section \<open>The book\<close>

type_synonym book = "string \<Rightarrow> string option \<times> dict option"

definition noted :: "keyspace \<Rightarrow> string \<Rightarrow> dict option \<Rightarrow> bool" where
  "noted d s data \<longleftrightarrow> field d (saga_state_key s) ''data'' = map_option (\<lambda>x. json_dumps (PDict x)) data"

definition stands_at :: "keyspace \<Rightarrow> string \<Rightarrow> string option \<Rightarrow> bool" where
  "stands_at d s p \<longleftrightarrow> (case p of None \<Rightarrow> \<not> wal_active d s
     | Some step \<Rightarrow> wal_active d s \<and> step \<notin> set TERMINAL_STATES \<and> field d (saga_state_key s) ''step'' = Some (Text step) \<and>
         (\<exists>now. field d (saga_state_key s) ''timestamp'' = Some (json_dumps (PFloat now))))"

text \<open>A database holds a book; it determines the book.\<close>

definition holds_book :: "keyspace \<Rightarrow> book \<Rightarrow> bool" where
  "holds_book d b \<longleftrightarrow> wal_typed d \<and> (\<forall>s. stands_at d s (fst (b s)) \<and> noted d s (snd (b s)))"

lemma noted_unique: "noted d s x \<Longrightarrow> noted d s y \<Longrightarrow> x = y"
  by (cases x; cases y) (auto simp: noted_def)

lemma stands_at_unique: "stands_at d s p \<Longrightarrow> stands_at d s q \<Longrightarrow> p = q"
  by (cases p; cases q) (auto simp: stands_at_def)

lemma book_unique: "holds_book d b \<Longrightarrow> holds_book d b' \<Longrightarrow> b = b'"
proof (rule ext, rule prod_eqI)
  fix s
  assume "holds_book d b" "holds_book d b'"
  then have "stands_at d s (fst (b s))" "stands_at d s (fst (b' s))" "noted d s (snd (b s))" "noted d s (snd (b' s))"
    by (simp_all add: holds_book_def)
  then show "fst (b s) = fst (b' s)" "snd (b s) = snd (b' s)" using stands_at_unique noted_unique by blast+
qed

text \<open>One call of the log on the book. A record without data keeps the data noted before.\<close>

fun book_step :: "wal_op \<Rightarrow> book \<Rightarrow> book" where
  "book_step (Log s step data) b = b(s := (if step \<in> set TERMINAL_STATES then (None, None)
     else (Some step, if data \<in> {None, Some []} then snd (b s) else data)))"
| "book_step (Log_terminal s step data) b = b(s := (None, None))"

text \<open>What recovery reads of an unfinished saga is its page of the book.\<close>

lemma load_incomplete_book:
  assumes "redis_server (cl_rc cl)" "online st" "holds_book (c_db st) b" "fst (b s) = Some step" "snd (b s) \<noteq> Some []"
  shows "\<exists>now. load_incomplete cl s acc st = (Inr (AList.update s \<lparr>last_step = step,
    i_data = (case snd (b s) of None \<Rightarrow> PNone | Some x \<Rightarrow> PDict x), created_at = now\<rparr> acc), after_trip st)"
proof -
  have b: "stands_at (c_db st) s (Some step)" "noted (c_db st) s (snd (b s))" "wal_typed (c_db st)"
    using assms(3,4) by (auto simp: holds_book_def) (metis)
  obtain h where h: "hash_of (c_db st) (saga_state_key s) = Some h" using b(3) by (auto simp: wal_typed_def)
  obtain now where f: "map_of h ''step'' = Some (Text step)" "map_of h ''timestamp'' = Some (json_dumps (PFloat now))"
    "map_of h ''data'' = map_option (\<lambda>x. json_dumps (PDict x)) (snd (b s))" "step \<notin> set TERMINAL_STATES"
    using b(1,2) field_of_hash [OF h] by (auto simp: stands_at_def noted_def)
  have ne: "h \<noteq> []" using f(1) by auto
  have "redis_call cl (hgetall (cl_rc cl) (saga_state_key s)) st = (Inr h, (after_trip st)\<lparr>c_db := c_db st\<rparr>)"
    by (rule redis_call_online [OF assms(2)])
      (simp add: hgetall_def bindE_def ret_def redis_server.hgetall [OF assms(1)] h)
  moreover have "(after_trip st)\<lparr>c_db := c_db st\<rparr> = after_trip st" by (simp add: after_trip_def)
  ultimately show ?thesis
    using f ne by (intro exI [of _ now], cases "snd (b s)") (simp_all add: load_incomplete_def bindE_def lift_sum_def ret_def Let_def)
qed

section \<open>The pipelines\<close>

definition record_cmds :: "string \<Rightarrow> (string \<times> rtext) list \<Rightarrow> cmd list" where
  "record_cmds s entry = [XADD STREAM_KEY entry MAX_LEN, SADD ACTIVE_SET s, HSET (saga_state_key s) entry]"

definition finish_cmds :: "string \<Rightarrow> (string \<times> rtext) list \<Rightarrow> cmd list" where
  "finish_cmds s entry = [XADD STREAM_KEY entry MAX_LEN, SREM ACTIVE_SET s, DEL (saga_state_key s)]"

lemma wal_log_cmds:
  "wal_log cl s step data st = bindE (pipeline cl True
     ((if step \<in> set TERMINAL_STATES then finish_cmds else record_cmds) s (wal_entry s step (boot_time st + c_clock st) data))) (\<lambda>_. ret ()) st"
  "wal_log_terminal cl s step data st = bindE (pipeline cl False
     (finish_cmds s (wal_entry s step (boot_time st + c_clock st) data))) (\<lambda>_. ret ()) st"
  by (simp_all add: wal_log_def wal_log_terminal_def record_cmds_def finish_cmds_def wall_time_def Let_def bindE_def)

text \<open>The other sagas' pages: a step within the frame of \<open>s\<close> changes the page of \<open>s\<close> only.\<close>

lemma frame_fields: "wal_frame s d d' \<Longrightarrow> s' \<noteq> s \<Longrightarrow> field d' (saga_state_key s') f = field d (saga_state_key s') f"
  by (rule view_cong(6)) (simp add: wal_frame_def)

lemma holds_book_upd:
  assumes "holds_book d b" "wal_frame s d d'" "wal_typed d'" "stands_at d' s p" "noted d' s x"
  shows "holds_book d' (b(s := (p, x)))"
proof -
  have "stands_at d' s' q = stands_at d s' q" "noted d' s' y = noted d s' y" if "s' \<noteq> s" for s' q y
    using assms(2) that frame_fields [OF assms(2) that] by (simp_all add: stands_at_def noted_def wal_frame_def split: option.split)
  then show ?thesis using assms(1,3-5) by (simp add: holds_book_def)
qed

text \<open>The stream of records is no part of the book.\<close>

lemma holds_book_stream: "holds_book d b \<Longrightarrow> holds_book (put STREAM_KEY (RStream l) d) b"
proof -
  assume b: "holds_book d b"
  let ?d = "put STREAM_KEY (RStream l) d"
  have "wal_typed ?d" using b by (simp add: holds_book_def wal_typed_def)
  moreover have "field ?d (saga_state_key s) f = field d (saga_state_key s) f" for s f by (rule view_cong(6)) simp
  moreover have "wal_active ?d s = wal_active d s" for s by (simp add: wal_active_def)
  ultimately have "wal_typed ?d" "stands_at ?d s p = stands_at d s p" "noted ?d s x = noted d s x" for s p x
    by (simp_all add: stands_at_def noted_def split: option.split)
  then show ?thesis using b by (simp add: holds_book_def)
qed

context redis_server begin

lemma book_record:
  assumes "holds_book d b" "step \<notin> set TERMINAL_STATES" "run_cmds rc (record_cmds s (wal_entry s step now data)) d = (rs, d')"
  shows "holds_book d' (book_step (Log s step data) b)"
proof -
  let ?e = "wal_entry s step now data" and ?old = "snd (b s)"
  have t: "wal_typed d" "noted d s ?old" using assms(1) by (simp_all add: holds_book_def)
  have d': "wal_typed d'" "wal_active d' s" "wal_frame s d d'"
    "\<And>k. field d' (saga_state_key s) k = (case map_of (rev ?e) k of None \<Rightarrow> field d (saga_state_key s) k | Some v \<Rightarrow> Some v)"
    using wal_record_fields [OF t(1), of ?e s] assms(3) by (auto simp: record_cmds_def)
  have "stands_at d' s (Some step)" using d' assms(2) by (auto simp: stands_at_def wal_entry_lookup)
  moreover have "noted d' s (if data \<in> {None, Some []} then ?old else data)"
  proof (cases "data \<in> {None, Some []}")
    case True
    then have "map_of (rev ?e) ''data'' = None" by (auto simp: wal_entry_def)
    then show ?thesis using True d'(4) t(2) by (simp add: noted_def)
  next
    case False
    then obtain x where "data = Some x" "x \<noteq> []" by auto
    then show ?thesis using d'(4) by (simp add: noted_def wal_entry_lookup)
  qed
  ultimately show ?thesis using holds_book_upd [OF assms(1) d'(3,1)] assms(2) by simp
qed

text \<open>The terminal pipeline, whole or cut off after some of its commands: after \<open>SREM\<close> the saga is finished, but its data is left.\<close>

lemma book_finish:
  assumes "holds_book d b" "run_cmds rc (take k (finish_cmds s entry)) d = (rs, d')"
  shows "holds_book d' (if k \<le> 1 then b else if k = 2 then b(s := (None, snd (b s))) else b(s := (None, None)))"
proof -
  have t: "wal_typed d" using assms(1) by (simp add: holds_book_def)
  obtain l0 where l0: "stream_of d STREAM_KEY = Some l0" using t by (auto simp: wal_typed_def)
  obtain id l1 where 1: "rc (XADD STREAM_KEY entry MAX_LEN) d = (Inr (Bulk id), put STREAM_KEY (RStream l1) d)"
    using xadd_put [OF l0] by blast
  let ?d1 = "put STREAM_KEY (RStream l1) d"
  obtain l where l: "set_of d ACTIVE_SET = Some l" "distinct l" using wal_set [OF t] by auto
  obtain r d2 l' where 2: "rc (SREM ACTIVE_SET s) ?d1 = (Inr r, d2)"
    "d2 = ?d1 \<and> l' = l \<or> d2 = put ACTIVE_SET (RSet l') ?d1 \<or> d2 = remove ACTIVE_SET ?d1 \<and> l' = []"
    "set l' = set l - {s}" "distinct l'" "set_of d2 ACTIVE_SET = Some l'"
    using srem_put [of ?d1 ACTIVE_SET l s] l by auto
  consider "k \<le> 1" | "k = 2" | "3 \<le> k" by linarith
  then show ?thesis
  proof cases
    case 1
    then have "d' = d \<or> d' = ?d1" using assms(2) \<open>rc (XADD STREAM_KEY entry MAX_LEN) d = _\<close>
      by (cases k) (auto simp: finish_cmds_def)
    then show ?thesis using 1 assms(1) holds_book_stream by auto
  next
    case 2
    then have d': "d' = d2" using assms(2) \<open>rc (XADD STREAM_KEY entry MAX_LEN) d = _\<close> \<open>rc (SREM ACTIVE_SET s) ?d1 = _\<close>
      by (simp add: finish_cmds_def eval_nat_numeral)
    have ent: "case entries d2 ACTIVE_SET of None \<Rightarrow> True | Some (RSet l) \<Rightarrow> distinct l | _ \<Rightarrow> False"
      using \<open>distinct l'\<close> \<open>set_of d2 ACTIVE_SET = Some l'\<close> by (auto simp: set_of_def split: option.splits rval.splits)
    have e: "entries d2 k = entries d k" if "k \<noteq> STREAM_KEY" "k \<noteq> ACTIVE_SET" for k
      using \<open>d2 = ?d1 \<and> l' = l \<or> _\<close> that by auto
    have typed: "wal_typed d2"
      unfolding wal_typed_def
    proof (intro conjI)
      show "stream_of d2 STREAM_KEY \<noteq> None" "stream_of d2 DLQ_STREAM \<noteq> None" "\<forall>s'. hash_of d2 (saga_state_key s') \<noteq> None"
        using \<open>d2 = ?d1 \<and> l' = l \<or> _\<close> t by (auto simp: wal_typed_def)
    qed (rule ent)
    have act: "wal_active d2 s' \<longleftrightarrow> s' \<noteq> s \<and> wal_active d s'" for s'
      using \<open>set l' = set l - {s}\<close> \<open>set_of d2 ACTIVE_SET = Some l'\<close> l(1) by (auto simp: wal_active_def)
    have "wal_frame s d d2" using e act by (simp add: wal_frame_def)
    moreover have "field d2 (saga_state_key s) f = field d (saga_state_key s) f" for f by (rule view_cong(6)) (simp add: e)
    ultimately show ?thesis
      using holds_book_upd [OF assms(1) _ typed, of s None "snd (b s)"] assms(1) act d' 2
      by (simp add: stands_at_def noted_def holds_book_def)
  next
    case 3
    then have "run_cmds rc (finish_cmds s entry) d = (rs, d')" using assms(2) by (simp add: finish_cmds_def)
    then have d': "wal_typed d'" "\<not> wal_active d' s" "wal_frame s d d'" "d' = remove (saga_state_key s) d2"
      using wal_finish [OF t, of entry s] \<open>rc (XADD STREAM_KEY entry MAX_LEN) d = _\<close> \<open>rc (SREM ACTIVE_SET s) ?d1 = _\<close>
      by (auto simp: finish_cmds_def del)
    have "noted d' s None" by (simp add: noted_def d'(4))
    then show ?thesis using holds_book_upd [OF assms(1) d'(3,1), of None None] d'(2) 3 by (simp add: stands_at_def)
  qed
qed

lemma book_finish_whole:
  "holds_book d b \<Longrightarrow> run_cmds rc (finish_cmds s entry) d = (rs, d') \<Longrightarrow> holds_book d' (b(s := (None, None)))"
  using book_finish [where k = 3] by (simp add: finish_cmds_def)

end

section \<open>The refinement\<close>

text \<open>What a pipeline leaves in the database.\<close>

lemma pipeline_effect:
  assumes "pipeline cl tx cs st = (r, st')"
  shows "c_db st' = snd (run_cmds (cl_rc cl) cs (c_db st)) \<or>
    isl r \<and> (\<exists>k. c_db st' = snd (run_cmds (cl_rc cl) (if tx then [] else take k cs) (c_db st)))"
proof (cases "t_fate (next_trip (c_trips st))")
  case Answered
  then show ?thesis using assms by (auto simp: pipeline_def Let_def split: prod.splits)
next
  case (Broken k)
  then have "isl r" "c_db st' = snd (run_cmds (cl_rc cl) (if tx then if k = 0 then [] else cs else take k cs) (c_db st))"
    using assms by (auto simp: pipeline_def Let_def)
  then show ?thesis by (cases tx; cases "k = 0") (auto intro: exI [of _ k])
qed

lemma pipeline_ret_effect:
  assumes "bindE (pipeline cl tx cs) (\<lambda>_. ret ()) st = (r, st')"
  shows "c_db st' = snd (run_cmds (cl_rc cl) cs (c_db st)) \<or>
    isl r \<and> (\<exists>k. c_db st' = snd (run_cmds (cl_rc cl) (if tx then [] else take k cs) (c_db st)))"
proof -
  obtain q st1 where q: "pipeline cl tx cs st = (q, st1)" by fastforce
  then have "st' = st1" "isl q \<Longrightarrow> isl r" using assms by (auto simp: bindE_def ret_def split: sum.splits)
  then show ?thesis using pipeline_effect [OF q] by blast
qed

text \<open>C13 (refinement): Every call of \<open>WALEngine.log\<close> and \<open>log_terminal\<close>, with or without data, on any
  connection, refines one step on the book of the unfinished sagas. A call that returns has made its step: a terminal
  record clears the page of its saga; another sets the step, and the data if it has any, and otherwise keeps the data
  noted before. A call of \<open>log\<close> that raises, because the connection failed before, during or after its pipeline, has
  made the whole step or none. One of \<open>log_terminal\<close>, whose pipeline is no transaction, may besides have finished the
  saga and left its data.\<close>

theorem wal_refines_book:
  assumes "redis_server (cl_rc cl)" and "holds_book (c_db st) b" and "run_wal_op cl ope st = (r, st')"
  shows "holds_book (c_db st') (book_step ope b) \<or>
    isl r \<and> (holds_book (c_db st') b \<or>
      (\<exists>s step data. ope = Log_terminal s step data \<and> holds_book (c_db st') (b(s := (None, snd (b s))))))"
proof (cases ope)
  case (Log s step data)
  let ?e = "wal_entry s step (boot_time st + c_clock st) data"
  have "c_db st' = snd (run_cmds (cl_rc cl) ((if step \<in> set TERMINAL_STATES then finish_cmds else record_cmds) s ?e) (c_db st)) \<or>
      isl r \<and> c_db st' = c_db st"
    using pipeline_ret_effect [OF assms(3) [unfolded Log run_wal_op.simps wal_log_cmds]] by auto
  then consider "c_db st' = snd (run_cmds (cl_rc cl) (finish_cmds s ?e) (c_db st))" "step \<in> set TERMINAL_STATES"
    | "c_db st' = snd (run_cmds (cl_rc cl) (record_cmds s ?e) (c_db st))" "step \<notin> set TERMINAL_STATES"
    | "isl r" "c_db st' = c_db st" by (auto split: if_splits)
  then show ?thesis
  proof cases
    case 1
    then show ?thesis using redis_server.book_finish_whole [OF assms(1,2) prod.collapse [symmetric]] by (simp add: Log)
  next
    case 2
    from redis_server.book_record [OF assms(1,2) 2(2) prod.collapse [symmetric]] 2(1) show ?thesis by (simp add: Log)
  qed (use assms(2) in simp)
next
  case (Log_terminal s step data)
  let ?cs = "finish_cmds s (wal_entry s step (boot_time st + c_clock st) data)"
  note fin = redis_server.book_finish [OF assms(1,2)]
  from pipeline_ret_effect [OF assms(3) [unfolded Log_terminal run_wal_op.simps wal_log_cmds]]
  consider "c_db st' = snd (run_cmds (cl_rc cl) ?cs (c_db st))"
    | k where "isl r" "c_db st' = snd (run_cmds (cl_rc cl) (take k ?cs) (c_db st))" by auto
  then show ?thesis
  proof cases
    case 1
    then show ?thesis using redis_server.book_finish_whole [OF assms(1,2) prod.collapse [symmetric]] by (simp add: Log_terminal)
  next
    case 2
    from fin [OF prod.collapse [symmetric], of k s] 2
    show ?thesis by (cases "k \<le> 1"; cases "k = 2") (simp_all add: Log_terminal)
  qed
qed

text \<open>A saga is recorded with data, and once more without.\<close>

lemma record_online:
  assumes "redis_server (cl_rc cl)" "online st" "wal_typed (c_db st)" "step \<notin> set TERMINAL_STATES"
  shows "\<exists>st'. run_wal_op cl (Log s step data) st = (Inr (), st') \<and> online st' \<and> wal_typed (c_db st')"
proof -
  let ?e = "wal_entry s step (boot_time st + c_clock st) data"
  obtain rs d' xs where r: "run_cmds (cl_rc cl) (record_cmds s ?e) (c_db st) = (rs, d')" "first_error rs = Inr xs" "wal_typed d'"
    using redis_server.wal_record_fields [OF assms(1,3), of ?e s] by (auto simp: record_cmds_def)
  from pipeline_online [OF assms(2) r(1,2), of True] show ?thesis
    using assms(2,4) r(3) by (simp add: wal_log_cmds bindE_def ret_def)
qed

theorem wal_refines_book_witness:
  "\<exists>st1 st2. run_wal_op mem_client (Log ''a'' ''EXECUTING'' (Some [(''k'', PInt 1)])) (fresh_proc ()) = (Inr (), st1) \<and>
     run_wal_op mem_client (Log ''a'' ''COMPENSATING'' None) st1 = (Inr (), st2) \<and>
     holds_book (c_db st2) ((\<lambda>_. (None, None))(''a'' := (Some ''COMPENSATING'', Some [(''k'', PInt 1)])))"
proof -
  let ?op1 = "Log ''a'' ''EXECUTING'' (Some [(''k'', PInt 1)])" and ?op2 = "Log ''a'' ''COMPENSATING'' None" and ?b = "\<lambda>_. (None, None) :: string option \<times> dict option"
  have rs: "redis_server (cl_rc mem_client)" by (simp add: mem_client_def mem_redis)
  have t: "''EXECUTING'' \<notin> set TERMINAL_STATES" "''COMPENSATING'' \<notin> set TERMINAL_STATES" by (simp_all add: TERMINAL_STATES_def)
  have b: "holds_book (c_db (fresh_proc ())) ?b"
    using fresh_proc_log [of "()"] by (simp add: holds_book_def stands_at_def noted_def) (simp add: fresh_proc_def field_def hash_of_def empty_keyspace_def)
  obtain st1 where st1: "run_wal_op mem_client ?op1 (fresh_proc ()) = (Inr (), st1)" "online st1" "wal_typed (c_db st1)"
    using record_online [where s = "''a''" and data = "Some [(''k'', PInt 1)]", OF rs fresh_proc_log(1,2) t(1), of "()"] by (elim exE conjE) (rule that)
  obtain st2 where st2: "run_wal_op mem_client ?op2 st1 = (Inr (), st2)" using record_online [where s = "''a''" and data = None, OF rs st1(2,3) t(2)] by (elim exE conjE) (rule that)
  have b1: "holds_book (c_db st1) (book_step ?op1 ?b)" using wal_refines_book [OF rs b st1(1)] by simp
  have "book_step ?op2 (book_step ?op1 ?b) = ?b(''a'' := (Some ''COMPENSATING'', Some [(''k'', PInt 1)]))" by (simp add: t)
  then have "holds_book (c_db st2) (?b(''a'' := (Some ''COMPENSATING'', Some [(''k'', PInt 1)])))"
    using wal_refines_book [OF rs b1 st2] by (simp del: book_step.simps)
  with st1(1) st2 show ?thesis by (intro exI conjI)
qed

end
