(* ===== verification/Resumption.thy ===== *)
theory Resumption
  imports CrashRecovery
begin

text \<open>
  What \<open>RecoveryWorker._recover_saga\<close> does with a saga, on every branch: which messages it sends, to whom and how often, and
  that the saga leaves the log.
\<close>

section \<open>Compensation one step at a time\<close>

text \<open>The messages to one step: repeated until one is acknowledged or the limit is reached.\<close>

definition undo_block :: "string \<Rightarrow> nat \<Rightarrow> step_def \<Rightarrow> obs list \<Rightarrow> bool" where
  "undo_block expected limit step es \<longleftrightarrow> list_all (\<lambda>e. ob_service e = service step) es \<and> length es \<le> limit \<and>
     list_all (\<lambda>e. \<not> said expected e) (butlast es) \<and> (length es = limit \<or> es \<noteq> [] \<and> said expected (last es))"

definition undo_blocks :: "string \<Rightarrow> nat \<Rightarrow> step_def list \<Rightarrow> obs list \<Rightarrow> bool" where
  "undo_blocks expected limit steps qs \<longleftrightarrow> (\<exists>bs. qs = concat bs \<and> list_all2 (undo_block expected limit) steps bs)"

lemma undo_block_answered: "ob_service e = service step \<Longrightarrow> said expected e \<Longrightarrow> undo_block expected (Suc left) step [e]"
  by (simp add: undo_block_def)

lemma undo_block_Cons:
  "ob_service e = service step \<Longrightarrow> \<not> said expected e \<Longrightarrow> undo_block expected left step es \<Longrightarrow> undo_block expected (Suc left) step (e # es)"
  by (cases es) (auto simp: undo_block_def)

lemma triple_compensate_rounds:
  assumes "builder_ok s D step" "env_lives env"
  shows "triple (wal_at True w n) (compensate_rounds left (recording s env) s D step backoff tries)
    (\<lambda>_ st. \<exists>es. wal_at True w (n @ es) st \<and> list_all (sent ''compensate'' (w s)) es \<and> undo_block ''compensated'' left step es)
    (\<lambda>_ _. False)"
proof (induction left arbitrary: n backoff tries)
  case 0
  show ?case by (auto intro!: triple_ret exI [of _ "[]"] simp: undo_block_def)
next
  case (Suc left)
  let ?Q = "\<lambda>n left _ st. \<exists>es. wal_at True w (n @ es) st \<and> list_all (sent ''compensate'' (w s)) es \<and> undo_block ''compensated'' left step es"
  have after: "triple (\<lambda>st. \<exists>e. wal_at True w (n @ [e]) st \<and> sent ''compensate'' (w s) e \<and> ob_service e = service step \<and> r = ob_reply e)
      (if (case r of Inl e \<Rightarrow> False | Inr v \<Rightarrow> dict_has v ''event'' ''compensated'') then ret (True, tries + 1)
       else bindE (async_sleep (min backoff 60)) (\<lambda>_. compensate_rounds left (recording s env) s D step (backoff * 2) (tries + 1)))
      (?Q n (Suc left)) (\<lambda>_ _. False)" for r
  proof (rule triple_ex)
    fix e
    have said: "(case ob_reply e of Inl e \<Rightarrow> False | Inr v \<Rightarrow> dict_has v ''event'' ''compensated'') = said ''compensated'' e"
      by (simp add: said_def split: sum.split)
    have again: "triple (wal_at True w (n @ [e]))
        (bindE (async_sleep (min backoff 60)) (\<lambda>_. compensate_rounds left (recording s env) s D step (backoff * 2) (tries + 1)))
        (?Q n (Suc left)) (\<lambda>_ _. False)"
      if e: "sent ''compensate'' (w s) e" "ob_service e = service step" "\<not> said ''compensated'' e"
    proof (rule triple_bind [OF calm_triple [OF calm_sleep]])
      have "?Q n (Suc left) x st" if q: "?Q (n @ [e]) left x st" for x :: "bool \<times> nat" and st
      proof -
        obtain es where "wal_at True w (n @ e # es) st" "list_all (sent ''compensate'' (w s)) (e # es)" "undo_block ''compensated'' left step es"
          using q e(1) by auto
        then show ?thesis using undo_block_Cons [OF e(2,3)] by blast
      qed
      then show "triple (wal_at True w (n @ [e])) (compensate_rounds left (recording s env) s D step (backoff * 2) (tries + 1))
          (?Q n (Suc left)) (\<lambda>_ _. False)"
        by (intro triple_weaken [OF Suc.IH [of "n @ [e]"]]) auto
    qed
    show "triple (\<lambda>st. wal_at True w (n @ [e]) st \<and> sent ''compensate'' (w s) e \<and> ob_service e = service step \<and> r = ob_reply e)
      (if (case r of Inl e \<Rightarrow> False | Inr v \<Rightarrow> dict_has v ''event'' ''compensated'') then ret (True, tries + 1)
       else bindE (async_sleep (min backoff 60)) (\<lambda>_. compensate_rounds left (recording s env) s D step (backoff * 2) (tries + 1)))
      (?Q n (Suc left)) (\<lambda>_ _. False)"
    proof (rule triple_pure)
      assume e: "sent ''compensate'' (w s) e \<and> ob_service e = service step \<and> r = ob_reply e"
      show "triple (wal_at True w (n @ [e]))
        (if (case r of Inl e \<Rightarrow> False | Inr v \<Rightarrow> dict_has v ''event'' ''compensated'') then ret (True, tries + 1)
         else bindE (async_sleep (min backoff 60)) (\<lambda>_. compensate_rounds left (recording s env) s D step (backoff * 2) (tries + 1)))
        (?Q n (Suc left)) (\<lambda>_ _. False)"
      proof (cases "said ''compensated'' e")
        case True
        have "?Q n (Suc left) x st" if "wal_at True w (n @ [e]) st" for x :: "bool \<times> nat" and st
          using that e undo_block_answered [OF _ True] by (intro exI [of _ "[e]"]) simp
        then show ?thesis using e said True by (auto intro: triple_ret)
      next
        case False
        then show ?thesis using e said again by simp
      qed
    qed
  qed
  show ?case
    unfolding compensate_rounds.simps
    by (rule triple_seq [OF triple_recovery_try [OF assms(1), where live = True] _ after])
      (use assms(2) in \<open>auto simp: stopped_def cut_short_def\<close>)
qed

lemma triple_compensate_steps:
  assumes "redis_server (cl_rc cl)" "\<forall>step\<in>set steps. builder_ok s D step" "env_lives env"
  shows "triple (wal_at True w n) (for_each steps (\<lambda>step.
      bindE (compensate_rounds MAX_RECOVERY_RETRIES (recording s env) s D step backoff 0) (\<lambda>(succeeded, tries).
      if succeeded then ret ()
      else write_to_dlq cl s ''compensate'' (step_name step) why (int tries) ctx)))
    (\<lambda>_ st. \<exists>qs. wal_at True w (n @ qs) st \<and> list_all (sent ''compensate'' (w s)) qs \<and>
       undo_blocks ''compensated'' MAX_RECOVERY_RETRIES steps qs) (\<lambda>_ _. False)"
  using assms(2)
proof (induction steps arbitrary: n)
  case Nil
  show ?case by (auto intro!: triple_ret exI [of _ "[]"] simp: undo_blocks_def)
next
  case (Cons step steps)
  let ?rest = "for_each steps (\<lambda>step.
      bindE (compensate_rounds MAX_RECOVERY_RETRIES (recording s env) s D step backoff 0) (\<lambda>(succeeded, tries).
      if succeeded then ret ()
      else write_to_dlq cl s ''compensate'' (step_name step) why (int tries) ctx))"
  let ?Q = "\<lambda>n steps _ st. \<exists>qs. wal_at True w (n @ qs) st \<and> list_all (sent ''compensate'' (w s)) qs \<and>
       undo_blocks ''compensated'' MAX_RECOVERY_RETRIES steps qs"
  let ?B = "\<lambda>(_::unit) st. \<exists>es. wal_at True w (n @ es) st \<and> list_all (sent ''compensate'' (w s)) es \<and>
      undo_block ''compensated'' MAX_RECOVERY_RETRIES step es"
  have one: "triple (wal_at True w n) (bindE (compensate_rounds MAX_RECOVERY_RETRIES (recording s env) s D step backoff 0) (\<lambda>(succeeded, tries).
      if succeeded then ret () else write_to_dlq cl s ''compensate'' (step_name step) why (int tries) ctx)) ?B (\<lambda>_ _. False)"
  proof (rule triple_bind [OF triple_compensate_rounds])
    show "triple (\<lambda>st. \<exists>es. wal_at True w (n @ es) st \<and> list_all (sent ''compensate'' (w s)) es \<and>
          undo_block ''compensated'' MAX_RECOVERY_RETRIES step es)
        (case x of (succeeded, tries) \<Rightarrow> if succeeded then ret () else write_to_dlq cl s ''compensate'' (step_name step) why (int tries) ctx)
        ?B (\<lambda>_ _. False)" for x
    proof (rule triple_ex, rule triple_pure)
      fix es
      assume es: "list_all (sent ''compensate'' (w s)) es \<and> undo_block ''compensated'' MAX_RECOVERY_RETRIES step es"
      show "triple (wal_at True w (n @ es)) (case x of (succeeded, tries) \<Rightarrow>
          if succeeded then ret () else write_to_dlq cl s ''compensate'' (step_name step) why (int tries) ctx) ?B (\<lambda>_ _. False)"
        using es by (cases x) (auto intro!: triple_if triple_ret triple_weaken [OF triple_dlq [OF assms(1)]])
    qed
  qed (use Cons.prems assms(3) in simp_all)
  have rest: "triple (?B u) ?rest (?Q n (step # steps)) (\<lambda>_ _. False)" for u
  proof (rule triple_ex, rule triple_pure)
    fix es
    assume es: "list_all (sent ''compensate'' (w s)) es \<and> undo_block ''compensated'' MAX_RECOVERY_RETRIES step es"
    have "?Q n (step # steps) x st" if q: "?Q (n @ es) steps x st" for x :: unit and st
    proof -
      obtain qs bs where "wal_at True w (n @ es @ qs) st" "list_all (sent ''compensate'' (w s)) qs" "qs = concat bs"
          "list_all2 (undo_block ''compensated'' MAX_RECOVERY_RETRIES) steps bs"
        using q by (auto simp: undo_blocks_def)
      then show ?thesis using es by (intro exI [of _ "es @ qs"]) (auto simp: undo_blocks_def intro!: exI [of _ "es # bs"])
    qed
    then show "triple (wal_at True w (n @ es)) ?rest (?Q n (step # steps)) (\<lambda>_ _. False)"
      using Cons.prems by (intro triple_weaken [OF Cons.IH [of "n @ es"]]) auto
  qed
  show ?case unfolding for_each.simps by (rule triple_bind [OF one rest])
qed

text \<open>The steps to compensate: those the log entry lists as completed, or all of them when it lists none.\<close>

definition undo_steps :: "transaction \<Rightarrow> dict \<Rightarrow> step_def list" where
  "undo_steps tx D = (case dict_get D ''completed_steps'' PNone of
     PList vs \<Rightarrow> if vs = [] then td_steps tx else filter (\<lambda>step. Str (step_name step) \<in> set vs) (td_steps tx)
   | _ \<Rightarrow> td_steps tx)"

text \<open>The executors log no \<open>completed_steps\<close>, or a list; \<open>None\<close> stands for the missing key.\<close>

definition lists_completed :: "dict \<Rightarrow> bool" where
  "lists_completed D \<longleftrightarrow> dict_get D ''completed_steps'' PNone = PNone \<or> (\<exists>vs. dict_get D ''completed_steps'' PNone = PList vs)"

lemma concat_map_filter: "concat (map (\<lambda>x. if P x then [x] else []) xs) = filter P xs"
  by (induction xs) auto

lemma steps_to_compensate_eq:
  assumes "lists_completed D"
  shows "steps_to_compensate tx D = Inr (undo_steps tx D)"
proof (cases "dict_get D ''completed_steps'' PNone")
  case (PList vs)
  have "map_sum_list (\<lambda>s. case py_in (step_name s) (PList vs) of Inl e \<Rightarrow> Inl e | Inr b \<Rightarrow> Inr (if b then [s] else [])) (td_steps tx) =
      Inr (map (\<lambda>s. if Str (step_name s) \<in> set vs then [s] else []) (td_steps tx))"
    by (rule map_sum_list_Inr) (simp add: py_in_def)
  then show ?thesis by (simp add: steps_to_compensate_def undo_steps_def PList concat_map_filter)
qed (use assms in \<open>auto simp: lists_completed_def steps_to_compensate_def undo_steps_def\<close>)

lemma undo_steps_subset: "set (undo_steps tx D) \<subseteq> set (td_steps tx)"
  by (auto simp: undo_steps_def split: pyval.split)

lemma triple_compensate_all:
  assumes "redis_server (cl_rc cl)" "tx_def_of defs (PDict D) = Inr (Some tx)" "\<forall>step\<in>set (td_steps tx). builder_ok s D step"
    and "lists_completed D" "env_lives env"
  shows "triple (wal_at True w n) (compensate_all cl (recording s env) defs s (PDict D))
    (\<lambda>_ st. \<exists>qs. wal_at True (w(s := None)) (n @ qs) st \<and> list_all (sent ''compensate'' (w s)) qs \<and>
       undo_blocks ''compensated'' MAX_RECOVERY_RETRIES (rev (undo_steps tx D)) qs) (\<lambda>_ _. False)"
proof -
  have ok: "\<forall>step\<in>set (rev (undo_steps tx D)). builder_ok s D step"
    using assms(3) undo_steps_subset [of tx D] by auto
  have fin: "''FAILED'' \<in> set TERMINAL_STATES" by (simp add: TERMINAL_STATES_def)
  show ?thesis
    unfolding compensate_all_def assms(2) lift_sum_Inr option.case as_dict.simps steps_to_compensate_eq [OF assms(4)]
  proof (rule triple_bind [OF triple_compensate_steps [OF assms(1) ok assms(5)]], rule triple_ex, rule triple_pure)
    fix qs
    assume "list_all (sent ''compensate'' (w s)) qs \<and> undo_blocks ''compensated'' MAX_RECOVERY_RETRIES (rev (undo_steps tx D)) qs"
    then show "triple (wal_at True w (n @ qs)) (wal_log cl s ''FAILED'' None)
        (\<lambda>_ st. \<exists>qs. wal_at True (w(s := None)) (n @ qs) st \<and> list_all (sent ''compensate'' (w s)) qs \<and>
           undo_blocks ''compensated'' MAX_RECOVERY_RETRIES (rev (undo_steps tx D)) qs) (\<lambda>_ _. False)"
      by (intro triple_weaken [OF triple_wal_finish [OF assms(1) fin, of wal_log]]) (auto simp: wal_between_def)
  qed
qed

section \<open>Every branch\<close>

text \<open>Nothing to send: the transaction is not defined here, or the logged step is none that recovery knows.\<close>

lemma triple_forget:
  assumes "redis_server (cl_rc cl)" "tx_def_of defs (PDict D) = Inr known"
    and "known = None \<or> lstep \<notin> {''PREPARING'', ''COMMITTING'', ''ABORTING''} \<and> lstep \<notin> {''EXECUTING'', ''COMPENSATING''}"
  shows "triple (wal_at True w n) (recover_saga cl (recording s env) defs s lstep (PDict D)) (\<lambda>_. wal_at True (w(s := None)) n) (\<lambda>_ _. False)"
proof -
  have t: "triple (wal_at True w n) (wal_log cl s final None) (\<lambda>_. wal_at True (w(s := None)) n) (\<lambda>_ _. False)"
    if "final \<in> set TERMINAL_STATES" for final
    by (rule triple_weaken [OF triple_wal_finish [OF assms(1) that, of wal_log]]) (auto simp: wal_between_def)
  have run: "recover_saga cl (recording s env) defs s lstep (PDict D) \<in> {wal_log cl s ''FAILED'' None, wal_log cl s ''COMPLETED'' None}"
  proof (cases known)
    case None
    have "abort_all cl (recording s env) defs s (PDict D) = wal_log cl s ''FAILED'' None"
      "commit_all cl (recording s env) defs s (PDict D) = wal_log cl s ''COMPLETED'' None"
      "compensate_all cl (recording s env) defs s (PDict D) = wal_log cl s ''FAILED'' None"
      by (simp_all add: abort_all_def commit_all_def compensate_all_def send_action_to_all_def assms(2) None)
    then show ?thesis by (simp add: recover_saga_def)
  next
    case Some
    then show ?thesis using assms(3) by (simp add: recover_saga_def)
  qed
  have "triple (wal_at True w n) (wal_log cl s ''FAILED'' None) (\<lambda>_. wal_at True (w(s := None)) n) (\<lambda>_ _. False)"
    "triple (wal_at True w n) (wal_log cl s ''COMPLETED'' None) (\<lambda>_. wal_at True (w(s := None)) n) (\<lambda>_ _. False)"
    by (rule t, simp add: TERMINAL_STATES_def)+
  then show ?thesis using run by (elim insertE emptyE) simp_all
qed

text \<open>What recovery sends for a saga whose log entry is \<open>w\<close>, by the logged step.\<close>

definition recovery_sends :: "string \<Rightarrow> (string \<times> dict) option \<Rightarrow> transaction option \<Rightarrow> dict \<Rightarrow> obs list \<Rightarrow> bool" where
  "recovery_sends lstep w known D qs \<longleftrightarrow> (case known of None \<Rightarrow> qs = [] | Some tx \<Rightarrow>
     if lstep \<in> {''PREPARING'', ''ABORTING''} then
       list_all (sent ''abort'' w) qs \<and> settled ''aborted'' MAX_RECOVERY_RETRIES (td_steps tx) qs
     else if lstep = ''COMMITTING'' then
       list_all (sent ''commit'' w) qs \<and> settled ''committed'' MAX_RECOVERY_RETRIES (td_steps tx) qs
     else if lstep \<in> {''EXECUTING'', ''COMPENSATING''} then
       list_all (sent ''compensate'' w) qs \<and> undo_blocks ''compensated'' MAX_RECOVERY_RETRIES (rev (undo_steps tx D)) qs
     else qs = [])"

lemma three_ways: "(known = None \<or> x \<notin> A \<and> x \<notin> B \<Longrightarrow> P) \<Longrightarrow> (\<And>y. known = Some y \<Longrightarrow> x \<in> A \<Longrightarrow> P) \<Longrightarrow>
    (\<And>y. known = Some y \<Longrightarrow> x \<in> B \<Longrightarrow> P) \<Longrightarrow> P"
  by (cases known) blast+

lemma triple_recovery_sends:
  assumes "redis_server (cl_rc cl)" "tx_def_of defs (PDict D) = Inr known" "lists_completed D" "env_lives env"
    and "\<forall>tx. known = Some tx \<longrightarrow> (\<forall>step\<in>set (td_steps tx). builder_ok s D step)"
  shows "triple (wal_at True w n) (recover_saga cl (recording s env) defs s lstep (PDict D))
    (\<lambda>_ st. \<exists>qs. wal_at True (w(s := None)) (n @ qs) st \<and> recovery_sends lstep (w s) known D qs) (\<lambda>_ _. False)"
proof -
  show ?thesis
  proof (rule three_ways [of known lstep "{''PREPARING'', ''COMMITTING'', ''ABORTING''}" "{''EXECUTING'', ''COMPENSATING''}"])
    assume forget: "known = None \<or> lstep \<notin> {''PREPARING'', ''COMMITTING'', ''ABORTING''} \<and> lstep \<notin> {''EXECUTING'', ''COMPENSATING''}"
    have "recovery_sends lstep (w s) known D []"
    proof (cases known)
      case Some
      then show ?thesis using forget by (simp add: recovery_sends_def)
    qed (simp add: recovery_sends_def)
    then have "\<exists>qs. wal_at True (w(s := None)) (n @ qs) st \<and> recovery_sends lstep (w s) known D qs"
      if "wal_at True (w(s := None)) n st" for st
      using that by (intro exI [of _ "[]"]) simp
    then show ?thesis by (intro triple_weaken [OF triple_forget [OF assms(1,2) forget]])
  next
    fix tx
    assume decide: "known = Some tx" "lstep \<in> {''PREPARING'', ''COMMITTING'', ''ABORTING''}"
    have b: "\<forall>step\<in>set (td_steps tx). builder_ok s D step" using assms(5) decide(1) by blast
    have l: "True \<longrightarrow> env_lives env" using assms(4) by simp
    have tx: "tx_def_of defs (PDict D) = Inr (Some tx)" using assms(2) decide(1) by simp
    have "\<exists>qs. wal_at True (w(s := None)) (n @ qs) st \<and> recovery_sends lstep (w s) known D qs"
      if "resumed True w s n (recovery_action lstep) (recovery_event lstep) (td_steps tx) st" for st
    proof -
      obtain qs where q: "wal_at True (w(s := None)) (n @ qs) st" "list_all (sent (recovery_action lstep) (w s)) qs"
          "settled (recovery_event lstep) MAX_RECOVERY_RETRIES (td_steps tx) qs"
        using \<open>resumed True w s n (recovery_action lstep) (recovery_event lstep) (td_steps tx) st\<close> unfolding resumed_def by blast
      have "recovery_sends lstep (w s) known D qs"
        using decide q(2,3) by (elim insertE emptyE) (simp_all add: recovery_sends_def recovery_action_def recovery_event_def)
      then show ?thesis using q(1) by blast
    qed
    then show ?thesis
      by (intro triple_weaken [OF triple_recover [OF assms(1) tx b l decide(2)]]) (auto simp: halted_def)
  next
    fix tx
    assume undo: "known = Some tx" "lstep \<in> {''EXECUTING'', ''COMPENSATING''}"
    have b: "\<forall>step\<in>set (td_steps tx). builder_ok s D step" using assms(5) undo(1) by blast
    have tx: "tx_def_of defs (PDict D) = Inr (Some tx)" using assms(2) undo(1) by simp
    have run: "recover_saga cl (recording s env) defs s lstep (PDict D) = compensate_all cl (recording s env) defs s (PDict D)"
      using undo(2) by (elim insertE emptyE) (simp_all add: recover_saga_def)
    have sends: "recovery_sends lstep (w s) known D qs"
      if "list_all (sent ''compensate'' (w s)) qs" "undo_blocks ''compensated'' MAX_RECOVERY_RETRIES (rev (undo_steps tx D)) qs" for qs
      using that undo by (elim insertE emptyE) (simp_all add: recovery_sends_def)
    show ?thesis
      unfolding run by (rule triple_weaken [OF triple_compensate_all [OF assms(1) tx b assms(3,4)]]) (blast intro: sends)+
  qed
qed

text \<open>C15 (functional): What recovery does with a saga, on every branch. When the database works and the process lives it
  returns, the saga has left the log, and what was sent, all of it while the saga was still in the log, is decided by the
  logged step: PREPARING and ABORTING send only aborts and COMMITTING only commits, until every step acknowledged or was
  asked \<open>MAX_RECOVERY_RETRIES\<close> times; EXECUTING and COMPENSATING send only compensations, to the steps the entry
  lists as completed (to all when it lists none) in reverse order, one step after the other, each until its first
  acknowledgement or \<open>MAX_RECOVERY_RETRIES\<close> times; any other step, or a transaction that is not defined, sends nothing.\<close>

theorem recover_saga_decision:
  assumes "redis_server (cl_rc cl)" "tx_def_of defs (PDict D) = Inr known" "lists_completed D" "env_lives env"
    and "\<forall>tx. known = Some tx \<longrightarrow> (\<forall>step\<in>set (td_steps tx). builder_ok s D step)"
    and "wal_inv (c_db st)" "online st"
  shows "\<exists>st' qs. recover_saga cl (recording s env) defs s lstep (PDict D) st = (Inr (), st') \<and> net st' = net st @ qs \<and>
    wal_map (c_db st') = (wal_map (c_db st))(s := None) \<and> recovery_sends lstep (wal_map (c_db st) s) known D qs"
proof -
  let ?w = "wal_map (c_db st)"
  have t: "triple (wal_at True ?w (net st)) (recover_saga cl (recording s env) defs s lstep (PDict D))
      (\<lambda>_ st'. \<exists>qs. wal_at True (?w(s := None)) (net st @ qs) st' \<and> recovery_sends lstep (?w s) known D qs) (\<lambda>_ _. False)"
    by (rule triple_recovery_sends [OF assms(1-5)])
  have w: "wal_at True ?w (net st) st" using assms(6,7) by simp
  obtain r st' where run: "recover_saga cl (recording s env) defs s lstep (PDict D) st = (r, st')" by fastforce
  then have r: "r = Inr ()" using triple_raise_D [OF t w] by (cases r) auto
  then show ?thesis using triple_ret_D [OF t w, of "()" st'] run by auto
qed

text \<open>A saga that was executing when its process died: its payment is undone before its stock.\<close>

theorem recover_saga_decision_witness:
  "\<exists>st' qs. recover_saga mem_client (recording ''s'' obliging) [(''checkout'', shop_tx)] ''s'' ''EXECUTING''
       (PDict (tpc_data [] ''checkout'')) (fresh_proc []) = (Inr (), st') \<and> net st' = qs \<and>
     undo_blocks ''compensated'' MAX_RECOVERY_RETRIES (rev (td_steps shop_tx)) qs \<and> list_all (does ''compensate'') qs"
proof -
  have tx: "tx_def_of [(''checkout'', shop_tx)] (PDict (tpc_data [] ''checkout'')) = Inr (Some shop_tx)" by (rule tx_def_of_tpc) simp
  have l: "lists_completed (tpc_data [] ''checkout'')" and u: "undo_steps shop_tx (tpc_data [] ''checkout'') = td_steps shop_tx"
    by (simp_all add: lists_completed_def undo_steps_def tpc_data_def dict_get_def map_of_dict_merge)
  have b: "\<forall>x. Some shop_tx = Some x \<longrightarrow> (\<forall>step\<in>set (td_steps x). builder_ok ''s'' (tpc_data [] ''checkout'') step)"
    using shop_tx_ok(1) by simp
  obtain st' qs where "recover_saga mem_client (recording ''s'' obliging) [(''checkout'', shop_tx)] ''s'' ''EXECUTING''
       (PDict (tpc_data [] ''checkout'')) (fresh_proc []) = (Inr (), st')" "net st' = net (fresh_proc []) @ qs"
      "recovery_sends ''EXECUTING'' (wal_map (c_db (fresh_proc [] :: obs list proc)) ''s'') (Some shop_tx) (tpc_data [] ''checkout'') qs"
    using recover_saga_decision [OF mem_client_server tx l obliging_lives b fresh_wal(1) fresh_proc_log(1)] by blast
  then show ?thesis
    using u by (intro exI [of _ st'] exI [of _ qs]) (auto simp: recovery_sends_def fresh_proc_log(4) dest: sent_does)
qed

end
