(* ===== verification/Startup.thy ===== *)
theory Startup
  imports Client
begin

text \<open>
  What a service waits for before it serves: \<open>wait_for_redis\<close> of \<open>common/config.py\<close> and the connection
  of \<open>NatsTransport\<close> in \<open>common/nats_transport.py\<close>, with its subscriptions and their renewal after a
  reconnection. The NATS client is outside the repository: its calls are the fields of \<open>nats_client\<close>.
\<close>

section \<open>Bounded retries\<close>

text \<open>
  \<open>for attempt in range(1, retries + 1)\<close>: try, return on success, raise \<open>RuntimeError\<close> at the last
  attempt and otherwise clean up and sleep. \<open>left\<close> counts the attempts that remain.
\<close>

fun retry_loop :: "string \<Rightarrow> nat \<Rightarrow> ('b conn_scheme, unit) py \<Rightarrow> ('b conn_scheme, unit) py \<Rightarrow> rat \<Rightarrow> nat \<Rightarrow> ('b conn_scheme, unit) py" where
  "retry_loop what retries try_once clean_up delay 0 = ret ()"
| "retry_loop what retries try_once clean_up delay (Suc left) = bindE
     (try_except (bindE try_once (\<lambda>_. ret True)) (\<lambda>e. if is_exception e then Some
        (if left = 0 then throw (RuntimeErr (what @ '' not available after '' @ show_nat retries @ '' attempts: '' @ exn_text e))
         else bindE clean_up (\<lambda>_. bindE (async_sleep delay) (\<lambda>_. ret False)))
      else None))
     (\<lambda>ok. if ok then ret () else retry_loop what retries try_once clean_up delay left)"

text \<open>\<open>try: ... except Exception: pass\<close>\<close>

definition ignoring :: "('s, unit) py \<Rightarrow> ('s, unit) py" where
  "ignoring m = try_except m (\<lambda>e. if is_exception e then Some (ret ()) else None)"

text \<open>\<open>disconnect\<close> is \<open>db.connection_pool.disconnect()\<close>.\<close>

definition wait_for_redis :: "redis_client \<Rightarrow> ('b conn_scheme, unit) py \<Rightarrow> string \<Rightarrow> nat \<Rightarrow> rat \<Rightarrow> ('b conn_scheme, unit) py" where
  "wait_for_redis cl disconnect what retries delay =
     retry_loop what retries (redis_call cl (ret ())) (ignoring disconnect) delay retries"

section \<open>The NATS connection\<close>

text \<open>A process with a NATS connection: its subscriptions and their parameters; \<open>broker\<close> is the rest of the world.\<close>

record ('w, 'h) nats = conn +
  nc :: bool
  nats_subs :: "nat list"
  sub_params :: "(string \<times> string \<times> 'h) list"
  broker :: 'w

type_synonym ('w, 'a) nats_op = "'w \<Rightarrow> (exn + 'a) \<times> 'w"

record stream_config =
  stream_name :: string
  subjects :: "string list"
  work_queue :: bool
  memory_storage :: bool
  max_age :: rat
  duplicate_window :: rat

text \<open>\<open>nats_subscribe cl subject queue durable handler\<close>, with manual acknowledgement.\<close>

record ('w, 'h) nats_client =
  nats_connect :: "('w, unit) nats_op"
  nats_add_stream :: "stream_config \<Rightarrow> ('w, unit) nats_op"
  nats_subscribe :: "string \<Rightarrow> string \<Rightarrow> string \<Rightarrow> 'h \<Rightarrow> ('w, nat) nats_op"
  nats_unsubscribe :: "nat \<Rightarrow> ('w, unit) nats_op"
  nats_drain :: "('w, unit) nats_op"

definition on_broker :: "('w, 'a) nats_op \<Rightarrow> (('w, 'h, 'm) nats_scheme, 'a) py" where
  "on_broker m = (\<lambda>st. case m (broker st) of (r, w) \<Rightarrow> (r, st\<lparr>broker := w\<rparr>))"

definition ensure_stream :: "('w, 'h) nats_client \<Rightarrow> (('w, 'h, 'm) nats_scheme, unit) py" where
  "ensure_stream cl = on_broker (nats_add_stream cl \<lparr>stream_name = ''COMMANDS'', subjects = [''svc.>''], work_queue = True,
     memory_storage = True, max_age = 300, duplicate_window = 120\<rparr>)"

definition connect_once :: "('w, 'h) nats_client \<Rightarrow> (('w, 'h, 'm) nats_scheme, unit) py" where
  "connect_once cl = bindE (on_broker (nats_connect cl)) (\<lambda>_.
     bindE (modify (\<lambda>st. st\<lparr>nc := True\<rparr>)) (\<lambda>_. ensure_stream cl))"

definition connect :: "('w, 'h) nats_client \<Rightarrow> nat \<Rightarrow> rat \<Rightarrow> (('w, 'h, 'm) nats_scheme, unit) py" where
  "connect cl retries delay = retry_loop ''NATS'' retries (connect_once cl) (ret ()) delay retries"

definition js_subscribe :: "('w, 'h) nats_client \<Rightarrow> string \<times> string \<times> 'h \<Rightarrow> (('w, 'h, 'm) nats_scheme, unit) py" where
  "js_subscribe cl = (\<lambda>(subject, queue, handler). bindE (on_broker (nats_subscribe cl subject queue queue handler)) (\<lambda>sub.
     modify (\<lambda>st. st\<lparr>nats_subs := nats_subs st @ [sub]\<rparr>)))"

definition subscribe :: "('w, 'h) nats_client \<Rightarrow> string \<Rightarrow> string \<Rightarrow> 'h \<Rightarrow> (('w, 'h, 'm) nats_scheme, unit) py" where
  "subscribe cl subject queue handler = bindE (modify (\<lambda>st. st\<lparr>sub_params := sub_params st @ [(subject, queue, handler)]\<rparr>)) (\<lambda>_.
     js_subscribe cl (subject, queue, handler))"

definition unsubscribe_all :: "('w, 'h) nats_client \<Rightarrow> nat list \<Rightarrow> (('w, 'h, 'm) nats_scheme, unit) py" where
  "unsubscribe_all cl subs = for_each subs (\<lambda>sub. ignoring (on_broker (nats_unsubscribe cl sub)))"

definition reconnect_ensure_stream :: "('w, 'h) nats_client \<Rightarrow> (('w, 'h, 'm) nats_scheme, unit) py" where
  "reconnect_ensure_stream cl = ignoring (bindE (ensure_stream cl) (\<lambda>_. bindE get_state (\<lambda>st.
     bindE (modify (\<lambda>st. st\<lparr>nats_subs := []\<rparr>)) (\<lambda>_. bindE (unsubscribe_all cl (nats_subs st)) (\<lambda>_.
     for_each (sub_params st) (js_subscribe cl))))))"

definition close :: "('w, 'h) nats_client \<Rightarrow> (('w, 'h, 'm) nats_scheme, unit) py" where
  "close cl = bindE get_state (\<lambda>st. bindE (unsubscribe_all cl (nats_subs st)) (\<lambda>_.
     bindE (modify (\<lambda>st. st\<lparr>nats_subs := []\<rparr>)) (\<lambda>_.
     if nc st then bindE (on_broker (nats_drain cl)) (\<lambda>_. modify (\<lambda>st. st\<lparr>nc := False\<rparr>)) else ret ())))"

section \<open>Waiting ends\<close>

text \<open>An attempt of \<open>wait_for_redis\<close> on a broken trip, and on one that is answered.\<close>

lemma ping_broken:
  "c_trips st = t # ts \<Longrightarrow> t_fate t \<noteq> Answered \<Longrightarrow> redis_call cl (ret ()) st =
     (Inl (RedisErr (t_error t)), st\<lparr>c_trips := ts, c_clock := c_clock st + t_took t\<rparr>)"
  by (cases "t_fate t") (auto simp: redis_call_def after_trip_def next_trip_def Let_def ret_def split: nat.splits)

lemma ping_answered:
  "c_trips st = t # ts \<Longrightarrow> t_fate t = Answered \<Longrightarrow> redis_call cl (ret ()) st =
     (Inr (), st\<lparr>c_trips := ts, c_clock := c_clock st + t_took t\<rparr>)"
  by (simp add: redis_call_def after_trip_def next_trip_def Let_def ret_def)

text \<open>The time the attempts before a success take, and the outcome of a list of attempts.\<close>

definition outage :: "rat \<Rightarrow> trip list \<Rightarrow> rat" where
  "outage delay ts = (\<Sum>t\<leftarrow>ts. t_took t + delay)"

lemma retry_answered:
  assumes "c_trips st = fs @ t # ts" "list_all (\<lambda>t. t_fate t \<noteq> Answered) fs" "t_fate t = Answered" "length fs < left" "0 < delay"
  shows "retry_loop what retries (redis_call cl (ret ())) (ret ()) delay left st =
    (Inr (), st\<lparr>c_trips := ts, c_clock := c_clock st + outage delay fs + t_took t\<rparr>)"
  using assms
proof (induction fs arbitrary: st left)
  case Nil
  then obtain l where "left = Suc l" by (cases left) auto
  then show ?case using Nil ping_answered [of st t ts cl] by (simp add: bindE_def ret_def try_except_def outage_def)
next
  case (Cons f fs)
  then obtain l where l: "left = Suc l" "l \<noteq> 0" "length fs < l" by (cases left) auto
  let ?st = "st\<lparr>c_trips := fs @ t # ts, c_clock := c_clock st + t_took f + delay\<rparr>"
  have "retry_loop what retries (redis_call cl (ret ())) (ret ()) delay left st =
      retry_loop what retries (redis_call cl (ret ())) (ret ()) delay l ?st"
    using Cons.prems l ping_broken [of st f "fs @ t # ts" cl] by (simp add: bindE_def ret_def try_except_def async_sleep_def)
  also have "\<dots> = (Inr (), ?st\<lparr>c_trips := ts, c_clock := c_clock ?st + outage delay fs + t_took t\<rparr>)"
    using Cons.prems l by (intro Cons.IH) auto
  finally show ?case by (simp add: outage_def algebra_simps)
qed

lemma retry_exhausted:
  assumes "c_trips st = fs @ f # ts" "list_all (\<lambda>t. t_fate t \<noteq> Answered) (fs @ [f])" "0 < delay"
  shows "retry_loop what retries (redis_call cl (ret ())) (ret ()) delay (Suc (length fs)) st =
    (Inl (RuntimeErr (what @ '' not available after '' @ show_nat retries @ '' attempts: '' @ t_error f)),
     st\<lparr>c_trips := ts, c_clock := c_clock st + outage delay fs + t_took f\<rparr>)"
  using assms
proof (induction fs arbitrary: st)
  case Nil
  then show ?case using ping_broken [of st f ts cl] by (simp add: bindE_def ret_def throw_def try_except_def outage_def)
next
  case (Cons g fs)
  let ?st = "st\<lparr>c_trips := fs @ f # ts, c_clock := c_clock st + t_took g + delay\<rparr>"
  have "retry_loop what retries (redis_call cl (ret ())) (ret ()) delay (Suc (length (g # fs))) st =
      retry_loop what retries (redis_call cl (ret ())) (ret ()) delay (Suc (length fs)) ?st"
    using Cons.prems ping_broken [of st g "fs @ f # ts" cl] by (simp add: bindE_def ret_def try_except_def async_sleep_def)
  also have "\<dots> = (Inl (RuntimeErr (what @ '' not available after '' @ show_nat retries @ '' attempts: '' @ t_error f)),
      ?st\<lparr>c_trips := ts, c_clock := c_clock ?st + outage delay fs + t_took f\<rparr>)"
    using Cons.prems by (intro Cons.IH) auto
  finally show ?case by (simp add: outage_def algebra_simps)
qed

text \<open>What the pool's \<open>disconnect\<close> does besides closing connections.\<close>

definition only_disconnects :: "('b conn_scheme, unit) py \<Rightarrow> bool" where
  "only_disconnects m \<longleftrightarrow> (\<forall>st. snd (m st) = st \<and> (\<forall>e. fst (m st) = Inl e \<longrightarrow> is_exception e))"

lemma ignoring_disconnect: "only_disconnects m \<Longrightarrow> ignoring m = ret ()"
  unfolding only_disconnects_def ignoring_def try_except_def ret_def
  by (rule ext) (auto split: prod.splits sum.splits, (metis fst_conv snd_conv)+)

text \<open>C36 (termination): \<open>wait_for_redis\<close> always ends, after at most \<open>retries\<close> pings. If one of these is
  answered it returns right after the first one that is; otherwise it raises \<open>RuntimeError\<close> with the
  error of the last. It sleeps once between two pings and never after the last, and reads nothing else.\<close>

theorem wait_for_redis_ends:
  assumes "c_trips st = fs @ t # ts" and "list_all (\<lambda>t. t_fate t \<noteq> Answered) fs" and "t_fate t = Answered"
    and "0 < retries" and "0 < delay" and "only_disconnects disconnect"
  shows "wait_for_redis cl disconnect what retries delay st =
    (if length fs < retries
     then (Inr (), st\<lparr>c_trips := ts, c_clock := c_clock st + outage delay fs + t_took t\<rparr>)
     else (Inl (RuntimeErr (what @ '' not available after '' @ show_nat retries @ '' attempts: '' @ t_error (fs ! (retries - 1)))),
       st\<lparr>c_trips := drop retries (c_trips st),
          c_clock := c_clock st + outage delay (take (retries - 1) fs) + t_took (fs ! (retries - 1))\<rparr>))"
proof (cases "length fs < retries")
  case True
  then show ?thesis using assms retry_answered [OF assms(1-3) True assms(5)] by (simp add: wait_for_redis_def ignoring_disconnect)
next
  case False
  let ?n = "retries - 1"
  have n: "Suc ?n = retries" "?n < length fs" "retries = Suc (length (take ?n fs))" using assms(4) False by auto
  have split: "fs = take ?n fs @ fs ! ?n # drop retries fs" using id_take_nth_drop [OF n(2)] n(1) by simp
  have eq: "c_trips st = take ?n fs @ fs ! ?n # (drop retries fs @ t # ts)"
    using split assms(1) by (metis append_Cons append_assoc)
  have broken: "list_all (\<lambda>t. t_fate t \<noteq> Answered) (take ?n fs @ [fs ! ?n])"
    using assms(2) n(2) by (auto simp: list_all_iff dest: in_set_takeD)
  have "drop retries (c_trips st) = drop retries fs @ t # ts" using False assms(1) by simp
  then show ?thesis
    using False retry_exhausted [OF eq broken assms(5), of what retries cl] n(3)
    by (simp add: wait_for_redis_def ignoring_disconnect [OF assms(6)])
qed

text \<open>The second of three pings is answered.\<close>

theorem wait_for_redis_ends_witness:
  "wait_for_redis \<lparr>cl_rc = mem_rc, cl_err = (\<lambda>e. [])\<rparr> (throw (OtherErr [])) ''order-db'' 3 2
     \<lparr>c_db = empty_keyspace, c_replica = None, c_trips = [\<lparr>t_fate = Broken 0, t_took = 5, t_error = ''timeout''\<rparr>,
        \<lparr>t_fate = Answered, t_took = 1, t_error = []\<rparr>], c_clock = 0\<rparr> =
   (Inr (), \<lparr>c_db = empty_keyspace, c_replica = None, c_trips = [], c_clock = 8\<rparr>)"
proof -
  let ?f = "\<lparr>t_fate = Broken 0, t_took = 5, t_error = ''timeout''\<rparr>" and ?t = "\<lparr>t_fate = Answered, t_took = 1, t_error = []\<rparr>"
  have "only_disconnects (throw (OtherErr []) :: (conn, unit) py)" by (simp add: only_disconnects_def throw_def)
  from wait_for_redis_ends [where fs = "[?f]" and t = ?t and ts = "[]" and retries = 3 and delay = 2, OF _ _ _ _ _ this]
  show ?thesis by (simp add: outage_def)
qed

end
