(* ===== verification/Config.thy ===== *)
theory Config
  imports Startup
begin

text \<open>
  \<open>common/config.py\<close>: the connection to Redis the environment asks for, directly or through Sentinel, and
  the tasks that drop pooled connections after a failover. The client library opens the connections:
  \<open>redis_target\<close> is what it is asked for. The environment is a map.
\<close>

section \<open>Reading the environment\<close>

type_synonym environ = "string \<rightharpoonup> string"

definition getenv :: "environ \<Rightarrow> string \<Rightarrow> string \<Rightarrow> string" where
  "getenv env k dflt = (case env k of Some v \<Rightarrow> v | None \<Rightarrow> dflt)"

definition int_env :: "environ \<Rightarrow> string \<Rightarrow> int \<Rightarrow> exn + int" where
  "int_env env k dflt = py_int (case env k of Some v \<Rightarrow> Str v | None \<Rightarrow> PInt dflt)"

text \<open>\<open>_MASTER_POOL\<close> and \<open>_REPLICA_POOL\<close>, read when the module is imported.\<close>

definition MASTER_POOL :: "environ \<Rightarrow> exn + int" where
  "MASTER_POOL env = int_env env ''REDIS_MASTER_POOL_SIZE'' 512"

definition REPLICA_POOL :: "environ \<Rightarrow> exn + int" where
  "REPLICA_POOL env = int_env env ''REDIS_REPLICA_POOL_SIZE'' 256"

definition get_redis_config :: "environ \<Rightarrow> string \<Rightarrow> exn + dict" where
  "get_redis_config env prefix = (case int_env env (prefix @ ''REDIS_PORT'') 6379 of Inl e \<Rightarrow> Inl e | Inr port \<Rightarrow>
     (case int_env env (prefix @ ''REDIS_DB'') 0 of Inl e \<Rightarrow> Inl e | Inr db \<Rightarrow>
        Inr [(''host'', Str (getenv env (prefix @ ''REDIS_HOST'') ''localhost'')), (''port'', PInt port),
             (''password'', Str (getenv env (prefix @ ''REDIS_PASSWORD'') ''redis'')), (''db'', PInt db)]))"

text \<open>\<open>str.split\<close> on a character, \<open>str.strip\<close> (the ASCII white space) and \<open>str.rsplit(":", 1)\<close>.\<close>

fun split_char :: "char \<Rightarrow> string \<Rightarrow> string list" where
  "split_char c [] = [[]]"
| "split_char c (x # s) = (if x = c then [] # split_char c s
     else (case split_char c s of p # ps \<Rightarrow> (x # p) # ps | [] \<Rightarrow> [[x]]))"

definition white :: "char \<Rightarrow> bool" where
  "white c \<longleftrightarrow> (let v = of_char c in v = (32::nat) \<or> 9 \<le> v \<and> v \<le> 13 \<or> 28 \<le> v \<and> v \<le> 31)"

definition strip :: "string \<Rightarrow> string" where
  "strip s = rev (dropWhile white (rev (dropWhile white s)))"

definition rsplit_colon :: "string \<Rightarrow> string \<times> string" where
  "rsplit_colon s = (rev (tl (dropWhile (\<lambda>c. c \<noteq> CHR '':'') (rev s))), rev (takeWhile (\<lambda>c. c \<noteq> CHR '':'') (rev s)))"

type_synonym hosts = "(string \<times> int) list"

fun parse_hosts :: "string list \<Rightarrow> exn + hosts" where
  "parse_hosts [] = Inr []"
| "parse_hosts (raw # rest) = (let entry = strip raw in
     if CHR '':'' \<in> set entry then (case rsplit_colon entry of (host, port) \<Rightarrow>
       (case py_int (Str port) of Inl e \<Rightarrow> Inl e | Inr p \<Rightarrow>
         (case parse_hosts rest of Inl e \<Rightarrow> Inl e | Inr hosts \<Rightarrow> Inr ((host, p) # hosts))))
     else parse_hosts rest)"

definition get_sentinel_hosts :: "environ \<Rightarrow> exn + hosts option" where
  "get_sentinel_hosts env = (let raw = getenv env ''SENTINEL_HOSTS'' [] in
     if raw = [] then Inr None
     else (case parse_hosts (split_char (CHR '','') raw) of Inl e \<Rightarrow> Inl e
       | Inr hosts \<Rightarrow> Inr (if hosts = [] then None else Some hosts)))"

section \<open>Connections\<close>

datatype redis_target =
    Direct dict  \<comment> \<open>\<open>aioredis.Redis(**kwargs)\<close>\<close>
  | Master_for hosts dict string  \<comment> \<open>\<open>Sentinel(hosts, **kwargs).master_for(name)\<close>\<close>
  | Slave_for hosts dict string

text \<open>A call with several groups of keyword arguments.\<close>

definition keyword_args :: "dict list \<Rightarrow> exn + dict" where
  "keyword_args ds = (if distinct (map fst (concat ds)) then Inr (concat ds)
     else Inl (TypeErr ''got multiple values for keyword argument''))"

definition default_kwargs :: dict where
  "default_kwargs = [(''socket_timeout'', PInt 5), (''socket_connect_timeout'', PInt 5), (''health_check_interval'', PInt 30)]"

definition direct :: "environ \<Rightarrow> int \<Rightarrow> string \<Rightarrow> dict \<Rightarrow> exn + redis_target" where
  "direct env pool prefix merged = (case get_redis_config env prefix of Inl e \<Rightarrow> Inl e | Inr config \<Rightarrow>
     map_sum id Direct (keyword_args [config, [(''max_connections'', PInt pool)], merged]))"

definition sentinel_kwargs :: "environ \<Rightarrow> int \<Rightarrow> string \<Rightarrow> dict \<Rightarrow> exn + dict" where
  "sentinel_kwargs env pool prefix merged = (case int_env env (prefix @ ''REDIS_DB'') 0 of Inl e \<Rightarrow> Inl e | Inr db \<Rightarrow>
     keyword_args [[(''sentinel_kwargs'', PDict []), (''password'', Str (getenv env (prefix @ ''REDIS_PASSWORD'') ''redis'')),
       (''db'', PInt db), (''max_connections'', PInt pool)], merged])"

definition service_name :: "environ \<Rightarrow> string \<Rightarrow> string option \<Rightarrow> string" where
  "service_name env prefix given = (case given of Some n \<Rightarrow> n | None \<Rightarrow> getenv env (prefix @ ''REDIS_SENTINEL_SERVICE'') [])"

definition create_redis_connection :: "environ \<Rightarrow> int \<Rightarrow> string option \<Rightarrow> string \<Rightarrow> dict \<Rightarrow> exn + redis_target" where
  "create_redis_connection env master_pool given prefix kwargs = (let merged = dict_merge default_kwargs kwargs in
     case get_sentinel_hosts env of Inl e \<Rightarrow> Inl e
     | Inr None \<Rightarrow> direct env master_pool prefix merged
     | Inr (Some hosts) \<Rightarrow>
         if service_name env prefix given = [] then direct env master_pool prefix merged
         else map_sum id (\<lambda>kw. Master_for hosts kw (service_name env prefix given)) (sentinel_kwargs env master_pool prefix merged))"

definition create_replica_connection :: "environ \<Rightarrow> int \<Rightarrow> int \<Rightarrow> string option \<Rightarrow> string \<Rightarrow> dict \<Rightarrow> exn + redis_target" where
  "create_replica_connection env master_pool replica_pool given prefix kwargs = (let merged = dict_merge default_kwargs kwargs in
     case get_sentinel_hosts env of Inl e \<Rightarrow> Inl e
     | Inr (Some hosts) \<Rightarrow>
         if service_name env prefix given \<noteq> []
         then map_sum id (\<lambda>kw. Slave_for hosts kw (service_name env prefix given)) (sentinel_kwargs env replica_pool prefix merged)
         else create_redis_connection env master_pool None prefix merged
     | Inr None \<Rightarrow> create_redis_connection env master_pool None prefix merged)"

section \<open>Failover\<close>

text \<open>
  The background tasks of \<open>subscribe_failover_invalidation\<close>: the last address of the master they saw, and
  the world behind the calls of the client library. \<open>pools\<close> numbers the connection pools.
\<close>

record 'w watcher = conn +
  last_ip :: "string option"
  outside :: 'w

type_synonym ('w, 'a) library_call = "'w \<Rightarrow> (exn + 'a) \<times> 'w"

record 'w sentinel_client =
  s_master_addr :: "string \<times> int \<Rightarrow> string \<Rightarrow> ('w, string list) library_call"
  s_aclose :: "string \<times> int \<Rightarrow> ('w, unit) library_call"
  s_disconnect :: "nat \<Rightarrow> ('w, unit) library_call"
  s_psubscribe :: "string \<times> int \<Rightarrow> ('w, unit) library_call"

definition outside_call :: "('w, 'a) library_call \<Rightarrow> ('w watcher, 'a) py" where
  "outside_call m = (\<lambda>st. case m (outside st) of (r, w) \<Rightarrow> (r, st\<lparr>outside := w\<rparr>))"

text \<open>\<open>try: m finally: f\<close>\<close>

definition try_finally :: "('s, 'a) py \<Rightarrow> ('s, unit) py \<Rightarrow> ('s, 'a) py" where
  "try_finally m f = (\<lambda>s. case m s of (r, s1) \<Rightarrow> if r = Inl Exit then (r, s1) else
     (case f s1 of (Inl e, s2) \<Rightarrow> (Inl e, s2) | (Inr _, s2) \<Rightarrow> (r, s2)))"

definition invalidate :: "'w sentinel_client \<Rightarrow> nat list \<Rightarrow> ('w watcher, unit) py" where
  "invalidate sc pools = for_each pools (\<lambda>pool. ignoring (outside_call (s_disconnect sc pool)))"

definition on_message :: "'w sentinel_client \<Rightarrow> nat list \<Rightarrow> pyval \<Rightarrow> ('w watcher, unit) py" where
  "on_message sc pools message = bindE (lift_sum (py_item message ''type'')) (\<lambda>type.
     if type \<noteq> Str ''pmessage'' then ret ()
     else bindE (lift_sum (py_get message ''channel'' (Str []))) (\<lambda>channel. case channel of
       PStr (Text s) \<Rightarrow> if contains ''+switch-master'' s then invalidate sc pools else ret ()
     | _ \<Rightarrow> throw (TypeErr ''argument is not iterable'')))"

text \<open>One subscription of \<open>_pubsub_listener\<close>: the messages it gets, and the exception it ends with, if any.\<close>

definition listener_turn :: "'w sentinel_client \<Rightarrow> hosts \<Rightarrow> nat list \<Rightarrow> pyval list \<Rightarrow> exn option \<Rightarrow> ('w watcher, unit) py" where
  "listener_turn sc hosts pools messages ending = try_except
     (bindE (outside_call (s_psubscribe sc (hd hosts))) (\<lambda>_. bindE (for_each messages (on_message sc pools)) (\<lambda>_.
       case ending of None \<Rightarrow> ret () | Some e \<Rightarrow> throw e)))
     (\<lambda>e. if is_exception e then Some (async_sleep 2) else None)"

text \<open>The loop over the sentinels in a turn of \<open>_reconciler\<close>.\<close>

fun poll_sentinels :: "'w sentinel_client \<Rightarrow> string \<Rightarrow> nat list \<Rightarrow> hosts \<Rightarrow> ('w watcher, unit) py" where
  "poll_sentinels sc service pools [] = ret ()"
| "poll_sentinels sc service pools (h # hosts) = bindE
     (try_finally (outside_call (s_master_addr sc h service)) (ignoring (outside_call (s_aclose sc h)))) (\<lambda>result.
     case result of
       [] \<Rightarrow> poll_sentinels sc service pools hosts
     | current_ip # _ \<Rightarrow> bindE get_state (\<lambda>st.
         bindE (if last_ip st \<noteq> None \<and> last_ip st \<noteq> Some current_ip then invalidate sc pools else ret ()) (\<lambda>_.
           modify (\<lambda>st. st\<lparr>last_ip := Some current_ip\<rparr>))))"

definition reconciler_turn :: "'w sentinel_client \<Rightarrow> string \<Rightarrow> nat list \<Rightarrow> hosts \<Rightarrow> ('w watcher, unit) py" where
  "reconciler_turn sc service pools hosts =
     bindE (async_sleep 10) (\<lambda>_. ignoring (poll_sentinels sc service pools hosts))"

text \<open>\<open>_reconciler\<close>, for so many turns.\<close>

fun reconciler :: "'w sentinel_client \<Rightarrow> environ \<Rightarrow> nat list \<Rightarrow> hosts \<Rightarrow> nat \<Rightarrow> ('w watcher, unit) py" where
  "reconciler sc env pools hosts 0 = ret ()"
| "reconciler sc env pools hosts (Suc turns) = (let service = getenv env ''REDIS_SENTINEL_SERVICE'' [] in
     if service = [] then ret ()
     else bindE (reconciler_turn sc service pools hosts) (\<lambda>_. reconciler sc env pools hosts turns))"

section \<open>What the tasks do\<close>

text \<open>A list of sentinels is read back from its text.\<close>

definition host_text :: "string \<times> int \<Rightarrow> string" where
  "host_text = (\<lambda>(host, port). host @ '':'' @ show_int port)"

fun join_comma :: "string list \<Rightarrow> string" where
  "join_comma [] = []"
| "join_comma [s] = s"
| "join_comma (s # t # ss) = s @ '','' @ join_comma (t # ss)"

definition plain_host :: "string \<Rightarrow> bool" where
  "plain_host h \<longleftrightarrow> h \<noteq> [] \<and> CHR '','' \<notin> set h \<and> \<not> white (hd h)"

lemma show_nat_digits: "c \<in> set (show_nat n) \<Longrightarrow> \<exists>d<10. c = digit d"
proof (induction n rule: show_nat.induct)
  case (1 n)
  then show ?case by (subst (asm) show_nat.simps) (auto split: if_splits intro: exI [of _ "n mod 10"])
qed

lemma digit_plain: "d < 10 \<Longrightarrow> digit d \<noteq> CHR '':'' \<and> digit d \<noteq> CHR '','' \<and> \<not> white (digit d)"
proof -
  assume "d < 10"
  then have v: "of_char (digit d) = 48 + d" by (simp add: digit_def)
  have "digit d \<noteq> c" if "of_char c \<noteq> 48 + d" for c using v that by auto
  then have "digit d \<noteq> CHR '':''" "digit d \<noteq> CHR '',''" using \<open>d < 10\<close> by auto
  then show ?thesis using v by (simp add: white_def)
qed

lemma show_int_plain: "c \<in> set (show_int n) \<Longrightarrow> c \<noteq> CHR '':'' \<and> c \<noteq> CHR '','' \<and> \<not> white c"
  using digit_plain show_nat_digits by (fastforce simp: show_int_def white_def split: if_splits)

lemma split_char_join:
  assumes "list_all (\<lambda>s. c \<notin> set s) (s # ss)"
  shows "split_char c (s @ concat (map (\<lambda>t. c # t) ss)) = s # ss"
  using assms
proof (induction ss arbitrary: s)
  case Nil
  then show ?case by (induction s) auto
next
  case (Cons t ss)
  then have "split_char c (t @ concat (map (\<lambda>t. c # t) ss)) = t # ss" by simp
  with Cons.prems show ?case by (induction s) auto
qed

lemma join_comma_concat: "join_comma (s # ss) = s @ concat (map (\<lambda>t. CHR '','' # t) ss)"
  by (induction ss arbitrary: s) auto

lemma rsplit_colon_append: "CHR '':'' \<notin> set b \<Longrightarrow> rsplit_colon (a @ CHR '':'' # b) = (a, b)"
  by (simp add: rsplit_colon_def takeWhile_append dropWhile_append)

lemma strip_plain: "s \<noteq> [] \<Longrightarrow> \<not> white (hd s) \<Longrightarrow> \<not> white (last s) \<Longrightarrow> strip s = s"
proof -
  assume s: "s \<noteq> []" "\<not> white (hd s)" "\<not> white (last s)"
  then have "dropWhile white s = s" by (cases s) auto
  moreover have "dropWhile white (rev s) = rev s" using s by (cases s rule: rev_cases) auto
  ultimately show ?thesis by (simp add: strip_def)
qed

lemma parse_host:
  assumes "plain_host (fst hp)"
  shows "parse_hosts (host_text hp # rest) = (case parse_hosts rest of Inl e \<Rightarrow> Inl e | Inr hosts \<Rightarrow> Inr (hp # hosts))"
proof -
  obtain h p where hp: "hp = (h, p)" by (cases hp)
  have ne: "show_int p \<noteq> []" by (simp add: show_int_def)
  have h: "h \<noteq> []" "\<not> white (hd h)" using assms by (simp_all add: hp plain_host_def)
  have "\<not> white (last (show_int p))" using show_int_plain [of "last (show_int p)" p] ne by simp
  then have "strip (host_text hp) = host_text hp" using h ne by (intro strip_plain) (simp_all add: hp host_text_def)
  moreover have "rsplit_colon (host_text hp) = (h, show_int p)"
    using rsplit_colon_append [of "show_int p" h] show_int_plain [of "CHR '':''" p] by (auto simp: hp host_text_def)
  ultimately show ?thesis unfolding hp by (simp add: host_text_def)
qed

lemma parse_host_list: "list_all (\<lambda>hp. plain_host (fst hp)) hosts \<Longrightarrow> parse_hosts (map host_text hosts) = Inr hosts"
  by (induction hosts) (simp_all add: parse_host del: parse_hosts.simps(2))

lemma sentinel_hosts_roundtrip:
  assumes "hosts \<noteq> []" and "list_all (\<lambda>hp. plain_host (fst hp)) hosts"
    and "env ''SENTINEL_HOSTS'' = Some (join_comma (map host_text hosts))"
  shows "get_sentinel_hosts env = Inr (Some hosts)"
proof -
  obtain hp rest where hosts: "hosts = hp # rest" using assms(1) by (cases hosts) auto
  have comma: "CHR '','' \<notin> set (host_text x)" if "x \<in> set hosts" for x
    using that assms(2) show_int_plain [of "CHR '',''" "snd x"] by (auto simp: list_all_iff plain_host_def host_text_def split: prod.splits)
  have "join_comma (map host_text hosts) \<noteq> []"
    by (cases hp) (simp add: hosts join_comma_concat host_text_def)
  moreover have "split_char (CHR '','') (join_comma (map host_text hosts)) = map host_text hosts"
    using split_char_join [of "CHR '',''" "host_text hp" "map host_text rest"] comma
    by (simp add: hosts join_comma_concat list_all_iff)
  ultimately show ?thesis
    using assms(1,3) parse_host_list [OF assms(2)] by (simp add: get_sentinel_hosts_def getenv_def Let_def)
qed

text \<open>A sentinel that answers: the pools are dropped exactly when the address has changed.\<close>

definition dropped :: "'w sentinel_client \<Rightarrow> nat list \<Rightarrow> 'w \<Rightarrow> 'w" where
  "dropped sc pools w = fold (\<lambda>pool w. snd (s_disconnect sc pool w)) pools w"

definition survives :: "('w, 'a) library_call \<Rightarrow> bool" where
  "survives m \<longleftrightarrow> (\<forall>w e. fst (m w) = Inl e \<longrightarrow> is_exception e)"

lemma ignoring_call: "survives m \<Longrightarrow> ignoring (outside_call m) st = (Inr (), st\<lparr>outside := snd (m (outside st))\<rparr>)"
  unfolding survives_def ignoring_def try_except_def ret_def outside_call_def
  by (cases "m (outside st)") (auto split: sum.splits, metis fst_conv)

lemma invalidate_drops:
  assumes "\<And>pool. survives (s_disconnect sc pool)"
  shows "invalidate sc pools st = (Inr (), st\<lparr>outside := dropped sc pools (outside st)\<rparr>)"
  unfolding invalidate_def
  by (induction pools arbitrary: st) (simp_all add: dropped_def ret_def bindE_def ignoring_call [OF assms])

lemma ignoring_Inr: "m st = (Inr (), st') \<Longrightarrow> ignoring m st = (Inr (), st')"
  by (simp add: ignoring_def try_except_def)

lemma poll_follows_master:
  assumes "s_master_addr sc h service (outside st) = (Inr (ip # others), w)" and "survives (s_aclose sc h)"
    and "\<And>pool. survives (s_disconnect sc pool)"
  shows "poll_sentinels sc service pools (h # hosts) st = (Inr (), st\<lparr>last_ip := Some ip,
     outside := (if last_ip st \<in> {None, Some ip} then id else dropped sc pools) (snd (s_aclose sc h w))\<rparr>)"
proof -
  have q: "outside_call (s_master_addr sc h service) st = (Inr (ip # others), st\<lparr>outside := w\<rparr>)"
    using assms(1) by (simp add: outside_call_def)
  have "try_finally (outside_call (s_master_addr sc h service)) (ignoring (outside_call (s_aclose sc h))) st =
      (Inr (ip # others), st\<lparr>outside := snd (s_aclose sc h w)\<rparr>)"
    unfolding try_finally_def q by (simp add: ignoring_call [OF assms(2)])
  then show ?thesis
    by (auto simp: bindE_def get_state_def modify_def ret_def invalidate_drops [OF assms(3)])
qed

lemma reconciler_follows_master:
  assumes "s_master_addr sc h service (outside st) = (Inr (ip # others), w)" and "survives (s_aclose sc h)"
    and "\<And>pool. survives (s_disconnect sc pool)"
  shows "reconciler_turn sc service pools (h # hosts) st = (Inr (), st\<lparr>c_clock := c_clock st + 10, last_ip := Some ip,
     outside := (if last_ip st \<in> {None, Some ip} then id else dropped sc pools) (snd (s_aclose sc h w))\<rparr>)"
proof -
  let ?st = "st\<lparr>c_clock := c_clock st + 10\<rparr>"
  have "s_master_addr sc h service (outside ?st) = (Inr (ip # others), w)" using assms(1) by simp
  from ignoring_Inr [where m = "poll_sentinels sc service pools (h # hosts)" and st = ?st, OF poll_follows_master [OF this assms(2,3), of pools hosts]] show ?thesis
    by (simp add: reconciler_turn_def bindE_def async_sleep_def del: poll_sentinels.simps)
qed

text \<open>
  An exception at the first sentinel ends the turn: the other sentinels, meant as replacements, are
  never asked.
\<close>

lemma first_sentinel_blocks:
  assumes "s_master_addr sc h service (outside st) = (Inl e, w)" "is_exception e"
  shows "reconciler_turn sc service pools (h # hosts) st = reconciler_turn sc service pools [h] st"
  using assms by (cases e)
    (auto simp: reconciler_turn_def bindE_def async_sleep_def ignoring_def try_except_def try_finally_def outside_call_def
      split: prod.splits sum.splits)

end
