(* ===== verification/Lifespan.thy ===== *)
theory Lifespan
  imports Config Frames Triples
begin

text \<open>
  The lifespan of the stock and the payment service (\<open>stock/app.py\<close>, \<open>payment/app.py\<close>): what they open, load and
  wait for before they serve, in which order, and what they close. The pools of the client library, the files of
  the scripts and \<open>SCRIPT LOAD\<close> are parameters.
\<close>

section \<open>Starting and stopping\<close>

text \<open>The globals of the module, and whether the failover task runs.\<close>

record ('w, 'h) app = "('w, 'h) nats" +
  app_db :: "redis_target option"
  app_db_read :: "redis_target option"
  scripts :: "(string \<times> string) list"
  failover_task :: bool

type_synonym ('w, 'h, 'm, 'a) app_op = "(('w, 'h, 'm) app_scheme, 'a) py"

text \<open>What the lifespan takes from outside: \<open>read_text\<close> of a script, the id \<open>SCRIPT LOAD\<close> answers, and two calls on a pool.\<close>

record ('w, 'h, 'm) app_library =
  read_text :: "string \<Rightarrow> exn + string"
  script_load :: "string \<Rightarrow> string script"
  pool_disconnect :: "redis_target \<Rightarrow> ('w, 'h, 'm, unit) app_op"
  pool_aclose :: "redis_target \<Rightarrow> ('w, 'h, 'm, unit) app_op"

definition load_scripts :: "redis_client \<Rightarrow> ('w, 'h, 'm) app_library \<Rightarrow> string list \<Rightarrow> ('w, 'h, 'm, unit) app_op" where
  "load_scripts cl lib script_names = for_each script_names (\<lambda>name. bindE (lift_sum (read_text lib name)) (\<lambda>code.
     bindE (redis_call cl (script_load lib code)) (\<lambda>sha.
     modify (\<lambda>st. st\<lparr>scripts := AList.update name sha (scripts st)\<rparr>))))"

definition decode_responses :: dict where
  "decode_responses = [(''decode_responses'', PBool True)]"

text \<open>\<open>subscribe_failover_invalidation\<close> starts its task only where sentinels are configured.\<close>

definition start_failover :: "environ \<Rightarrow> ('w, 'h, 'm, unit) app_op" where
  "start_failover env = bindE (lift_sum (get_sentinel_hosts env)) (\<lambda>hosts.
     modify (\<lambda>st. st\<lparr>failover_task := (hosts \<noteq> None)\<rparr>))"

text \<open>The pings that prewarm the pool are tasks of one \<open>gather\<close>; they read and write nothing, and the model runs them in turn.\<close>

definition prewarm :: "redis_client \<Rightarrow> nat \<Rightarrow> ('w, 'h, 'm, unit) app_op" where
  "prewarm cl n = for_each [0..<n] (\<lambda>_. redis_call cl (ret ()))"

definition startup :: "redis_client \<Rightarrow> ('w, 'h, 'm) app_library \<Rightarrow> ('w, 'h) nats_client \<Rightarrow> environ \<Rightarrow> int \<Rightarrow> int \<Rightarrow> string \<Rightarrow> string list \<Rightarrow>
    string \<Rightarrow> string \<Rightarrow> 'h \<Rightarrow> ('w, 'h, 'm, unit) app_op" where
  "startup cl lib ncl env master_pool replica_pool db_name script_names subject queue handler =
     bindE (lift_sum (create_redis_connection env master_pool None [] decode_responses)) (\<lambda>db.
     bindE (modify (\<lambda>st. st\<lparr>app_db := Some db\<rparr>)) (\<lambda>_.
     bindE (wait_for_redis cl (pool_disconnect lib db) db_name 60 2) (\<lambda>_.
     bindE (prewarm cl 128) (\<lambda>_.
     bindE (lift_sum (create_replica_connection env master_pool replica_pool None [] decode_responses)) (\<lambda>db_read.
     bindE (modify (\<lambda>st. st\<lparr>app_db_read := Some db_read\<rparr>)) (\<lambda>_.
     bindE (load_scripts cl lib script_names) (\<lambda>_.
     bindE (connect ncl 30 1) (\<lambda>_.
     bindE (subscribe ncl subject queue handler) (\<lambda>_.
     start_failover env)))))))))"

definition stock_script_names :: "string list" where
  "stock_script_names = [''stock_2pc_prepare'', ''stock_2pc_commit'', ''stock_2pc_abort'', ''stock_saga_execute'',
     ''stock_saga_compensate'', ''stock_subtract_direct'', ''stock_add_direct'']"

definition payment_script_names :: "string list" where
  "payment_script_names = [''payment_2pc_prepare'', ''payment_2pc_commit'', ''payment_2pc_abort'', ''payment_saga_execute'',
     ''payment_saga_compensate'', ''payment_subtract_direct'', ''payment_add_direct'']"

definition stock_startup :: "redis_client \<Rightarrow> ('w, 'h, 'm) app_library \<Rightarrow> ('w, 'h) nats_client \<Rightarrow> environ \<Rightarrow> int \<Rightarrow> int \<Rightarrow> 'h \<Rightarrow>
    ('w, 'h, 'm, unit) app_op" where
  "stock_startup cl lib ncl env master_pool replica_pool handle_nats_message =
     startup cl lib ncl env master_pool replica_pool ''stock-db'' stock_script_names ''svc.stock.*'' ''stock-workers'' handle_nats_message"

definition payment_startup :: "redis_client \<Rightarrow> ('w, 'h, 'm) app_library \<Rightarrow> ('w, 'h) nats_client \<Rightarrow> environ \<Rightarrow> int \<Rightarrow> int \<Rightarrow> 'h \<Rightarrow>
    ('w, 'h, 'm, unit) app_op" where
  "payment_startup cl lib ncl env master_pool replica_pool handle_nats_message =
     startup cl lib ncl env master_pool replica_pool ''payment-db'' payment_script_names ''svc.payment.*'' ''payment-workers'' handle_nats_message"

definition close_all :: "('w, 'h, 'm) app_library \<Rightarrow> ('w, 'h) nats_client \<Rightarrow> ('w, 'h, 'm, unit) app_op" where
  "close_all lib ncl = bindE (close ncl) (\<lambda>_. bindE get_state (\<lambda>st.
     bindE (case app_db_read st of Some db \<Rightarrow> pool_aclose lib db | None \<Rightarrow> ret ()) (\<lambda>_.
     case app_db st of Some db \<Rightarrow> pool_aclose lib db | None \<Rightarrow> ret ())))"

definition shutdown :: "('w, 'h, 'm) app_library \<Rightarrow> ('w, 'h) nats_client \<Rightarrow> ('w, 'h, 'm, unit) app_op" where
  "shutdown lib ncl = bindE (modify (\<lambda>st. st\<lparr>failover_task := False\<rparr>)) (\<lambda>_. close_all lib ncl)"

section \<open>No message before the scripts\<close>

text \<open>A service is deaf as long as it has asked for no subscription.\<close>

definition deaf :: "('w, 'h, 'm) nats_scheme \<Rightarrow> bool" where
  "deaf st \<longleftrightarrow> nats_subs st = [] \<and> sub_params st = []"

definition loaded :: "('w, 'h, 'm) app_library \<Rightarrow> string list \<Rightarrow> (string \<times> string) list \<Rightarrow> bool" where
  "loaded lib names d \<longleftrightarrow> (\<forall>name\<in>set names. \<exists>code sha. read_text lib name = Inr code \<and>
     (\<exists>k. fst (script_load lib code k) = Inr sha) \<and> map_of d name = Some sha)"

abbreviation inbox :: "('w, 'h, 'm) app_scheme \<Rightarrow> nat list \<times> (string \<times> string \<times> 'h) list \<times> (string \<times> string) list" where
  "inbox st \<equiv> (nats_subs st, sub_params st, scripts st)"

lemma call_result:
  fixes st :: "('w, 'h, 'm) app_scheme"
  assumes "redis_call cl sc st = (r, st')"
  shows "inbox st' = inbox st" "r = Inr x \<Longrightarrow> \<exists>k. fst (sc k) = Inr x"
  using assms by (auto simp: redis_call_def after_trip_def Let_def split: fate.splits prod.splits sum.splits nat.splits)
    (metis fst_conv)+

lemma quiet [frame]:
  "preserves (inbox :: ('w, 'h, 'm) app_scheme \<Rightarrow> _) (redis_call cl sc)" "preserves (inbox :: ('w, 'h, 'm) app_scheme \<Rightarrow> _) (async_sleep d)"
  "preserves (inbox :: ('w, 'h, 'm) app_scheme \<Rightarrow> _) (on_broker m)"
  by (rule preservesI, rule call_result(1)) (auto simp: preserves_def async_sleep_def on_broker_def split: prod.splits)

lemma keeps_app [frame]: "preserves (scripts :: ('w, 'h, 'm) app_scheme \<Rightarrow> _) (on_broker m)" "preserves (sub_params :: ('w, 'h, 'm) app_scheme \<Rightarrow> _) (on_broker m)"
  by (simp_all add: preserves_def on_broker_def split: prod.splits)

lemma quiet_retry:
  "preserves (inbox :: ('w, 'h, 'm) app_scheme \<Rightarrow> _) m \<Longrightarrow> preserves inbox c \<Longrightarrow> preserves inbox (retry_loop what n m c d left)"
  by (induction left) (auto intro!: frame split: if_splits)

lemma quiet_parts:
  "preserves (inbox :: ('w, 'h, 'm) app_scheme \<Rightarrow> _) (pool_disconnect lib db) \<Longrightarrow> preserves inbox (wait_for_redis cl (pool_disconnect lib db) what n d)"
  "preserves (inbox :: ('w, 'h, 'm) app_scheme \<Rightarrow> _) (connect ncl n d)"
  "preserves (inbox :: ('w, 'h, 'm) app_scheme \<Rightarrow> _) (start_failover env)" "preserves (inbox :: ('w, 'h, 'm) app_scheme \<Rightarrow> _) (prewarm cl n)"
  unfolding wait_for_redis_def connect_def connect_once_def ensure_stream_def ignoring_def start_failover_def prewarm_def
  by (auto intro!: frame quiet_retry preserves_modify split: if_splits)

lemma script_call:
  fixes lib :: "('w, 'h, 'm) app_library"
  shows "triple (\<lambda>st. deaf st \<and> loaded lib names (scripts st)) (redis_call cl sc :: ('w, 'h, 'm, string) app_op)
    (\<lambda>sha st. (deaf st \<and> loaded lib names (scripts st)) \<and> (\<exists>k. fst (sc k) = Inr sha)) (\<lambda>_. deaf)"
proof (rule tripleI)
  show "(deaf st' \<and> loaded lib names (scripts st')) \<and> (\<exists>k. fst (sc k) = Inr sha)"
    if "deaf st \<and> loaded lib names (scripts st)" "redis_call cl sc st = (Inr sha, st')" for st st' :: "('w, 'h, 'm) app_scheme" and sha
    using that(1) call_result [OF that(2)] by (simp add: deaf_def)
  show "deaf st'" if "deaf st \<and> loaded lib names (scripts st)" "redis_call cl sc st = (Inl e, st')" for st st' :: "('w, 'h, 'm) app_scheme" and e
    using that(1) call_result(1) [OF that(2)] by (simp add: deaf_def)
qed

lemma load_one:
  fixes lib :: "('w, 'h, 'm) app_library"
  shows "triple (\<lambda>st. deaf st \<and> loaded lib names (scripts st))
    (bindE (lift_sum (read_text lib name)) (\<lambda>code. bindE (redis_call cl (script_load lib code)) (\<lambda>sha.
       modify (\<lambda>st. st\<lparr>scripts := AList.update name sha (scripts st)\<rparr>))) :: ('w, 'h, 'm, unit) app_op)
    (\<lambda>_ st. deaf st \<and> loaded lib (names @ [name]) (scripts st)) (\<lambda>_. deaf)"
proof (cases "read_text lib name")
  case (Inl e)
  then show ?thesis by (intro triple_bind [OF triple_lift [where Q = "\<lambda>_ _. False"]] tripleI) auto
next
  case (Inr code)
  have "triple (\<lambda>st. (deaf st \<and> loaded lib names (scripts st)) \<and> (\<exists>k. fst (script_load lib code k) = Inr sha))
      (modify (\<lambda>st. st\<lparr>scripts := AList.update name sha (scripts st)\<rparr>) :: ('w, 'h, 'm, unit) app_op)
      (\<lambda>_ st. deaf st \<and> loaded lib (names @ [name]) (scripts st)) (\<lambda>_. deaf)" for sha
    by (rule tripleI) (use Inr in \<open>auto simp: modify_def deaf_def loaded_def\<close>)
  from triple_bind [OF script_call this] show ?thesis using Inr by (simp add: bindE_def lift_sum_def)
qed

lemma load_scripts_loads:
  fixes lib :: "('w, 'h, 'm) app_library"
  shows "triple (\<lambda>st. deaf st \<and> loaded lib before (scripts st)) (load_scripts cl lib names)
     (\<lambda>_ st. deaf st \<and> loaded lib (before @ names) (scripts st)) (\<lambda>_. deaf)"
proof (induction names arbitrary: before)
  case Nil
  show ?case by (simp add: load_scripts_def triple_ret)
next
  case (Cons name names)
  show ?case using triple_bind [OF load_one Cons.IH [of "before @ [name]"]] by (simp add: load_scripts_def)
qed

text \<open>Until the subscription is asked for, the service is deaf; then the scripts are there.\<close>

lemma quiet_deaf:
  fixes m :: "('w, 'h, 'm, 'a) app_op"
  assumes "preserves inbox m"
  shows "triple deaf m (\<lambda>_. deaf) (\<lambda>_. deaf)" "triple (\<lambda>st. deaf st \<and> loaded lib names (scripts st)) m
    (\<lambda>_ st. deaf st \<and> loaded lib names (scripts st)) (\<lambda>_. deaf)"
    "triple (\<lambda>st. loaded lib names (scripts st)) m (\<lambda>_ st. loaded lib names (scripts st)) (\<lambda>_ st. loaded lib names (scripts st))"
  by (rule tripleI; use preserves_run [OF assms] in \<open>fastforce simp: deaf_def\<close>)+

lemma deaf_bind:
  fixes m :: "('w, 'h, 'm, 'a) app_op"
  assumes "preserves inbox m" "\<And>e st. deaf st \<Longrightarrow> E e st" "\<And>x. triple deaf (f x) Q E"
  shows "triple deaf (bindE m f) Q E"
  by (rule triple_seq [OF quiet_deaf(1) [OF assms(1)] assms(2,3)])

definition listens :: "('w, 'h, 'm) app_library \<Rightarrow> string list \<Rightarrow> string \<times> string \<times> 'h \<Rightarrow> ('w, 'h, 'm) app_scheme \<Rightarrow> bool" where
  "listens lib names p st \<longleftrightarrow> loaded lib names (scripts st) \<and> sub_params st = [p]"

lemma startup_deaf:
  fixes lib :: "('w, 'h, 'm) app_library"
  assumes "\<And>db. preserves inbox (pool_disconnect lib db)"
  shows "triple deaf (startup cl lib ncl env mp rp db_name names subject queue handler)
    (\<lambda>_. listens lib names (subject, queue, handler)) (\<lambda>_ st. deaf st \<or> loaded lib names (scripts st))"
proof -
  let ?E = "\<lambda>(_::exn) st. deaf st \<or> loaded lib names (scripts st)" and ?p = "(subject, queue, handler)"
  have keep: "triple (listens lib names ?p) m (\<lambda>_. listens lib names ?p) ?E"
    if "preserves sub_params m" "preserves scripts m" for m :: "('w, 'h, 'm, unit) app_op"
    by (rule tripleI; use preserves_run [OF that(1)] preserves_run [OF that(2)] in \<open>fastforce simp: listens_def\<close>)
  have js: "triple (listens lib names ?p) (js_subscribe ncl ?p) (\<lambda>_. listens lib names ?p) ?E"
    by (rule keep) (auto simp: js_subscribe_def intro!: frame preserves_modify)
  have sub: "triple (\<lambda>st. deaf st \<and> loaded lib names (scripts st)) (subscribe ncl subject queue handler) (\<lambda>_. listens lib names ?p) ?E"
    unfolding subscribe_def by (rule triple_bind [OF _ js], rule tripleI) (auto simp: listens_def deaf_def modify_def)
  have after: "triple (\<lambda>st. deaf st \<and> loaded lib names (scripts st))
      (bindE (subscribe ncl subject queue handler) (\<lambda>_. start_failover env)) (\<lambda>_. listens lib names ?p) ?E"
    by (rule triple_bind [OF sub], rule keep) (auto simp: start_failover_def intro!: frame preserves_modify)
  have rest: "triple deaf (bindE (load_scripts cl lib names) (\<lambda>_. bindE (connect ncl 30 1) (\<lambda>_.
      bindE (subscribe ncl subject queue handler) (\<lambda>_. start_failover env)))) (\<lambda>_. listens lib names ?p) ?E"
  proof (rule triple_seq [OF triple_pre [OF load_scripts_loads [where before = "[]"]]])
    show "triple (\<lambda>st. deaf st \<and> loaded lib ([] @ names) (scripts st)) (bindE (connect ncl 30 1) (\<lambda>_.
        bindE (subscribe ncl subject queue handler) (\<lambda>_. start_failover env))) (\<lambda>_. listens lib names ?p) ?E" for u :: unit
      by (rule triple_seq [OF quiet_deaf(2)]) (simp_all add: quiet_parts after)
  qed (simp_all add: loaded_def)
  show ?thesis
    unfolding startup_def by (intro deaf_bind rest) (auto intro: frame quiet_parts assms preserves_modify)
qed

text \<open>C39 (safety): A service hears no message before its scripts are loaded. Whichever step of the start fails, on
  whatever connection, environment and broker, a stock or payment service that has asked for a subscription has
  the id of every script it runs, as the server answered it for the script's text; and a start that returns has
  subscribed to the service's commands and to nothing else.\<close>

theorem scripts_before_messages:
  assumes "\<And>db. preserves inbox (pool_disconnect lib db)" "deaf st"
    and "(start, names, p) \<in> {(stock_startup cl lib ncl env mp rp handler, stock_script_names, (''svc.stock.*'', ''stock-workers'', handler)),
      (payment_startup cl lib ncl env mp rp handler, payment_script_names, (''svc.payment.*'', ''payment-workers'', handler))}"
    and "start st = (r, st')"
  shows "(\<not> deaf st' \<longrightarrow> loaded lib names (scripts st')) \<and> (r = Inr () \<longrightarrow> loaded lib names (scripts st') \<and> sub_params st' = [p])"
proof -
  obtain db_name subject queue where start: "start = startup cl lib ncl env mp rp db_name names subject queue handler" "p = (subject, queue, handler)"
    using assms(3) unfolding stock_startup_def payment_startup_def by auto
  note t = startup_deaf [OF assms(1), of cl ncl env mp rp db_name names subject queue handler]
  show ?thesis
    using triple_ret_D [OF t assms(2)] triple_raise_D [OF t assms(2)] assms(4) start by (cases r) (auto simp: listens_def)
qed

text \<open>A stop that returns has ended every subscription and the failover task.\<close>

abbreviation tasks :: "('w, 'h, 'm) app_scheme \<Rightarrow> nat list \<times> bool \<times> bool" where
  "tasks st \<equiv> (nats_subs st, nc st, failover_task st)"

lemma keeps_tasks [frame]: "preserves (tasks :: ('w, 'h, 'm) app_scheme \<Rightarrow> _) (on_broker m)"
  by (simp add: preserves_def on_broker_def split: prod.splits)

lemma close_ends:
  "triple (\<lambda>st. \<not> failover_task st) (close ncl :: ('w, 'h, 'm, unit) app_op) (\<lambda>_ st. tasks st = ([], False, False)) (\<lambda>_ _. True)"
proof -
  have keep: "triple P m (\<lambda>_. P) (\<lambda>_ _. True)" if "preserves tasks m" "\<And>st st'. tasks st = tasks st' \<Longrightarrow> P st = P st'"
    for P and m :: "('w, 'h, 'm, unit) app_op"
    by (rule tripleI) (use preserves_run [OF that(1)] that(2) in blast)+
  have unsub: "preserves (tasks :: ('w, 'h, 'm) app_scheme \<Rightarrow> _) (unsubscribe_all ncl subs)" for subs
    unfolding unsubscribe_all_def ignoring_def by (auto intro!: frame split: if_splits)
  have drain: "triple (\<lambda>st. tasks st = ([], b, False))
      (if b then bindE (on_broker (nats_drain ncl)) (\<lambda>_. modify (\<lambda>st. st\<lparr>nc := False\<rparr>)) else ret () :: ('w, 'h, 'm, unit) app_op)
      (\<lambda>_ st. tasks st = ([], False, False)) (\<lambda>_ _. True)" for b
    by (intro triple_if triple_bind [OF keep [OF keeps_tasks]] triple_ret tripleI) (auto simp: modify_def)
  have rest: "triple (\<lambda>st. tasks st = (subs, b, False)) (bindE (unsubscribe_all ncl subs) (\<lambda>_. bindE (modify (\<lambda>st. st\<lparr>nats_subs := []\<rparr>)) (\<lambda>_.
      if b then bindE (on_broker (nats_drain ncl)) (\<lambda>_. modify (\<lambda>st. st\<lparr>nc := False\<rparr>)) else ret ())) :: ('w, 'h, 'm, unit) app_op)
      (\<lambda>_ st. tasks st = ([], False, False)) (\<lambda>_ _. True)" for subs b
    by (rule triple_bind [OF keep [OF unsub]], simp, rule triple_bind [OF _ drain], rule tripleI) (auto simp: modify_def)
  show ?thesis
    using rest unfolding close_def triple_def bindE_def get_state_def by fastforce
qed

lemma close_all_ends:
  assumes "\<And>db. preserves tasks (pool_aclose lib db)"
  shows "triple (\<lambda>st. \<not> failover_task st) (close_all lib ncl :: ('w, 'h, 'm, unit) app_op) (\<lambda>_ st. tasks st = ([], False, False)) (\<lambda>_ _. True)"
proof -
  have keep: "triple (\<lambda>st. tasks st = ([], False, False)) m (\<lambda>_ st. tasks st = ([], False, False)) (\<lambda>_ _. True)"
    if "preserves tasks m" for m :: "('w, 'h, 'm, unit) app_op"
    by (rule tripleI) (use preserves_run [OF that] in auto)
  show ?thesis
    unfolding close_all_def by (rule triple_bind [OF close_ends], rule keep) (auto intro!: frame assms split: option.split)
qed

lemma shutdown_ends:
  assumes "\<And>db. preserves tasks (pool_aclose lib db)" "shutdown lib ncl st = (Inr (), st')"
  shows "tasks st' = ([], False, False)"
proof -
  have "triple (\<lambda>_. True) (shutdown lib ncl) (\<lambda>_ st. tasks st = ([], False, False)) (\<lambda>_ _. True)"
    unfolding shutdown_def by (rule triple_bind [OF _ close_all_ends [OF assms(1)]], rule tripleI) (auto simp: modify_def)
  then show ?thesis using triple_ret_D assms(2) by fast
qed

section \<open>Witness\<close>

definition files :: "(unit, nat, 'm) app_library" where
  "files = \<lparr>read_text = Inr, script_load = (\<lambda>code d. (Inr (''sha of '' @ code), d)), pool_disconnect = (\<lambda>_. ret ()), pool_aclose = (\<lambda>_. ret ())\<rparr>"

definition hub :: "(unit, nat) nats_client" where
  "hub = \<lparr>nats_connect = Pair (Inr ()), nats_add_stream = (\<lambda>_. Pair (Inr ())), nats_subscribe = (\<lambda>_ _ _ _. Pair (Inr 7)),
     nats_unsubscribe = (\<lambda>_. Pair (Inr ())), nats_drain = Pair (Inr ())\<rparr>"

definition off :: "(unit, nat) app" where
  "off = \<lparr>c_db = empty_keyspace, c_replica = None, c_trips = [], c_clock = 0, nc = False, nats_subs = [], sub_params = [], broker = (),
     app_db = None, app_db_read = None, scripts = [], failover_task = False\<rparr>"

lemma calm_call: "c_trips st = [] \<Longrightarrow> sc (c_db st) = (Inr x, c_db st) \<Longrightarrow> redis_call cl sc st = (Inr x, st)"
  by (cases st) (simp add: redis_call_def after_trip_def next_trip_def Let_def)

lemma calm_loop: "(\<And>x. f x st = (Inr (), st)) \<Longrightarrow> for_each xs f st = (Inr (), st)"
  by (induction xs) (simp_all add: bindE_def ret_def)

lemma off_targets:
  "\<exists>db. create_redis_connection Map.empty 512 None [] decode_responses = Inr db"
  "\<exists>db. create_replica_connection Map.empty 512 256 None [] decode_responses = Inr db"
  "get_sentinel_hosts Map.empty = Inr None"
  by (simp_all add: create_redis_connection_def create_replica_connection_def get_sentinel_hosts_def getenv_def direct_def keyword_args_def
      get_redis_config_def int_env_def default_kwargs_def decode_responses_def)

lemma off_starts: "\<exists>st'. stock_startup mem_client files hub Map.empty 512 256 0 off = (Inr (), st')"
proof -
  obtain db db' where d: "create_redis_connection Map.empty 512 None [] decode_responses = Inr db"
    "create_replica_connection Map.empty 512 256 None [] decode_responses = Inr db'" using off_targets(1,2) by blast
  have wait: "wait_for_redis mem_client dis what 60 2 st = (Inr (), st)" if "c_trips st = []" for st :: "(unit, nat) app" and dis what
    using calm_call [OF that, of "ret ()"]
    by (simp add: wait_for_redis_def eval_nat_numeral try_except_def bindE_def ret_def)
  have ping: "prewarm mem_client 128 st = (Inr (), st)" if "c_trips st = []" for st :: "(unit, nat) app"
    unfolding prewarm_def by (rule calm_loop) (rule calm_call [OF that], simp add: ret_def)
  have load: "\<exists>d. load_scripts mem_client files names st = (Inr (), st\<lparr>scripts := d\<rparr>)" if "c_trips st = []" for st names
    using that
  proof (induction names arbitrary: st)
    case Nil
    then show ?case by (intro exI [of _ "scripts st"]) (simp add: load_scripts_def ret_def)
  next
    case (Cons name names)
    have "redis_call mem_client (script_load files name) st = (Inr (''sha of '' @ name), st)"
      by (rule calm_call [OF Cons.prems]) (simp add: files_def)
    then show ?case
      using Cons.IH [of "st\<lparr>scripts := AList.update name (''sha of '' @ name) (scripts st)\<rparr>"] Cons.prems
      by (simp add: load_scripts_def bindE_def lift_sum_def modify_def files_def)
  qed
  have con: "connect hub 30 1 st = (Inr (), st\<lparr>nc := True\<rparr>)" for st :: "(unit, nat) app"
    by (simp add: connect_def connect_once_def ensure_stream_def on_broker_def hub_def eval_nat_numeral try_except_def bindE_def ret_def modify_def)
  have sub: "subscribe hub subject queue h st =
      (Inr (), st\<lparr>sub_params := sub_params st @ [(subject, queue, h)], nats_subs := nats_subs st @ [7]\<rparr>)" for st :: "(unit, nat) app" and subject queue h
    by (simp add: subscribe_def js_subscribe_def on_broker_def hub_def bindE_def modify_def)
  let ?st = "off\<lparr>app_db := Some db, app_db_read := Some db'\<rparr>"
  obtain sc where "load_scripts mem_client files stock_script_names ?st = (Inr (), ?st\<lparr>scripts := sc\<rparr>)"
    using load [of ?st] by (auto simp: off_def)
  then show ?thesis
    unfolding stock_startup_def startup_def
    by (simp add: d off_targets(3) bindE_def lift_sum_def modify_def wait ping con sub start_failover_def off_def)
qed

theorem scripts_before_messages_witness:
  "\<exists>st'. stock_startup mem_client files hub Map.empty 512 256 0 off = (Inr (), st') \<and>
     loaded (files :: (unit, nat, unit) app_library) stock_script_names (scripts st') \<and> sub_params st' = [(''svc.stock.*'', ''stock-workers'', 0)]"
proof -
  obtain st' where run: "stock_startup mem_client files hub Map.empty 512 256 0 off = (Inr (), st')" using off_starts by blast
  have "preserves inbox (pool_disconnect (files :: (unit, nat, unit) app_library) db)" for db by (simp add: files_def frame)
  moreover have "deaf off" by (simp add: deaf_def off_def)
  ultimately show ?thesis
    using scripts_before_messages [where lib = files and cl = mem_client and ncl = hub and env = Map.empty and mp = 512 and rp = 256
        and handler = 0 and names = stock_script_names and p = "(''svc.stock.*'', ''stock-workers'', 0)"
        and start = "stock_startup mem_client files hub Map.empty 512 256 0" and st = off and r = "Inr ()" and st' = st'] run by simp
qed

end
