(* ===== verification/Leadership.thy ===== *)
theory Leadership
  imports Leader Recovery
begin

text \<open>
  The leadership loop of \<open>order/app.py\<close>: an instance competes for the lock; the leader recovers the
  unfinished sagas and then runs the reconciliation worker until it loses the lock.
\<close>

section \<open>The loop\<close>

text \<open>A computation on the process, run by an instance.\<close>

definition on_proc :: "('n proc, 'a) py \<Rightarrow> ('n leader, 'a) py" where
  "on_proc m = (\<lambda>st. case m (proc.truncate st) of (r, p) \<Rightarrow> (r, proc.extend p (proc.more st)))"

definition start_reconciliation :: "('n leader, unit) py" where
  "start_reconciliation = modify (\<lambda>st. if reconciliation_task st then st else st\<lparr>reconciliation_task := True\<rparr>)"

definition stop_reconciliation :: "('n leader, unit) py" where
  "stop_reconciliation = modify (\<lambda>st. st\<lparr>reconciliation_task := False\<rparr>)"

text \<open>
  \<open>while leader_election.is_leader: await asyncio.sleep(1)\<close>; \<open>seconds\<close> is what the heartbeat and the
  reconciliation worker do in each second, until the process ends.
\<close>

fun watch :: "('n leader, unit) py list \<Rightarrow> ('n leader, unit) py" where
  "watch [] = ret ()"
| "watch (second # seconds) = bindE get_state (\<lambda>st.
     if is_leader st then bindE (async_sleep 1) (\<lambda>_. bindE second (\<lambda>_. watch seconds)) else ret ())"

text \<open>One turn. The scan of the log inside recovery reads at most \<open>fuel\<close> pages.\<close>

definition leadership_turn :: "redis_client \<Rightarrow> 'n transport \<Rightarrow> definitions \<Rightarrow> nat \<Rightarrow> ('n leader, unit) py list \<Rightarrow> ('n leader, unit) py" where
  "leadership_turn cl tr defs fuel seconds = try_except
     (bindE (acquire cl) (\<lambda>acquired.
        if acquired then
          bindE (on_proc (recover_incomplete_sagas cl tr defs fuel)) (\<lambda>_.
          bindE start_reconciliation (\<lambda>_. bindE (watch seconds) (\<lambda>_. stop_reconciliation)))
        else async_sleep 2))
     (\<lambda>e. if is_exception e then Some (async_sleep 2) else None)"

fun leadership_loop :: "redis_client \<Rightarrow> 'n transport \<Rightarrow> definitions \<Rightarrow> nat \<Rightarrow> ('n leader, unit) py list list \<Rightarrow> ('n leader, unit) py" where
  "leadership_loop cl tr defs fuel [] = ret ()"
| "leadership_loop cl tr defs fuel (seconds # turns) =
     bindE (leadership_turn cl tr defs fuel seconds) (\<lambda>_. leadership_loop cl tr defs fuel turns)"

section \<open>A failed recovery\<close>

lemma on_proc_instance: "on_proc m st = (r, st') \<Longrightarrow> is_leader st' = is_leader st \<and> instance_id st' = instance_id st"
  by (cases st rule: leader.cases) (auto simp: on_proc_def proc.defs split: prod.splits)

text \<open>An instance that holds the lock and runs no maintenance.\<close>

definition idle_leader :: "'n leader \<Rightarrow> bool" where
  "idle_leader st \<longleftrightarrow> is_leader st \<and> online st \<and> entries (c_db st) LOCK_KEY = Some (RStr (Text (instance_id st))) \<and> \<not> reconciliation_task st"

definition idles :: "'n leader \<Rightarrow> 'n leader \<Rightarrow> bool" where
  "idles st st' \<longleftrightarrow> idle_leader st' \<and> net st' = net st \<and> c_db st' = c_db st"

lemma idle_turn:
  assumes "redis_server (cl_rc cl)" "idle_leader st"
  shows "\<exists>st'. leadership_turn cl tr defs fuel seconds st = (Inr (), st') \<and> idles st st'"
proof -
  let ?sc = "cl_rc cl (SET LOCK_KEY (Text (instance_id st)) True (Some LOCK_TTL))"
  have "?sc (c_db st) = (Inr Nil, c_db st)"
    using redis_server.lock_set [OF assms(1), of "c_db st" "instance_id st"] assms(2) by (simp add: idle_leader_def)
  then have "redis_call cl ?sc st = (Inr Nil, (after_trip st)\<lparr>c_db := c_db st\<rparr>)"
    using assms(2) by (intro redis_call_online) (simp_all add: idle_leader_def)
  then have "acquire cl st = (Inr False, (after_trip st)\<lparr>c_db := c_db st\<rparr>)"
    by (simp add: acquire_def get_state_def bindE_def ret_def)
  moreover have "online ((after_trip st)\<lparr>c_db := c_db st, c_clock := t\<rparr>)" for t
    using assms(2) after_trip_simps(3) [of st] by (simp add: idle_leader_def online_def)
  ultimately show ?thesis
    using assms(2) by (simp add: leadership_turn_def bindE_def try_except_def async_sleep_def idles_def idle_leader_def after_trip_def)
qed

lemma idle_loop:
  assumes "redis_server (cl_rc cl)" "idle_leader st"
  shows "\<exists>st'. leadership_loop cl tr defs fuel turns st = (Inr (), st') \<and> idles st st'"
  using assms(2)
proof (induction turns arbitrary: st)
  case Nil
  then show ?case by (simp add: ret_def idles_def)
next
  case (Cons seconds turns)
  obtain st1 where st1: "leadership_turn cl tr defs fuel seconds st = (Inr (), st1)" "idles st st1"
    using idle_turn [OF assms(1) Cons.prems] by blast
  obtain st2 where st2: "leadership_loop cl tr defs fuel turns st1 = (Inr (), st2)" "idles st1 st2"
    using Cons.IH [of st1] st1(2) by (auto simp: idles_def)
  then show ?case using st1 by (auto simp: bindE_def idles_def)
qed

text \<open>C24 (error): A leader whose recovery fails once never maintains anything again. The exception leaves it
  the leader, with the heartbeat renewing its lock; the next turns of the loop ask for the lock again and
  are refused, by itself. As long as the lock is alive no turn recovers a saga or starts the reconciliation
  worker, and no other instance can lead.\<close>

theorem failed_recovery_stops_maintenance:
  assumes "redis_server (cl_rc cl)" and "acquire cl st = (Inr True, st1)"
    and "on_proc (recover_incomplete_sagas cl tr defs fuel) st1 = (Inl e, st2)" and "is_exception e"
    and "online st2" and "entries (c_db st2) LOCK_KEY = Some (RStr (Text (instance_id st2)))" and "\<not> reconciliation_task st2"
  shows "\<exists>st'. leadership_loop cl tr defs fuel (seconds # turns) st = (Inr (), st') \<and>
    is_leader st' \<and> \<not> reconciliation_task st' \<and> net st' = net st2 \<and> c_db st' = c_db st2"
proof -
  have "is_leader st1" using assms(2)
    by (auto simp: acquire_def get_state_def modify_def bindE_def ret_def split: prod.splits sum.splits if_splits)
  then have lead: "is_leader st2" using on_proc_instance [OF assms(3)] by simp
  obtain st3 where turn: "leadership_turn cl tr defs fuel seconds st = (Inr (), st3)"
    and st3: "st3 = st2\<lparr>c_clock := c_clock st2 + 2\<rparr>"
    using assms(2,3,4) by (simp add: leadership_turn_def bindE_def try_except_def async_sleep_def)
  have "idle_leader st3" using lead assms(5-7) by (simp add: idle_leader_def st3 online_def)
  from idle_loop [OF assms(1) this] obtain st' where "leadership_loop cl tr defs fuel turns st3 = (Inr (), st')" "idles st3 st'"
    by blast
  then show ?thesis using turn by (auto simp: bindE_def idles_def idle_leader_def st3)
qed

text \<open>The connection breaks while the log is scanned.\<close>

theorem failed_recovery_stops_maintenance_witness:
  "\<exists>st'. leadership_loop mem_client (\<lambda>sv a p t. throw (TimeoutErr [])) [] 5 [[], [], []] ((candidate ''a'')\<lparr>c_trips :=
       [\<lparr>t_fate = Answered, t_took = 0, t_error = []\<rparr>, \<lparr>t_fate = Broken 0, t_took = 0, t_error = ''reset''\<rparr>]\<rparr>) = (Inr (), st') \<and>
     is_leader st' \<and> \<not> reconciliation_task st'"
proof -
  let ?st = "(candidate ''a'')\<lparr>c_trips := [\<lparr>t_fate = Answered, t_took = 0, t_error = []\<rparr>, \<lparr>t_fate = Broken 0, t_took = 0, t_error = ''reset''\<rparr>]\<rparr>"
  let ?d = "set_ttl LOCK_KEY (Some LOCK_TTL) (put LOCK_KEY (RStr (Text ''a'')) empty_keyspace)"
  let ?st1 = "?st\<lparr>c_trips := [\<lparr>t_fate = Broken 0, t_took = 0, t_error = ''reset''\<rparr>], c_db := ?d, is_leader := True, heartbeat_task := True\<rparr>"
  let ?tr = "\<lambda>sv a p t. throw (TimeoutErr []) :: (unit proc, pyval) py"
  have a: "acquire mem_client ?st = (Inr True, ?st1)"
    by (simp add: acquire_def candidate_def mem_client_def get_state_def modify_def bindE_def ret_def redis_call_def next_trip_def
        after_trip_def empty_keyspace_def LOCK_TTL_def Let_def)
  have r: "on_proc (recover_incomplete_sagas mem_client ?tr [] 5) ?st1 = (Inl (RedisErr ''reset''), ?st1\<lparr>c_trips := []\<rparr>)"
    by (simp add: on_proc_def recover_incomplete_sagas_def get_incomplete_sagas_def eval_nat_numeral bindE_def redis_call_def
        next_trip_def after_trip_def candidate_def proc.defs Let_def)
  show ?thesis
    using failed_recovery_stops_maintenance [OF _ a r, of "[]" "[[], []]"]
    by (auto simp: mem_client_def mem_redis candidate_def online_def)
qed

end
