(* ===== verification/OrderLifespan.thy ===== *)
theory OrderLifespan
  imports Lifespan Leadership OrderService
begin

text \<open>
  The lifespan of the order service (\<open>order/app.py\<close>): like the other services it connects and loads its scripts;
  then it builds the orchestrator, the leader election and the recovery worker and starts the leadership loop
  (\<open>Leadership\<close>). Its stop gives the leadership up. The HTTP client for the other services is outside
  the repository.
\<close>

section \<open>Starting\<close>

definition orchestrator_protocol :: "environ \<Rightarrow> exn + string" where
  "orchestrator_protocol env = (let protocol = lower (getenv env ''ORCHESTRATOR_PROTOCOL'' ''auto'') in
     if protocol \<notin> {''auto'', ''2pc'', ''saga''} then Inl (RuntimeErr ''ORCHESTRATOR_PROTOCOL must be one of: auto, 2pc, saga'')
     else Inr protocol)"

text \<open>
  The globals of the module. What the orchestrator, the leader election and the recovery worker keep is there from the
  moment they are built: \<open>worker\<close> is the state of an instance besides its connection.
\<close>

type_synonym 'n worker_state = "('n, unit leader_ext) proc_ext"

record ('w, 'h, 'n) order_globals = "('w, 'h) app" +
  order_orch :: "orchestrator option"
  worker :: "'n worker_state option"
  http_client :: bool
  leader_task :: bool

definition instance_of :: "'n worker_state \<Rightarrow> ('w, 'h, 'n) order_globals \<Rightarrow> 'n leader" where
  "instance_of p st = conn.extend (conn.truncate st) p"

text \<open>\<open>if leader_election: await leader_election.stop()\<close> and the like: an operation of the instance, if it was built.\<close>

definition on_instance :: "('n leader, unit) py \<Rightarrow> (('w, 'h, 'n) order_globals, unit) py" where
  "on_instance m = (\<lambda>st. case worker st of None \<Rightarrow> (Inr (), st)
     | Some p \<Rightarrow> (case m (instance_of p st) of (r, l) \<Rightarrow>
         (r, st\<lparr>c_db := c_db l, c_replica := c_replica l, c_trips := c_trips l, c_clock := c_clock l, worker := Some (conn.more l)\<rparr>)))"

definition new_instance :: "string \<Rightarrow> rat \<Rightarrow> 'n \<Rightarrow> 'n worker_state" where
  "new_instance host_pid boot w = conn.more (\<lparr>c_db = empty_keyspace, c_replica = None, c_trips = [], c_clock = 0,
     boot_time = boot, net = w, circuit_breakers = new_breakers [checkout_tx], collector = new_metrics 100,
     instance_id = host_pid, is_leader = False, heartbeat_task = False, reconciliation_task = False\<rparr> :: 'n leader)"

definition order_script_names :: "string list" where
  "order_script_names = [''order_add_item'', ''order_load_and_claim'']"

definition order_startup :: "redis_client \<Rightarrow> ('w, 'h, _) app_library \<Rightarrow> ('w, 'h) nats_client \<Rightarrow> environ \<Rightarrow> int \<Rightarrow> int \<Rightarrow> string \<Rightarrow>
    string \<Rightarrow> rat \<Rightarrow> 'n \<Rightarrow> (('w, 'h, 'n) order_globals, unit) py" where
  "order_startup cl lib ncl env master_pool replica_pool protocol host_pid boot w =
     bindE (lift_sum (create_redis_connection env master_pool None [] decode_responses)) (\<lambda>db.
     bindE (modify (\<lambda>st. st\<lparr>app_db := Some db\<rparr>)) (\<lambda>_.
     bindE (wait_for_redis cl (pool_disconnect lib db) ''order-db'' 60 2) (\<lambda>_.
     bindE (lift_sum (create_replica_connection env master_pool replica_pool None [] decode_responses)) (\<lambda>db_read.
     bindE (modify (\<lambda>st. st\<lparr>app_db_read := Some db_read\<rparr>)) (\<lambda>_.
     bindE (load_scripts cl lib order_script_names) (\<lambda>_.
     bindE (prewarm cl 256) (\<lambda>_.
     bindE (modify (\<lambda>st. st\<lparr>http_client := True\<rparr>)) (\<lambda>_.
     bindE (connect ncl 30 1) (\<lambda>_.
     bindE (modify (\<lambda>st. st\<lparr>order_orch := Some (new_orchestrator [checkout_tx] protocol),
        worker := Some (new_instance host_pid boot w), leader_task := True\<rparr>)) (\<lambda>_.
     start_failover env))))))))))"

text \<open>
  Whichever step of the start fails, an instance that competes for the leadership has loaded its scripts; a start that
  returns has built the orchestrator with the configured protocol and a closed breaker per service.
\<close>

definition built :: "string \<Rightarrow> string \<Rightarrow> rat \<Rightarrow> 'n \<Rightarrow> ('w, 'h, 'n) order_globals \<Rightarrow> bool" where
  "built protocol host_pid boot w st \<longleftrightarrow> leader_task st \<and> order_orch st = Some (new_orchestrator [checkout_tx] protocol) \<and>
     worker st = Some (new_instance host_pid boot w)"

abbreviation unbuilt :: "('w, 'h, 'n) order_globals \<Rightarrow> bool" where
  "unbuilt st \<equiv> deaf st \<and> \<not> leader_task st"

abbreviation starting :: "('w, 'h, 'n) order_globals \<Rightarrow> _" where
  "starting st \<equiv> (inbox st, leader_task st, order_orch st, worker st)"

lemma starting_call [frame]:
  "preserves (starting :: ('w, 'h, 'n) order_globals \<Rightarrow> _) (redis_call cl sc)" "preserves (starting :: ('w, 'h, 'n) order_globals \<Rightarrow> _) (async_sleep d)"
  "preserves (starting :: ('w, 'h, 'n) order_globals \<Rightarrow> _) (on_broker m)"
  by (auto simp: preserves_def redis_call_def after_trip_def Let_def async_sleep_def on_broker_def
      split: fate.splits prod.splits sum.splits nat.splits)

lemma task_call: "preserves (leader_task :: ('w, 'h, 'n) order_globals \<Rightarrow> _) (redis_call cl sc)"
  by (auto simp: preserves_def redis_call_def after_trip_def Let_def split: fate.splits prod.splits sum.splits nat.splits)

lemma starting_retry:
  "preserves (starting :: ('w, 'h, 'n) order_globals \<Rightarrow> _) m \<Longrightarrow> preserves starting c \<Longrightarrow> preserves starting (retry_loop what n m c d left)"
  by (induction left) (auto intro!: frame split: if_splits)

lemma starting_parts:
  "preserves (starting :: ('w, 'h, 'n) order_globals \<Rightarrow> _) (pool_disconnect lib db) \<Longrightarrow> preserves starting (wait_for_redis cl (pool_disconnect lib db) what n d)"
  "preserves (starting :: ('w, 'h, 'n) order_globals \<Rightarrow> _) (connect ncl n d)" "preserves (starting :: ('w, 'h, 'n) order_globals \<Rightarrow> _) (prewarm cl n)"
  "preserves (starting :: ('w, 'h, 'n) order_globals \<Rightarrow> _) (start_failover env)"
  unfolding wait_for_redis_def connect_def connect_once_def ensure_stream_def ignoring_def start_failover_def prewarm_def
  by (auto intro!: frame starting_retry preserves_modify split: if_splits)

lemma order_startup_ready:
  fixes st :: "('w, 'h, 'n) order_globals"
  assumes "\<And>db. preserves starting (pool_disconnect lib db)"
  shows "triple unbuilt (order_startup cl lib ncl env mp rp protocol host_pid boot w)
    (\<lambda>_ st. loaded lib order_script_names (scripts st) \<and> built protocol host_pid boot w (st :: ('w, 'h, 'n) order_globals))
    (\<lambda>_ st. leader_task st \<longrightarrow> loaded lib order_script_names (scripts st))"
proof -
  let ?L = "\<lambda>st :: ('w, 'h, 'n) order_globals. loaded lib order_script_names (scripts st)" and ?E = "\<lambda>(_::exn) (st :: ('w, 'h, 'n) order_globals). leader_task st \<longrightarrow> loaded lib order_script_names (scripts st)"
  let ?B = "\<lambda>st :: ('w, 'h, 'n) order_globals. built protocol host_pid boot w st"
  have early: "triple unbuilt (bindE m f) Q ?E"
    if "preserves starting m" "\<And>x. triple unbuilt (f x) Q ?E" for m :: "(('w, 'h, 'n) order_globals, 'x) py" and f :: "'x \<Rightarrow> (('w, 'h, 'n) order_globals, unit) py" and Q
    by (rule triple_bind [OF _ that(2)], rule tripleI) (use preserves_run [OF that(1)] in \<open>auto simp: deaf_def\<close>)
  have mid: "triple ?L (bindE m f) Q ?E"
    if "preserves starting m" "\<And>x. triple ?L (f x) Q ?E" for m :: "(('w, 'h, 'n) order_globals, 'x) py" and f :: "'x \<Rightarrow> (('w, 'h, 'n) order_globals, unit) py" and Q
    by (rule triple_bind [OF _ that(2)], rule tripleI) (use preserves_run [OF that(1)] in auto)
  have last: "triple (\<lambda>st. ?L st \<and> ?B st) (start_failover env) (\<lambda>_ st. ?L st \<and> ?B st) ?E"
    by (rule tripleI) (use preserves_run [OF starting_parts(4)] in \<open>fastforce simp: built_def\<close>)+
  have build: "triple ?L (bindE (modify (\<lambda>st. st\<lparr>order_orch := Some (new_orchestrator [checkout_tx] protocol),
        worker := Some (new_instance host_pid boot w), leader_task := True\<rparr>)) (\<lambda>_. start_failover env)) (\<lambda>_ st. ?L st \<and> ?B st) ?E"
    by (rule triple_bind [OF _ last], rule tripleI) (auto simp: modify_def built_def)
  have names: "triple unbuilt (load_scripts cl lib order_script_names) (\<lambda>_ st. ?L st) ?E"
  proof (rule tripleI)
    have t: "triple (\<lambda>st :: ('w, 'h, 'n) order_globals. deaf st \<and> loaded lib [] (scripts st)) (load_scripts cl lib order_script_names)
       (\<lambda>_ st. deaf st \<and> loaded lib ([] @ order_script_names) (scripts st)) (\<lambda>_. deaf)" by (rule load_scripts_loads)
    have l: "preserves (leader_task :: ('w, 'h, 'n) order_globals \<Rightarrow> _) (load_scripts cl lib order_script_names)"
      unfolding load_scripts_def by (auto intro!: frame preserves_modify task_call)
    show "?L st'" if "unbuilt st" "load_scripts cl lib order_script_names st = (Inr x, st')" for st st' :: "('w, 'h, 'n) order_globals" and x
      using triple_ret_D [OF t _ that(2)] that(1) by (simp add: loaded_def)
    show "leader_task st' \<longrightarrow> ?L st'" if "unbuilt st" "load_scripts cl lib order_script_names st = (Inl e, st')" for st st' :: "('w, 'h, 'n) order_globals" and e
      using preserves_run [OF l that(2)] that(1) by simp
  qed
  show ?thesis
    unfolding order_startup_def
    by (intro early triple_bind [OF names] mid build) (auto intro: frame starting_parts assms preserves_modify)
qed

section \<open>Stopping\<close>

text \<open>
  Cancelling the leadership loop ends it; \<open>leader_election.stop\<close> releases the lock, \<open>recovery_worker.stop\<close> ends the
  reconciliation, \<open>orchestrator.stop\<close> does nothing.
\<close>

definition order_shutdown :: "redis_client \<Rightarrow> ('w, 'h, _) app_library \<Rightarrow> ('w, 'h) nats_client \<Rightarrow> (('w, 'h, 'n) order_globals, unit) py \<Rightarrow>
    (('w, 'h, 'n) order_globals, unit) py" where
  "order_shutdown cl lib ncl http_aclose =
     bindE (modify (\<lambda>st. st\<lparr>failover_task := False\<rparr>)) (\<lambda>_. bindE get_state (\<lambda>st.
     bindE (if http_client st then http_aclose else ret ()) (\<lambda>_.
     bindE (modify (\<lambda>st. st\<lparr>leader_task := False\<rparr>)) (\<lambda>_.
     bindE (on_instance (release cl)) (\<lambda>_. bindE (on_instance stop_reconciliation) (\<lambda>_.
     close_all lib ncl))))))"

section \<open>A stop hands the leadership over\<close>

lemma instance_of_simps [simp]:
  "c_db (instance_of p st) = c_db st" "c_trips (instance_of p st) = c_trips st"
  "instance_id (instance_of (conn.more l) st) = instance_id l" "is_leader (instance_of (conn.more l) st) = is_leader l"
  "heartbeat_task (instance_of (conn.more l) st) = heartbeat_task l" "reconciliation_task (instance_of (conn.more l) st) = reconciliation_task l"
  by (cases st rule: conn.cases_scheme; cases l rule: leader.cases; simp add: instance_of_def conn.defs)+

lemma more_instance: "conn.more (instance_of p st) = p"
  by (simp add: instance_of_def conn.defs)

lemma instance_of_cong:
  "is_leader (instance_of p st) = is_leader (instance_of p st')" "instance_id (instance_of p st) = instance_id (instance_of p st')"
  using instance_of_simps(3,4) [where l = "instance_of p st" and st = st'] by (simp_all add: more_instance)

text \<open>The loop, the heartbeat and the reconciliation have ended, and the instance does not lead.\<close>

definition stepped_down :: "'n leader \<Rightarrow> bool" where
  "stepped_down l \<longleftrightarrow> \<not> is_leader l \<and> \<not> heartbeat_task l \<and> \<not> reconciliation_task l"

text \<open>A release that returns deletes the lock exactly if it names the instance.\<close>

definition without_lock_of :: "string \<Rightarrow> keyspace \<Rightarrow> keyspace" where
  "without_lock_of i d = (if entries d LOCK_KEY = Some (RStr (Text i)) then remove LOCK_KEY d else d)"

context redis_server begin

lemma release_lock: "release_script rc LOCK_KEY i d = (Inr x, d') \<Longrightarrow> d' = without_lock_of i d"
  by (auto simp: release_script_def without_lock_of_def bindE_def ret_def get text_of_def del bulk_def split: option.splits rval.splits if_splits)

end

lemma call_parts:
  "redis_call cl sc (st :: 'n leader) = (Inr x, st') \<Longrightarrow>
     sc (c_db st) = (Inr x, c_db st') \<and> conn.more st' = conn.more st"
  by (cases st rule: leader.cases)
    (auto simp: redis_call_def Let_def after_trip_def split: fate.splits nat.splits sum.splits prod.splits)

lemma release_run:
  assumes "redis_server (cl_rc cl)" "release cl l = (Inr (), l')" "is_leader l"
  shows "\<not> is_leader l' \<and> \<not> heartbeat_task l' \<and> c_db l' = without_lock_of (instance_id l) (c_db l)"
proof -
  let ?sc = "release_script (cl_rc cl) LOCK_KEY (instance_id l)" and ?l = "l\<lparr>heartbeat_task := False\<rparr>"
  obtain x l1 where call: "redis_call cl ?sc ?l = (Inr x, l1)" and l': "l' = l1\<lparr>is_leader := False\<rparr>"
    using assms(2,3) by (auto simp: release_def get_state_def modify_def bindE_def split: sum.splits prod.splits)
  note c = call_parts [OF call]
  have "c_db l' = without_lock_of (instance_id l) (c_db l)"
    using redis_server.release_lock [OF assms(1)] c l' by simp
  moreover have "heartbeat_task l1 = heartbeat_task ?l"
    using c by (cases l rule: leader.cases; cases l1 rule: leader.cases) simp
  ultimately show ?thesis using l' by simp
qed

lemma free_lock:
  assumes "redis_server (cl_rc cl)" "online l" "entries (c_db l) LOCK_KEY = None"
  shows "\<exists>l'. acquire cl l = (Inr True, l') \<and> is_leader l' \<and> entries (c_db l') LOCK_KEY = Some (RStr (Text (instance_id l)))"
proof -
  let ?sc = "cl_rc cl (SET LOCK_KEY (Text (instance_id l)) True (Some LOCK_TTL))"
  have "?sc (c_db l) = (Inr Status, set_ttl LOCK_KEY (Some LOCK_TTL) (put LOCK_KEY (RStr (Text (instance_id l))) (c_db l)))"
    using redis_server.lock_set [OF assms(1), of "c_db l" "instance_id l"] assms(3) by auto
  from redis_call_online [where st = l and sc = ?sc, OF assms(2) this] show ?thesis
    by (simp add: acquire_def get_state_def modify_def bindE_def ret_def)
qed

text \<open>What a stop does besides: it closes connections.\<close>

abbreviation held :: "('w, 'h, 'n) order_globals \<Rightarrow> keyspace \<times> 'n worker_state option \<times> bool \<times> bool" where
  "held st \<equiv> (c_db st, worker st, leader_task st, failover_task st)"

lemma held_broker [frame]: "preserves (held :: ('w, 'h, 'n) order_globals \<Rightarrow> _) (on_broker m)"
  by (simp add: preserves_def on_broker_def split: prod.splits)

lemma held_close:
  assumes "\<And>db. preserves held (pool_aclose lib db)"
  shows "preserves (held :: ('w, 'h, 'n) order_globals \<Rightarrow> _) (close_all lib ncl)"
  unfolding close_all_def close_def unsubscribe_all_def ignoring_def
  by (auto intro!: frame assms preserves_modify split: if_splits option.splits)

lemma stop_instance:
  fixes st :: "('w, 'h, 'n) order_globals"
  assumes "redis_server (cl_rc cl)" "worker st = Some p" "is_leader (instance_of p st)"
    and "bindE (on_instance (release cl)) (\<lambda>_. bindE (on_instance stop_reconciliation) (\<lambda>_. k)) st = (Inr (), st')"
  shows "\<exists>st1 p1. k st1 = (Inr (), st') \<and> worker st1 = Some p1 \<and> (\<forall>st :: ('w, 'h, 'n) order_globals. stepped_down (instance_of p1 st)) \<and> leader_task st1 = leader_task st \<and>
    failover_task st1 = failover_task st \<and> c_db st1 = without_lock_of (instance_id (instance_of p st)) (c_db st)"
proof -
  obtain r l where rel: "release cl (instance_of p st) = (r, l)" by (cases "release cl (instance_of p st)")
  have r: "r = Inr ()" using assms(2,4) rel by (cases r) (simp_all add: bindE_def on_instance_def)
  note l = release_run [OF assms(1) rel [unfolded r] assms(3)]
  let ?st0 = "st\<lparr>c_db := c_db l, c_replica := c_replica l, c_trips := c_trips l, c_clock := c_clock l, worker := Some (conn.more l)\<rparr>"
  let ?l = "(instance_of (conn.more l) ?st0)\<lparr>reconciliation_task := False\<rparr>"
  let ?st1 = "?st0\<lparr>c_db := c_db ?l, c_replica := c_replica ?l, c_trips := c_trips ?l, c_clock := c_clock ?l, worker := Some (conn.more ?l)\<rparr>"
  have "k ?st1 = (Inr (), st')"
    using assms(2,4) rel r by (simp add: bindE_def on_instance_def stop_reconciliation_def modify_def)
  moreover have "\<forall>st :: ('w, 'h, 'n) order_globals. stepped_down (instance_of (conn.more ?l) st)" using l by (simp add: stepped_down_def)
  ultimately show ?thesis
    using l by (intro exI [of _ ?st1] exI [of _ "conn.more ?l"]) simp
qed

text \<open>C40 (functional): A stop of a leading order instance hands the leadership over. If it returns, the instance does not lead any
  more, its loop, heartbeat and reconciliation have ended and its subscriptions and connections are closed. Of the
  database it has deleted the lock, and that only if the lock still named it: the lock of an instance that took over
  in the meantime stands. If the lock was its own, the next instance that asks for the lock gets it at once.\<close>

theorem stop_hands_over:
  fixes st :: "('w, 'h, 'n) order_globals" and other :: "'n leader"
  assumes "redis_server (cl_rc cl)" and "worker st = Some p" and "is_leader (instance_of p st)" and "instance_id (instance_of p st) = i"
    and "preserves held http_aclose" and "\<And>db. preserves held (pool_aclose lib db)" and "\<And>db. preserves tasks (pool_aclose lib db)"
    and "order_shutdown cl lib ncl http_aclose st = (Inr (), st')"
    and "online other" and "c_db other = c_db st'"
  shows "(\<exists>p'. worker st' = Some p' \<and> stepped_down (instance_of p' st')) \<and> \<not> leader_task st' \<and> tasks st' = ([], False, False) \<and>
    c_db st' = without_lock_of i (c_db st) \<and>
    (entries (c_db st) LOCK_KEY = Some (RStr (Text i)) \<longrightarrow>
      (\<exists>other'. acquire cl other = (Inr True, other') \<and> is_leader other' \<and>
         entries (c_db other') LOCK_KEY = Some (RStr (Text (instance_id other)))))"
proof -
  let ?k = "bindE (on_instance (release cl)) (\<lambda>_. bindE (on_instance stop_reconciliation) (\<lambda>_. close_all lib ncl))"
  have "\<exists>st0. held st0 = (c_db st, worker st, False, False) \<and> ?k st0 = (Inr (), st')"
  proof -
    obtain st1 where st1: "(if http_client st then http_aclose else ret ()) (st\<lparr>failover_task := False\<rparr>) = (Inr (), st1)"
      "?k (st1\<lparr>leader_task := False\<rparr>) = (Inr (), st')"
      using assms(8) by (auto simp: order_shutdown_def bindE_def modify_def get_state_def split: sum.splits prod.splits)
    from this(1) have "held st1 = held (st\<lparr>failover_task := False\<rparr>)"
      using preserves_run [OF assms(5)] by (auto simp: ret_def split: if_splits)
    with st1(2) show ?thesis by (intro exI [of _ "st1\<lparr>leader_task := False\<rparr>"]) simp
  qed
  then obtain st0 where st0: "held st0 = (c_db st, worker st, False, False)" "?k st0 = (Inr (), st')" by blast
  have lead: "is_leader (instance_of p st0)" "instance_id (instance_of p st0) = i"
    using assms(3,4) instance_of_cong [of p st0 st] by simp_all
  obtain st1 p1 where st1: "close_all lib ncl st1 = (Inr (), st')" "held st1 = (without_lock_of i (c_db st), Some p1, False, False)"
    "\<forall>st :: ('w, 'h, 'n) order_globals. stepped_down (instance_of p1 st)"
    using stop_instance [OF assms(1) _ lead(1) st0(2)] st0(1) assms(2) lead(2) by auto
  have closed: "held st' = held st1" using preserves_run [OF held_close [OF assms(6)] st1(1)] .
  have "tasks st' = ([], False, False)"
    using triple_ret_D [OF close_all_ends [OF assms(7)] _ st1(1)] st1(2) by simp
  moreover have "\<exists>other'. acquire cl other = (Inr True, other') \<and> is_leader other' \<and>
      entries (c_db other') LOCK_KEY = Some (RStr (Text (instance_id other)))"
    if "entries (c_db st) LOCK_KEY = Some (RStr (Text i))"
  proof -
    have "entries (c_db other) LOCK_KEY = None" using that assms(10) closed st1(2) by (simp add: without_lock_of_def)
    then show ?thesis using free_lock [OF assms(1,9)] by simp
  qed
  ultimately show ?thesis using st1 closed by auto
qed

text \<open>Instance a leads and stops; instance b asks next.\<close>

definition lock_of_a :: keyspace where
  "lock_of_a = set_ttl LOCK_KEY (Some LOCK_TTL) (put LOCK_KEY (RStr (Text ''a'')) empty_keyspace)"

definition leading_a :: "(unit, nat, unit) order_globals" where
  "leading_a = \<lparr>c_db = lock_of_a, c_replica = None, c_trips = [], c_clock = 0, nc = True, nats_subs = [], sub_params = [], broker = (),
     app_db = None, app_db_read = None, scripts = [], failover_task = False, order_orch = None,
     worker = Some (conn.more ((candidate ''a'')\<lparr>is_leader := True, heartbeat_task := True, reconciliation_task := True\<rparr>)),
     http_client = True, leader_task = True\<rparr>"

lemma leading_a_stops: "\<exists>st'. order_shutdown mem_client files hub (ret ()) leading_a = (Inr (), st')"
  by (simp add: order_shutdown_def leading_a_def bindE_def modify_def get_state_def ret_def on_instance_def release_def
      redis_call_def next_trip_def after_trip_def release_script_def Let_def mem_client_def lock_of_a_def empty_keyspace_def
      instance_of_def conn.defs candidate_def stop_reconciliation_def close_all_def close_def unsubscribe_all_def on_broker_def hub_def
      text_of_def bulk_def LOCK_TTL_def)

theorem stop_hands_over_witness:
  "\<exists>st' other'. order_shutdown mem_client files hub (ret ()) leading_a = (Inr (), st') \<and> \<not> leader_task st' \<and>
     acquire mem_client ((candidate ''b'')\<lparr>c_db := c_db st'\<rparr>) = (Inr True, other') \<and>
     entries (c_db other') LOCK_KEY = Some (RStr (Text ''b''))"
proof -
  obtain st' where run: "order_shutdown mem_client files hub (ret ()) leading_a = (Inr (), st')" using leading_a_stops by blast
  have rs: "redis_server (cl_rc mem_client)" by (simp add: mem_client_def mem_redis)
  let ?a = "(candidate ''a'')\<lparr>is_leader := True, heartbeat_task := True, reconciliation_task := True\<rparr>" and ?b = "(candidate ''b'')\<lparr>c_db := c_db st'\<rparr>"
  have w: "worker leading_a = Some (conn.more ?a)" "entries (c_db leading_a) LOCK_KEY = Some (RStr (Text ''a''))"
    by (simp_all add: leading_a_def lock_of_a_def)
  have lead: "is_leader (instance_of (conn.more ?a) leading_a)" "instance_id (instance_of (conn.more ?a) leading_a) = ''a''"
    unfolding instance_of_simps by (simp_all add: candidate_def)
  have b: "online ?b" "c_db ?b = c_db st'" by (simp_all add: candidate_def online_def)
  have "preserves held (ret ())" "preserves held (pool_aclose files db)" "preserves (tasks :: (unit, nat, unit) order_globals \<Rightarrow> _) (pool_aclose files db)" for db
    by (simp_all add: files_def frame)
  then show ?thesis
    using stop_hands_over [OF rs w(1) lead _ _ _ run b] w(2) run by (auto simp: candidate_def)
qed

end
