(* ===== verification/Spec2Isabelle.thy ===== *)
theory Spec2Isabelle
  imports FailedSaga CommandReplies Transport WalAtomic Resumption OrderLifespan
begin

text \<open>
  A verification development of a distributed checkout system: an order service with an embedded
  transaction orchestrator, a stock service and a payment service. Each service keeps its state in a Redis
  server; the orchestrator talks to the other two over NATS.

  The program and the theories that model it (paths under \<open>src/\<close>):

  \<^item> \<open>Prelude\<close>, \<open>Python\<close>, \<open>Redis\<close>, \<open>Client\<close>: the ground. Computations pass a state and return a value or an
    error (\<open>eff\<close>, \<open>py\<close>); JSON values, \<open>str\<close>, \<open>int\<close> and dictionaries are those of Python. The Redis server is a
    parameter \<open>rc\<close> with the laws of the locale \<open>redis_server\<close> (the documented replies and effects of the
    commands), interpreted on the in-memory server \<open>mem_rc\<close>. A process state extends \<open>conn\<close>: the database,
    the clock, and the fate of each coming round trip (answered, or broken before, during or after the
    commands), so that a statement for all states covers all failures of the connection.
  \<^item> \<open>StockScripts\<close>, \<open>PaymentScripts\<close> (\<open>lua/stock_*.lua\<close>, \<open>lua/payment_*.lua\<close>): the Lua scripts statement by
    statement; \<open>StockLaws\<close>, \<open>PaymentLaws\<close> say what each does to the available amount, the status and the
    recorded amounts of a saga. Counters are Redis integers: \<open>HINCRBY\<close> refuses to leave 64 bits.
  \<^item> \<open>Participant\<close>: the contract of a service towards the orchestrator as a locale (four phases per saga,
    reserve, confirm, undo, and the balance of available and held amounts); \<open>Deliveries\<close> extends it to a
    message handler. \<open>StockLedger\<close> and \<open>PaymentLedger\<close> show that the two services satisfy it, for sagas of both
    protocols in any interleaving.
  \<^item> \<open>Faults\<close> (\<open>common/fault_injection.py\<close>), \<open>Metrics\<close> (\<open>orchestrator/metrics.py\<close>), \<open>Service\<close>, \<open>StockService\<close>
    (\<open>stock/app.py\<close>), \<open>PaymentService\<close> (\<open>payment/app.py\<close>): the handlers with the reading of a message, metrics and injected
    faults, and every HTTP endpoint. \<open>StockProperties\<close> and \<open>PaymentProperties\<close> state what holds for any sequence of
    messages: conservation, bounds, decisions that stand, the reply on every branch.
  \<^item> \<open>Breaker\<close>, \<open>Executor\<close> (\<open>orchestrator/executor.py\<close>, \<open>definition.py\<close>): circuit breakers, the two-phase-commit
    and the saga executor over an arbitrary transport. \<open>Wal\<close>, \<open>WalLaws\<close>, \<open>WalAtomic\<close>, \<open>WalTriples\<close>
    (\<open>orchestrator/wal.py\<close>, \<open>common/dlq.py\<close>): the log, and that every call of it refines one step on a book that holds
    for each saga the last step, while it is unfinished, and the data noted for it. \<open>Recovery\<close> (\<open>orchestrator/recovery.py\<close>): recovery and the orphan handler.
  \<^item> \<open>Process\<close>, \<open>Triples\<close>, \<open>Network\<close>, \<open>Frames\<close>: the state of an order process, Hoare triples for
    computations, a transport that records every message with the log entry of its saga at that moment
    while an arbitrary environment answers, and frame rules. On these rest \<open>TwoPhase\<close>, \<open>SagaRun\<close> (which
    messages an executor sends under which log entry, for every environment), \<open>CrashRecovery\<close> (a run cut
    short anywhere, followed by recoveries cut short anywhere) and \<open>Resumption\<close> (what a recovery does with a saga, on
    every branch).
  \<^item> \<open>Core\<close> (\<open>orchestrator/core.py\<close>): choice of the protocol, run, metrics, publication of the result.
    \<open>OrderScripts\<close>, \<open>OrderService\<close>, \<open>OrderProperties\<close>, \<open>Checkout\<close> (\<open>order/app.py\<close>, \<open>common/result.py\<close>,
    \<open>lua/order_*.lua\<close>): the order service, its claims, and the checkout from the HTTP request to the answer.
  \<^item> \<open>Leader\<close> (\<open>orchestrator/leader.py\<close>): the lock of one instance, and a step relation of all instances on one
    database: time passes, a call for the lock is carried out by the server, its reply arrives later or is lost, a task is
    cancelled, an instance dies. Each instance counts as leading while \<open>is_leader\<close> is set, its heartbeat runs and the
    call that confirmed the lock last was carried out less than the lock's life ago; \<open>Leadership\<close>: the loop of \<open>order/app.py\<close> that recovers and maintains.
  \<^item> \<open>Transport\<close>, \<open>Startup\<close> (\<open>common/nats_transport.py\<close>), \<open>Config\<close> (\<open>common/config.py\<close>): requests, their
    identity and retries, waiting for Redis and NATS, subscriptions, connection targets and failover tasks.
    \<open>Lifespan\<close>: the start and the stop of the stock and the payment service, and that no message is heard before
    the scripts are loaded. \<open>OrderLifespan\<close>: those of the order service, which builds the orchestrator, starts the
    leadership loop, and gives the leadership up when it stops.

  \<^item> \<open>Traces\<close>, \<open>EndToEnd\<close>: the whole system. Every message of a run is made by a payload builder and answered by the
    environment (\<open>Traces\<close>); \<open>wire\<close> is the message as the service reads it. A service is \<open>served\<close> when what reaches it
    are these messages, each any number of times and in any order, and traffic of other sagas, and when every
    answer the orchestrator saw, other than a failure, is one the service gave; answers may be lost or turned into
    failures. \<open>Footprint\<close>: which keys of the order database a checkout can change. \<open>PerfectNetwork\<close>,
    \<open>CheckoutOnTime\<close>: the network that delivers each message once, in order and in time, to services whose
    databases answer and that have not heard of the saga; there the outcome of a checkout is determined.
    \<open>FailedSaga\<close>: what a failed saga leaves at the stock service. \<open>CommandReplies\<close>: the type of the replies.

  What is shown, in short. On a network that delivers, a checkout does what the shop wants, the same under either
  protocol (\<open>checkout_on_time\<close>); on any network a success has taken exactly the order's items and total
  (\<open>checkout_charges_exactly\<close>), and the services agree on a two-phase commit after any crash
  (\<open>services_agree\<close>). A checkout sends nothing or a legal history of one transaction, and a success
  means that everybody prepared and was told to commit, or executed (\<open>checkout_history\<close>). After any crash
  and recovery a saga is decided one way (\<open>crash_recovery_atomic\<close>). The services neither create nor lose
  stock or credit, whatever is delivered, repeated, reordered or lost (\<open>stock_conservation\<close>,
  \<open>payment_conservation\<close>). The rest are the functional, error, round-trip and termination facts of the parts.

  Bounds and fuel. The scan of the log follows \<open>SSCAN\<close> cursors, with fuel for the pages; the law
  \<open>sscan_full\<close> gives enough fuel for a full scan, and where the fuel ends the result is \<open>None\<close>. Retry loops
  count the attempts left, at most the source's own bounds. Loops that serve forever (leadership,
  reconciliation, the failover tasks) are given as turns, and a loop over a list of turns.

  Simplifications. Durations and clocks are rational numbers, not floats. Lua numbers are integers, exact
  below 10 to the 14th, the range in which Lua prints them without exponent. The children of
  \<open>asyncio.gather\<close> run one after the other; between processes, what interleaves is the sequence of script
  calls and messages, which is arbitrary. The result of a saga is published at the end of \<open>execute\<close>, where
  the code starts a background task. The text of a JSON value in an HTTP error (\<open>app_str\<close>) is a parameter.
  The conversion \<open>int\<close> does not strip white space. A serialised JSON value is kept as the value (\<open>Json v\<close>), so that
  \<open>json.loads\<close> after \<open>json.dumps\<close> is the identity; of other texts \<open>json.loads\<close> reads integers only, and any other text is
  an error. The text of a float is opaque: where a float would go into a key or a message as text, the conversion raises.
  A saga id that is no text goes to a script as its text, where the client library refuses \<open>None\<close>, Booleans and lists.

  Time. A delivery to a service (\<open>deliver\<close>) takes no time of its database: the expiry of the status and amount keys, 86400
  seconds after their last change, and of the lock keys does not happen between deliveries, so that the ledgers speak of
  messages within a day of each other. In \<open>Leadership\<close> the loop's own sleeping does not let the lock expire, and the
  heartbeat runs only through the given seconds of each turn; expiry and interleaving are the subject of \<open>Leader\<close>.

  Not modelled: tracing and logging; \<open>dlq_status\<close>, which only reads the dead letter stream; the semaphore around outgoing HTTP requests; the
  libraries (\<open>redis\<close>, \<open>nats\<close>, \<open>httpx\<close>, \<open>starlette\<close>), whose calls are parameters; \<open>common/db.py\<close> and the Lua
  libraries \<open>lua/*_lib.lua\<close>, which no service loads; \<open>docs/benchmark_chart.py\<close>, a plot.
\<close>

end
